(* ===== verification/Rog5_Prelude.thy ===== *)
theory Rog5_Prelude
  imports Main "HOL-Library.Sublist"
begin

section \<open>Prelude: results, state with exceptions, text and bytes\<close>

text \<open>
  What every component shares: the exceptions the scripts raise, pure results, state-passing
  computations that may raise, and the Python text and byte operations the scripts call.
  A Python \<open>bytes\<close> value and a Python \<open>str\<close> whose code points are below 256 are both a
  \<^typ>\<open>string\<close>. An exception carries the text of its message.
\<close>

named_theorems run_simps "one-step equations of state-passing computations"
named_theorems text_simps "evaluation of character classes and text operations"

subsection \<open>Exceptions and results\<close>

datatype exn =
    ServerRefusal string
  | BundleError string
  | BackupError string
  | InventoryError string
  | ContractError string
  | ValueError string
  | KeyError string
  | TypeError
  | AttributeError
  | AssertionError
  | UnicodeError
  | StructError
  | OSError
  | FileNotFoundError
  | FileExistsError
  | SubprocessError
  | KeyboardInterrupt
  | Killed
  | IndexError

type_synonym 'a result = "exn + 'a"

type_synonym bytes = string

definition bind_result :: "'a result \<Rightarrow> ('a \<Rightarrow> 'b result) \<Rightarrow> 'b result" where
  "bind_result m f = (case m of Inl e \<Rightarrow> Inl e | Inr x \<Rightarrow> f x)"

definition need :: "bool \<Rightarrow> exn \<Rightarrow> unit result" where
  "need ok e = (if ok then Inr () else Inl e)"

definition option_result :: "exn \<Rightarrow> 'a option \<Rightarrow> 'a result" where
  "option_result e x = (case x of None \<Rightarrow> Inl e | Some y \<Rightarrow> Inr y)"

lemma bind_result_Inl [simp]: "bind_result (Inl e) f = Inl e"
  by (simp add: bind_result_def)

lemma bind_result_Inr [simp]: "bind_result (Inr x) f = f x"
  by (simp add: bind_result_def)

lemma bind_result_eq_Inr: "bind_result m f = Inr y \<longleftrightarrow> (\<exists>x. m = Inr x \<and> f x = Inr y)"
  by (cases m) simp_all

lemma bind_result_eq_Inl:
  "bind_result m f = Inl e \<longleftrightarrow> m = Inl e \<or> (\<exists>x. m = Inr x \<and> f x = Inl e)"
  by (cases m) auto

lemma bind_result_assoc: "bind_result (bind_result m f) g = bind_result m (\<lambda>x. bind_result (f x) g)"
  by (cases m) simp_all

lemma need_eq_Inr [simp]: "need ok e = Inr u \<longleftrightarrow> ok"
  by (simp add: need_def)

lemma need_eq_Inl [simp]: "need ok e = Inl e' \<longleftrightarrow> \<not> ok \<and> e = e'"
  by (auto simp: need_def)

lemma need_True [simp]: "need True e = Inr ()"
  by (simp add: need_def)

lemma need_False [simp]: "need False e = Inl e"
  by (simp add: need_def)

lemma option_result_eq_Inr [simp]: "option_result e x = Inr y \<longleftrightarrow> x = Some y"
  by (cases x) (simp_all add: option_result_def)

lemma option_result_simps [simp]: "option_result e None = Inl e" "option_result e (Some y) = Inr y"
  by (simp_all add: option_result_def)

text \<open>A loop over a list that stops at the first exception, as a Python \<open>for\<close> does.\<close>

fun fold_result :: "('a \<Rightarrow> 'b \<Rightarrow> 'b result) \<Rightarrow> 'a list \<Rightarrow> 'b \<Rightarrow> 'b result" where
  "fold_result f [] s = Inr s"
| "fold_result f (x # xs) s = bind_result (f x s) (fold_result f xs)"

lemma fold_result_cong:
  "(\<And>x a. x \<in> set xs \<Longrightarrow> f x a = g x a) \<Longrightarrow> fold_result f xs a = fold_result g xs a"
  by (induction xs arbitrary: a) (auto simp: bind_result_def split: sum.splits)

lemma fold_result_append:
  "fold_result f (xs @ ys) s = bind_result (fold_result f xs s) (fold_result f ys)"
  by (induction xs arbitrary: s) (simp_all add: bind_result_def split: sum.splits)

text \<open>The loop rule: an invariant of the elements done so far, kept by the body.\<close>

lemma fold_result_invariant:
  assumes "fold_result f xs s = Inr t" and "I [] s"
    and "\<And>done x s s'. I done s \<Longrightarrow> x \<in> set xs \<Longrightarrow> f x s = Inr s' \<Longrightarrow> I (done @ [x]) s'"
  shows "I xs t"
proof -
  have "fold_result f ys s = Inr t \<Longrightarrow> I zs s \<Longrightarrow> set ys \<subseteq> set xs \<Longrightarrow> I (zs @ ys) t" for ys zs s
  proof (induction ys arbitrary: zs s)
    case Nil
    then show ?case by simp
  next
    case (Cons y ys)
    from Cons.prems(1) obtain s' where s': "f y s = Inr s'" "fold_result f ys s' = Inr t"
      by (auto simp: bind_result_eq_Inr)
    from assms(3) [OF Cons.prems(2) _ s'(1)] Cons.prems(3) have "I (zs @ [y]) s'" by simp
    from Cons.IH [OF s'(2) this] Cons.prems(3) show ?case by simp
  qed
  from this [of xs s "[]"] assms(1,2) show ?thesis by simp
qed

text \<open>A loop that checks every element and adds up a weight of each.\<close>

lemma fold_result_count:
  fixes w :: "'a \<Rightarrow> nat"
  assumes "\<And>x n m. x \<in> set xs \<Longrightarrow> f x n = Inr m \<longleftrightarrow> ok x \<and> m = n + w x"
  shows "fold_result f xs n = Inr m \<longleftrightarrow> (\<forall>x\<in>set xs. ok x) \<and> m = n + sum_list (map w xs)"
  using assms by (induction xs arbitrary: n) (auto simp: bind_result_eq_Inr add.assoc)

text \<open>A loop that only checks.\<close>

lemma fold_result_check:
  "fold_result (\<lambda>x u. need (ok x) (err x)) xs () = Inr () \<longleftrightarrow> (\<forall>x\<in>set xs. ok x)"
  by (induction xs) (auto simp: bind_result_eq_Inr)

text \<open>A loop that checks every element and refuses a key it has seen.\<close>

lemma fold_result_fresh:
  assumes "\<And>x acc r. x \<in> set xs \<Longrightarrow> f x acc = Inr r \<longleftrightarrow> ok x \<and> key x \<notin> set acc \<and> r = key x # acc"
  shows "fold_result f xs acc = Inr r \<longleftrightarrow>
     (\<forall>x\<in>set xs. ok x) \<and> distinct (map key xs) \<and> key ` set xs \<inter> set acc = {}
     \<and> r = rev (map key xs) @ acc"
  using assms by (induction xs arbitrary: acc) (auto simp: bind_result_eq_Inr)

fun map_result :: "('a \<Rightarrow> 'b result) \<Rightarrow> 'a list \<Rightarrow> 'b list result" where
  "map_result f [] = Inr []"
| "map_result f (x # xs) =
     bind_result (f x) (\<lambda>y. bind_result (map_result f xs) (\<lambda>ys. Inr (y # ys)))"

lemma map_result_eq_Inr:
  "map_result f xs = Inr ys \<longleftrightarrow> list_all2 (\<lambda>x y. f x = Inr y) xs ys"
  by (induction xs arbitrary: ys) (auto simp: bind_result_eq_Inr list_all2_Cons1)

lemma map_result_total: "(\<And>x. x \<in> set xs \<Longrightarrow> \<exists>y. f x = Inr y) \<Longrightarrow> \<exists>ys. map_result f xs = Inr ys"
proof (induction xs)
  case (Cons x xs)
  then obtain y ys where "f x = Inr y" "map_result f xs = Inr ys" by fastforce
  then show ?case by simp
qed simp

subsection \<open>State-passing computations that may raise\<close>

text \<open>
  A computation over the state \<open>'s\<close> returns a value or an exception, and the new state in
  both cases: what was done before a raise stays done.
\<close>

type_synonym ('s, 'a) io = "'s \<Rightarrow> 'a result \<times> 's"

definition ret :: "'a \<Rightarrow> ('s, 'a) io" where
  "ret x s = (Inr x, s)"

definition raise :: "exn \<Rightarrow> ('s, 'a) io" where
  "raise e s = (Inl e, s)"

definition bind_io :: "('s, 'a) io \<Rightarrow> ('a \<Rightarrow> ('s, 'b) io) \<Rightarrow> ('s, 'b) io" where
  "bind_io m f s = (case m s of (Inl e, t) \<Rightarrow> (Inl e, t) | (Inr x, t) \<Rightarrow> f x t)"

definition when_raise :: "bool \<Rightarrow> exn \<Rightarrow> ('s, unit) io" where
  "when_raise bad e s = (if bad then Inl e else Inr (), s)"

definition lift_result :: "'a result \<Rightarrow> ('s, 'a) io" where
  "lift_result r s = (r, s)"

definition gets :: "('s \<Rightarrow> 'a) \<Rightarrow> ('s, 'a) io" where
  "gets f s = (Inr (f s), s)"

definition modify :: "('s \<Rightarrow> 's) \<Rightarrow> ('s, unit) io" where
  "modify f s = (Inr (), f s)"

text \<open>
  \<open>try_finally\<close> runs the clean-up on both outcomes; an exception of the clean-up replaces the
  outcome. \<open>try_except\<close> hands an exception to the handler.
\<close>

definition try_finally :: "('s, 'a) io \<Rightarrow> ('s, unit) io \<Rightarrow> ('s, 'a) io" where
  "try_finally m f s =
     (case m s of (r, t) \<Rightarrow> (case f t of (Inl e, u) \<Rightarrow> (Inl e, u) | (Inr _, u) \<Rightarrow> (r, u)))"

definition try_except :: "('s, 'a) io \<Rightarrow> (exn \<Rightarrow> ('s, 'a) io) \<Rightarrow> ('s, 'a) io" where
  "try_except m h s = (case m s of (Inl e, t) \<Rightarrow> h e t | (Inr x, t) \<Rightarrow> (Inr x, t))"

fun for_each :: "('a \<Rightarrow> ('s, unit) io) \<Rightarrow> 'a list \<Rightarrow> ('s, unit) io" where
  "for_each f [] = ret ()"
| "for_each f (x # xs) = bind_io (f x) (\<lambda>_. for_each f xs)"

lemma ret_run [run_simps]: "ret x s = (Inr x, s)"
  by (simp add: ret_def)

lemma raise_run [run_simps]: "raise e s = (Inl e, s)"
  by (simp add: raise_def)

lemma when_raise_run [run_simps]: "when_raise b e s = (if b then (Inl e, s) else (Inr (), s))"
  by (simp add: when_raise_def)

lemma gets_run [run_simps]: "gets f s = (Inr (f s), s)"
  by (simp add: gets_def)

lemma modify_run [run_simps]: "modify f s = (Inr (), f s)"
  by (simp add: modify_def)

lemma lift_result_run [run_simps]: "lift_result r s = (r, s)"
  by (simp add: lift_result_def)

lemma bind_io_eq_Inr:
  "bind_io m f s = (Inr y, u) \<longleftrightarrow> (\<exists>x t. m s = (Inr x, t) \<and> f x t = (Inr y, u))"
  by (auto simp: bind_io_def split: prod.splits sum.splits)

lemma bind_io_Inr [simp]: "m s = (Inr x, t) \<Longrightarrow> bind_io m f s = f x t"
  by (simp add: bind_io_def)

lemma bind_io_Inl [simp]: "m s = (Inl e, t) \<Longrightarrow> bind_io m f s = (Inl e, t)"
  by (simp add: bind_io_def)

lemma bind_io_eq_Inl:
  "bind_io m f s = (Inl e, u) \<longleftrightarrow>
     m s = (Inl e, u) \<or> (\<exists>x t. m s = (Inr x, t) \<and> f x t = (Inl e, u))"
  by (auto simp: bind_io_def split: prod.splits sum.splits)

lemma bind_io_assoc: "bind_io (bind_io m f) g = bind_io m (\<lambda>x. bind_io (f x) g)"
  by (rule ext) (auto simp: bind_io_def split: prod.splits sum.splits)

lemma bind_io_ret_left: "bind_io (ret x) f = f x"
  by (rule ext) (simp add: bind_io_def ret_def)

text \<open>An invariant of the state that a computation keeps whatever its outcome.\<close>

definition keeps :: "('s \<Rightarrow> bool) \<Rightarrow> ('s, 'a) io \<Rightarrow> bool" where
  "keeps I m \<longleftrightarrow> (\<forall>s. I s \<longrightarrow> I (snd (m s)))"

named_theorems keeps_intros "computations that keep a state invariant"

lemma keepsD: "keeps I m \<Longrightarrow> I s \<Longrightarrow> m s = (r, t) \<Longrightarrow> I t"
  by (auto simp: keeps_def)

lemma keepsI: "(\<And>s r t. I s \<Longrightarrow> m s = (r, t) \<Longrightarrow> I t) \<Longrightarrow> keeps I m"
  by (auto simp: keeps_def) (metis prod.collapse)

lemma keeps_ret [keeps_intros]: "keeps I (ret x)"
  by (simp add: keeps_def ret_def)

lemma keeps_raise [keeps_intros]: "keeps I (raise e)"
  by (simp add: keeps_def raise_def)

lemma keeps_when_raise [keeps_intros]: "keeps I (when_raise b e)"
  by (simp add: keeps_def when_raise_def)

lemma keeps_gets [keeps_intros]: "keeps I (gets f)"
  by (simp add: keeps_def gets_def)

lemma keeps_lift_result [keeps_intros]: "keeps I (lift_result r)"
  by (simp add: keeps_def lift_result_def)

lemma keeps_bind [keeps_intros]: "keeps I m \<Longrightarrow> (\<And>x. keeps I (f x)) \<Longrightarrow> keeps I (bind_io m f)"
  by (auto simp: keeps_def bind_io_def split: prod.splits sum.splits)

lemma keeps_if [keeps_intros]: "keeps I m \<Longrightarrow> keeps I n \<Longrightarrow> keeps I (if b then m else n)"
  by simp

lemma keeps_for_each [keeps_intros]: "(\<And>x. keeps I (f x)) \<Longrightarrow> keeps I (for_each f xs)"
  by (induction xs) (auto intro: keeps_intros)

lemma keeps_try_finally [keeps_intros]: "keeps I m \<Longrightarrow> keeps I f \<Longrightarrow> keeps I (try_finally m f)"
  by (auto simp: keeps_def try_finally_def split: prod.splits sum.splits)

lemma keeps_try_except [keeps_intros]:
  "keeps I m \<Longrightarrow> (\<And>e. keeps I (h e)) \<Longrightarrow> keeps I (try_except m h)"
  by (auto simp: keeps_def try_except_def split: prod.splits sum.splits)

text \<open>Association lists without a key.\<close>

lemma map_of_filter_key: "map_of (filter (\<lambda>(n, _). n \<noteq> name) xs) m = (if m = name then None else map_of xs m)"
  by (induction xs) auto

end
