(* ===== verification/Py_Text.thy ===== *)
theory Py_Text
  imports Rog5_Prelude
begin

section \<open>Text and byte operations of Python\<close>

text \<open>
  The \<open>str\<close> and \<open>bytes\<close> methods the scripts call, on \<^typ>\<open>string\<close>: character classes of the
  regular expressions, \<open>partition\<close>, \<open>split\<close>, \<open>splitlines\<close>, \<open>join\<close>, \<open>in\<close>, decimal
  \<open>str(int)\<close> and \<open>int(str)\<close>, \<open>hexdigest\<close> text, and big- and little-endian integers of
  \<open>struct\<close>. The lemmas are the round trips and the length bounds the codecs need.
\<close>

abbreviation code :: "char \<Rightarrow> nat" where
  "code c \<equiv> of_char c"

subsection \<open>Character classes\<close>

definition is_digit :: "char \<Rightarrow> bool" where
  "is_digit c \<longleftrightarrow> 48 \<le> code c \<and> code c \<le> 57"

definition is_lower :: "char \<Rightarrow> bool" where
  "is_lower c \<longleftrightarrow> 97 \<le> code c \<and> code c \<le> 122"

definition is_upper :: "char \<Rightarrow> bool" where
  "is_upper c \<longleftrightarrow> 65 \<le> code c \<and> code c \<le> 90"

definition is_hex :: "char \<Rightarrow> bool" where
  "is_hex c \<longleftrightarrow> is_digit c \<or> 97 \<le> code c \<and> code c \<le> 102"

definition is_ascii :: "char \<Rightarrow> bool" where
  "is_ascii c \<longleftrightarrow> code c < 128"

lemmas char_class_defs = is_digit_def is_lower_def is_upper_def is_hex_def is_ascii_def

declare char_class_defs [text_simps]

lemma code_less_256 [simp]: "code c < 256"
proof -
  have "code c \<in> range (of_char :: char \<Rightarrow> nat)" by simp
  then show ?thesis by (simp only: range_nat_of_char) simp
qed

lemma code_char_of: "n < 256 \<Longrightarrow> code (char_of n) = n"
  by (simp add: of_char_of take_bit_eq_mod)

text \<open>A printable value: no separator, no space, no control character.\<close>

definition is_graphic :: "char \<Rightarrow> bool" where
  "is_graphic c \<longleftrightarrow> 33 \<le> code c \<and> code c \<le> 126"

declare is_graphic_def [text_simps]

lemma graphic_classes:
  "is_digit c \<Longrightarrow> is_graphic c" "is_lower c \<Longrightarrow> is_graphic c" "is_upper c \<Longrightarrow> is_graphic c"
  "is_hex c \<Longrightarrow> is_graphic c"
  by (auto simp: char_class_defs is_graphic_def)

subsection \<open>Substrings and separators\<close>

fun contains :: "string \<Rightarrow> string \<Rightarrow> bool" where
  "contains p [] \<longleftrightarrow> p = []"
| "contains p (c # s) \<longleftrightarrow> prefix p (c # s) \<or> contains p s"

lemma contains_sublist: "contains p s \<longleftrightarrow> sublist p s"
  by (induction s) (auto simp: sublist_Cons_right)

text \<open>\<open>s.partition(c)\<close> for a one-character separator.\<close>

definition partition_at :: "char \<Rightarrow> string \<Rightarrow> string \<times> string \<times> string" where
  "partition_at c s =
     (takeWhile (\<lambda>d. d \<noteq> c) s,
      if c \<in> set s then [c] else [],
      drop 1 (dropWhile (\<lambda>d. d \<noteq> c) s))"

lemma partition_at_append:
  assumes "c \<notin> set a"
  shows "partition_at c (a @ c # b) = (a, [c], b)"
proof -
  have "\<forall>d\<in>set a. d \<noteq> c" using assms by auto
  then show ?thesis
    by (simp add: partition_at_def takeWhile_append2 dropWhile_append2)
qed

lemma partition_at_found:
  assumes "partition_at c s = (a, [c], b)"
  shows "s = a @ c # b" and "c \<notin> set a"
proof -
  from assms have c: "c \<in> set s" and a: "a = takeWhile (\<lambda>d. d \<noteq> c) s"
    and b: "b = drop 1 (dropWhile (\<lambda>d. d \<noteq> c) s)"
    by (auto simp: partition_at_def split: if_splits)
  from c have ne: "dropWhile (\<lambda>d. d \<noteq> c) s \<noteq> []" by (auto simp: dropWhile_eq_Nil_conv)
  then have "dropWhile (\<lambda>d. d \<noteq> c) s = c # b"
    using b hd_dropWhile [of "\<lambda>d. d \<noteq> c" s] by (cases "dropWhile (\<lambda>d. d \<noteq> c) s") auto
  with a show "s = a @ c # b" by (metis takeWhile_dropWhile_id)
  from a show "c \<notin> set a" by (auto dest: set_takeWhileD)
qed

text \<open>\<open>s.split(c)\<close> and \<open>c.join(parts)\<close>.\<close>

fun split_on :: "char \<Rightarrow> string \<Rightarrow> string list" where
  "split_on c [] = [[]]"
| "split_on c (d # s) =
     (if d = c then [] # split_on c s
      else (case split_on c s of [] \<Rightarrow> [[d]] | w # ws \<Rightarrow> (d # w) # ws))"

fun join :: "string \<Rightarrow> string list \<Rightarrow> string" where
  "join sep [] = []"
| "join sep [w] = w"
| "join sep (w # v # ws) = w @ sep @ join sep (v # ws)"

lemma split_on_nonempty: "split_on c s \<noteq> []"
  by (induction s) (auto split: list.splits)

lemma split_on_word: "c \<notin> set w \<Longrightarrow> split_on c w = [w]"
  by (induction w) auto

lemma split_on_append: "c \<notin> set w \<Longrightarrow> split_on c (w @ c # s) = w # split_on c s"
  by (induction w) auto

lemma split_on_join:
  "ws \<noteq> [] \<Longrightarrow> (\<And>w. w \<in> set ws \<Longrightarrow> c \<notin> set w) \<Longrightarrow> split_on c (join [c] ws) = ws"
  by (induction "[c]" ws rule: join.induct) (auto simp: split_on_word split_on_append)

lemma split_on_words: "w \<in> set (split_on c s) \<Longrightarrow> c \<notin> set w \<and> set w \<subseteq> set s"
  by (induction s arbitrary: w) (fastforce split: if_splits list.splits)+

lemma join_split_on: "join [c] (split_on c s) = s"
proof (induction s)
  case Nil
  then show ?case by simp
next
  case (Cons d s)
  obtain w ws where w: "split_on c s = w # ws"
    using split_on_nonempty [of c s] by (cases "split_on c s") auto
  show ?case
  proof (cases "d = c")
    case True
    with Cons w show ?thesis by simp
  next
    case False
    with Cons w show ?thesis by (cases ws) auto
  qed
qed

subsection \<open>Lines\<close>

text \<open>
  \<open>str.splitlines()\<close> on text whose code points are below 128 splits at line feed, carriage
  return (with a following line feed), vertical tab, form feed and the separators 28, 29, 30.
\<close>

definition is_break :: "char \<Rightarrow> bool" where
  "is_break c \<longleftrightarrow> code c \<in> {10, 11, 12, 13, 28, 29, 30}"

declare is_break_def [text_simps]

fun splitlines_from :: "string \<Rightarrow> string \<Rightarrow> string list" where
  "splitlines_from acc [] = (if acc = [] then [] else [rev acc])"
| "splitlines_from acc [c] = [if is_break c then rev acc else rev (c # acc)]"
| "splitlines_from acc (c # d # s) =
     (if code c = 13 \<and> code d = 10 then rev acc # splitlines_from [] s
      else if is_break c then rev acc # splitlines_from [] (d # s)
      else splitlines_from (c # acc) (d # s))"

definition splitlines :: "string \<Rightarrow> string list" where
  "splitlines s = splitlines_from [] s"

abbreviation LF :: char where
  "LF \<equiv> CHR 0x0A"

lemma splitlines_from_LF: "splitlines_from acc (LF # s) = rev acc # splitlines_from [] s"
  by (cases s) (simp_all add: is_break_def)

lemma splitlines_from_char:
  "\<not> is_break c \<Longrightarrow> splitlines_from acc (c # s) = splitlines_from (c # acc) s"
  by (cases s) (auto simp: is_break_def)

lemma splitlines_from_line:
  "(\<And>c. c \<in> set w \<Longrightarrow> \<not> is_break c) \<Longrightarrow>
     splitlines_from acc (w @ LF # s) = (rev acc @ w) # splitlines_from [] s"
  by (induction w arbitrary: acc) (simp_all add: splitlines_from_LF splitlines_from_char)

lemma splitlines_unlines:
  "(\<And>w c. w \<in> set ws \<Longrightarrow> c \<in> set w \<Longrightarrow> \<not> is_break c) \<Longrightarrow>
     splitlines (concat (map (\<lambda>w. w @ [LF]) ws)) = ws"
proof (induction ws)
  case Nil
  then show ?case by (simp add: splitlines_def)
next
  case (Cons w ws)
  from Cons.prems have "c \<in> set w \<Longrightarrow> \<not> is_break c" for c by auto
  moreover from Cons have "splitlines_from [] (concat (map (\<lambda>w. w @ [LF]) ws)) = ws"
    by (auto simp: splitlines_def)
  ultimately show ?case by (simp add: splitlines_def splitlines_from_line)
qed

lemma unlines_splitlines_from:
  "(\<And>c. c \<in> set s \<Longrightarrow> is_break c \<Longrightarrow> c = LF) \<Longrightarrow> s \<noteq> [] \<Longrightarrow> last s = LF \<Longrightarrow>
     concat (map (\<lambda>w. w @ [LF]) (splitlines_from acc s)) = rev acc @ s"
proof (induction acc s rule: splitlines_from.induct)
  case (1 acc)
  then show ?case by simp
next
  case (2 acc c)
  then show ?case by (simp add: is_break_def)
next
  case (3 acc c d s)
  have rest: "\<And>e. e \<in> set (d # s) \<Longrightarrow> is_break e \<Longrightarrow> e = LF" "last (d # s) = LF"
    using "3.prems" by auto
  show ?case
  proof (cases "is_break c")
    case True
    then have c: "c = LF" using "3.prems"(1) by simp
    have "\<not> (code c = 13 \<and> code d = 10)" by (simp add: c)
    from "3.IH"(2) [OF this True rest(1) _ rest(2)] c True show ?thesis by simp
  next
    case False
    then have c: "\<not> (code c = 13 \<and> code d = 10)" by (auto simp: is_break_def)
    from "3.IH"(3) [OF c False rest(1) _ rest(2)] c False show ?thesis by auto
  qed
qed

lemma unlines_splitlines:
  assumes "\<And>c. c \<in> set s \<Longrightarrow> is_break c \<Longrightarrow> c = LF" and "s \<noteq> []" and "last s = LF"
  shows "concat (map (\<lambda>w. w @ [LF]) (splitlines s)) = s"
  using unlines_splitlines_from [OF assms, of "[]"] by (simp add: splitlines_def)

lemma graphic_not_break: "is_graphic c \<Longrightarrow> \<not> is_break c"
  by (auto simp: is_graphic_def is_break_def)

subsection \<open>Decimal integers\<close>

definition digit :: "nat \<Rightarrow> char" where
  "digit d = char_of (48 + d)"

fun show_nat :: "nat \<Rightarrow> string" where
  "show_nat n = (if n < 10 then [digit n] else show_nat (n div 10) @ [digit (n mod 10)])"

declare show_nat.simps [simp del]

definition show_int :: "int \<Rightarrow> string" where
  "show_int i = (if i < 0 then ''-'' @ show_nat (nat (- i)) else show_nat (nat i))"

definition read_nat :: "string \<Rightarrow> nat" where
  "read_nat s = foldl (\<lambda>a c. 10 * a + (code c - 48)) 0 s"

lemma code_digit [simp]: "d < 10 \<Longrightarrow> code (digit d) = 48 + d"
  by (simp add: digit_def code_char_of)

lemma digit_0 [simp]: "digit 0 = CHR ''0''"
  by (rule of_char_eqI [where 'a = nat]) (simp add: digit_def)

lemma is_digit_digit [simp]: "d < 10 \<Longrightarrow> is_digit (digit d)"
  by (simp add: is_digit_def)

lemma digit_of_code: "is_digit c \<Longrightarrow> digit (code c - 48) = c"
  by (simp add: digit_def is_digit_def)

lemma show_nat_small: "n < 10 \<Longrightarrow> show_nat n = [digit n]"
  by (simp add: show_nat.simps)

lemma show_nat_step: "10 \<le> n \<Longrightarrow> show_nat n = show_nat (n div 10) @ [digit (n mod 10)]"
  by (simp add: show_nat.simps [of n])

lemma show_nat_nonempty [simp]: "show_nat n \<noteq> []"
  by (simp add: show_nat.simps [of n])

lemma show_nat_digits: "c \<in> set (show_nat n) \<Longrightarrow> is_digit c"
proof (induction n rule: show_nat.induct)
  case (1 n)
  then show ?case
    by (cases "n < 10") (auto simp: show_nat_small show_nat_step not_less)
qed

lemma read_nat_snoc: "read_nat (s @ [c]) = 10 * read_nat s + (code c - 48)"
  by (simp add: read_nat_def)

lemma read_show_nat [simp]: "read_nat (show_nat n) = n"
proof (induction n rule: show_nat.induct)
  case (1 n)
  show ?case
  proof (cases "n < 10")
    case True
    then show ?thesis by (simp add: show_nat_small read_nat_def)
  next
    case False
    with 1 show ?thesis by (simp add: show_nat_step read_nat_snoc)
  qed
qed

lemma hd_show_nat: "hd (show_nat n) = CHR ''0'' \<longleftrightarrow> n = 0"
proof (induction n rule: show_nat.induct)
  case (1 n)
  have digit0: "digit d = CHR ''0'' \<longleftrightarrow> d = 0" if "d < 10" for d
  proof
    assume "digit d = CHR ''0''"
    then have "code (digit d) = 48" by simp
    with that show "d = 0" by simp
  qed simp
  show ?case
    using 1 digit0 by (cases "n < 10") (simp_all add: show_nat_small show_nat_step)
qed

text \<open>The canonical decimal texts are exactly the texts of natural numbers.\<close>

definition canonical_decimal :: "string \<Rightarrow> bool" where
  "canonical_decimal s \<longleftrightarrow>
     s \<noteq> [] \<and> (\<forall>c\<in>set s. is_digit c) \<and> (hd s = CHR ''0'' \<longrightarrow> s = ''0'')"

lemma canonical_show_nat [simp]: "canonical_decimal (show_nat n)"
  unfolding canonical_decimal_def
  by (auto simp: show_nat_digits hd_show_nat show_nat_small)

lemma read_nat_pos:
  "s \<noteq> [] \<Longrightarrow> (\<forall>c\<in>set s. is_digit c) \<Longrightarrow> hd s \<noteq> CHR ''0'' \<Longrightarrow> 0 < read_nat s"
proof (induction s rule: rev_induct)
  case Nil
  then show ?case by simp
next
  case (snoc c s)
  show ?case
  proof (cases "s = []")
    case True
    with snoc.prems have "is_digit c" "c \<noteq> CHR ''0''" by auto
    moreover have "code c \<noteq> 48"
    proof
      assume "code c = 48"
      then have "code c = code CHR ''0''" by simp
      with \<open>c \<noteq> CHR ''0''\<close> show False by (simp only: of_char_eq_iff)
    qed
    ultimately show ?thesis using True by (simp add: read_nat_def is_digit_def)
  next
    case False
    with snoc show ?thesis by (simp add: read_nat_snoc)
  qed
qed

lemma show_read_nat: "canonical_decimal s \<Longrightarrow> show_nat (read_nat s) = s"
proof (induction s rule: rev_induct)
  case Nil
  then show ?case by (simp add: canonical_decimal_def)
next
  case (snoc c s)
  then have c: "is_digit c" by (simp add: canonical_decimal_def)
  then have d: "code c - 48 < 10" by (auto simp: is_digit_def)
  show ?case
  proof (cases "s = []")
    case True
    with d show ?thesis by (simp add: read_nat_def show_nat_small digit_of_code [OF c])
  next
    case False
    with snoc.prems have hd: "hd s \<noteq> CHR ''0''" and digits: "\<forall>c\<in>set s. is_digit c"
      by (auto simp: canonical_decimal_def)
    with False have canon: "canonical_decimal s" by (simp add: canonical_decimal_def)
    have "0 < read_nat s" by (rule read_nat_pos [OF False digits hd])
    then have "show_nat (read_nat (s @ [c])) = show_nat (read_nat s) @ [digit (code c - 48)]"
      using d by (simp add: read_nat_snoc show_nat_step)
    then show ?thesis by (simp add: snoc.IH [OF canon] digit_of_code [OF c])
  qed
qed

lemma canonical_decimal_iff: "canonical_decimal s \<longleftrightarrow> (\<exists>n. s = show_nat n)"
  by (metis canonical_show_nat show_read_nat)

lemma show_nat_inj [simp]: "show_nat m = show_nat n \<longleftrightarrow> m = n"
  by (metis read_show_nat)

lemma length_show_nat: "0 < k \<Longrightarrow> n < 10 ^ k \<Longrightarrow> length (show_nat n) \<le> k"
proof (induction n arbitrary: k rule: show_nat.induct)
  case (1 n)
  show ?case
  proof (cases "n < 10")
    case True
    with 1 show ?thesis by (simp add: show_nat_small)
  next
    case False
    have "k \<noteq> 1" using False 1(3) by auto
    then obtain j where k: "k = Suc j" and j: "0 < j" using 1(2) by (cases k) auto
    have "n div 10 < 10 ^ j" using 1(3) k by (simp add: less_mult_imp_div_less mult.commute)
    from 1(1) [OF False j this] False k show ?thesis by (simp add: show_nat_step)
  qed
qed

lemma show_nat_graphic: "c \<in> set (show_nat n) \<Longrightarrow> is_graphic c"
  by (blast intro: graphic_classes show_nat_digits)

subsection \<open>Hexadecimal text\<close>

definition hex_digit :: "nat \<Rightarrow> char" where
  "hex_digit d = (if d < 10 then char_of (48 + d) else char_of (87 + d))"

definition hex_of_byte :: "char \<Rightarrow> string" where
  "hex_of_byte c = [hex_digit (code c div 16), hex_digit (code c mod 16)]"

definition to_hex :: "bytes \<Rightarrow> string" where
  "to_hex bs = concat (map hex_of_byte bs)"

lemma is_hex_hex_digit [simp]: "d < 16 \<Longrightarrow> is_hex (hex_digit d)"
  by (auto simp: hex_digit_def is_hex_def is_digit_def code_char_of)

lemma length_to_hex [simp]: "length (to_hex bs) = 2 * length bs"
  by (induction bs) (simp_all add: to_hex_def hex_of_byte_def)

lemma to_hex_is_hex: "c \<in> set (to_hex bs) \<Longrightarrow> is_hex c"
proof -
  assume "c \<in> set (to_hex bs)"
  then obtain b where "c \<in> set (hex_of_byte b)" by (auto simp: to_hex_def)
  moreover have "code b div 16 < 16" using code_less_256 [of b] by (simp add: less_mult_imp_div_less)
  ultimately show ?thesis by (auto simp: hex_of_byte_def)
qed

lemma hex_digit_inj: "c < 16 \<Longrightarrow> d < 16 \<Longrightarrow> hex_digit c = hex_digit d \<Longrightarrow> c = d"
proof -
  assume c: "c < 16" and d: "d < 16" and eq: "hex_digit c = hex_digit d"
  from eq have "code (hex_digit c) = code (hex_digit d)" by simp
  with c d show ?thesis by (auto simp: hex_digit_def code_char_of split: if_splits)
qed

lemma hex_of_byte_inj: "hex_of_byte a = hex_of_byte b \<Longrightarrow> a = b"
proof -
  assume eq: "hex_of_byte a = hex_of_byte b"
  have bound: "code x div 16 < 16" for x
    using code_less_256 [of x] by (simp add: less_mult_imp_div_less)
  from eq have "code a div 16 = code b div 16" "code a mod 16 = code b mod 16"
    by (auto simp: hex_of_byte_def dest!: hex_digit_inj [OF bound bound] hex_digit_inj [rotated 2])
  then have "code a = code b" by (metis mult_div_mod_eq)
  then show ?thesis by simp
qed

lemma to_hex_inj: "to_hex a = to_hex b \<Longrightarrow> a = b"
proof (induction a arbitrary: b)
  case Nil
  then have "length (to_hex b) = 0" by (simp add: to_hex_def)
  then show ?case by simp
next
  case (Cons x a)
  then have "length (to_hex (x # a)) = length (to_hex b)" by simp
  then obtain y b' where b: "b = y # b'" by (cases b) auto
  with Cons.prems have "hex_of_byte x = hex_of_byte y" "to_hex a = to_hex b'"
    by (auto simp: to_hex_def hex_of_byte_def)
  with Cons.IH b show ?case by (auto dest: hex_of_byte_inj)
qed

subsection \<open>Representations\<close>

text \<open>\<open>repr\<close> of a \<open>str\<close> of code points below 128, and of a list of such.\<close>

definition repr_char :: "char \<Rightarrow> char \<Rightarrow> string" where
  "repr_char q c =
     (if c = q \<or> code c = 92 then [char_of (92::nat), c]
      else if code c = 10 then [char_of (92::nat), CHR ''n'']
      else if code c = 13 then [char_of (92::nat), CHR ''r'']
      else if code c = 9 then [char_of (92::nat), CHR ''t'']
      else if code c < 32 \<or> code c = 127 then [char_of (92::nat), CHR ''x''] @ hex_of_byte c
      else [c])"

definition py_repr :: "string \<Rightarrow> string" where
  "py_repr s =
     (let q = (if CHR 0x27 \<in> set s \<and> CHR 0x22 \<notin> set s then CHR 0x22 else CHR 0x27)
      in [q] @ concat (map (repr_char q) s) @ [q])"

definition py_repr_list :: "string list \<Rightarrow> string" where
  "py_repr_list xs = ''['' @ join '', '' (map py_repr xs) @ '']''"

subsection \<open>Fixed-width integers of \<open>struct\<close>\<close>

definition be_nat :: "bytes \<Rightarrow> nat" where
  "be_nat bs = foldl (\<lambda>a c. 256 * a + code c) 0 bs"

definition le_nat :: "bytes \<Rightarrow> nat" where
  "le_nat bs = be_nat (rev bs)"

fun nat_be :: "nat \<Rightarrow> nat \<Rightarrow> bytes" where
  "nat_be 0 n = []"
| "nat_be (Suc k) n = nat_be k (n div 256) @ [char_of n]"

definition nat_le :: "nat \<Rightarrow> nat \<Rightarrow> bytes" where
  "nat_le k n = rev (nat_be k n)"

lemma length_nat_be [simp]: "length (nat_be k n) = k"
  by (induction k arbitrary: n) simp_all

lemma be_nat_snoc [simp]: "be_nat (bs @ [c]) = 256 * be_nat bs + code c"
  by (simp add: be_nat_def)

lemma be_nat_Nil [simp]: "be_nat [] = 0"
  by (simp add: be_nat_def)

lemma be_nat_bound: "be_nat bs < 256 ^ length bs"
proof (induction bs rule: rev_induct)
  case Nil
  then show ?case by simp
next
  case (snoc c bs)
  have "256 * be_nat bs + code c < 256 * (be_nat bs + 1)" using code_less_256 [of c] by simp
  also have "\<dots> \<le> 256 * 256 ^ length bs" using snoc by (intro mult_le_mono2) simp
  finally show ?case by simp
qed

lemma be_nat_be: "be_nat (nat_be k n) = n mod 256 ^ k"
proof (induction k arbitrary: n)
  case 0
  then show ?case by simp
next
  case (Suc k)
  have "n mod (256 * 256 ^ k) = 256 * (n div 256 mod 256 ^ k) + n mod 256"
    by (rule mod_mult2_eq)
  with Suc show ?case by simp
qed

lemma be_nat_be_id [simp]: "n < 256 ^ k \<Longrightarrow> be_nat (nat_be k n) = n"
  by (simp add: be_nat_be)

lemma nat_be_be_nat: "nat_be (length bs) (be_nat bs) = bs"
proof (induction bs rule: rev_induct)
  case Nil
  then show ?case by simp
next
  case (snoc c bs)
  have "(256 * be_nat bs + code c) div 256 = be_nat bs" using code_less_256 [of c] by simp
  moreover have "char_of (256 * be_nat bs + code c) = c"
    by (rule of_char_eqI [where 'a = nat]) simp
  ultimately show ?case using snoc by simp
qed

lemma le_nat_le_id [simp]: "n < 256 ^ k \<Longrightarrow> le_nat (nat_le k n) = n"
  by (simp add: le_nat_def nat_le_def)

lemma length_nat_le [simp]: "length (nat_le k n) = k"
  by (simp add: nat_le_def)

text \<open>\<open>data[a : b]\<close> for in-range or overlong bounds.\<close>

definition slice :: "nat \<Rightarrow> nat \<Rightarrow> 'a list \<Rightarrow> 'a list" where
  "slice a b xs = take (b - a) (drop a xs)"

lemma length_slice [simp]: "length (slice a b xs) = min (b - a) (length xs - a)"
  by (auto simp: slice_def)

text \<open>\<open>PurePosixPath(name).parts\<close> of a relative path.\<close>

definition posix_parts :: "string \<Rightarrow> string list" where
  "posix_parts name = filter (\<lambda>p. p \<noteq> [] \<and> p \<noteq> ''.'') (split_on (CHR ''/'') name)"

end
