(* ===== verification/Server_Manifest.thy ===== *)
theory Server_Manifest
  imports Py_Text
begin

section \<open>The bundle server's record parser and manifest policy\<close>

text \<open>
  Models the pure part of \<^verbatim>\<open>tools/recovery_control/host_bundle_server.py\<close>: the identifier and
  hash predicates, the canonical decimal parser, the \<open>name=value\<close> record parser shared by the
  manifest and the fetch request, and \<open>validate_manifest\<close>. The SHA-256 digest is the argument
  \<open>H\<close>. The locale \<open>record_format\<close> states what a list of field names has to satisfy for the
  record format to be a codec; it is interpreted on the manifest's and the request's fields.
\<close>

subsection \<open>Constants\<close>

definition server_artifacts :: "(string \<times> nat \<times> nat) list" where
  "server_artifacts =
     [(''manifest'', 1, 4096),
      (''manifest.sig'', 64, 64),
      (''Image'', 64, 128 * 1024 * 1024),
      (''board.dtb'', 40, 2 * 1024 * 1024),
      (''initramfs.cpio.gz'', 2, 256 * 1024 * 1024)]"

definition manifest_fields :: "string list" where
  "manifest_fields =
     [''format'', ''bundle'', ''profile'', ''kernel_size'', ''kernel_sha256'', ''dtb_size'',
      ''dtb_sha256'', ''initramfs_size'', ''initramfs_sha256'', ''target_id'',
      ''target_release'', ''rollback_timeout'', ''target_timeout'',
      ''a660_command_manifest_sha256'', ''root_generation'', ''root_tree_sha256'',
      ''root_seal_sha256'', ''root_tree_entries'', ''root_subtree'']"

definition request_fields :: "string list" where
  "request_fields = [''format'', ''bundle'', ''manifest_sha256'']"

definition server_profiles :: "string list" where
  "server_profiles =
     [''diagnostic-initramfs-v1'', ''network-root-v1'', ''persistent-root-ro-v1'',
      ''stock-charging-recovery-v1'']"

definition zero_hash :: string where
  "zero_hash = replicate 64 CHR ''0''"

subsection \<open>Identifier predicates\<close>

definition bundle_char :: "char \<Rightarrow> bool" where
  "bundle_char c \<longleftrightarrow> is_lower c \<or> is_digit c \<or> c \<in> set ''._-''"

definition bundle_id_match :: "string \<Rightarrow> bool" where
  "bundle_id_match s \<longleftrightarrow>
     (case s of [] \<Rightarrow> False
      | c # t \<Rightarrow> (is_lower c \<or> is_digit c) \<and> list_all bundle_char t \<and> length t \<le> 63)"

definition server_valid_bundle :: "string \<Rightarrow> bool" where
  "server_valid_bundle value \<longleftrightarrow>
     bundle_id_match value \<and> \<not> contains ''..'' value \<and> value \<noteq> ''none''"

definition sha256_match :: "string \<Rightarrow> bool" where
  "sha256_match s \<longleftrightarrow> length s = 64 \<and> list_all is_hex s"

definition server_valid_hash :: "string \<Rightarrow> bool" where
  "server_valid_hash value \<longleftrightarrow> sha256_match value \<and> value \<noteq> zero_hash"

definition identity_char :: "char \<Rightarrow> bool" where
  "identity_char c \<longleftrightarrow> is_upper c \<or> is_lower c \<or> is_digit c \<or> c \<in> set ''_+.-''"

definition server_validate_identity :: "string \<Rightarrow> nat \<Rightarrow> bool" where
  "server_validate_identity value maximum \<longleftrightarrow>
     length value \<le> maximum
     \<and> (list_all identity_char value \<and> 1 \<le> length value \<and> length value \<le> 96)
     \<and> \<not> prefix ''.'' value
     \<and> \<not> contains ''..'' value"

lemma bundle_char_graphic: "bundle_char c \<Longrightarrow> is_graphic c"
  by (auto simp: bundle_char_def char_class_defs is_graphic_def)

lemma bundle_id_graphic: "bundle_id_match s \<Longrightarrow> c \<in> set s \<Longrightarrow> is_graphic c"
  by (cases s) (auto simp: bundle_id_match_def list_all_iff
      intro: bundle_char_graphic graphic_classes)

lemma bundle_id_length: "bundle_id_match s \<Longrightarrow> 0 < length s \<and> length s \<le> 64"
  by (cases s) (auto simp: bundle_id_match_def)

lemma identity_char_graphic: "identity_char c \<Longrightarrow> is_graphic c"
  by (auto simp: identity_char_def char_class_defs is_graphic_def)

lemma sha256_match_hex: "length d = 32 \<Longrightarrow> sha256_match (to_hex d)"
  by (auto simp: sha256_match_def list_all_iff dest: to_hex_is_hex)

lemma sha256_match_graphic: "sha256_match s \<Longrightarrow> c \<in> set s \<Longrightarrow> is_graphic c"
  by (auto simp: sha256_match_def list_all_iff dest: graphic_classes)

subsection \<open>Canonical decimals\<close>

definition server_parse_decimal :: "string \<Rightarrow> nat \<Rightarrow> nat \<Rightarrow> nat result" where
  "server_parse_decimal value minimum maximum =
     (if value = [] \<or> \<not> list_all is_ascii value \<or> \<not> list_all is_digit value
         \<or> prefix ''0'' value \<and> value \<noteq> ''0''
      then Inl (ServerRefusal ''noncanonical decimal'')
      else let parsed = read_nat value in
        if parsed < minimum \<or> maximum < parsed
        then Inl (ServerRefusal ''decimal outside policy'')
        else Inr parsed)"

text \<open>Shared by the server and the packager: the guard of both parsers.\<close>

lemma decimal_guard:
  "(value = [] \<or> \<not> list_all is_ascii value \<or> \<not> list_all is_digit value
      \<or> prefix ''0'' value \<and> value \<noteq> ''0'') \<longleftrightarrow> \<not> canonical_decimal value"
proof -
  have "is_digit c \<Longrightarrow> is_ascii c" for c by (simp add: char_class_defs)
  then show ?thesis by (cases "value") (auto simp: canonical_decimal_def list_all_iff)
qed

lemma server_parse_decimal_eq_Inr:
  "server_parse_decimal v lo hi = Inr n \<longleftrightarrow> v = show_nat n \<and> lo \<le> n \<and> n \<le> hi"
  unfolding server_parse_decimal_def decimal_guard
  by (auto simp: Let_def not_less show_read_nat)

lemma server_parse_decimal_show:
  "lo \<le> n \<Longrightarrow> n \<le> hi \<Longrightarrow> server_parse_decimal (show_nat n) lo hi = Inr n"
  by (simp add: server_parse_decimal_eq_Inr)

subsection \<open>Records\<close>

fun parse_lines :: "string list \<Rightarrow> string list \<Rightarrow> (string \<times> string) list result" where
  "parse_lines (expected # fields) (line # lines) =
     (case partition_at CHR ''='' line of (name, separator, value) \<Rightarrow>
       if separator \<noteq> ''='' \<or> name \<noteq> expected \<or> value = []
       then Inl (ServerRefusal ''wrong record field'')
       else if list_ex (\<lambda>byte. code byte < 33 \<or> 126 < code byte) value
       then Inl (ServerRefusal ''unsafe record value'')
       else bind_result (parse_lines fields lines) (\<lambda>rest. Inr ((name, value) # rest)))"
| "parse_lines _ _ = Inr []"

definition server_parse_record :: "bytes \<Rightarrow> string list \<Rightarrow> (string \<times> string) list result" where
  "server_parse_record payload fields =
     (if payload = [] \<or> last payload \<noteq> LF \<or> CHR 0x00 \<in> set payload \<or> CHR 0x0D \<in> set payload
      then Inl (ServerRefusal ''noncanonical record'')
      else if \<not> list_all is_ascii payload
      then Inl (ServerRefusal ''non-ASCII record'')
      else let lines = splitlines payload in
        if length lines \<noteq> length fields
        then Inl (ServerRefusal ''wrong record field count'')
        else parse_lines fields lines)"

text \<open>\<open>fields[name]\<close> of a parsed record; a parsed record has every expected name.\<close>

definition field :: "(string \<times> string) list \<Rightarrow> string \<Rightarrow> string" where
  "field fields name = (case map_of fields name of Some v \<Rightarrow> v | None \<Rightarrow> [])"

text \<open>The printed form of a record, as the packager writes it.\<close>

definition record_line :: "string \<times> string \<Rightarrow> string" where
  "record_line kv = fst kv @ ''='' @ snd kv"

definition show_record :: "(string \<times> string) list \<Rightarrow> bytes" where
  "show_record kvs = concat (map (\<lambda>kv. record_line kv @ [LF]) kvs)"

definition safe_value :: "string \<Rightarrow> bool" where
  "safe_value v \<longleftrightarrow> v \<noteq> [] \<and> list_all is_graphic v"

lemma unsafe_char_iff: "list_ex (\<lambda>byte. code byte < 33 \<or> 126 < code byte) v \<longleftrightarrow> \<not> list_all is_graphic v"
  by (auto simp: list_ex_iff list_all_iff is_graphic_def not_le)

lemma parse_lines_eq_Inr:
  "length fields = length lines \<Longrightarrow>
     parse_lines fields lines = Inr kvs \<longleftrightarrow>
       map fst kvs = fields \<and> lines = map record_line kvs
       \<and> list_all safe_value (map snd kvs) \<and> list_all (\<lambda>k. CHR ''='' \<notin> set k) fields"
proof (induction fields lines arbitrary: kvs rule: list_induct2)
  case Nil
  then show ?case by auto
next
  case (Cons f fs l ls)
  obtain n s v where p: "partition_at CHR ''='' l = (n, s, v)" by (cases "partition_at CHR ''='' l")
  show ?case
  proof (cases "s = ''='' \<and> n = f \<and> safe_value v")
    case True
    then have "l = f @ ''='' @ v" "CHR ''='' \<notin> set f"
      using p partition_at_found [of "CHR ''=''" l n v] by auto
    with p True show ?thesis
      by (cases kvs)
        (auto simp: bind_result_eq_Inr safe_value_def unsafe_char_iff record_line_def Cons.IH)
  next
    case False
    have "\<not> (map fst kvs = f # fs \<and> l # ls = map record_line kvs \<and> list_all safe_value (map snd kvs)
            \<and> list_all (\<lambda>k. CHR ''='' \<notin> set k) (f # fs))"
    proof
      assume *: "map fst kvs = f # fs \<and> l # ls = map record_line kvs \<and> list_all safe_value (map snd kvs)
            \<and> list_all (\<lambda>k. CHR ''='' \<notin> set k) (f # fs)"
      then obtain w r where "kvs = (f, w) # r" by (cases kvs) auto
      with * have "l = f @ CHR ''='' # w" "CHR ''='' \<notin> set f" "safe_value w" by (auto simp: record_line_def)
      with p partition_at_append have "(n, s, v) = (f, ''='', w)" by simp
      with False \<open>safe_value w\<close> show False by simp
    qed
    moreover from p False have "parse_lines (f # fs) (l # ls) \<noteq> Inr kvs"
      by (auto simp: safe_value_def unsafe_char_iff bind_result_eq_Inr)
    ultimately show ?thesis by blast
  qed
qed

text \<open>What makes a list of field names a codec: distinct printable names with no \<open>=\<close>.\<close>

locale record_format =
  fixes fields :: "string list"
  assumes distinct_fields: "distinct fields"
    and nonempty_fields: "fields \<noteq> []"
    and field_names: "k \<in> set fields \<Longrightarrow> safe_value k \<and> CHR ''='' \<notin> set k"
begin

lemma record_line_graphic:
  assumes "map fst kvs = fields" and "list_all safe_value (map snd kvs)"
    and "l \<in> set (map record_line kvs)" and "c \<in> set l"
  shows "is_graphic c"
proof -
  from assms(3) obtain k v where kv: "(k, v) \<in> set kvs" "l = k @ ''='' @ v"
    by (auto simp: record_line_def)
  then have "k \<in> set fields" using assms(1) by force
  with field_names have "list_all is_graphic k" by (auto simp: safe_value_def)
  moreover from assms(2) kv(1) have "list_all is_graphic v"
    by (auto simp: list_all_iff safe_value_def)
  ultimately show ?thesis using assms(4) kv(2) by (auto simp: list_all_iff is_graphic_def)
qed

theorem parse_show:
  assumes "map fst kvs = fields" and "list_all safe_value (map snd kvs)"
  shows "server_parse_record (show_record kvs) fields = Inr kvs"
proof -
  let ?lines = "map record_line kvs"
  have payload: "show_record kvs = concat (map (\<lambda>w. w @ [LF]) ?lines)"
    by (simp add: show_record_def comp_def)
  have graphic: "l \<in> set ?lines \<Longrightarrow> c \<in> set l \<Longrightarrow> is_graphic c" for l c
    by (rule record_line_graphic [OF assms])
  have ne: "kvs \<noteq> []" using assms(1) nonempty_fields by auto
  then obtain kvs' kv where "kvs = kvs' @ [kv]" by (cases kvs rule: rev_cases) auto
  then have "show_record kvs \<noteq> []" "last (show_record kvs) = LF"
    by (simp_all add: show_record_def)
  moreover have chars: "c \<in> set (show_record kvs) \<Longrightarrow> is_graphic c \<or> c = LF" for c
    using graphic by (auto simp: payload split: if_splits)
  then have "CHR 0x00 \<notin> set (show_record kvs)" "CHR 0x0D \<notin> set (show_record kvs)"
    "list_all is_ascii (show_record kvs)"
    by (auto simp: list_all_iff is_graphic_def is_ascii_def dest!: chars)
  moreover have "splitlines (show_record kvs) = ?lines"
    unfolding payload by (rule splitlines_unlines) (blast dest: graphic graphic_not_break)
  moreover have "parse_lines fields ?lines = Inr kvs"
  proof -
    have "length fields = length ?lines" by (simp flip: assms(1))
    then show ?thesis using assms field_names by (simp add: parse_lines_eq_Inr list_all_iff)
  qed
  ultimately show ?thesis
    by (simp add: server_parse_record_def) (simp flip: assms(1))
qed

theorem parse_sound:
  assumes "server_parse_record payload fields = Inr kvs"
  shows "map fst kvs = fields" and "list_all safe_value (map snd kvs)"
    and "splitlines payload = map record_line kvs"
proof -
  from assms have len: "length fields = length (splitlines payload)"
    and p: "parse_lines fields (splitlines payload) = Inr kvs"
    by (auto simp: server_parse_record_def Let_def split: if_splits)
  from p show "map fst kvs = fields" "list_all safe_value (map snd kvs)"
    "splitlines payload = map record_line kvs"
    by (simp_all add: parse_lines_eq_Inr [OF len])
qed

text \<open>Only line feeds as breaks: then the accepted text is exactly the printed record.\<close>

theorem parse_canonical:
  assumes "server_parse_record payload fields = Inr kvs"
    and "\<And>c. c \<in> set payload \<Longrightarrow> is_break c \<Longrightarrow> c = LF"
  shows "payload = show_record kvs"
proof -
  from assms(1) have "payload \<noteq> []" "last payload = LF"
    by (auto simp: server_parse_record_def split: if_splits)
  then have "concat (map (\<lambda>w. w @ [LF]) (splitlines payload)) = payload"
    using unlines_splitlines [of payload] assms(2) by blast
  with parse_sound(3) [OF assms(1)] show ?thesis by (simp add: show_record_def comp_def)
qed

lemma field_nth:
  assumes "map fst kvs = fields" and "i < length fields"
  shows "field kvs (fields ! i) = snd (kvs ! i)"
proof -
  have "i < length kvs" using assms by (auto simp flip: assms(1))
  moreover have "distinct (map fst kvs)" using assms(1) distinct_fields by simp
  ultimately have "map_of kvs (fst (kvs ! i)) = Some (snd (kvs ! i))" by simp
  moreover have "fields ! i = fst (kvs ! i)" using \<open>i < length kvs\<close> by (simp flip: assms(1))
  ultimately show ?thesis by (simp add: field_def)
qed

lemma field_in_record:
  assumes "server_parse_record payload fields = Inr kvs" and "k \<in> set fields"
  shows "map_of kvs k = Some (field kvs k)" and "safe_value (field kvs k)"
proof -
  have "k \<in> fst ` set kvs" using assms(2) parse_sound(1) [OF assms(1)] by (metis set_map)
  then obtain v where v: "map_of kvs k = Some v" by (metis weak_map_of_SomeI imageE prod.collapse)
  then show "map_of kvs k = Some (field kvs k)" by (simp add: field_def)
  from v have "v \<in> set (map snd kvs)" by (force dest: map_of_SomeD)
  with parse_sound(2) [OF assms(1)] v show "safe_value (field kvs k)"
    by (auto simp: field_def list_all_iff)
qed

end

interpretation manifest: record_format manifest_fields
  by unfold_locales
    (auto simp: manifest_fields_def safe_value_def is_graphic_def)

interpretation request: record_format request_fields
  by unfold_locales
    (auto simp: request_fields_def safe_value_def is_graphic_def)

subsection \<open>The manifest policy\<close>

definition network_profile :: "string \<Rightarrow> bool" where
  "network_profile p \<longleftrightarrow> p \<in> {''diagnostic-initramfs-v1'', ''network-root-v1''}"

definition server_bindings :: "(string \<times> string \<times> string) list" where
  "server_bindings =
     [(''Image'', ''kernel_size'', ''kernel_sha256''),
      (''board.dtb'', ''dtb_size'', ''dtb_sha256''),
      (''initramfs.cpio.gz'', ''initramfs_size'', ''initramfs_sha256'')]"

definition server_check_binding ::
    "(string \<times> string) list \<Rightarrow> (string \<rightharpoonup> nat \<times> string) \<Rightarrow> string \<times> string \<times> string \<Rightarrow> unit \<Rightarrow> unit result"
  where
  "server_check_binding fields observed b _ =
     (case b of (artifact, size_field, hash_field) \<Rightarrow>
       bind_result (option_result (KeyError artifact) (observed artifact)) (\<lambda>(size, digest).
       bind_result (server_parse_decimal (field fields size_field) 1 (256 * 1024 * 1024)) (\<lambda>n.
         if n \<noteq> size \<or> field fields hash_field \<noteq> digest
            \<or> \<not> server_valid_hash (field fields hash_field)
         then Inl (ServerRefusal ''manifest artifact binding mismatch'')
         else Inr ())))"

definition server_check_root_identity :: "(string \<times> string) list \<Rightarrow> unit result" where
  "server_check_root_identity fields =
     (if network_profile (field fields ''profile'') then
        if \<not> server_valid_hash (field fields ''a660_command_manifest_sha256'')
           \<or> field fields ''root_generation'' \<noteq> ''arch-a''
           \<or> \<not> server_valid_hash (field fields ''root_tree_sha256'')
           \<or> \<not> server_valid_hash (field fields ''root_seal_sha256'')
           \<or> field fields ''root_subtree'' \<noteq> ''/''
        then Inl (ServerRefusal ''network-root trust identity is invalid'')
        else bind_result (server_parse_decimal (field fields ''root_tree_entries'') 1 (2 ^ 63 - 1))
               (\<lambda>_. Inr ())
      else
        if field fields ''a660_command_manifest_sha256'' \<noteq> zero_hash
           \<or> field fields ''root_generation'' \<noteq> ''none''
           \<or> field fields ''root_tree_sha256'' \<noteq> zero_hash
           \<or> field fields ''root_seal_sha256'' \<noteq> zero_hash
           \<or> field fields ''root_tree_entries'' \<noteq> ''0''
           \<or> field fields ''root_subtree'' \<noteq> ''none''
        then Inl (ServerRefusal ''non-network profile carries root trust identity'')
        else Inr ())"

definition server_validate_manifest ::
    "(bytes \<Rightarrow> bytes) \<Rightarrow> bytes \<Rightarrow> string \<Rightarrow> string \<Rightarrow> (string \<rightharpoonup> nat \<times> string) \<Rightarrow> unit result" where
  "server_validate_manifest H payload bundle manifest_hash observed =
     bind_result (server_parse_record payload manifest_fields) (\<lambda>fields.
       if field fields ''format'' \<noteq> ''rog5-recovery-bundle-v2''
          \<or> field fields ''bundle'' \<noteq> bundle
          \<or> field fields ''profile'' \<notin> set server_profiles
          \<or> to_hex (H payload) \<noteq> manifest_hash
          \<or> \<not> server_validate_identity (field fields ''target_id'') 64
          \<or> \<not> server_validate_identity (field fields ''target_release'') 96
       then Inl (ServerRefusal ''manifest identity mismatch'')
       else
         bind_result (server_parse_decimal (field fields ''rollback_timeout'') 60 900) (\<lambda>rollback.
         bind_result (server_parse_decimal (field fields ''target_timeout'') 30 600) (\<lambda>target.
           if rollback - 30 < target
           then Inl (ServerRefusal ''manifest timeout margin is unsafe'')
           else if field fields ''profile'' = ''persistent-root-ro-v1'' \<and> rollback < 300
           then Inl (ServerRefusal ''persistent profile rollback is too short'')
           else if field fields ''profile'' = ''stock-charging-recovery-v1'' \<and> rollback < 900
           then Inl (ServerRefusal ''stock charging profile rollback is too short'')
           else bind_result (server_check_root_identity fields) (\<lambda>_.
             fold_result (server_check_binding fields observed) server_bindings ()))))"

end
