(* ===== verification/Server_Transfer.thy ===== *)
theory Server_Transfer
  imports Server_Manifest
begin

section \<open>The bundle server's transfer protocol\<close>

text \<open>
  Models the socket half of \<^verbatim>\<open>tools/recovery_control/host_bundle_server.py\<close>:
  \<open>remaining_timeout\<close>, \<open>receive_exact\<close>, \<open>receive_request\<close>, \<open>send_all\<close>,
  \<open>confirm_tcp_delivery\<close>, \<open>serve_connection\<close>, \<open>serve_listener\<close> and \<open>production_peer\<close>.

  The kernel and the peer are scripts in the state: what each \<open>recv\<close>, \<open>send\<close>, \<open>accept\<close> and
  socket-state poll meets, and after how many nanoseconds. An exhausted \<open>recv\<close>, \<open>send\<close> or
  \<open>accept\<close> script means that nothing more happens, so the call times out; an exhausted poll
  script means that the acknowledgement never comes. \<open>time.monotonic()\<close> reads the state's clock
  in nanoseconds. The clock moves only in blocking calls and in \<open>sleep\<close>.
\<close>

datatype recv_event =
    Chunk nat bytes   \<comment> \<open>data arrives after a delay; no data is the peer's half-close\<close>
  | RecvFails nat

datatype send_event =
    Accepts nat nat   \<comment> \<open>after a delay the kernel takes at most this many bytes\<close>
  | SendFails nat

datatype poll_event =
    Poll int bytes    \<comment> \<open>\<open>SO_ERROR\<close> and the first byte of \<open>TCP_INFO\<close>\<close>
  | PollFails

record conn =
  now :: int
  inbox :: "recv_event list"
  outbox :: "send_event list"
  polls :: "poll_event list"
  half_close_fails :: bool
  sent :: bytes
  positions :: "nat \<Rightarrow> nat"
  evidence :: "(string \<times> nat \<times> nat) list"

record prepared_bundle =
  descriptors :: "nat list"
  sizes :: "nat list"
  prepared_id :: string
  prepared_hash :: string

subsection \<open>Time and the socket calls\<close>

definition remaining_timeout :: "int \<Rightarrow> (conn, int) io" where
  "remaining_timeout deadline s =
     (let remaining = deadline - now s in
      if remaining \<le> 0 then (Inl (ServerRefusal ''transfer deadline expired''), s)
      else (Inr remaining, s))"

text \<open>A blocking call with the socket timeout \<open>t\<close>: it ends after its delay or at the timeout.\<close>

definition timed_out :: "int \<Rightarrow> conn \<Rightarrow> 'a result \<times> conn" where
  "timed_out t s = (Inl OSError, s\<lparr>now := now s + t\<rparr>)"

definition sock_recv :: "int \<Rightarrow> nat \<Rightarrow> (conn, bytes) io" where
  "sock_recv t n s =
     (case inbox s of
        [] \<Rightarrow> timed_out t s
      | Chunk d bs # rest \<Rightarrow>
          if t < int d then timed_out t s
          else (Inr (take n bs),
                s\<lparr>now := now s + int d,
                  inbox := (if bs \<noteq> [] \<and> length bs \<le> n then rest else Chunk 0 (drop n bs) # rest)\<rparr>)
      | RecvFails d # rest \<Rightarrow>
          if t < int d then timed_out t s
          else (Inl OSError, s\<lparr>now := now s + int d, inbox := rest\<rparr>))"

definition sock_send :: "int \<Rightarrow> bytes \<Rightarrow> (conn, nat) io" where
  "sock_send t payload s =
     (case outbox s of
        [] \<Rightarrow> timed_out t s
      | Accepts d c # rest \<Rightarrow>
          if t < int d then timed_out t s
          else let n = min c (length payload) in
            (Inr n, s\<lparr>now := now s + int d, outbox := rest, sent := sent s @ take n payload\<rparr>)
      | SendFails d # rest \<Rightarrow>
          if t < int d then timed_out t s
          else (Inl OSError, s\<lparr>now := now s + int d, outbox := rest\<rparr>))"

subsection \<open>Requests\<close>

function receive_from :: "nat \<Rightarrow> int \<Rightarrow> bytes \<Rightarrow> (conn, bytes) io" where
  "receive_from wanted deadline received s =
     (if length received < wanted then
        (case remaining_timeout deadline s of
           (Inl e, s1) \<Rightarrow> (Inl e, s1)
         | (Inr t, s1) \<Rightarrow>
            (case sock_recv t (wanted - length received) s1 of
               (Inl _, s2) \<Rightarrow> (Inl (ServerRefusal ''request receive failed''), s2)
             | (Inr block, s2) \<Rightarrow>
                 if block = [] then (Inl (ServerRefusal ''request truncated''), s2)
                 else receive_from wanted deadline (received @ block) s2))
      else (Inr received, s))"
  by pat_completeness auto
termination
  by (relation "measure (\<lambda>(wanted, deadline, received, s). wanted - length received)")
    (auto simp: neq_Nil_conv)

declare receive_from.simps [simp del]

definition receive_exact :: "nat \<Rightarrow> int \<Rightarrow> (conn, bytes) io" where
  "receive_exact wanted deadline = receive_from wanted deadline []"

definition receive_request :: "prepared_bundle \<Rightarrow> int \<Rightarrow> (conn, unit) io" where
  "receive_request prepared deadline =
     bind_io (receive_exact 4 deadline) (\<lambda>prefix.
     let len = be_nat prefix in
     bind_io (when_raise (len < 1 \<or> 256 < len)
                (ServerRefusal ''request frame length is invalid'')) (\<lambda>_.
     bind_io (receive_exact len deadline) (\<lambda>payload.
     bind_io (lift_result (server_parse_record payload request_fields)) (\<lambda>fields.
     bind_io (when_raise (field fields ''format'' \<noteq> ''rog5-fetch-request-v1''
                  \<or> field fields ''bundle'' \<noteq> prepared_id prepared
                  \<or> field fields ''manifest_sha256'' \<noteq> prepared_hash prepared)
                (ServerRefusal ''request identity mismatch'')) (\<lambda>_.
     bind_io (remaining_timeout deadline) (\<lambda>t.
     bind_io (try_except (sock_recv t 1)
                (\<lambda>_. raise (ServerRefusal ''request completion failed''))) (\<lambda>trailing.
     when_raise (trailing \<noteq> []) (ServerRefusal ''request contains trailing bytes''))))))))"

subsection \<open>Responses\<close>

function send_from :: "bytes \<Rightarrow> int \<Rightarrow> nat \<Rightarrow> (conn, unit) io" where
  "send_from payload deadline offset s =
     (if offset < length payload then
        (case remaining_timeout deadline s of
           (Inl e, s1) \<Rightarrow> (Inl e, s1)
         | (Inr t, s1) \<Rightarrow>
            (case sock_send t (drop offset payload) s1 of
               (Inl _, s2) \<Rightarrow> (Inl (ServerRefusal ''response send failed''), s2)
             | (Inr count, s2) \<Rightarrow>
                 if count \<le> 0 then (Inl (ServerRefusal ''response send made no progress''), s2)
                 else send_from payload deadline (offset + count) s2))
      else (Inr (), s))"
  by pat_completeness auto
termination
  by (relation "measure (\<lambda>(payload, deadline, offset, s). length payload - offset)") auto

declare send_from.simps [simp del]

definition send_all :: "bytes \<Rightarrow> int \<Rightarrow> (conn, unit) io" where
  "send_all payload deadline = send_from payload deadline 0"

text \<open>
  \<open>os.lseek\<close> and \<open>os.read\<close> on the descriptors opened earlier. \<open>file d\<close> is what the descriptor's
  file holds now, which the sizes recorded at preparation need not match.
\<close>

definition file_seek :: "nat \<Rightarrow> (conn, unit) io" where
  "file_seek d = modify (\<lambda>s. s\<lparr>positions := (positions s)(d := 0)\<rparr>)"

definition file_read :: "(nat \<Rightarrow> bytes) \<Rightarrow> nat \<Rightarrow> nat \<Rightarrow> (conn, bytes) io" where
  "file_read file d n s =
     (let block = take n (drop (positions s d) (file d)) in
      (Inr block, s\<lparr>positions := (positions s)(d := positions s d + length block)\<rparr>))"

function send_artifact :: "(nat \<Rightarrow> bytes) \<Rightarrow> nat \<Rightarrow> int \<Rightarrow> nat \<Rightarrow> (conn, unit) io" where
  "send_artifact file d deadline remaining s =
     (if remaining \<noteq> 0 then
        (case file_read file d (min (1024 * 1024) remaining) s of
           (Inl e, s1) \<Rightarrow> (Inl e, s1)
         | (Inr block, s1) \<Rightarrow>
             if block = [] then (Inl (ServerRefusal ''opened artifact became short''), s1)
             else (case send_all block deadline s1 of
                     (Inl e, s2) \<Rightarrow> (Inl e, s2)
                   | (Inr _, s2) \<Rightarrow> send_artifact file d deadline (remaining - length block) s2))
      else (Inr (), s))"
  by pat_completeness auto
termination
  by (relation "measure (\<lambda>(file, d, deadline, remaining, s). remaining)") auto

declare send_artifact.simps [simp del]

definition report :: "string \<Rightarrow> nat \<Rightarrow> nat \<Rightarrow> (conn, unit) io" where
  "report phase n total_bytes = modify (\<lambda>s. s\<lparr>evidence := evidence s @ [(phase, n, total_bytes)]\<rparr>)"

definition response_header :: "prepared_bundle \<Rightarrow> bytes" where
  "response_header prepared =
     ''format=rog5-fetch-response-v1'' @ [LF]
     @ ''bundle='' @ prepared_id prepared @ [LF]
     @ ''manifest_sha256='' @ prepared_hash prepared @ [LF]
     @ ''manifest_size='' @ show_nat (sizes prepared ! 0) @ [LF]
     @ ''signature_size='' @ show_nat (sizes prepared ! 1) @ [LF]
     @ ''kernel_size='' @ show_nat (sizes prepared ! 2) @ [LF]
     @ ''dtb_size='' @ show_nat (sizes prepared ! 3) @ [LF]
     @ ''initramfs_size='' @ show_nat (sizes prepared ! 4) @ [LF]"

fun send_artifacts ::
    "(nat \<Rightarrow> bytes) \<Rightarrow> int \<Rightarrow> nat \<Rightarrow> nat \<Rightarrow> (string \<times> nat \<times> nat) list \<Rightarrow> (conn, unit) io" where
  "send_artifacts file deadline total_bytes so_far [] = ret ()"
| "send_artifacts file deadline total_bytes so_far ((name, d, expected) # rest) =
     bind_io (file_seek d) (\<lambda>_.
     bind_io (send_artifact file d deadline expected) (\<lambda>_.
     bind_io (file_read file d 1) (\<lambda>extra.
     bind_io (when_raise (extra \<noteq> []) (ServerRefusal ''opened artifact became oversized'')) (\<lambda>_.
     bind_io (report name (so_far + expected) total_bytes) (\<lambda>_.
     send_artifacts file deadline total_bytes (so_far + expected) rest)))))"

definition serve_connection ::
    "(nat \<Rightarrow> bytes) \<Rightarrow> prepared_bundle \<Rightarrow> int \<Rightarrow> (conn, unit) io" where
  "serve_connection file prepared deadline =
     bind_io (receive_request prepared deadline) (\<lambda>_.
     let total_bytes = sum_list (sizes prepared) in
     bind_io (report ''request-accepted'' 0 total_bytes) (\<lambda>_.
     bind_io (when_raise (length (sizes prepared) \<noteq> 5) (ValueError ''unpack'')) (\<lambda>_.
     let header = response_header prepared in
     bind_io (when_raise (1024 < length header)
                (ServerRefusal ''response header exceeds policy'')) (\<lambda>_.
     bind_io (send_all (nat_be 4 (length header)) deadline) (\<lambda>_.
     bind_io (send_all header deadline) (\<lambda>_.
     bind_io (when_raise (length (descriptors prepared) \<noteq> 5) (ValueError ''zip'')) (\<lambda>_.
     send_artifacts file deadline total_bytes 0
       (zip (map fst server_artifacts) (zip (descriptors prepared) (sizes prepared))))))))))"

subsection \<open>Delivery confirmation\<close>

definition poll_delivery :: "(conn, int \<times> bytes) io" where
  "poll_delivery s =
     (case polls s of
        [] \<Rightarrow> (Inr (0, [CHR 0x01]), s)
      | Poll socket_error tcp_info # rest \<Rightarrow> (Inr (socket_error, tcp_info), s\<lparr>polls := rest\<rparr>)
      | PollFails # rest \<Rightarrow>
          (Inl (ServerRefusal ''response delivery state is unavailable''), s\<lparr>polls := rest\<rparr>))"

lemma poll_delivery_now: "(r, t) = poll_delivery s \<Longrightarrow> now t = now s"
  by (auto simp: poll_delivery_def split: list.splits poll_event.splits)

function confirm_tcp_delivery :: "int \<Rightarrow> (conn, unit) io" where
  "confirm_tcp_delivery deadline s =
     (case poll_delivery s of
        (Inl e, s1) \<Rightarrow> (Inl e, s1)
      | (Inr (socket_error, tcp_info), s1) \<Rightarrow>
          if socket_error \<noteq> 0
          then (Inl (ServerRefusal ''response delivery ended with a socket error''), s1)
          else if length tcp_info \<noteq> 1
          then (Inl (ServerRefusal ''response delivery state is malformed''), s1)
          else if code (hd tcp_info) = 7 then (Inr (), s1)
          else let remaining = deadline - now s1 in
            if remaining \<le> 0
            then (Inl (ServerRefusal ''response delivery was not acknowledged''), s1)
            else confirm_tcp_delivery deadline
                   (s1\<lparr>now := now s1 + min 10000000 remaining\<rparr>))"
  by pat_completeness auto
termination
  by (relation "measure (\<lambda>(deadline, s). nat (deadline - now s))")
    (auto dest: poll_delivery_now)

declare confirm_tcp_delivery.simps [simp del]

subsection \<open>The listener\<close>

type_synonym peer = "string \<times> nat"

datatype accept_event =
    Connects nat peer conn
  | AcceptFails nat

record listener =
  l_now :: int
  pending :: "accept_event list"
  served :: "(peer \<times> conn) list"

definition shutdown_write :: "(conn, unit) io" where
  "shutdown_write s =
     (if half_close_fails s then (Inl (ServerRefusal ''response half-close failed''), s)
      else (Inr (), s))"

text \<open>What \<open>serve_listener\<close> does with an accepted connection of an allowed peer.\<close>

definition serve_accepted ::
    "(nat \<Rightarrow> bytes) \<Rightarrow> prepared_bundle \<Rightarrow> int \<Rightarrow> (conn, unit) io" where
  "serve_accepted file prepared deadline =
     bind_io (serve_connection file prepared deadline) (\<lambda>_.
     bind_io shutdown_write (\<lambda>_. confirm_tcp_delivery deadline))"

function accept_loop ::
    "(nat \<Rightarrow> bytes) \<Rightarrow> prepared_bundle \<Rightarrow> (peer \<Rightarrow> bool) \<Rightarrow> int \<Rightarrow> nat \<Rightarrow> (listener, unit) io" where
  "accept_loop file prepared peer_allowed deadline rejected s =
     (let t = deadline - l_now s in
      if t \<le> 0 then (Inl (ServerRefusal ''transfer deadline expired''), s)
      else case pending s of
        [] \<Rightarrow> (Inl (ServerRefusal ''listener accept failed''), s\<lparr>l_now := l_now s + t\<rparr>)
      | AcceptFails d # rest \<Rightarrow>
          (Inl (ServerRefusal ''listener accept failed''),
           s\<lparr>l_now := l_now s + min (int d) t, pending := rest\<rparr>)
      | Connects d peer c # rest \<Rightarrow>
          if t < int d
          then (Inl (ServerRefusal ''listener accept failed''), s\<lparr>l_now := l_now s + t\<rparr>)
          else let s1 = s\<lparr>l_now := l_now s + int d, pending := rest\<rparr> in
            if \<not> peer_allowed peer then
              if 8 \<le> rejected + 1 then (Inl (ServerRefusal ''too many rejected peers''), s1)
              else accept_loop file prepared peer_allowed deadline (rejected + 1) s1
            else case serve_accepted file prepared deadline (c\<lparr>now := l_now s1\<rparr>) of
              (r, c1) \<Rightarrow> (r, s1\<lparr>l_now := now c1, served := served s1 @ [(peer, c1)]\<rparr>))"
  by pat_completeness auto
termination
  by (relation "measure (\<lambda>(file, prepared, peer_allowed, deadline, rejected, s). length (pending s))")
    auto

declare accept_loop.simps [simp del]

definition serve_listener ::
    "(nat \<Rightarrow> bytes) \<Rightarrow> prepared_bundle \<Rightarrow> (peer \<Rightarrow> bool) \<Rightarrow> nat \<Rightarrow> (listener, unit) io" where
  "serve_listener file prepared peer_allowed timeout_seconds s =
     accept_loop file prepared peer_allowed (l_now s + int timeout_seconds * 1000000000) 0 s"

definition production_peer :: "peer \<Rightarrow> bool" where
  "production_peer peer \<longleftrightarrow> fst peer = ''169.254.77.2''"

subsection \<open>What a computation sends\<close>

text \<open>
  \<open>sends p Q m\<close>: whatever happens, \<open>m\<close> adds a prefix of \<open>p\<close> to what was sent, and when it
  returns it has sent all of \<open>p\<close> and \<open>Q\<close> holds.
\<close>

definition sends :: "bytes \<Rightarrow> bool \<Rightarrow> (conn, 'a) io \<Rightarrow> bool" where
  "sends p Q m \<longleftrightarrow>
     (\<forall>s r t. m s = (r, t) \<longrightarrow>
        (\<exists>q. sent t = sent s @ q \<and> prefix q p \<and> (\<not> isl r \<longrightarrow> q = p \<and> Q)))"

lemma sendsI:
  assumes "\<And>s r t. m s = (r, t) \<Longrightarrow>
      \<exists>q. sent t = sent s @ q \<and> prefix q p \<and> (\<not> isl r \<longrightarrow> q = p \<and> Q)"
  shows "sends p Q m"
  using assms by (simp add: sends_def)

lemma sendsD:
  assumes "sends p Q m" and "m s = (r, t)"
  obtains q where "sent t = sent s @ q" "prefix q p" "\<not> isl r \<longrightarrow> q = p \<and> Q"
  using assms unfolding sends_def by blast

lemma sends_bind:
  assumes m: "sends p Q m" and f: "\<And>x. Q \<Longrightarrow> sends q R (f x)"
  shows "sends (p @ q) R (bind_io m f)"
proof (rule sendsI)
  fix s r t assume run: "bind_io m f s = (r, t)"
  obtain r1 s1 where m1: "m s = (r1, s1)" by (cases "m s")
  from m m1 obtain a where a: "sent s1 = sent s @ a" "prefix a p" "\<not> isl r1 \<longrightarrow> a = p \<and> Q"
    by (rule sendsD)
  show "\<exists>b. sent t = sent s @ b \<and> prefix b (p @ q) \<and> (\<not> isl r \<longrightarrow> b = p @ q \<and> R)"
  proof (cases r1)
    case (Inl e)
    with run m1 have "r = Inl e" "t = s1" by simp_all
    with a show ?thesis by (auto intro: prefix_prefix)
  next
    case (Inr x)
    with a have Q and p: "a = p" by simp_all
    from run m1 Inr have fx: "f x s1 = (r, t)" by simp
    from f [OF \<open>Q\<close>] fx obtain b where "sent t = sent s1 @ b" "prefix b q"
      "\<not> isl r \<longrightarrow> b = q \<and> R" by (rule sendsD)
    with a p show ?thesis by (intro exI [of _ "p @ b"]) auto
  qed
qed

lemma sends_silent_bind:
  assumes "sends [] Q m" and "\<And>x. Q \<Longrightarrow> sends q R (f x)"
  shows "sends q R (bind_io m f)"
  using sends_bind [OF assms] by simp

lemma sends_weaken: "sends p Q m \<Longrightarrow> (Q \<Longrightarrow> R) \<Longrightarrow> sends p R m"
  unfolding sends_def by blast

lemma sends_silent:
  assumes "\<And>s r t. m s = (r, t) \<Longrightarrow> sent t = sent s \<and> (\<not> isl r \<longrightarrow> Q)"
  shows "sends [] Q m"
  using assms by (intro sendsI) auto

lemma sends_ret: "sends [] True (ret x)"
  by (rule sends_silent) (simp add: ret_def)

lemma sends_when_raise: "sends [] (\<not> b) (when_raise b e)"
  by (rule sends_silent) (auto simp: when_raise_def)

lemma sends_lift_result: "sends [] True (lift_result r)"
  by (rule sends_silent) (simp add: lift_result_def)

lemma sends_report: "sends [] True (report a b c)"
  by (rule sends_silent) (auto simp: report_def modify_def)

lemma sends_file_seek: "sends [] True (file_seek d)"
  by (rule sends_silent) (auto simp: file_seek_def modify_def)

lemma sends_file_read: "sends [] True (file_read file d n)"
  by (rule sends_silent) (auto simp: file_read_def Let_def)

lemma sends_remaining_timeout: "sends [] True (remaining_timeout deadline)"
  by (rule sends_silent) (auto simp: remaining_timeout_def Let_def split: if_splits)

lemma sends_try_except_raise:
  assumes "sends p Q m"
  shows "sends p Q (try_except m (\<lambda>_. raise e))"
proof (rule sendsI)
  fix s r t assume run: "try_except m (\<lambda>_. raise e) s = (r, t)"
  obtain r1 s1 where m: "m s = (r1, s1)" by (cases "m s")
  from assms m obtain q where "sent s1 = sent s @ q" "prefix q p" "\<not> isl r1 \<longrightarrow> q = p \<and> Q"
    by (rule sendsD)
  with run m show "\<exists>q. sent t = sent s @ q \<and> prefix q p \<and> (\<not> isl r \<longrightarrow> q = p \<and> Q)"
    by (cases r1) (auto simp: try_except_def raise_def)
qed

lemma sock_recv_sent: "sock_recv t n s = (r, u) \<Longrightarrow> sent u = sent s"
  by (auto simp: sock_recv_def timed_out_def split: list.splits recv_event.splits if_splits)

lemma sends_sock_recv: "sends [] True (sock_recv t n)"
  by (rule sends_silent) (simp add: sock_recv_sent)

lemma remaining_timeout_state: "remaining_timeout deadline s = (r, u) \<Longrightarrow> u = s"
  by (auto simp: remaining_timeout_def Let_def split: if_splits)

lemma receive_from_sent: "receive_from wanted deadline received s = (r, t) \<Longrightarrow> sent t = sent s"
proof (induction wanted deadline received s arbitrary: r t rule: receive_from.induct)
  case (1 wanted deadline received s)
  from 1 show ?case
    by (subst (asm) (2) receive_from.simps)
      (auto split: if_splits prod.splits sum.splits dest!: remaining_timeout_state
        dest: sock_recv_sent)
qed

lemma sends_receive_exact: "sends [] True (receive_exact n deadline)"
  by (rule sends_silent) (auto simp: receive_exact_def dest: receive_from_sent)

lemma sends_receive_request: "sends [] True (receive_request prepared deadline)"
  unfolding receive_request_def Let_def
  by (intro sends_silent_bind [OF sends_receive_exact] sends_silent_bind [OF sends_when_raise]
      sends_silent_bind [OF sends_lift_result] sends_silent_bind [OF sends_remaining_timeout]
      sends_silent_bind [OF sends_try_except_raise [OF sends_sock_recv]]
      sends_weaken [OF sends_when_raise]) simp

lemma sock_send_effect:
  assumes "sock_send t payload s = (r, u)"
  shows "positions u = positions s"
    and "\<exists>q. sent u = sent s @ q \<and> prefix q payload \<and> (\<forall>n. r = Inr n \<longrightarrow> q = take n payload \<and> n \<le> length payload)"
proof -
  show "positions u = positions s"
    using assms by (auto simp: sock_send_def timed_out_def Let_def
        split: list.splits send_event.splits if_splits)
  show "\<exists>q. sent u = sent s @ q \<and> prefix q payload \<and> (\<forall>n. r = Inr n \<longrightarrow> q = take n payload \<and> n \<le> length payload)"
    using assms by (auto simp: sock_send_def timed_out_def Let_def take_is_prefix
        split: list.splits send_event.splits if_splits)
qed

lemma send_from_effect:
  assumes "send_from payload deadline offset s = (r, t)"
  shows "positions t = positions s \<and>
    (\<exists>q. sent t = sent s @ q \<and> prefix q (drop offset payload) \<and> (\<not> isl r \<longrightarrow> q = drop offset payload))"
  using assms
proof (induction payload deadline offset s arbitrary: r t rule: send_from.induct)
  case (1 payload deadline offset s)
  show ?case
  proof (cases "offset < length payload")
    case False
    with 1(2) show ?thesis by (simp add: send_from.simps [of payload])
  next
    case True
    obtain r1 s1 where t1: "remaining_timeout deadline s = (r1, s1)" by fastforce
    then have s1: "s1 = s" by (rule remaining_timeout_state)
    show ?thesis
    proof (cases r1)
      case (Inl e)
      with 1(2) True t1 s1 show ?thesis by (auto simp: send_from.simps [of payload])
    next
      case (Inr remaining)
      obtain r2 s2 where t2: "sock_send remaining (drop offset payload) s = (r2, s2)" by fastforce
      from sock_send_effect [OF t2] obtain q where q: "positions s2 = positions s"
        "sent s2 = sent s @ q" "prefix q (drop offset payload)"
        "\<And>n. r2 = Inr n \<Longrightarrow> q = take n (drop offset payload) \<and> n \<le> length payload - offset"
        by auto
      show ?thesis
      proof (cases "\<exists>n. r2 = Inr n \<and> 0 < n")
        case False
        with 1(2) True t1 s1 Inr t2 have "t = s2" "isl r"
          by (auto simp: send_from.simps [of payload] split: sum.splits if_splits)
        with q show ?thesis by auto
      next
        case True
        then obtain n where n: "r2 = Inr n" "0 < n" by blast
        with 1(2) \<open>offset < length payload\<close> t1 s1 Inr t2
        have rec: "send_from payload deadline (offset + n) s2 = (r, t)"
          by (simp add: send_from.simps [of payload])
        have "(r2, s2) = sock_send remaining (drop offset payload) s1" using t2 s1 by simp
        from 1(1) [OF \<open>offset < length payload\<close> t1 [symmetric] Inr this n(1) _ rec] n(2)
        obtain q' where q': "positions t = positions s2" "sent t = sent s2 @ q'"
          "prefix q' (drop (offset + n) payload)" "\<not> isl r \<longrightarrow> q' = drop (offset + n) payload"
          by auto
        have split: "drop offset payload = take n (drop offset payload) @ drop (offset + n) payload"
          by (metis append_take_drop_id add.commute drop_drop)
        from q(4) [OF n(1)] have "q = take n (drop offset payload)" by simp
        with q q' split show ?thesis by (intro conjI exI [of _ "q @ q'"]) (auto, metis same_prefix_prefix)
      qed
    qed
  qed
qed

lemma sends_send_all: "sends payload True (send_all payload deadline)"
  by (rule sendsI) (auto simp: send_all_def dest!: send_from_effect)

lemma send_all_positions: "send_all payload deadline s = (r, t) \<Longrightarrow> positions t = positions s"
  by (auto simp: send_all_def dest!: send_from_effect)

lemma send_artifact_effect:
  assumes "send_artifact file d deadline remaining s = (r, t)"
  shows "\<exists>q. sent t = sent s @ q \<and> prefix q (take remaining (drop (positions s d) (file d))) \<and>
    (\<not> isl r \<longrightarrow> q = take remaining (drop (positions s d) (file d))
       \<and> remaining \<le> length (file d) - positions s d \<and> positions t d = positions s d + remaining)"
  using assms
proof (induction "file" d deadline remaining s arbitrary: r t rule: send_artifact.induct)
  case (1 "file" d deadline remaining s)
  let ?rest = "drop (positions s d) (file d)"
  define block where "block = take (min (1024 * 1024) remaining) ?rest"
  define s1 where "s1 = s\<lparr>positions := (positions s)(d := positions s d + length block)\<rparr>"
  have read: "file_read file d (min (1024 * 1024) remaining) s = (Inr block, s1)"
    by (simp add: file_read_def Let_def block_def s1_def)
  have s1: "sent s1 = sent s" "positions s1 d = positions s d + length block"
    by (simp_all add: s1_def)
  have len: "length block \<le> remaining" "length block \<le> length (file d) - positions s d"
    by (simp_all add: block_def)
  have block_take: "block = take (length block) ?rest"
    unfolding block_def by (metis length_take min.commute take_all_iff take_take nle_le min_def)
  then have pre: "prefix block (take remaining ?rest)"
    by (metis len(1) min.absorb1 take_is_prefix take_take)
  show ?case
  proof (cases "remaining = 0")
    case True
    with 1(2) show ?thesis by (simp add: send_artifact.simps [of "file"])
  next
    case rem: False
    show ?thesis
    proof (cases "block = []")
      case True
      with 1(2) rem read have "t = s1" "isl r"
        by (simp_all add: send_artifact.simps [of "file"], auto)
      with s1 show ?thesis by auto
    next
      case block: False
      obtain r2 s2 where snd: "send_all block deadline s1 = (r2, s2)" by fastforce
      from sends_send_all snd obtain q where q: "sent s2 = sent s1 @ q" "prefix q block"
        "\<not> isl r2 \<longrightarrow> q = block \<and> True" by (rule sendsD)
      show ?thesis
      proof (cases r2)
        case (Inl e)
        with 1(2) rem read block snd have "t = s2" "isl r"
          by (simp_all add: send_artifact.simps [of "file"], auto)
        with q s1 pre show ?thesis by (auto intro: prefix_order.trans)
      next
        case (Inr u)
        with 1(2) rem read block snd
        have rec: "send_artifact file d deadline (remaining - length block) s2 = (r, t)"
          by (simp add: send_artifact.simps [of "file"])
        have pos: "positions s2 d = positions s d + length block"
          using send_all_positions [OF snd] s1 by simp
        from 1(1) [OF rem read [symmetric] refl block snd [symmetric] Inr rec]
        obtain q' where q': "sent t = sent s2 @ q'"
          "prefix q' (take (remaining - length block) (drop (positions s2 d) (file d)))"
          "\<not> isl r \<longrightarrow> q' = take (remaining - length block) (drop (positions s2 d) (file d))
             \<and> remaining - length block \<le> length (file d) - positions s2 d
             \<and> positions t d = positions s2 d + (remaining - length block)"
          by blast
        have "drop (length block) ?rest = drop (positions s2 d) (file d)"
          by (simp add: pos add.commute)
        then have split: "take remaining ?rest =
            block @ take (remaining - length block) (drop (positions s2 d) (file d))"
          using len(1) block_take by (metis le_add_diff_inverse take_add)
        show ?thesis
          unfolding split using q q' s1 Inr pos len by (intro exI [of _ "block @ q'"]) auto
      qed
    qed
  qed
qed

text \<open>One artifact: its first \<open>n\<close> bytes, and on success the file is exactly \<open>n\<close> bytes long.\<close>

lemma sends_one_artifact:
  assumes rest: "\<And>x. length (file d) = n \<Longrightarrow> sends q R (k x)"
  shows "sends (take n (file d) @ q) R
    (bind_io (file_seek d) (\<lambda>_. bind_io (send_artifact file d deadline n) (\<lambda>_.
     bind_io (file_read file d 1) (\<lambda>extra. bind_io (when_raise (extra \<noteq> []) e) k))))"
proof -
  let ?m = "bind_io (file_seek d) (\<lambda>_. bind_io (send_artifact file d deadline n) (\<lambda>_.
      bind_io (file_read file d 1) (\<lambda>extra. when_raise (extra \<noteq> []) e)))"
  have "sends (take n (file d)) (length (file d) = n) ?m"
  proof (rule sendsI)
    fix s r t assume run: "?m s = (r, t)"
    let ?s1 = "s\<lparr>positions := (positions s)(d := 0)\<rparr>"
    obtain r2 s2 where art: "send_artifact file d deadline n ?s1 = (r2, s2)" by fastforce
    have seek: "file_seek d s = (Inr (), ?s1)" by (simp add: file_seek_def modify_def)
    from send_artifact_effect [OF art] obtain q where q: "sent s2 = sent s @ q"
      "prefix q (take n (file d))"
      "\<not> isl r2 \<longrightarrow> q = take n (file d) \<and> n \<le> length (file d) \<and> positions s2 d = n"
      by auto
    show "\<exists>q. sent t = sent s @ q \<and> prefix q (take n (file d)) \<and>
        (\<not> isl r \<longrightarrow> q = take n (file d) \<and> length (file d) = n)"
    proof (cases r2)
      case (Inl x)
      with run seek art have "t = s2" "isl r" by auto
      with q show ?thesis by auto
    next
      case (Inr x)
      with run seek art q have "sent t = sent s2" "\<not> isl r \<longrightarrow> length (file d) \<le> n"
        by (auto simp: bind_io_def file_read_def Let_def when_raise_def split: if_splits)
      with q Inr show ?thesis by auto
    qed
  qed
  from sends_bind [OF this rest] show ?thesis by (simp add: bind_io_assoc)
qed

definition artifact_bytes :: "(nat \<Rightarrow> bytes) \<Rightarrow> (string \<times> nat \<times> nat) list \<Rightarrow> bytes" where
  "artifact_bytes file arts = concat (map (\<lambda>(name, d, n). take n (file d)) arts)"

lemma sends_send_artifacts:
  "sends (artifact_bytes file arts) (\<forall>(name, d, n) \<in> set arts. length (file d) = n)
     (send_artifacts file deadline total_bytes so_far arts)"
proof (induction arts arbitrary: so_far)
  case Nil
  then show ?case by (auto simp: artifact_bytes_def intro: sends_weaken [OF sends_ret])
next
  case (Cons a arts)
  obtain name d n where a: "a = (name, d, n)" by (cases a)
  have "sends (take n (file d) @ artifact_bytes file arts)
      (length (file d) = n \<and> (\<forall>(name, d, n) \<in> set arts. length (file d) = n))
      (send_artifacts file deadline total_bytes so_far ((name, d, n) # arts))"
    unfolding send_artifacts.simps
    by (rule sends_one_artifact, rule sends_silent_bind [OF sends_report],
        rule sends_weaken [OF Cons.IH]) simp
  then show ?case by (auto simp: a artifact_bytes_def intro: sends_weaken)
qed

definition response :: "(nat \<Rightarrow> bytes) \<Rightarrow> prepared_bundle \<Rightarrow> bytes" where
  "response file prepared =
     nat_be 4 (length (response_header prepared)) @ response_header prepared @
     artifact_bytes file
       (zip (map fst server_artifacts) (zip (descriptors prepared) (sizes prepared)))"

lemma sends_serve_connection:
  "sends (response file prepared)
     (length (descriptors prepared) = 5 \<and> length (response_header prepared) \<le> 1024
      \<and> sizes prepared = map (length \<circ> file) (descriptors prepared))
     (serve_connection file prepared deadline)"
proof -
  let ?arts = "zip (map fst server_artifacts) (zip (descriptors prepared) (sizes prepared))"
  have arts: "sizes prepared = map (length \<circ> file) (descriptors prepared)"
    if "length (sizes prepared) = 5" "length (descriptors prepared) = 5"
      "\<forall>(name, d, n) \<in> set ?arts. length (file d) = n"
  proof -
    have five: "length (map fst server_artifacts) = 5" by (simp add: server_artifacts_def)
    have "length (file (descriptors prepared ! i)) = sizes prepared ! i" if "i < 5" for i
    proof -
      have "?arts ! i \<in> set ?arts" using that five \<open>length (sizes prepared) = 5\<close>
          \<open>length (descriptors prepared) = 5\<close> by (intro nth_mem) simp
      then show ?thesis
        using that five \<open>length (sizes prepared) = 5\<close> \<open>length (descriptors prepared) = 5\<close>
          \<open>\<forall>(name, d, n) \<in> set ?arts. length (file d) = n\<close> by (auto simp: nth_zip)
    qed
    with that show ?thesis by (intro nth_equalityI) auto
  qed
  show ?thesis
    unfolding serve_connection_def Let_def response_def
    by (rule sends_silent_bind [OF sends_receive_request], rule sends_silent_bind [OF sends_report],
        rule sends_silent_bind [OF sends_when_raise], rule sends_silent_bind [OF sends_when_raise],
        rule sends_bind [OF sends_send_all], rule sends_bind [OF sends_send_all],
        rule sends_silent_bind [OF sends_when_raise],
        rule sends_weaken [OF sends_send_artifacts]) (use arts in auto)
qed

subsection \<open>What a request consumes\<close>

text \<open>The bytes the peer sends before it stops or fails.\<close>

fun stream :: "recv_event list \<Rightarrow> bytes" where
  "stream (Chunk d bs # rest) = (if bs = [] then [] else bs @ stream rest)"
| "stream _ = []"

lemma sock_recv_stream:
  assumes "sock_recv t n s = (Inr block, u)"
  shows "stream (inbox s) = block @ stream (inbox u) \<and> length block \<le> n"
  using assms
  by (auto simp: sock_recv_def timed_out_def split: list.splits recv_event.splits if_splits)

lemma receive_from_stream:
  assumes "receive_from wanted deadline received s = (Inr out, t)" and "length received \<le> wanted"
  shows "\<exists>got. out = received @ got \<and> length out = wanted \<and> stream (inbox s) = got @ stream (inbox t)"
  using assms
proof (induction wanted deadline received s arbitrary: out t rule: receive_from.induct)
  case (1 wanted deadline received s)
  show ?case
  proof (cases "length received < wanted")
    case False
    with "1.prems" show ?thesis by (simp add: receive_from.simps [of wanted])
  next
    case True
    with "1.prems"(1) obtain r block s2 where steps: "remaining_timeout deadline s = (Inr r, s)"
      "sock_recv r (wanted - length received) s = (Inr block, s2)" "block \<noteq> []"
      "receive_from wanted deadline (received @ block) s2 = (Inr out, t)"
      by (subst (asm) receive_from.simps)
        (auto split: prod.splits sum.splits if_splits dest: remaining_timeout_state)
    from sock_recv_stream [OF steps(2)] have st: "stream (inbox s) = block @ stream (inbox s2)"
      and len: "length (received @ block) \<le> wanted" using True by auto
    from "1.IH" [OF True steps(1) [symmetric] refl steps(2) [symmetric] refl steps(3,4) len]
    show ?thesis using st by auto
  qed
qed

lemma receive_exact_stream:
  assumes "receive_exact n deadline s = (Inr out, t)"
  shows "length out = n" and "stream (inbox s) = out @ stream (inbox t)"
  using receive_from_stream [of n deadline "[]" s out t] assms by (auto simp: receive_exact_def)

text \<open>
  An accepted request: a length frame, a record with the three exact fields of the prepared
  bundle, and then the peer's half-close.
\<close>

lemma receive_request_accepts:
  assumes "receive_request prepared deadline s = (Inr (), t)"
  shows "\<exists>payload. stream (inbox s) = nat_be 4 (length payload) @ payload \<and> length payload \<le> 256
    \<and> server_parse_record payload request_fields =
        Inr [(''format'', ''rog5-fetch-request-v1''), (''bundle'', prepared_id prepared),
             (''manifest_sha256'', prepared_hash prepared)]"
proof -
  from assms obtain pre s1 payload s2 kvs r s3 where
    pre: "receive_exact 4 deadline s = (Inr pre, s1)" and len: "be_nat pre \<le> 256"
    and pay: "receive_exact (be_nat pre) deadline s1 = (Inr payload, s2)"
    and kvs: "server_parse_record payload request_fields = Inr kvs"
    and ids: "field kvs ''format'' = ''rog5-fetch-request-v1''"
      "field kvs ''bundle'' = prepared_id prepared"
      "field kvs ''manifest_sha256'' = prepared_hash prepared"
    and trail: "sock_recv r 1 s2 = (Inr [], s3)"
    unfolding receive_request_def Let_def
    by (auto simp: bind_io_eq_Inr when_raise_def lift_result_def try_except_def raise_def
        split: if_splits prod.splits sum.splits dest!: remaining_timeout_state)
  note st = receive_exact_stream [OF pre] receive_exact_stream [OF pay]
  have "stream (inbox s2) = []"
    using trail by (auto simp: sock_recv_def timed_out_def split: list.splits recv_event.splits if_splits)
  moreover have "pre = nat_be 4 (be_nat pre)" using nat_be_be_nat [of pre] st(1) by simp
  ultimately have "stream (inbox s) = nat_be 4 (length payload) @ payload" using st by simp
  moreover have "kvs = [(''format'', ''rog5-fetch-request-v1''), (''bundle'', prepared_id prepared),
      (''manifest_sha256'', prepared_hash prepared)]"
  proof -
    from request.parse_sound(1) [OF kvs] obtain a b c where
      "kvs = [(''format'', a), (''bundle'', b), (''manifest_sha256'', c)]"
      by (auto simp: request_fields_def map_eq_Cons_conv)
    with ids show ?thesis by (simp add: field_def)
  qed
  ultimately show ?thesis using kvs len st by auto
qed

lemma serve_connection_needs_request:
  assumes "serve_connection file prepared deadline s = (r, t)" and "sent t \<noteq> sent s"
  shows "\<exists>u. receive_request prepared deadline s = (Inr (), u)"
proof -
  obtain q u where req: "receive_request prepared deadline s = (q, u)" by fastforce
  have "sent u = sent s" using sends_receive_request req by (rule sendsD) simp
  with assms req show ?thesis
    by (cases q) (auto simp: serve_connection_def bind_io_def)
qed

subsection \<open>The deadline\<close>

lemma sock_recv_now: "sock_recv t n s = (r, u) \<Longrightarrow> 0 < t \<Longrightarrow> now u \<le> now s + t"
  by (auto simp: sock_recv_def timed_out_def split: list.splits recv_event.splits if_splits)

lemma sock_send_now: "sock_send t p s = (r, u) \<Longrightarrow> 0 < t \<Longrightarrow> now u \<le> now s + t"
  by (auto simp: sock_send_def timed_out_def Let_def split: list.splits send_event.splits if_splits)

lemma remaining_timeout_Inr:
  "remaining_timeout deadline s = (Inr t, u) \<longleftrightarrow> u = s \<and> t = deadline - now s \<and> 0 < t"
  by (auto simp: remaining_timeout_def Let_def)

abbreviation in_time :: "int \<Rightarrow> conn \<Rightarrow> bool" where
  "in_time deadline s \<equiv> now s \<le> deadline"

lemma keeps_receive_exact [keeps_intros]: "keeps (in_time deadline) (receive_exact n deadline)"
proof -
  have "receive_from wanted deadline received s = (r, t) \<Longrightarrow> now s \<le> deadline \<Longrightarrow> now t \<le> deadline"
    for wanted received s r t
  proof (induction wanted deadline received s arbitrary: r t rule: receive_from.induct)
    case (1 wanted deadline received s)
    have recv: "sock_recv (deadline - now s) n s = (q, u) \<Longrightarrow> 0 < deadline - now s \<Longrightarrow> now u \<le> deadline"
      for n q u by (drule (1) sock_recv_now) simp
    from "1.prems" "1.IH" show ?case
      by (subst (asm) receive_from.simps)
        (auto split: if_splits prod.splits sum.splits dest: remaining_timeout_state
          simp: remaining_timeout_Inr dest!: recv)
  qed
  then show ?thesis by (auto simp: receive_exact_def intro: keepsI)
qed

lemma keeps_send_all [keeps_intros]: "keeps (in_time deadline) (send_all payload deadline)"
proof -
  have "send_from payload deadline offset s = (r, t) \<Longrightarrow> now s \<le> deadline \<Longrightarrow> now t \<le> deadline"
    for offset s r t
  proof (induction payload deadline offset s arbitrary: r t rule: send_from.induct)
    case (1 payload deadline offset s)
    have call: "sock_send (deadline - now s) p s = (q, u) \<Longrightarrow> 0 < deadline - now s \<Longrightarrow> now u \<le> deadline"
      for p q u by (drule (1) sock_send_now) simp
    from "1.prems" "1.IH" show ?case
      by (subst (asm) send_from.simps)
        (auto split: if_splits prod.splits sum.splits dest: remaining_timeout_state
          simp: remaining_timeout_Inr dest!: call)
  qed
  then show ?thesis by (auto simp: send_all_def intro: keepsI)
qed

lemma keeps_clock_free [keeps_intros]:
  "keeps (in_time deadline) (report a b c)" "keeps (in_time deadline) (file_seek d)"
  "keeps (in_time deadline) (file_read file d n)" "keeps (in_time deadline) shutdown_write"
  by (auto simp: keeps_def report_def file_seek_def file_read_def modify_def shutdown_write_def Let_def)

lemma keeps_receive_request [keeps_intros]:
  "keeps (in_time deadline) (receive_request prepared deadline)"
proof -
  have last: "keeps (in_time deadline)
      (bind_io (remaining_timeout deadline) (\<lambda>t.
       bind_io (try_except (sock_recv t n) (\<lambda>_. raise e)) (\<lambda>x. when_raise (x \<noteq> []) e')))" for n e e'
  proof (rule keepsI)
    fix s r t
    assume "now s \<le> deadline" and run: "bind_io (remaining_timeout deadline) (\<lambda>t.
       bind_io (try_except (sock_recv t n) (\<lambda>_. raise e)) (\<lambda>x. when_raise (x \<noteq> []) e')) s = (r, t)"
    have "now u \<le> deadline" if "sock_recv (deadline - now s) n s = (q, u)" "now s < deadline" for q u
      using sock_recv_now [OF that(1)] that(2) by simp
    with run \<open>now s \<le> deadline\<close> show "now t \<le> deadline"
      by (auto simp: bind_io_def remaining_timeout_def try_except_def raise_def when_raise_def Let_def
          split: prod.splits sum.splits if_splits)
  qed
  show ?thesis
    unfolding receive_request_def Let_def by (intro keeps_intros last)
qed

lemma keeps_send_artifact [keeps_intros]: "keeps (in_time deadline) (send_artifact file d deadline n)"
proof (rule keepsI)
  fix s r t
  show "send_artifact file d deadline n s = (r, t) \<Longrightarrow> in_time deadline s \<Longrightarrow> in_time deadline t"
  proof (induction "file" d deadline n s arbitrary: r t rule: send_artifact.induct)
    case (1 "file" d deadline n s)
    have call: "send_all p deadline u = (q, v) \<Longrightarrow> now u \<le> deadline \<Longrightarrow> now v \<le> deadline" for p q u v
      using keepsD [OF keeps_send_all] .
    have rd: "file_read file d k s = (q, u) \<Longrightarrow> now u = now s" for k q u
      by (auto simp: file_read_def Let_def)
    from "1.prems" "1.IH" show ?case
      by (subst (asm) send_artifact.simps)
        (auto split: if_splits prod.splits sum.splits dest: rd dest!: call)
  qed
qed

lemma keeps_send_artifacts [keeps_intros]:
  "keeps (in_time deadline) (send_artifacts file deadline total_bytes so_far arts)"
proof (induction arts arbitrary: so_far)
  case Nil
  then show ?case by (auto intro: keeps_intros)
next
  case (Cons a arts)
  then show ?case by (cases a) (auto intro!: keeps_intros)
qed

lemma keeps_serve_connection [keeps_intros]:
  "keeps (in_time deadline) (serve_connection file prepared deadline)"
  unfolding serve_connection_def Let_def by (intro keeps_intros)

lemma keeps_confirm [keeps_intros]: "keeps (in_time deadline) (confirm_tcp_delivery deadline)"
proof (rule keepsI)
  fix s r t
  show "confirm_tcp_delivery deadline s = (r, t) \<Longrightarrow> in_time deadline s \<Longrightarrow> in_time deadline t"
  proof (induction deadline s arbitrary: r t rule: confirm_tcp_delivery.induct)
    case (1 deadline s)
    have poll: "poll_delivery s = (q, u) \<Longrightarrow> now u = now s" for q u
      using poll_delivery_now [of q u s] by simp
    from "1.prems" "1.IH" show ?case
      by (subst (asm) confirm_tcp_delivery.simps)
        (auto simp: Let_def split: if_splits prod.splits sum.splits dest: poll)
  qed
qed

lemma keeps_serve_accepted: "keeps (in_time deadline) (serve_accepted file prepared deadline)"
  unfolding serve_accepted_def by (intro keeps_intros)

subsection \<open>The listener's peers\<close>

text \<open>
  Every outcome of the accept loop serves at most one connection, of an allowed peer; a normal
  return served exactly one, and completely.
\<close>

definition offered :: "accept_event list \<Rightarrow> peer \<Rightarrow> conn \<Rightarrow> bool" where
  "offered events p c \<longleftrightarrow> (\<exists>d c0. Connects d p c0 \<in> set events \<and> c = c0\<lparr>now := now c\<rparr>)"

lemma offered_Cons: "offered events p c \<Longrightarrow> offered (ev # events) p c"
  by (auto simp: offered_def)

lemma accept_loop_allowed:
  assumes "pending s = Connects d p c # rest" "int d \<le> deadline - l_now s" "0 < deadline - l_now s"
    and "peer_allowed p"
    and "serve_accepted file prepared deadline (c\<lparr>now := l_now s + int d\<rparr>) = (q, c1)"
  shows "accept_loop file prepared peer_allowed deadline rejected s =
    (q, s\<lparr>l_now := now c1, pending := rest, served := served s @ [(p, c1)]\<rparr>)"
  using assms by (subst accept_loop.simps) (simp add: Let_def)

lemma accept_loop_rejected:
  assumes "pending s = Connects d p c # rest" "int d \<le> deadline - l_now s" "0 < deadline - l_now s"
    and "\<not> peer_allowed p"
  shows "accept_loop file prepared peer_allowed deadline rejected s =
    (if 8 \<le> rejected + 1
     then (Inl (ServerRefusal ''too many rejected peers''),
           s\<lparr>l_now := l_now s + int d, pending := rest\<rparr>)
     else accept_loop file prepared peer_allowed deadline (rejected + 1)
            (s\<lparr>l_now := l_now s + int d, pending := rest\<rparr>))"
  using assms by (subst accept_loop.simps) (simp add: Let_def)

lemma accept_loop_served:
  assumes "accept_loop file prepared peer_allowed deadline rejected s = (r, t)"
  shows "(served t = served s \<and> isl r) \<or>
    (\<exists>p c c1. served t = served s @ [(p, c1)] \<and> peer_allowed p \<and> now c \<le> deadline
       \<and> offered (pending s) p c \<and> serve_accepted file prepared deadline c = (r, c1))"
  using assms
proof (induction "file" prepared peer_allowed deadline rejected s arbitrary: r t
    rule: accept_loop.induct)
  case (1 "file" prepared peer_allowed deadline rejected s)
  show ?case
  proof (cases "deadline - l_now s \<le> 0 \<or> pending s = [] \<or> (\<exists>d rest. pending s = AcceptFails d # rest)
      \<or> (\<exists>d p c rest. pending s = Connects d p c # rest \<and> deadline - l_now s < int d)")
    case True
    with "1.prems" show ?thesis
      by (subst (asm) accept_loop.simps) (auto simp: Let_def split: if_splits)
  next
    case False
    then obtain d p c rest where pend: "pending s = Connects d p c # rest"
    proof (cases "pending s")
      case Nil
      with False show ?thesis by simp
    next
      case (Cons ev rest)
      with False that show ?thesis by (cases ev) auto
    qed
    with False have time: "int d \<le> deadline - l_now s" "0 < deadline - l_now s" by auto
    define s1 where "s1 = s\<lparr>l_now := l_now s + int d, pending := rest\<rparr>"
    show ?thesis
    proof (cases "peer_allowed p")
      case True
      obtain q c1 where run: "serve_accepted file prepared deadline (c\<lparr>now := l_now s1\<rparr>) = (q, c1)"
        by fastforce
      then have "accept_loop file prepared peer_allowed deadline rejected s =
          (q, s\<lparr>l_now := now c1, pending := rest, served := served s @ [(p, c1)]\<rparr>)"
        by (intro accept_loop_allowed [OF pend time, where peer_allowed = peer_allowed, OF True]) (simp add: s1_def)
      with "1.prems" have "r = q" "served t = served s @ [(p, c1)]" by auto
      with run pend time True show ?thesis
        by (intro disjI2 exI [of _ p] exI [of _ "c\<lparr>now := l_now s1\<rparr>"] exI [of _ c1])
          (auto simp: offered_def s1_def)
    next
      case False
      show ?thesis
      proof (cases "8 \<le> rejected + 1")
        case True
        with "1.prems" accept_loop_rejected [OF pend time, where peer_allowed = peer_allowed, OF False] show ?thesis by auto
      next
        case few: False
        with "1.prems" accept_loop_rejected [OF pend time, where peer_allowed = peer_allowed, OF False]
        have rec: "accept_loop file prepared peer_allowed deadline (rejected + 1) s1 = (r, t)"
          by (simp add: s1_def)
        have "\<not> deadline - l_now s \<le> 0" "\<not> deadline - l_now s < int d" using time by auto
        from "1.IH" [OF refl this(1) pend refl this(2) s1_def False few rec]
        have "served t = served s \<and> isl r \<or>
          (\<exists>p c c1. served t = served s @ [(p, c1)] \<and> peer_allowed p \<and> now c \<le> deadline
             \<and> offered rest p c \<and> serve_accepted file prepared deadline c = (r, c1))"
          by (simp add: s1_def)
        then show ?thesis unfolding pend by (blast intro: offered_Cons)
      qed
    qed
  qed
qed

lemma accept_loop_skip:
  assumes "pending s = map (\<lambda>(d, p, c). Connects d p c) rejects @ rest"
    and "\<forall>(d, p, c) \<in> set rejects. \<not> peer_allowed p"
    and "rejected + length rejects < 8"
    and "l_now s + int (sum_list (map fst rejects)) < deadline"
  shows "accept_loop file prepared peer_allowed deadline rejected s =
    accept_loop file prepared peer_allowed deadline (rejected + length rejects)
      (s\<lparr>l_now := l_now s + int (sum_list (map fst rejects)), pending := rest\<rparr>)"
  using assms
proof (induction rejects arbitrary: s rejected)
  case Nil
  then have "s\<lparr>pending := rest\<rparr> = s" by (cases s) simp
  then show ?case by simp
next
  case (Cons x rejects)
  obtain d p c where x: "x = (d, p, c)" by (cases x)
  let ?s1 = "s\<lparr>l_now := l_now s + int d,
               pending := map (\<lambda>(d, p, c). Connects d p c) rejects @ rest\<rparr>"
  have "accept_loop file prepared peer_allowed deadline rejected s =
      accept_loop file prepared peer_allowed deadline (Suc rejected) ?s1"
    using Cons.prems x by (subst accept_loop.simps) (auto simp: Let_def)
  also have "\<dots> = accept_loop file prepared peer_allowed deadline (Suc rejected + length rejects)
      (?s1\<lparr>l_now := l_now ?s1 + int (sum_list (map fst rejects)), pending := rest\<rparr>)"
    using Cons.prems x by (intro Cons.IH) auto
  finally show ?case by (simp add: x add.assoc)
qed

subsection \<open>The response as the client reads it\<close>

definition response_fields :: "string list" where
  "response_fields = [''format'', ''bundle'', ''manifest_sha256'', ''manifest_size'',
     ''signature_size'', ''kernel_size'', ''dtb_size'', ''initramfs_size'']"

interpretation response: record_format response_fields
  by unfold_locales (auto simp: response_fields_def safe_value_def is_graphic_def)

fun split_sizes :: "nat list \<Rightarrow> bytes \<Rightarrow> bytes list option" where
  "split_sizes [] bs = (if bs = [] then Some [] else None)"
| "split_sizes (n # ns) bs =
     (if length bs < n then None else map_option (Cons (take n bs)) (split_sizes ns (drop n bs)))"

lemma split_sizes_concat: "split_sizes (map length parts) (concat parts) = Some parts"
  by (induction parts) auto

text \<open>A client: read the frame, parse the header, cut the rest at the announced sizes.\<close>

definition decode_response :: "bytes \<Rightarrow> (string \<times> string \<times> bytes list) option" where
  "decode_response bs =
     (let n = be_nat (take 4 bs); rest = drop 4 bs in
      case server_parse_record (take n rest) response_fields of
        Inl _ \<Rightarrow> None
      | Inr kvs \<Rightarrow>
          map_option (\<lambda>parts. (field kvs ''bundle'', field kvs ''manifest_sha256'', parts))
            (split_sizes (map (\<lambda>k. read_nat (field kvs k)) (drop 3 response_fields)) (drop n rest)))"

lemma response_header_record:
  "response_header prepared = show_record
     [(''format'', ''rog5-fetch-response-v1''), (''bundle'', prepared_id prepared),
      (''manifest_sha256'', prepared_hash prepared),
      (''manifest_size'', show_nat (sizes prepared ! 0)),
      (''signature_size'', show_nat (sizes prepared ! 1)),
      (''kernel_size'', show_nat (sizes prepared ! 2)),
      (''dtb_size'', show_nat (sizes prepared ! 3)),
      (''initramfs_size'', show_nat (sizes prepared ! 4))]"
  by (simp add: response_header_def show_record_def record_line_def)

lemma decode_response_correct:
  assumes ids: "safe_value (prepared_id prepared)" "safe_value (prepared_hash prepared)"
    and len: "length (descriptors prepared) = 5"
    and small: "length (response_header prepared) < 256 ^ 4"
    and match: "sizes prepared = map (length \<circ> file) (descriptors prepared)"
  shows "decode_response (response file prepared) =
    Some (prepared_id prepared, prepared_hash prepared, map file (descriptors prepared))"
proof -
  define kvs where "kvs = [(''format'', ''rog5-fetch-response-v1''), (''bundle'', prepared_id prepared),
      (''manifest_sha256'', prepared_hash prepared),
      (''manifest_size'', show_nat (sizes prepared ! 0)),
      (''signature_size'', show_nat (sizes prepared ! 1)),
      (''kernel_size'', show_nat (sizes prepared ! 2)),
      (''dtb_size'', show_nat (sizes prepared ! 3)),
      (''initramfs_size'', show_nat (sizes prepared ! 4))]"
  obtain a b c d e where ds: "descriptors prepared = [a, b, c, d, e]"
    using len by (auto simp: length_Suc_conv eval_nat_numeral)
  have "safe_value ''rog5-fetch-response-v1''" by (simp add: safe_value_def is_graphic_def)
  moreover have "safe_value (show_nat n)" for n
    by (simp add: safe_value_def list_all_iff show_nat_graphic)
  ultimately have parse: "server_parse_record (response_header prepared) response_fields = Inr kvs"
    unfolding response_header_record kvs_def using ids
    by (intro response.parse_show) (simp_all add: response_fields_def)
  have arts: "artifact_bytes file
      (zip (map fst server_artifacts) (zip (descriptors prepared) (sizes prepared)))
      = concat (map file (descriptors prepared))"
    by (simp add: artifact_bytes_def server_artifacts_def ds match)
  have sizes: "map (\<lambda>k. read_nat (field kvs k)) (drop 3 response_fields)
      = map length (map file (descriptors prepared))"
    by (simp add: response_fields_def field_def kvs_def match ds)
  have names: "field kvs ''bundle'' = prepared_id prepared"
    "field kvs ''manifest_sha256'' = prepared_hash prepared"
    by (simp_all add: field_def kvs_def)
  have take: "take 4 (response file prepared) = nat_be 4 (length (response_header prepared))"
    "drop 4 (response file prepared) = response_header prepared @ concat (map file (descriptors prepared))"
    by (simp_all add: response_def arts)
  show ?thesis
    unfolding decode_response_def Let_def take be_nat_be_id [OF small]
    by (simp add: parse sizes names split_sizes_concat del: map_map)
qed

subsection \<open>Composed facts of a served connection\<close>

lemma serve_connection_done:
  assumes "serve_connection file prepared deadline s = (Inr (), t)"
  shows "sent t = sent s @ response file prepared" and "length (descriptors prepared) = 5"
    and "length (response_header prepared) \<le> 1024"
    and "sizes prepared = map (length \<circ> file) (descriptors prepared)"
proof -
  from sends_serve_connection assms obtain q where "sent t = sent s @ q"
    "\<not> isl (Inr () :: unit result) \<longrightarrow> q = response file prepared
       \<and> (length (descriptors prepared) = 5 \<and> length (response_header prepared) \<le> 1024
          \<and> sizes prepared = map (length \<circ> file) (descriptors prepared))"
    by (rule sendsD)
  then show "sent t = sent s @ response file prepared" "length (descriptors prepared) = 5"
    "length (response_header prepared) \<le> 1024"
    "sizes prepared = map (length \<circ> file) (descriptors prepared)"
    by simp_all
qed

lemma serve_accepted_split:
  assumes "serve_accepted file prepared deadline s = (r, t)"
  obtains q u where "serve_connection file prepared deadline s = (q, u)" "sent t = sent u"
    "r = Inr () \<longrightarrow> q = Inr ()"
proof -
  obtain q u where sc: "serve_connection file prepared deadline s = (q, u)" by fastforce
  have half: "shutdown_write a = (x, b) \<Longrightarrow> sent b = sent a" for a b x
    by (auto simp: shutdown_write_def split: if_splits)
  have conf: "confirm_tcp_delivery deadline a = (x, b) \<Longrightarrow> sent b = sent a" for a b x
  proof (induction deadline a arbitrary: x b rule: confirm_tcp_delivery.induct)
    case (1 deadline a)
    have poll: "poll_delivery a = (y, c) \<Longrightarrow> sent c = sent a" for y c
      by (auto simp: poll_delivery_def split: list.splits poll_event.splits)
    from "1.prems" "1.IH" show ?case
      by (subst (asm) confirm_tcp_delivery.simps)
        (auto simp: Let_def split: if_splits prod.splits sum.splits dest: poll)
  qed
  have "sent t = sent u \<and> (r = Inr () \<longrightarrow> q = Inr ())"
    using assms sc
    by (auto simp: serve_accepted_def bind_io_def split: sum.splits prod.splits dest!: half conf)
  with sc that show thesis by blast
qed

lemma serve_accepted_sent:
  assumes "serve_accepted file prepared deadline s = (r, t)"
  shows "\<exists>q. sent t = sent s @ q \<and> prefix q (response file prepared) \<and>
    (r = Inr () \<longrightarrow> q = response file prepared)"
proof -
  from assms obtain r1 u where sc: "serve_connection file prepared deadline s = (r1, u)"
    "sent t = sent u" "r = Inr () \<longrightarrow> r1 = Inr ()" by (rule serve_accepted_split)
  from sends_serve_connection sc(1) obtain q where q: "sent u = sent s @ q"
    "prefix q (response file prepared)"
    by (rule sendsD)
  with sc serve_connection_done(1) [of "file" prepared deadline s u] show ?thesis
    by (intro exI [of _ q]) auto
qed

subsection \<open>Properties of the transfer\<close>

text \<open>
  C2. Whatever the peer, the kernel and the clock do, the bytes one connection is sent are a prefix
  of the one response of the prepared bundle, and none is sent before a well-framed request that
  names exactly this bundle and manifest hash; a connection served to the end was sent the whole
  response, and every artifact still had its recorded size.
\<close>

theorem serve_connection_exact:
  assumes "serve_connection file prepared deadline s = (r, t)"
  shows "\<exists>q. sent t = sent s @ q \<and> prefix q (response file prepared)
    \<and> (q \<noteq> [] \<longrightarrow> (\<exists>payload. stream (inbox s) = nat_be 4 (length payload) @ payload
          \<and> length payload \<le> 256 \<and> server_parse_record payload request_fields =
             Inr [(''format'', ''rog5-fetch-request-v1''), (''bundle'', prepared_id prepared),
                  (''manifest_sha256'', prepared_hash prepared)]))
    \<and> (r = Inr () \<longrightarrow> q = response file prepared
          \<and> sizes prepared = map (length \<circ> file) (descriptors prepared))"
proof -
  from sends_serve_connection assms obtain q where q: "sent t = sent s @ q"
    "prefix q (response file prepared)"
    by (rule sendsD)
  have "q = response file prepared" "sizes prepared = map (length \<circ> file) (descriptors prepared)"
    if "r = Inr ()"
    using serve_connection_done(1,4) [of "file" prepared deadline s t] assms q(1) that by auto
  moreover have "\<exists>u. receive_request prepared deadline s = (Inr (), u)" if "q \<noteq> []"
    using serve_connection_needs_request [OF assms] q(1) that by simp
  ultimately show ?thesis
    using q receive_request_accepts by (intro exI [of _ q]) (auto; blast)
qed

definition demo_prepared :: prepared_bundle where
  "demo_prepared =
     \<lparr>descriptors = [3, 4, 5, 6, 7], sizes = [2, 1, 3, 0, 2], prepared_id = ''b'', prepared_hash = ''h''\<rparr>"

definition demo_file :: "nat \<Rightarrow> bytes" where
  "demo_file d = (if d = 3 then ''mm'' else if d = 4 then ''s'' else if d = 5 then ''iii''
     else if d = 6 then [] else ''rr'')"

definition demo_request :: bytes where
  "demo_request = show_record
     [(''format'', ''rog5-fetch-request-v1''), (''bundle'', ''b''), (''manifest_sha256'', ''h'')]"

definition demo_conn :: conn where
  "demo_conn =
     \<lparr>now = 0, inbox = [Chunk 1 (nat_be 4 (length demo_request)), Chunk 2 demo_request, Chunk 0 []],
      outbox = [Accepts 1 1000, Accepts 1 1000, Accepts 1 1000, Accepts 1 1000, Accepts 1 1000,
                Accepts 1 1000],
      polls = [Poll 0 [CHR 0x01], Poll 0 [CHR 0x07]], half_close_fails = False,
      sent = [], positions = (\<lambda>_. 0), evidence = []\<rparr>"

lemma demo_request_facts:
  "server_parse_record demo_request request_fields =
     Inr [(''format'', ''rog5-fetch-request-v1''), (''bundle'', ''b''), (''manifest_sha256'', ''h'')]"
  "length demo_request = 56" "demo_request \<noteq> []"
proof -
  show "server_parse_record demo_request request_fields =
     Inr [(''format'', ''rog5-fetch-request-v1''), (''bundle'', ''b''), (''manifest_sha256'', ''h'')]"
    unfolding demo_request_def
    by (rule request.parse_show) (simp_all add: request_fields_def safe_value_def is_graphic_def)
  show "length demo_request = 56" by (simp add: demo_request_def show_record_def record_line_def)
  then show "demo_request \<noteq> []" by auto
qed

lemma nat_be_nonempty: "nat_be (Suc k) n \<noteq> []" "nat_be 4 n \<noteq> []"
  using length_nat_be [of 4 n] by (auto simp del: length_nat_be)

lemma demo_conn_fields:
  "now demo_conn = 0" "outbox demo_conn = [Accepts 1 1000, Accepts 1 1000, Accepts 1 1000,
     Accepts 1 1000, Accepts 1 1000, Accepts 1 1000]"
  "polls demo_conn = [Poll 0 [CHR 0x01], Poll 0 [CHR 0x07]]" "half_close_fails demo_conn = False"
  "positions demo_conn = (\<lambda>_. 0)" "sent demo_conn = []"
  by (simp_all add: demo_conn_def)

lemma demo_prepared_fields:
  "descriptors demo_prepared = [3, 4, 5, 6, 7]" "sizes demo_prepared = [2, 1, 3, 0, 2]"
  "response_header demo_prepared \<noteq> []" "length (response_header demo_prepared) = 132"
  by (simp_all add: demo_prepared_def response_header_def show_nat_small)

lemma demo_request_run:
  "receive_request demo_prepared 100 demo_conn =
     (Inr (), demo_conn\<lparr>now := 3, inbox := [Chunk 0 []]\<rparr>)"
  by (simp add: receive_request_def receive_exact_def receive_from.simps bind_io_def demo_conn_def
      remaining_timeout_def sock_recv_def demo_request_facts when_raise_def lift_result_def Let_def
      demo_prepared_def field_def try_except_def nat_be_nonempty)

lemmas serve_run = bind_io_def report_def modify_def when_raise_def send_all_def send_from.simps
  remaining_timeout_def sock_send_def Let_def nat_be_nonempty server_artifacts_def file_seek_def
  send_artifact.simps file_read_def ret_def shutdown_write_def confirm_tcp_delivery.simps
  poll_delivery_def

lemma demo_serve:
  "\<exists>t. serve_connection demo_file demo_prepared 100 demo_conn = (Inr (), t)"
  "\<exists>t. serve_accepted demo_file demo_prepared 100 demo_conn = (Inr (), t)"
  unfolding serve_accepted_def serve_connection_def Let_def
  by (simp_all add: serve_run demo_request_run demo_conn_fields demo_prepared_fields demo_file_def)

theorem serve_connection_exact_witness:
  "\<exists>t. serve_connection demo_file demo_prepared 100 demo_conn = (Inr (), t)
     \<and> sent t = response demo_file demo_prepared"
proof -
  obtain t where t: "serve_connection demo_file demo_prepared 100 demo_conn = (Inr (), t)"
    using demo_serve(1) by blast
  from serve_connection_exact [OF t] t show ?thesis by (auto simp: demo_conn_fields)
qed

lemma served_decodes:
  assumes "serve_connection file prepared deadline s = (Inr (), t)" and "sent s = []"
    and "server_valid_bundle (prepared_id prepared)" and "server_valid_hash (prepared_hash prepared)"
  shows "decode_response (sent t) =
    Some (prepared_id prepared, prepared_hash prepared, map file (descriptors prepared))"
proof -
  note served = serve_connection_done [OF assms(1)]
  have "safe_value (prepared_id prepared)" "safe_value (prepared_hash prepared)"
    using assms(3,4) bundle_id_length [of "prepared_id prepared"]
    by (auto simp: safe_value_def server_valid_bundle_def server_valid_hash_def list_all_iff
        sha256_match_def dest: bundle_id_graphic graphic_classes)
  moreover have "length (response_header prepared) < 256 ^ 4"
    using served(3) by simp
  ultimately show ?thesis using served assms(2) by (simp add: decode_response_correct)
qed

text \<open>
  C3. The response is decodable: a client that reads the length frame, the header record and the
  announced sizes recovers the bundle name, the manifest hash and the five artifacts exactly, for
  every connection that was served to the end.
\<close>

theorem served_response_decodes:
  assumes "serve_connection file prepared deadline s = (Inr (), t)" and "sent s = []"
    and "server_valid_bundle (prepared_id prepared)" and "server_valid_hash (prepared_hash prepared)"
  shows "decode_response (sent t) =
    Some (prepared_id prepared, prepared_hash prepared, map file (descriptors prepared))"
  using assms by (rule served_decodes)

theorem served_response_decodes_witness:
  "\<exists>prepared t. serve_connection demo_file prepared 100
       (demo_conn\<lparr>inbox := [Chunk 0 (nat_be 4 (length (show_record
          [(''format'', ''rog5-fetch-request-v1''), (''bundle'', ''b''),
           (''manifest_sha256'', replicate 64 CHR ''1'')]))),
         Chunk 0 (show_record
          [(''format'', ''rog5-fetch-request-v1''), (''bundle'', ''b''),
           (''manifest_sha256'', replicate 64 CHR ''1'')]), Chunk 0 []]\<rparr>) = (Inr (), t)
     \<and> decode_response (sent t) =
         Some (''b'', replicate 64 CHR ''1'', [''mm'', ''s'', ''iii'', [], ''rr''])"
proof -
  define kvs where "kvs = [(''format'', ''rog5-fetch-request-v1''), (''bundle'', ''b''),
    (''manifest_sha256'', replicate 64 CHR ''1'')]"
  define prepared where "prepared = demo_prepared\<lparr>prepared_hash := replicate 64 CHR ''1''\<rparr>"
  define c where "c = demo_conn\<lparr>inbox := [Chunk 0 (nat_be 4 (length (show_record kvs))),
    Chunk 0 (show_record kvs), Chunk 0 []]\<rparr>"
  have parse: "server_parse_record (show_record kvs) request_fields = Inr kvs"
    by (rule request.parse_show)
      (simp_all add: kvs_def request_fields_def safe_value_def is_graphic_def list_all_iff)
  have len: "length (show_record kvs) = 119" "show_record kvs \<noteq> []"
    by (simp_all add: kvs_def show_record_def record_line_def)
  have hash: "server_valid_hash (replicate 64 CHR ''1'')"
    by (simp add: server_valid_hash_def sha256_match_def zero_hash_def list_all_iff char_class_defs
        replicate_eq_replicate)
  have hdr: "length (response_header prepared) = 195" "response_header prepared \<noteq> []"
    by (simp_all add: prepared_def demo_prepared_def response_header_def show_nat_small)
  have fields: "descriptors prepared = [3, 4, 5, 6, 7]" "sizes prepared = [2, 1, 3, 0, 2]"
    "prepared_id prepared = ''b''" "prepared_hash prepared = replicate 64 CHR ''1''"
    by (simp_all add: prepared_def demo_prepared_def)
  have ids: "field kvs ''format'' = ''rog5-fetch-request-v1''" "field kvs ''bundle'' = ''b''"
    "field kvs ''manifest_sha256'' = replicate 64 CHR ''1''"
    by (simp_all add: kvs_def field_def)
  have req: "receive_request prepared 100 c = (Inr (), c\<lparr>inbox := [Chunk 0 []]\<rparr>)"
    by (simp add: receive_request_def receive_exact_def receive_from.simps bind_io_def c_def
        demo_conn_def remaining_timeout_def sock_recv_def len parse when_raise_def lift_result_def
        Let_def fields ids try_except_def nat_be_nonempty)
  have cf: "now c = 0" "outbox c = outbox demo_conn" "positions c = (\<lambda>_. 0)" "sent c = []"
    by (simp_all add: c_def demo_conn_fields)
  have "\<exists>t. serve_connection demo_file prepared 100 c = (Inr (), t)"
    unfolding serve_connection_def Let_def
    by (simp add: serve_run req cf demo_conn_fields fields hdr demo_file_def)
  then obtain t where run: "serve_connection demo_file prepared 100 c = (Inr (), t)" by blast
  have "server_valid_bundle (prepared_id prepared)"
    by (simp add: fields server_valid_bundle_def bundle_id_match_def char_class_defs)
  from served_response_decodes [OF run cf(4) this] hash
  have "decode_response (sent t) = Some (''b'', replicate 64 CHR ''1'', [''mm'', ''s'', ''iii'', [], ''rr''])"
    by (simp add: fields demo_file_def)
  with run show ?thesis unfolding c_def kvs_def by blast
qed

text \<open>
  C5. The listener serves at most one connection, of an allowed peer, whose bytes are a prefix of the
  response, and it ends every served connection by its deadline; it returns normally only after one
  allowed peer was sent the whole response.
\<close>

theorem serve_listener_sound:
  assumes "serve_listener file prepared peer_allowed timeout_seconds s = (r, t)"
    and "served s = []"
    and "\<forall>d p c. Connects d p c \<in> set (pending s) \<longrightarrow> sent c = []"
  shows "(served t = [] \<and> r \<noteq> Inr ()) \<or>
    (\<exists>p c. served t = [(p, c)] \<and> peer_allowed p \<and> prefix (sent c) (response file prepared)
       \<and> now c \<le> l_now s + int timeout_seconds * 1000000000
       \<and> (r = Inr () \<longrightarrow> sent c = response file prepared))"
proof -
  let ?deadline = "l_now s + int timeout_seconds * 1000000000"
  have run: "accept_loop file prepared peer_allowed ?deadline 0 s = (r, t)"
    using assms(1) by (simp add: serve_listener_def)
  show ?thesis
  proof (rule disjE [OF accept_loop_served [OF run]])
    assume "served t = served s \<and> isl r"
    with assms(2) show ?thesis by auto
  next
    assume "\<exists>p c c1. served t = served s @ [(p, c1)] \<and> peer_allowed p \<and> now c \<le> ?deadline
       \<and> offered (pending s) p c \<and> serve_accepted file prepared ?deadline c = (r, c1)"
    then obtain p c c1 where c: "served t = served s @ [(p, c1)]" "peer_allowed p"
      "now c \<le> ?deadline" "offered (pending s) p c"
      "serve_accepted file prepared ?deadline c = (r, c1)" by blast
    from c(4) obtain d c0 where c0: "Connects d p c0 \<in> set (pending s)" "c = c0\<lparr>now := now c\<rparr>"
      by (auto simp: offered_def)
    have "sent c = sent c0" by (subst c0(2)) simp
    moreover have "sent c0 = []" using assms(3) c0(1) by blast
    ultimately have "sent c = []" by simp
    with serve_accepted_sent [OF c(5)] have "prefix (sent c1) (response file prepared)"
      "r = Inr () \<longrightarrow> sent c1 = response file prepared" by auto
    moreover have "now c1 \<le> ?deadline" using keepsD [OF keeps_serve_accepted c(3,5)] .
    ultimately show ?thesis using c(1,2) assms(2) by auto
  qed
qed

definition demo_listener :: listener where
  "demo_listener =
     \<lparr>l_now = 0, pending = [Connects 0 (''10.0.0.1'', 9) demo_conn,
                            Connects 0 (''169.254.77.2'', 40000) demo_conn], served = []\<rparr>"

lemma demo_serve_long:
  "\<exists>t. serve_accepted demo_file demo_prepared 195000000000 (demo_conn\<lparr>now := 0\<rparr>) = (Inr (), t)"
proof -
  have [simp]: "demo_conn\<lparr>now := 0\<rparr> = demo_conn" by (simp add: demo_conn_def)
  have "receive_request demo_prepared 195000000000 demo_conn =
      (Inr (), demo_conn\<lparr>now := 3, inbox := [Chunk 0 []]\<rparr>)"
    by (simp add: receive_request_def receive_exact_def receive_from.simps bind_io_def demo_conn_def
        remaining_timeout_def sock_recv_def demo_request_facts when_raise_def lift_result_def Let_def
        demo_prepared_def field_def try_except_def nat_be_nonempty)
  then show ?thesis
    unfolding serve_accepted_def serve_connection_def Let_def
    by (simp add: serve_run demo_conn_fields demo_prepared_fields demo_file_def)
qed

lemma demo_listener_run:
  "\<exists>t. serve_listener demo_file demo_prepared production_peer 195 demo_listener = (Inr (), t)"
proof -
  obtain c where c: "serve_accepted demo_file demo_prepared 195000000000 (demo_conn\<lparr>now := 0\<rparr>)
      = (Inr (), c)" using demo_serve_long by blast
  show ?thesis
    by (simp add: serve_listener_def demo_listener_def accept_loop.simps production_peer_def Let_def c)
qed

theorem serve_listener_sound_witness:
  "\<exists>t c. serve_listener demo_file demo_prepared production_peer 195 demo_listener = (Inr (), t)
     \<and> served t = [((''169.254.77.2'', 40000), c)] \<and> sent c = response demo_file demo_prepared"
proof -
  obtain t where t: "serve_listener demo_file demo_prepared production_peer 195 demo_listener
      = (Inr (), t)" using demo_listener_run by blast
  have fresh: "\<forall>d p c. Connects d p c \<in> set (pending demo_listener) \<longrightarrow> sent c = []"
    by (auto simp: demo_listener_def demo_conn_fields)
  have "served demo_listener = []" by (simp add: demo_listener_def)
  from serve_listener_sound [OF t this fresh] obtain p c where c: "served t = [(p, c)]"
    "production_peer p" "sent c = response demo_file demo_prepared" by auto
  have "offered (pending demo_listener) p (c0 :: conn) \<Longrightarrow> production_peer p \<Longrightarrow>
      p = (''169.254.77.2'', 40000)" for c0
    by (auto simp: offered_def demo_listener_def production_peer_def)
  moreover have "\<exists>c0. offered (pending demo_listener) p c0"
    using accept_loop_served [of demo_file demo_prepared production_peer 195000000000 0 demo_listener
        "Inr ()" t] t c(1) by (auto simp: serve_listener_def demo_listener_def)
  ultimately have "p = (''169.254.77.2'', 40000)" using c(2) by blast
  with t c show ?thesis by auto
qed

text \<open>
  C8. Strangers cannot keep the phone out, up to the limit: after fewer than eight rejected peers the
  listener serves the first allowed one exactly as if it had come first, and the eighth rejection ends
  the run with the stated refusal.
\<close>

theorem serve_listener_rejections:
  assumes "pending s = map (\<lambda>(d, p, c). Connects d p c) rejects @ Connects d p c # rest"
    and "\<forall>(d, p, c) \<in> set rejects. \<not> peer_allowed p" and "peer_allowed p"
    and "sum_list (map fst rejects) + d < timeout_seconds * 1000000000"
  shows "fst (serve_listener file prepared peer_allowed timeout_seconds s) =
    (if length rejects < 8
     then fst (serve_accepted file prepared (l_now s + int timeout_seconds * 1000000000)
                 (c\<lparr>now := l_now s + int (sum_list (map fst rejects) + d)\<rparr>))
     else Inl (ServerRefusal ''too many rejected peers''))"
proof (cases "length rejects < 8")
  case True
  let ?deadline = "l_now s + int timeout_seconds * 1000000000"
  let ?s1 = "s\<lparr>l_now := l_now s + int (sum_list (map fst rejects)), pending := Connects d p c # rest\<rparr>"
  have less: "int (sum_list (map fst rejects) + d) < int timeout_seconds * 1000000000"
    using assms(4) by linarith
  have "serve_listener file prepared peer_allowed timeout_seconds s =
      accept_loop file prepared peer_allowed ?deadline (length rejects) ?s1"
    unfolding serve_listener_def using accept_loop_skip [OF assms(1,2), of 0] True less by simp
  moreover obtain q c1 where run: "serve_accepted file prepared ?deadline
      (c\<lparr>now := l_now s + int (sum_list (map fst rejects) + d)\<rparr>) = (q, c1)" by fastforce
  then have "fst (accept_loop file prepared peer_allowed ?deadline (length rejects) ?s1) = q"
    using less by (subst accept_loop_allowed [where d = d and p = p and c = c and q = q and ?c1.0 = c1])
      (simp_all add: assms(3) add.assoc)
  ultimately show ?thesis using True run by simp
next
  case False
  let ?deadline = "l_now s + int timeout_seconds * 1000000000"
  define front where "front = take 7 rejects"
  define later where "later = drop 7 rejects"
  from False obtain x more where later: "later = x # more"
    by (cases later) (auto simp: later_def)
  obtain d' p' c' where x: "x = (d', p', c')" by (cases x)
  have rejects: "rejects = front @ (d', p', c') # more"
    by (metis append_take_drop_id later later_def front_def x)
  have seven: "length front = 7" using False by (simp add: front_def)
  have less: "int (sum_list (map fst front)) + int d' < int timeout_seconds * 1000000000"
    using assms(4) by (simp add: rejects)
  let ?s1 = "s\<lparr>l_now := l_now s + int (sum_list (map fst front)), pending := Connects d' p' c' #
    map (\<lambda>(d, p, c). Connects d p c) more @ Connects d p c # rest\<rparr>"
  have "serve_listener file prepared peer_allowed timeout_seconds s =
      accept_loop file prepared peer_allowed ?deadline 7 ?s1"
    unfolding serve_listener_def
    using accept_loop_skip [of s front _ peer_allowed 0] assms(1,2) seven less
    by (simp add: rejects)
  moreover have "fst (accept_loop file prepared peer_allowed ?deadline 7 ?s1) =
      Inl (ServerRefusal ''too many rejected peers'')"
    using less assms(2)
    by (subst accept_loop_rejected [where d = d' and p = p' and c = c']) (auto simp: rejects)
  ultimately show ?thesis using False by simp
qed

theorem serve_listener_rejections_witness:
  "fst (serve_listener demo_file demo_prepared production_peer 195 demo_listener) = Inr ()"
proof -
  have "fst (serve_listener demo_file demo_prepared production_peer 195 demo_listener) =
      fst (serve_accepted demo_file demo_prepared 195000000000 (demo_conn\<lparr>now := 0\<rparr>))"
    using serve_listener_rejections [of demo_listener "[(0, (''10.0.0.1'', 9), demo_conn)]" 0
        "(''169.254.77.2'', 40000)" demo_conn "[]" production_peer 195 demo_file demo_prepared]
    by (simp add: demo_listener_def production_peer_def)
  with demo_serve_long show ?thesis by auto
qed

end
