(* ===== verification/Packager_Config.thy ===== *)
theory Packager_Config
  imports Py_Text
begin

section \<open>The packager's configuration and manifest text\<close>

text \<open>
  Models the pure part of \<^verbatim>\<open>scripts/host/prepare-recovery-runtime-bundle.py\<close>: the frozen
  \<open>Configuration\<close> (each field with the prefix \<open>cfg_\<close>), its predicates and decimal parser, \<open>validate_configuration\<close> and
  \<open>manifest_bytes\<close>. A \<open>Path\<close> is its text.
\<close>

record configuration =
  cfg_bundle :: string
  cfg_profile :: string
  cfg_image :: string
  cfg_dtb :: string
  cfg_initramfs :: string
  cfg_target_id :: string
  cfg_target_release :: string
  cfg_rollback_timeout :: string
  cfg_target_timeout :: string
  cfg_a660_command_manifest_sha256 :: string
  cfg_root_generation :: string
  cfg_root_tree_sha256 :: string
  cfg_root_seal_sha256 :: string
  cfg_root_tree_entries :: string
  cfg_root_subtree :: string
  cfg_private_key :: string
  cfg_bundle_root :: string

definition packager_profiles :: "string list" where
  "packager_profiles =
     [''diagnostic-initramfs-v1'', ''network-root-v1'', ''persistent-root-ro-v1'',
      ''stock-charging-recovery-v1'']"

definition packager_artifacts :: "(string \<times> nat \<times> nat) list" where
  "packager_artifacts =
     [(''Image'', 64, 128 * 1024 * 1024),
      (''board.dtb'', 40, 2 * 1024 * 1024),
      (''initramfs.cpio.gz'', 2, 256 * 1024 * 1024)]"

definition ZERO_HASH :: string where
  "ZERO_HASH = replicate 64 CHR ''0''"

definition packager_valid_bundle :: "string \<Rightarrow> bool" where
  "packager_valid_bundle value \<longleftrightarrow>
     (case value of [] \<Rightarrow> False
      | c # t \<Rightarrow> (is_lower c \<or> is_digit c)
          \<and> list_all (\<lambda>d. is_lower d \<or> is_digit d \<or> d \<in> set ''._-'') t \<and> length t \<le> 63)
     \<and> \<not> contains ''..'' value \<and> value \<noteq> ''none''"

definition packager_valid_identity :: "string \<Rightarrow> nat \<Rightarrow> bool" where
  "packager_valid_identity value maximum \<longleftrightarrow>
     length value \<le> maximum
     \<and> list_all is_ascii value
     \<and> (value \<noteq> [] \<and> list_all (\<lambda>c. is_upper c \<or> is_lower c \<or> is_digit c \<or> c \<in> set ''_+.-'') value)
     \<and> \<not> prefix ''.'' value
     \<and> \<not> contains ''..'' value"

definition packager_valid_hash :: "string \<Rightarrow> bool" where
  "packager_valid_hash value \<longleftrightarrow> (length value = 64 \<and> list_all is_hex value) \<and> value \<noteq> ZERO_HASH"

definition packager_parse_decimal :: "string \<Rightarrow> nat \<Rightarrow> nat \<Rightarrow> string \<Rightarrow> nat result" where
  "packager_parse_decimal value minimum maximum label =
     (if value = [] \<or> \<not> list_all is_ascii value \<or> \<not> list_all is_digit value
         \<or> prefix ''0'' value \<and> value \<noteq> ''0''
      then Inl (BundleError (label @ '' is not a canonical decimal''))
      else let parsed = read_nat value in
        if parsed < minimum \<or> maximum < parsed
        then Inl (BundleError (label @ '' is outside policy''))
        else Inr parsed)"

definition manifest_values ::
    "configuration \<Rightarrow> (string \<Rightarrow> nat \<times> string) \<Rightarrow> (string \<times> string) list" where
  "manifest_values config observed =
     [(''format'', ''rog5-recovery-bundle-v2''),
      (''bundle'', cfg_bundle config),
      (''profile'', cfg_profile config),
      (''kernel_size'', show_nat (fst (observed ''Image''))),
      (''kernel_sha256'', snd (observed ''Image'')),
      (''dtb_size'', show_nat (fst (observed ''board.dtb''))),
      (''dtb_sha256'', snd (observed ''board.dtb'')),
      (''initramfs_size'', show_nat (fst (observed ''initramfs.cpio.gz''))),
      (''initramfs_sha256'', snd (observed ''initramfs.cpio.gz'')),
      (''target_id'', cfg_target_id config),
      (''target_release'', cfg_target_release config),
      (''rollback_timeout'', cfg_rollback_timeout config),
      (''target_timeout'', cfg_target_timeout config),
      (''a660_command_manifest_sha256'', cfg_a660_command_manifest_sha256 config),
      (''root_generation'', cfg_root_generation config),
      (''root_tree_sha256'', cfg_root_tree_sha256 config),
      (''root_seal_sha256'', cfg_root_seal_sha256 config),
      (''root_tree_entries'', cfg_root_tree_entries config),
      (''root_subtree'', cfg_root_subtree config)]"

definition manifest_bytes :: "configuration \<Rightarrow> (string \<Rightarrow> nat \<times> string) \<Rightarrow> bytes result" where
  "manifest_bytes config observed =
     (let payload = concat (map (\<lambda>(name, v). name @ ''='' @ v @ [LF])
                          (manifest_values config observed))
      in if \<not> list_all is_ascii payload then Inl UnicodeError
         else if 4096 < length payload then Inl (BundleError ''manifest exceeds size policy'')
         else Inr payload)"

definition packager_check_root_identity :: "configuration \<Rightarrow> unit result" where
  "packager_check_root_identity config =
     (if cfg_profile config \<in> {''diagnostic-initramfs-v1'', ''network-root-v1''} then
        if \<not> packager_valid_hash (cfg_a660_command_manifest_sha256 config)
           \<or> cfg_root_generation config \<noteq> ''arch-a''
           \<or> \<not> packager_valid_hash (cfg_root_tree_sha256 config)
           \<or> \<not> packager_valid_hash (cfg_root_seal_sha256 config)
           \<or> cfg_root_subtree config \<noteq> ''/''
        then Inl (BundleError ''network-root trust identity is invalid'')
        else bind_result (packager_parse_decimal (cfg_root_tree_entries config) 1 (2 ^ 63 - 1)
                            ''root tree entry count'') (\<lambda>_. Inr ())
      else
        if cfg_a660_command_manifest_sha256 config \<noteq> ZERO_HASH
           \<or> cfg_root_generation config \<noteq> ''none''
           \<or> cfg_root_tree_sha256 config \<noteq> ZERO_HASH
           \<or> cfg_root_seal_sha256 config \<noteq> ZERO_HASH
           \<or> cfg_root_tree_entries config \<noteq> ''0''
           \<or> cfg_root_subtree config \<noteq> ''none''
        then Inl (BundleError ''non-network profile carries root trust identity'')
        else Inr ())"

definition validate_configuration :: "configuration \<Rightarrow> unit result" where
  "validate_configuration config =
     (if \<not> packager_valid_bundle (cfg_bundle config)
      then Inl (BundleError ''bundle identifier is invalid'')
      else if cfg_profile config \<notin> set packager_profiles
      then Inl (BundleError ''bundle profile is invalid'')
      else if \<not> packager_valid_identity (cfg_target_id config) 64
      then Inl (BundleError ''target identifier is invalid'')
      else if \<not> packager_valid_identity (cfg_target_release config) 96
      then Inl (BundleError ''target release is invalid'')
      else
        bind_result (packager_parse_decimal (cfg_rollback_timeout config) 60 900 ''timeout'') (\<lambda>rollback.
        bind_result (packager_parse_decimal (cfg_target_timeout config) 30 600 ''timeout'') (\<lambda>target.
          if rollback - 30 < target
          then Inl (BundleError ''timeout rollback margin is unsafe'')
          else if cfg_profile config = ''persistent-root-ro-v1'' \<and> rollback < 300
          then Inl (BundleError ''persistent profile rollback is too short'')
          else packager_check_root_identity config)))"

end
