(* ===== verification/Manifest_Agreement.thy ===== *)
theory Manifest_Agreement
  imports Server_Manifest Packager_Config
begin

section \<open>What the packager writes and what the server accepts\<close>

text \<open>
  The packager and the server validate the same manifest with separately written code. This
  theory relates the two policies: the predicates agree, every configuration the packager accepts
  gives a manifest inside the size bound, and the server's verdict on it is known exactly.
\<close>

lemma packager_valid_bundle_eq: "packager_valid_bundle s = server_valid_bundle s"
  by (cases s) (simp_all add: packager_valid_bundle_def server_valid_bundle_def
      bundle_id_match_def bundle_char_def list_all_iff)

lemma packager_valid_hash_eq: "packager_valid_hash s = server_valid_hash s"
  by (simp add: packager_valid_hash_def server_valid_hash_def sha256_match_def ZERO_HASH_def
      zero_hash_def)

lemma packager_valid_identity_eq:
  assumes "m \<le> 96"
  shows "packager_valid_identity s m = server_validate_identity s m"
proof -
  have "identity_char c \<Longrightarrow> is_ascii c" for c
    by (auto simp: identity_char_def char_class_defs)
  then have ascii: "list_all identity_char s \<Longrightarrow> list_all is_ascii s"
    by (simp add: list_all_iff)
  have chars: "(\<lambda>c. is_upper c \<or> is_lower c \<or> is_digit c \<or> c \<in> set ''_+.-'') = identity_char"
    by (rule ext) (simp add: identity_char_def)
  have "s \<noteq> [] \<longleftrightarrow> 1 \<le> length s" by (cases s) simp_all
  with assms ascii show ?thesis
    unfolding packager_valid_identity_def server_validate_identity_def chars by linarith
qed

lemma packager_parse_decimal_eq_Inr:
  "packager_parse_decimal v lo hi l = Inr n \<longleftrightarrow> v = show_nat n \<and> lo \<le> n \<and> n \<le> hi"
  unfolding packager_parse_decimal_def decimal_guard
  by (auto simp: Let_def not_less show_read_nat)

lemma manifest_values_fields: "map fst (manifest_values c obs) = manifest_fields"
  by (simp add: manifest_values_def manifest_fields_def)

lemma manifest_payload: "concat (map (\<lambda>(name, v). name @ ''='' @ v @ [LF]) kvs) = show_record kvs"
  by (simp add: show_record_def record_line_def case_prod_beta')

text \<open>A valid configuration as one predicate: the facts a proof about it needs.\<close>

lemma validate_configuration_facts:
  assumes "validate_configuration c = Inr ()"
  obtains rollback target where
    "server_valid_bundle (cfg_bundle c)" "cfg_profile c \<in> set server_profiles"
    "server_validate_identity (cfg_target_id c) 64" "server_validate_identity (cfg_target_release c) 96"
    "cfg_rollback_timeout c = show_nat rollback" "60 \<le> rollback" "rollback \<le> 900"
    "cfg_target_timeout c = show_nat target" "30 \<le> target" "target \<le> 600" "target \<le> rollback - 30"
    "cfg_profile c = ''persistent-root-ro-v1'' \<longrightarrow> 300 \<le> rollback"
    "packager_check_root_identity c = Inr ()"
proof -
  from assms obtain rollback target where
    "packager_parse_decimal (cfg_rollback_timeout c) 60 900 ''timeout'' = Inr rollback"
    "packager_parse_decimal (cfg_target_timeout c) 30 600 ''timeout'' = Inr target"
    by (auto simp: validate_configuration_def bind_result_eq_Inr split: if_splits)
  with assms that show thesis
    by (auto simp: validate_configuration_def packager_valid_bundle_eq packager_valid_identity_eq
        packager_profiles_def server_profiles_def packager_parse_decimal_eq_Inr not_less
        bind_result_eq_Inr split: if_splits)
qed

text \<open>What the packager observed of the three artifacts: sizes in policy, digests usable.\<close>

definition observed_in_policy :: "(string \<Rightarrow> nat \<times> string) \<Rightarrow> bool" where
  "observed_in_policy obs \<longleftrightarrow>
     list_all (\<lambda>(name, lo, hi). lo \<le> fst (obs name) \<and> fst (obs name) \<le> hi
                 \<and> server_valid_hash (snd (obs name))) packager_artifacts"

lemma root_identity_agrees:
  "packager_check_root_identity c = Inr () \<Longrightarrow>
     server_check_root_identity (manifest_values c obs) = Inr ()"
  by (simp add: packager_check_root_identity_def server_check_root_identity_def network_profile_def
      field_def manifest_values_def packager_valid_hash_eq packager_parse_decimal_eq_Inr
      server_parse_decimal_eq_Inr bind_result_eq_Inr ZERO_HASH_def zero_hash_def split: if_splits)

lemma root_identity_values:
  assumes "packager_check_root_identity c = Inr ()"
  shows "sha256_match (cfg_a660_command_manifest_sha256 c)"
    and "sha256_match (cfg_root_tree_sha256 c)" and "sha256_match (cfg_root_seal_sha256 c)"
    and "cfg_root_generation c \<in> {''arch-a'', ''none''}" and "cfg_root_subtree c \<in> {''/'', ''none''}"
    and "\<exists>n < 10 ^ 19. cfg_root_tree_entries c = show_nat n"
proof -
  have zero: "sha256_match ZERO_HASH"
    by (simp add: sha256_match_def ZERO_HASH_def list_all_iff char_class_defs)
  have zero_entries: "\<exists>n < 10 ^ 19. ''0'' = show_nat n"
    by (intro exI [of _ 0]) (simp add: show_nat_small)
  have small: "n \<le> 2 ^ 63 - 1 \<Longrightarrow> n < 10 ^ 19" for n :: nat
    by simp
  show "sha256_match (cfg_a660_command_manifest_sha256 c)"
    "sha256_match (cfg_root_tree_sha256 c)" "sha256_match (cfg_root_seal_sha256 c)"
    "cfg_root_generation c \<in> {''arch-a'', ''none''}" "cfg_root_subtree c \<in> {''/'', ''none''}"
    "\<exists>n < 10 ^ 19. cfg_root_tree_entries c = show_nat n"
    using assms zero zero_entries small
    by (auto simp: packager_check_root_identity_def packager_valid_hash_eq server_valid_hash_def
        packager_parse_decimal_eq_Inr bind_result_eq_Inr split: if_splits)
qed

lemma safe_value_classes:
  "sha256_match v \<Longrightarrow> safe_value v" "server_valid_bundle v \<Longrightarrow> safe_value v"
  "server_validate_identity v m \<Longrightarrow> safe_value v" "safe_value (show_nat n)"
  "server_valid_hash v \<Longrightarrow> safe_value v" "v \<in> set server_profiles \<Longrightarrow> safe_value v"
proof -
  show "sha256_match v \<Longrightarrow> safe_value v"
    by (auto simp: safe_value_def sha256_match_def list_all_iff graphic_classes)
  then show "server_valid_hash v \<Longrightarrow> safe_value v" by (simp add: server_valid_hash_def)
  show "server_valid_bundle v \<Longrightarrow> safe_value v"
    using bundle_id_length [of v] bundle_id_graphic [of v]
    by (auto simp: safe_value_def server_valid_bundle_def list_all_iff)
  show "server_validate_identity v m \<Longrightarrow> safe_value v"
    by (auto simp: safe_value_def server_validate_identity_def list_all_iff identity_char_graphic)
  show "safe_value (show_nat n)"
    by (simp add: safe_value_def list_all_iff show_nat_graphic)
  show "v \<in> set server_profiles \<Longrightarrow> safe_value v"
    by (auto simp: safe_value_def server_profiles_def is_graphic_def)
qed

lemma manifest_values_safe:
  assumes "validate_configuration c = Inr ()" and "observed_in_policy obs"
  shows "list_all safe_value (map snd (manifest_values c obs))"
proof -
  from assms(1) obtain rollback target where
    "safe_value (cfg_bundle c)" "safe_value (cfg_profile c)" "safe_value (cfg_target_id c)"
    "safe_value (cfg_target_release c)" "safe_value (cfg_rollback_timeout c)"
    "safe_value (cfg_target_timeout c)" and root: "packager_check_root_identity c = Inr ()"
    by (rule validate_configuration_facts) (auto intro: safe_value_classes)
  moreover have "safe_value (cfg_a660_command_manifest_sha256 c)"
    "safe_value (cfg_root_tree_sha256 c)" "safe_value (cfg_root_seal_sha256 c)"
    using root_identity_values(1,2,3) [OF root] by (simp_all add: safe_value_classes)
  moreover have "safe_value (cfg_root_generation c)" "safe_value (cfg_root_subtree c)"
    using root_identity_values(4,5) [OF root] by (auto simp: safe_value_def is_graphic_def)
  moreover have "safe_value (cfg_root_tree_entries c)"
    using root_identity_values(6) [OF root] by (auto simp: safe_value_classes)
  moreover have "safe_value ''rog5-recovery-bundle-v2''" by (simp add: safe_value_def is_graphic_def)
  ultimately show ?thesis
    using assms(2)
    by (simp add: manifest_values_def observed_in_policy_def packager_artifacts_def
        safe_value_classes)
qed

lemma length_show_record:
  "length (show_record kvs) = sum_list (map (\<lambda>(k, v). length k + length v + 2) kvs)"
  by (induction kvs) (auto simp: show_record_def record_line_def)

lemma length_value_classes:
  "sha256_match v \<Longrightarrow> length v = 64" "server_valid_hash v \<Longrightarrow> length v = 64"
  "server_valid_bundle v \<Longrightarrow> length v \<le> 64"
  "server_validate_identity v m \<Longrightarrow> length v \<le> m" "v \<in> set server_profiles \<Longrightarrow> length v \<le> 26"
  using bundle_id_length [of v]
  by (auto simp: sha256_match_def server_valid_hash_def server_valid_bundle_def
      server_validate_identity_def server_profiles_def)

lemma manifest_length:
  assumes "validate_configuration c = Inr ()" and "observed_in_policy obs"
  shows "length (show_record (manifest_values c obs)) \<le> 1210"
proof -
  have timeout: "length (show_nat n) \<le> 3" if "n \<le> 900" for n
    using that by (intro length_show_nat) auto
  from assms(1) have
    b1: "length (cfg_bundle c) \<le> 64" "length (cfg_profile c) \<le> 26" "length (cfg_target_id c) \<le> 64"
      "length (cfg_target_release c) \<le> 96" "length (cfg_rollback_timeout c) \<le> 3"
      "length (cfg_target_timeout c) \<le> 3" and root: "packager_check_root_identity c = Inr ()"
    by (auto elim!: validate_configuration_facts intro: length_value_classes intro!: timeout)
  have b2: "length (cfg_a660_command_manifest_sha256 c) = 64"
    "length (cfg_root_tree_sha256 c) = 64" "length (cfg_root_seal_sha256 c) = 64"
    using root_identity_values(1,2,3) [OF root] by (simp_all add: length_value_classes)
  have b3: "length (cfg_root_generation c) \<le> 6" "length (cfg_root_subtree c) \<le> 4"
    using root_identity_values(4,5) [OF root] by auto
  have b4: "length (cfg_root_tree_entries c) \<le> 19"
    using root_identity_values(6) [OF root] by (auto intro!: length_show_nat)
  have sizes: "length (show_nat n) \<le> 9" if "n \<le> 256 * 1024 * 1024" for n
    using that by (intro length_show_nat) auto
  have b5: "length (show_nat (fst (obs ''Image''))) \<le> 9"
    "length (show_nat (fst (obs ''board.dtb''))) \<le> 9"
    "length (show_nat (fst (obs ''initramfs.cpio.gz''))) \<le> 9"
    "length (snd (obs ''Image'')) = 64" "length (snd (obs ''board.dtb'')) = 64"
    "length (snd (obs ''initramfs.cpio.gz'')) = 64"
    using assms(2)
    by (auto simp: observed_in_policy_def packager_artifacts_def length_value_classes intro!: sizes)
  show ?thesis
    unfolding length_show_record manifest_values_def using b1 b2 b3 b4 b5 by simp
qed

lemma manifest_bytes_eq:
  assumes "validate_configuration c = Inr ()" and "observed_in_policy obs"
  shows "manifest_bytes c obs = Inr (show_record (manifest_values c obs))"
proof -
  let ?m = "show_record (manifest_values c obs)"
  have "server_parse_record ?m manifest_fields = Inr (manifest_values c obs)"
    by (rule manifest.parse_show [OF manifest_values_fields manifest_values_safe [OF assms]])
  then have "list_all is_ascii ?m"
    by (auto simp: server_parse_record_def split: if_splits)
  moreover have "length ?m \<le> 4096" using manifest_length [OF assms] by simp
  ultimately show ?thesis unfolding manifest_bytes_def manifest_payload Let_def by simp
qed

lemma bindings_agree:
  assumes "observed_in_policy obs"
  shows "fold_result (server_check_binding (manifest_values c obs) (Some \<circ> obs)) server_bindings ()
           = Inr ()"
  using assms
  by (simp add: server_bindings_def server_check_binding_def option_result_def field_def
      manifest_values_def observed_in_policy_def packager_artifacts_def server_parse_decimal_show
      case_prod_beta)

text \<open>
  The server's verdict on a manifest the packager wrote: accepted, but for a stock-charging bundle
  whose rollback timeout is below the 900 seconds that only the server demands.
\<close>

lemma server_verdict_on_packaged:
  assumes "validate_configuration c = Inr ()" and "observed_in_policy obs"
  shows "server_validate_manifest H (show_record (manifest_values c obs)) (cfg_bundle c)
           (to_hex (H (show_record (manifest_values c obs)))) (Some \<circ> obs) =
         (if cfg_profile c = ''stock-charging-recovery-v1'' \<and> read_nat (cfg_rollback_timeout c) < 900
          then Inl (ServerRefusal ''stock charging profile rollback is too short'')
          else Inr ())"
proof -
  have parse: "server_parse_record (show_record (manifest_values c obs)) manifest_fields
      = Inr (manifest_values c obs)"
    by (rule manifest.parse_show [OF manifest_values_fields manifest_values_safe [OF assms]])
  have fields: "field (manifest_values c obs) ''format'' = ''rog5-recovery-bundle-v2''"
    "field (manifest_values c obs) ''bundle'' = cfg_bundle c"
    "field (manifest_values c obs) ''profile'' = cfg_profile c"
    "field (manifest_values c obs) ''target_id'' = cfg_target_id c"
    "field (manifest_values c obs) ''target_release'' = cfg_target_release c"
    "field (manifest_values c obs) ''rollback_timeout'' = cfg_rollback_timeout c"
    "field (manifest_values c obs) ''target_timeout'' = cfg_target_timeout c"
    by (simp_all add: field_def manifest_values_def)
  from assms(1) show ?thesis
  proof (rule validate_configuration_facts)
    fix rollback target
    assume facts: "server_valid_bundle (cfg_bundle c)" "cfg_profile c \<in> set server_profiles"
      "server_validate_identity (cfg_target_id c) 64"
      "server_validate_identity (cfg_target_release c) 96"
      "cfg_rollback_timeout c = show_nat rollback" "60 \<le> rollback" "rollback \<le> 900"
      "cfg_target_timeout c = show_nat target" "30 \<le> target" "target \<le> 600"
      "target \<le> rollback - 30"
      "cfg_profile c = ''persistent-root-ro-v1'' \<longrightarrow> 300 \<le> rollback"
      "packager_check_root_identity c = Inr ()"
    from facts show ?thesis
      by (simp add: server_validate_manifest_def parse fields server_parse_decimal_show
          root_identity_agrees bindings_agree [OF assms(2)] not_less)
  qed
qed

subsection \<open>The agreement\<close>

text \<open>
  C9. Every configuration the packager accepts, with artifacts inside its size policy, gives a
  manifest (the size check of \<open>manifest_bytes\<close> cannot fire: at most 1210 bytes) that the server
  parses back to the packaged values, and that the server accepts, except for one profile: a
  stock-charging bundle with a rollback timeout below 900 seconds is packaged and then refused.
\<close>

theorem packaged_manifest_verdict:
  assumes "validate_configuration c = Inr ()" and "observed_in_policy obs"
  shows "\<exists>m. manifest_bytes c obs = Inr m \<and> length m \<le> 1210
     \<and> server_parse_record m manifest_fields = Inr (manifest_values c obs)
     \<and> server_validate_manifest H m (cfg_bundle c) (to_hex (H m)) (Some \<circ> obs) =
         (if cfg_profile c = ''stock-charging-recovery-v1'' \<and> read_nat (cfg_rollback_timeout c) < 900
          then Inl (ServerRefusal ''stock charging profile rollback is too short'')
          else Inr ())"
  using manifest_bytes_eq [OF assms] manifest_length [OF assms] server_verdict_on_packaged [OF assms]
    manifest.parse_show [OF manifest_values_fields manifest_values_safe [OF assms]]
  by auto

definition demo_configuration :: configuration where
  "demo_configuration =
     \<lparr>cfg_bundle = ''stock-charge-r1'', cfg_profile = ''stock-charging-recovery-v1'', cfg_image = ''Image'',
      cfg_dtb = ''board.dtb'', cfg_initramfs = ''initramfs.cpio.gz'', cfg_target_id = ''rog5'',
      cfg_target_release = ''7.2.7-rog5'', cfg_rollback_timeout = ''600'', cfg_target_timeout = ''60'',
      cfg_a660_command_manifest_sha256 = ZERO_HASH, cfg_root_generation = ''none'',
      cfg_root_tree_sha256 = ZERO_HASH, cfg_root_seal_sha256 = ZERO_HASH, cfg_root_tree_entries = ''0'',
      cfg_root_subtree = ''none'', cfg_private_key = ''key'', cfg_bundle_root = ''root''\<rparr>"

definition demo_observed :: "string \<Rightarrow> nat \<times> string" where
  "demo_observed name = (4096, replicate 64 CHR ''a'')"

theorem packaged_manifest_verdict_witness:
  "validate_configuration demo_configuration = Inr ()
   \<and> (\<exists>m. manifest_bytes demo_configuration demo_observed = Inr m
        \<and> server_validate_manifest (\<lambda>x. replicate 32 CHR ''x'') m ''stock-charge-r1''
            (to_hex (replicate 32 CHR ''x'')) (Some \<circ> demo_observed)
          = Inl (ServerRefusal ''stock charging profile rollback is too short''))"
proof -
  have valid: "validate_configuration demo_configuration = Inr ()" by code_simp
  have "server_valid_hash (replicate 64 CHR ''a'')" by code_simp
  then have "observed_in_policy demo_observed"
    by (simp add: observed_in_policy_def packager_artifacts_def demo_observed_def)
  from packaged_manifest_verdict [OF valid this, of "\<lambda>x. replicate 32 CHR ''x''"] valid show ?thesis
    by (auto simp: demo_configuration_def read_nat_def)
qed

subsection \<open>The record codec\<close>

text \<open>
  C17. A manifest text without other line separators is accepted exactly when it is the printing
  of the fields in their order with printable values; the parse returns those values.
\<close>

theorem manifest_record_exact:
  assumes "\<forall>c\<in>set payload. is_break c \<longrightarrow> c = LF"
  shows "server_parse_record payload manifest_fields = Inr kvs \<longleftrightarrow>
     payload = show_record kvs \<and> map fst kvs = manifest_fields \<and> list_all safe_value (map snd kvs)"
  using assms manifest.parse_canonical [of payload kvs] manifest.parse_sound [of payload kvs]
    manifest.parse_show [of kvs]
  by auto

theorem manifest_record_exact_witness:
  "server_parse_record (show_record (manifest_values demo_configuration (\<lambda>_. (7, ''ab'')))) manifest_fields
     = Inr (manifest_values demo_configuration (\<lambda>_. (7, ''ab'')))"
proof -
  let ?kvs = "manifest_values demo_configuration (\<lambda>_. (7, ''ab''))"
  have break: "\<forall>c\<in>set (show_record ?kvs). is_break c \<longrightarrow> c = LF"
    and ok: "map fst ?kvs = manifest_fields" "list_all safe_value (map snd ?kvs)"
    by code_simp+
  from manifest_record_exact [OF break, of ?kvs] ok show ?thesis by simp
qed

text \<open>
  With other separators the accepted text is not canonical: \<open>splitlines\<close> also breaks at a
  vertical tab, so a request with one in place of a line feed is accepted as the same request.
\<close>

theorem request_separator_not_canonical:
  "\<exists>payload kvs. server_parse_record payload request_fields = Inr kvs \<and> payload \<noteq> show_record kvs
     \<and> server_parse_record (show_record kvs) request_fields = Inr kvs"
proof -
  let ?p = "''format=f'' @ [CHR 0x0B] @ ''bundle=b'' @ [CHR 0x0B] @ ''manifest_sha256=m'' @ [LF]"
  let ?kvs = "[(''format'', ''f''), (''bundle'', ''b''), (''manifest_sha256'', ''m'')]"
  have "server_parse_record ?p request_fields = Inr ?kvs" by code_simp
  moreover have "?p \<noteq> show_record ?kvs" by code_simp
  moreover have "server_parse_record (show_record ?kvs) request_fields = Inr ?kvs" by code_simp
  ultimately show ?thesis by blast
qed

end
