(* ===== verification/Recovery_Dtb.thy ===== *)
theory Recovery_Dtb
  imports Py_Text "HOL-Library.List_Lexorder" "HOL-Library.Char_ord" "HOL-Library.Product_Lexorder"
begin

section \<open>The recovery DTB delta verifier\<close>

text \<open>
  Models \<^verbatim>\<open>scripts/device/verify-recovery-dtb-delta.py\<close>: the guarded read of a DTB file, the
  flattened-device-tree parser and the comparison that admits a recovery DTB only when it differs
  from the base DTB in the reviewed properties. A Python dictionary is an association list in
  insertion order; \<open>fail\<close> raises \<^term>\<open>ValueError\<close>.
\<close>

type_synonym properties = "(string \<times> bytes) list"
type_synonym dtb_nodes = "(string \<times> properties) list"

abbreviation fail_with :: "string \<Rightarrow> 'a result" where
  "fail_with message \<equiv> Inl (ValueError message)"

abbreviation NUL :: char where
  "NUL \<equiv> CHR 0x00"

definition FDT_MAGIC :: nat where "FDT_MAGIC = 0xD00DFEED"
definition FDT_BEGIN_NODE :: nat where "FDT_BEGIN_NODE = 1"
definition FDT_END_NODE :: nat where "FDT_END_NODE = 2"
definition FDT_PROP :: nat where "FDT_PROP = 3"
definition FDT_NOP :: nat where "FDT_NOP = 4"
definition FDT_END :: nat where "FDT_END = 9"
definition HEADER_SIZE :: nat where "HEADER_SIZE = 40"
definition MAX_DTB_SIZE :: nat where "MAX_DTB_SIZE = 2 * 1024 * 1024"

lemmas fdt_constants = FDT_MAGIC_def FDT_BEGIN_NODE_def FDT_END_NODE_def FDT_PROP_def FDT_NOP_def
  FDT_END_def HEADER_SIZE_def MAX_DTB_SIZE_def

subsection \<open>Reading\<close>

record dtb_stat =
  dtb_regular :: bool
  dtb_dev :: nat
  dtb_ino :: nat
  dtb_size :: nat
  dtb_mtime :: nat
  dtb_ctime :: nat

text \<open>
  What the file system answers while one DTB is read: \<open>resolve(strict=True)\<close> raises for a missing
  path, \<open>io_fails\<close> is an \<open>OSError\<close> of \<open>open\<close>, \<open>fstat\<close> or \<open>read\<close>.
\<close>

record dtb_source =
  is_symlink :: bool
  path_missing :: bool
  linked_component :: bool
  io_fails :: bool
  stat_before :: dtb_stat
  contents :: bytes
  stat_after :: dtb_stat

definition read_dtb_bytes :: "string \<Rightarrow> dtb_source \<Rightarrow> bytes result" where
  "read_dtb_bytes path src =
     (if is_symlink src then fail_with (''DTB is not an ordinary file: '' @ path)
      else if path_missing src then Inl FileNotFoundError
      else if linked_component src then fail_with (''DTB contains a linked path component: '' @ path)
      else if io_fails src then Inl OSError
      else if \<not> dtb_regular (stat_before src) \<or> dtb_size (stat_before src) < HEADER_SIZE
              \<or> MAX_DTB_SIZE < dtb_size (stat_before src)
      then fail_with (''DTB has an invalid size: '' @ path)
      else let data = take (MAX_DTB_SIZE + 1) (contents src) in
        if length data \<noteq> dtb_size (stat_before src)
           \<or> dtb_dev (stat_before src) \<noteq> dtb_dev (stat_after src)
           \<or> dtb_ino (stat_before src) \<noteq> dtb_ino (stat_after src)
           \<or> dtb_size (stat_before src) \<noteq> dtb_size (stat_after src)
           \<or> dtb_mtime (stat_before src) \<noteq> dtb_mtime (stat_after src)
           \<or> dtb_ctime (stat_before src) \<noteq> dtb_ctime (stat_after src)
        then fail_with (''DTB changed while it was read: '' @ path)
        else Inr data)"

subsection \<open>Parsing\<close>

definition aligned :: "nat \<Rightarrow> nat" where
  "aligned v = 4 * ((v + 3) div 4)"

definition bounded_slice :: "bytes \<Rightarrow> nat \<Rightarrow> nat \<Rightarrow> string \<Rightarrow> bytes result" where
  "bounded_slice data offset n label =
     (if length data < offset + n then fail_with (label @ '' is outside the DTB'')
      else Inr (slice offset (offset + n) data))"

definition c_string :: "bytes \<Rightarrow> nat \<Rightarrow> string \<Rightarrow> (string \<times> nat) result" where
  "c_string data offset label =
     (if length data \<le> offset then fail_with (label @ '' offset is outside its block'')
      else let text = takeWhile (\<lambda>c. c \<noteq> NUL) (drop offset data) in
        if NUL \<notin> set (drop offset data) then fail_with (label @ '' is not NUL terminated'')
        else if \<not> list_all is_ascii text then fail_with (label @ '' is not ASCII'')
        else Inr (text, offset + length text + 1))"

lemma c_string_next: "c_string data offset label = Inr (text, next) \<Longrightarrow> offset < next"
  by (auto simp: c_string_def Let_def split: if_splits)

lemma aligned_ge: "n \<le> aligned n"
  by (simp add: aligned_def)

definition u32_at :: "bytes \<Rightarrow> nat \<Rightarrow> nat" where
  "u32_at data offset = be_nat (slice offset (offset + 4) data)"

definition u64_at :: "bytes \<Rightarrow> nat \<Rightarrow> nat" where
  "u64_at data offset = be_nat (slice offset (offset + 8) data)"

text \<open>The end of the reservation map, \<open>None\<close> where the \<open>while\<close> loop runs into its \<open>else\<close>.\<close>

function reservation_end :: "bytes \<Rightarrow> nat \<Rightarrow> nat \<Rightarrow> nat option" where
  "reservation_end data total_size position =
     (if position + 16 \<le> total_size then
        if u64_at data position = 0 \<and> u64_at data (position + 8) = 0 then Some (position + 16)
        else reservation_end data total_size (position + 16)
      else None)"
  by pat_completeness auto
termination
  by (relation "measure (\<lambda>(data, total_size, position). total_size - position)") auto

declare reservation_end.simps [simp del]

definition set_property :: "dtb_nodes \<Rightarrow> string \<Rightarrow> string \<Rightarrow> bytes \<Rightarrow> dtb_nodes" where
  "set_property nodes path name v =
     map (\<lambda>(p, props). if p = path then (p, props @ [(name, v)]) else (p, props)) nodes"

definition child_path :: "string \<Rightarrow> string \<Rightarrow> string" where
  "child_path parent name = (if parent = ''/'' then ''/'' @ name else parent @ ''/'' @ name)"

text \<open>
  One turn of the structure loop. \<open>stack\<close> is the path of open nodes, innermost first. The result
  is the new nodes, stack and position, or \<open>None\<close> where the end token breaks the loop.
\<close>

definition parse_token ::
    "bytes \<Rightarrow> bytes \<Rightarrow> dtb_nodes \<Rightarrow> string list \<Rightarrow> nat \<Rightarrow> (dtb_nodes \<times> string list \<times> nat) option result" where
  "parse_token blk strings nodes stack position =
     (if length blk < position + 4 then fail_with ''truncated DTB structure token''
      else let token = u32_at blk position; pos = position + 4 in
      if token = FDT_BEGIN_NODE then
        bind_result (c_string blk pos ''DTB node name'') (\<lambda>(name, next_position).
          bind_result
            (case stack of
               [] \<Rightarrow> if nodes \<noteq> [] \<or> name \<noteq> []
                     then fail_with ''DTB does not begin with one empty root node'' else Inr ''/''
             | parent # _ \<Rightarrow> if name = [] \<or> CHR ''/'' \<in> set name
                     then fail_with ''DTB contains an invalid child node name''
                     else Inr (child_path parent name))
            (\<lambda>path_name.
               if path_name \<in> set (map fst nodes)
               then fail_with (''DTB contains a duplicate node: '' @ path_name)
               else Inr (Some (nodes @ [(path_name, [])], path_name # stack, aligned next_position))))
      else if token = FDT_END_NODE then
        (case stack of
           [] \<Rightarrow> fail_with ''DTB closes a node outside the root''
         | _ # rest \<Rightarrow> Inr (Some (nodes, rest, pos)))
      else if token = FDT_PROP then
        (if stack = [] \<or> length blk < pos + 8
         then fail_with ''DTB property appears outside a node or is truncated''
         else let n = u32_at blk pos; name_offset = u32_at blk (pos + 4) in
           bind_result (bounded_slice blk (pos + 8) n ''DTB property value'') (\<lambda>v.
           bind_result (c_string strings name_offset ''DTB property name'') (\<lambda>(name, _).
             if name = [] \<or> CHR ''/'' \<in> set name
             then fail_with ''DTB contains an invalid property name''
             else case map_of nodes (hd stack) of
               None \<Rightarrow> Inl (KeyError (hd stack))
             | Some props \<Rightarrow>
                 if name \<in> set (map fst props)
                 then fail_with (''DTB contains a duplicate property: '' @ hd stack @ '':'' @ name)
                 else Inr (Some (set_property nodes (hd stack) name v, stack, aligned (pos + 8 + n))))))
      else if token = FDT_NOP then Inr (Some (nodes, stack, pos))
      else if token = FDT_END then
        (if stack \<noteq> [] then fail_with ''DTB ended with unclosed nodes''
         else if list_ex (\<lambda>c. c \<noteq> NUL) (drop pos blk)
         then fail_with ''DTB structure has nonzero data after its end token''
         else Inr None)
      else fail_with (''DTB contains an unknown structure token: '' @ show_nat token))"

lemma parse_token_progress:
  "parse_token blk strings nodes stack position = Inr (Some (nodes', stack', position'))
     \<Longrightarrow> position < position'"
  by (auto simp: parse_token_def Let_def bind_result_eq_Inr aligned_def dest!: c_string_next
      split: if_splits list.splits option.splits)

text \<open>The structure loop. The result pairs the nodes with \<open>ended\<close>.\<close>

function parse_structure ::
    "bytes \<Rightarrow> bytes \<Rightarrow> dtb_nodes \<Rightarrow> string list \<Rightarrow> nat \<Rightarrow> (dtb_nodes \<times> bool) result" where
  "parse_structure blk strings nodes stack position =
     (if \<not> position < length blk then Inr (nodes, False)
      else case parse_token blk strings nodes stack position of
        Inl e \<Rightarrow> Inl e
      | Inr None \<Rightarrow> Inr (nodes, True)
      | Inr (Some (nodes', stack', position')) \<Rightarrow> parse_structure blk strings nodes' stack' position')"
  by pat_completeness auto
termination
  by (relation "measure (\<lambda>(blk, strings, nodes, stack, position). length blk - position)")
     (auto dest!: parse_token_progress)

declare parse_structure.simps [simp del]

subsection \<open>The whole blob\<close>

fun check_ranges :: "nat \<Rightarrow> string \<Rightarrow> (nat \<times> nat \<times> string) list \<Rightarrow> unit result" where
  "check_ranges total_size label [] = Inr ()"
| "check_ranges total_size label ((start, stop, block_label) # blocks) =
     (if start < HEADER_SIZE \<or> stop < start \<or> total_size < stop
      then fail_with (''DTB '' @ block_label @ '' range is invalid: '' @ label)
      else check_ranges total_size label blocks)"

fun check_overlap :: "(nat \<times> nat \<times> string) list \<Rightarrow> unit result" where
  "check_overlap (first # second # blocks) =
     (if fst second < fst (snd first)
      then fail_with (''DTB blocks overlap: '' @ snd (snd first) @ '' and '' @ snd (snd second))
      else check_overlap (second # blocks))"
| "check_overlap _ = Inr ()"

definition header_word :: "bytes \<Rightarrow> nat \<Rightarrow> nat" where
  "header_word data i = u32_at data (4 * i)"

definition parse_dtb :: "bytes \<Rightarrow> string \<Rightarrow> dtb_nodes result" where
  "parse_dtb data label =
     (if length data < HEADER_SIZE \<or> MAX_DTB_SIZE < length data
      then fail_with (''DTB has an invalid size: '' @ label)
      else
      let magic = header_word data 0; total_size = header_word data 1;
          structure_offset = header_word data 2; strings_offset = header_word data 3;
          reservation_offset = header_word data 4; version = header_word data 5;
          compatible_version = header_word data 6;
          strings_size = header_word data 8; structure_size = header_word data 9
      in
      if magic \<noteq> FDT_MAGIC then fail_with (''DTB has an invalid magic: '' @ label)
      else if total_size \<noteq> length data
      then fail_with (''DTB total size does not equal its file size: '' @ label)
      else if version \<noteq> 17 \<or> compatible_version \<noteq> 16
      then fail_with (''DTB has an unsupported format version: '' @ label)
      else if reservation_offset < HEADER_SIZE \<or> reservation_offset mod 8 \<noteq> 0
              \<or> total_size < reservation_offset + 16 \<or> structure_offset mod 4 \<noteq> 0
      then fail_with (''DTB reservation map offset is invalid: '' @ label)
      else case reservation_end data total_size reservation_offset of
        None \<Rightarrow> fail_with (''DTB reservation map is unterminated: '' @ label)
      | Some reservation_stop \<Rightarrow>
        let blocks = sort [(reservation_offset, reservation_stop, ''reservation map''),
                           (structure_offset, structure_offset + structure_size, ''structure block''),
                           (strings_offset, strings_offset + strings_size, ''strings block'')]
        in
        bind_result (check_ranges total_size label blocks) (\<lambda>_.
        bind_result (check_overlap blocks) (\<lambda>_.
        bind_result (bounded_slice data structure_offset structure_size ''structure block'') (\<lambda>blk.
        bind_result (bounded_slice data strings_offset strings_size ''strings block'') (\<lambda>strings.
        bind_result (parse_structure blk strings [] [] 0) (\<lambda>(nodes, ended).
          if \<not> ended \<or> ''/'' \<notin> set (map fst nodes)
          then fail_with ''DTB structure has no complete root''
          else Inr nodes))))))"

definition read_dtb :: "string \<Rightarrow> dtb_source \<Rightarrow> dtb_nodes result" where
  "read_dtb path src = bind_result (read_dtb_bytes path src) (\<lambda>data. parse_dtb data path)"

subsection \<open>The reviewed difference\<close>

definition GPU :: string where "GPU = ''/soc@0/gpu@3d00000''"
definition GMU :: string where "GMU = ''/soc@0/gmu@3d6a000''"
definition GPUCC :: string where "GPUCC = ''/soc@0/clock-controller@3d90000''"
definition ADRENO_SMMU :: string where "ADRENO_SMMU = ''/soc@0/iommu@3da0000''"
definition RMTFS :: string where "RMTFS = ''/reserved-memory/memory@9b800000''"
definition USB :: string where "USB = ''/soc@0/usb@a6f8800''"
definition USB_DWC3 :: string where "USB_DWC3 = USB @ ''/usb@a600000''"
definition USB_HSPHY :: string where "USB_HSPHY = ''/soc@0/phy@88e3000''"

lemmas dtb_paths = GPU_def GMU_def GPUCC_def ADRENO_SMMU_def RMTFS_def USB_def USB_DWC3_def
  USB_HSPHY_def

definition FIXED_PROPERTIES :: "((string \<times> string) \<times> bytes) list" where
  "FIXED_PROPERTIES =
     [((RMTFS, ''status''), ''disabled'' @ [NUL]),
      ((GPU, ''status''), ''disabled'' @ [NUL]),
      ((GMU, ''status''), ''disabled'' @ [NUL]),
      ((GPUCC, ''status''), ''disabled'' @ [NUL]),
      ((ADRENO_SMMU, ''status''), ''disabled'' @ [NUL]),
      ((USB, ''qcom,select-utmi-as-pipe-clk''), []),
      ((USB, ''status''), ''okay'' @ [NUL]),
      ((USB_DWC3, ''maximum-speed''), ''high-speed'' @ [NUL]),
      ((USB_DWC3, ''phy-names''), ''usb2-phy'' @ [NUL]),
      ((USB_HSPHY, ''status''), ''okay'' @ [NUL])]"

definition board_identity :: bytes where
  "board_identity = ''asus,rog-phone5'' @ [NUL] @ ''qcom,sm8350'' @ [NUL]"

text \<open>\<open>nodes.get(path, {}).get(name)\<close>.\<close>

definition property_of :: "dtb_nodes \<Rightarrow> string \<Rightarrow> string \<Rightarrow> bytes option" where
  "property_of nodes path name = (case map_of nodes path of None \<Rightarrow> None | Some ps \<Rightarrow> map_of ps name)"

definition require_board_identity :: "dtb_nodes \<Rightarrow> string \<Rightarrow> unit result" where
  "require_board_identity nodes label =
     (if property_of nodes ''/'' ''compatible'' \<noteq> Some board_identity
      then fail_with (label @ '' lacks the exact ROG Phone 5 compatible identity'')
      else Inr ())"

definition sorted_keys :: "('k::linorder \<times> 'v) list \<Rightarrow> 'k list" where
  "sorted_keys d = sort (remdups (map fst d))"

definition sorted_minus :: "string list \<Rightarrow> string list \<Rightarrow> string list" where
  "sorted_minus xs ys = sort (filter (\<lambda>x. x \<notin> set ys) (remdups xs))"

definition hsphy_phandle :: "properties \<Rightarrow> bytes option" where
  "hsphy_phandle hsphy =
     (case map_of hsphy ''phandle'' of Some v \<Rightarrow> Some v | None \<Rightarrow> map_of hsphy ''linux,phandle'')"

definition expected_properties :: "bytes \<Rightarrow> ((string \<times> string) \<times> bytes) list" where
  "expected_properties ph = FIXED_PROPERTIES @ [((USB_DWC3, ''phys''), ph)]"

definition compare_property ::
    "((string \<times> string) \<times> bytes) list \<Rightarrow> string \<Rightarrow> properties \<Rightarrow> properties \<Rightarrow> string \<Rightarrow> nat \<Rightarrow> nat result"
    where
  "compare_property expected path base_properties candidate_properties name changed =
     (let before = map_of base_properties name; after = map_of candidate_properties name in
      bind_result
        (case map_of expected (path, name) of
           Some v \<Rightarrow> if after \<noteq> Some v
             then fail_with (''candidate recovery property is wrong: '' @ path @ '':'' @ name)
             else Inr ()
         | None \<Rightarrow> if before \<noteq> after
             then fail_with (''recovery overlay changed an unapproved property: '' @ path @ '':'' @ name)
             else Inr ())
        (\<lambda>_. Inr (if before \<noteq> after then changed + 1 else changed)))"

definition compare_node ::
    "((string \<times> string) \<times> bytes) list \<Rightarrow> dtb_nodes \<Rightarrow> dtb_nodes \<Rightarrow> string \<Rightarrow> nat \<Rightarrow> nat result" where
  "compare_node expected base candidate path changed =
     (case (map_of base path, map_of candidate path) of
        (Some bp, Some cp) \<Rightarrow>
          fold_result (compare_property expected path bp cp) (sorted_keys (bp @ cp)) changed
      | _ \<Rightarrow> Inl (KeyError path))"

definition require_expected ::
    "dtb_nodes \<Rightarrow> (string \<times> string) \<times> bytes \<Rightarrow> unit \<Rightarrow> unit result" where
  "require_expected candidate entry u =
     (case entry of ((path, name), v) \<Rightarrow>
        if property_of candidate path name \<noteq> Some v
        then fail_with (''candidate lacks an approved recovery property: '' @ path @ '':'' @ name)
        else Inr ())"

definition compare :: "dtb_nodes \<Rightarrow> dtb_nodes \<Rightarrow> nat result" where
  "compare base candidate =
     bind_result (require_board_identity base ''base DTB'') (\<lambda>_.
     bind_result (require_board_identity candidate ''candidate DTB'') (\<lambda>_.
     if set (map fst base) \<noteq> set (map fst candidate)
     then fail_with (''recovery overlay changed DTB nodes: added=''
            @ py_repr_list (sorted_minus (map fst candidate) (map fst base)) @ '' removed=''
            @ py_repr_list (sorted_minus (map fst base) (map fst candidate)))
     else case map_of candidate USB_HSPHY of
       None \<Rightarrow> fail_with ''candidate lacks the USB2 PHY node''
     | Some hsphy \<Rightarrow>
       (case hsphy_phandle hsphy of
          None \<Rightarrow> fail_with ''candidate USB2 PHY has no exact one-cell phandle''
        | Some ph \<Rightarrow>
          if length ph \<noteq> 4 then fail_with ''candidate USB2 PHY has no exact one-cell phandle''
          else let expected = expected_properties ph in
          bind_result (fold_result (compare_node expected base candidate) (sorted_keys base) 0) (\<lambda>changed.
          bind_result (fold_result (require_expected candidate) expected ()) (\<lambda>_.
          if changed = 0 then fail_with ''recovery overlay made no semantic change''
          else Inr changed)))))"

text \<open>The script: the exit status and the lines it prints, or the exception that escapes.\<close>

definition dtb_main ::
    "string \<Rightarrow> dtb_source \<Rightarrow> string \<Rightarrow> dtb_source \<Rightarrow> (nat \<times> string list) result" where
  "dtb_main base_path base candidate_path candidate =
     (case bind_result (read_dtb base_path base) (\<lambda>b.
           bind_result (read_dtb candidate_path candidate) (\<lambda>c. compare b c)) of
        Inr changed \<Rightarrow> Inr (0, [''changed_properties='' @ show_nat changed,
            ''PASS recovery DTB is an exact board-preserving isolation delta''])
      | Inl (ValueError m) \<Rightarrow> Inr (1, [''FAIL '' @ m])
      | Inl OSError \<Rightarrow> Inr (1, [''FAIL ''])
      | Inl FileNotFoundError \<Rightarrow> Inr (1, [''FAIL ''])
      | Inl e \<Rightarrow> Inl e)"

subsection \<open>What an accepted difference is\<close>

lemma property_of_eq:
  "property_of nodes path name = Some v \<longleftrightarrow> (\<exists>ps. map_of nodes path = Some ps \<and> map_of ps name = Some v)"
  by (auto simp: property_of_def split: option.splits)

lemma require_board_identity_ok [simp]:
  "require_board_identity nodes label = Inr u
     \<longleftrightarrow> property_of nodes ''/'' ''compatible'' = Some board_identity"
  by (simp add: require_board_identity_def)

lemma set_sorted_keys [simp]: "set (sorted_keys d) = fst ` set d"
  by (simp add: sorted_keys_def)

lemma distinct_sorted_keys [simp]: "distinct (sorted_keys d)"
  by (simp add: sorted_keys_def)

definition property_ok ::
    "((string \<times> string) \<times> bytes) list \<Rightarrow> string \<Rightarrow> string \<Rightarrow> bytes option \<Rightarrow> bytes option \<Rightarrow> bool" where
  "property_ok expected path name before after =
     (case map_of expected (path, name) of Some v \<Rightarrow> after = Some v | None \<Rightarrow> before = after)"

lemma compare_property_ok:
  "compare_property expected path bp cp name n = Inr m \<longleftrightarrow>
     property_ok expected path name (map_of bp name) (map_of cp name)
     \<and> m = n + of_bool (map_of bp name \<noteq> map_of cp name)"
  by (auto simp: compare_property_def property_ok_def Let_def split: option.splits)

lemma compare_node_ok:
  assumes "map_of base path = Some bp" and "map_of candidate path = Some cp"
  shows "compare_node expected base candidate path n = Inr m \<longleftrightarrow>
     (\<forall>name\<in>fst ` (set bp \<union> set cp). property_ok expected path name (map_of bp name) (map_of cp name))
     \<and> m = n + card {name. map_of bp name \<noteq> map_of cp name}"
proof -
  let ?w = "\<lambda>name. of_bool (map_of bp name \<noteq> map_of cp name) :: nat"
  have "sum_list (map ?w (sorted_keys (bp @ cp))) = (\<Sum>name\<in>fst ` (set bp \<union> set cp). ?w name)"
    by (simp add: sum_list_distinct_conv_sum_set)
  also have "\<dots> = card {name \<in> fst ` (set bp \<union> set cp). map_of bp name \<noteq> map_of cp name}"
    by (simp add: of_bool_def sum.If_cases Int_def)
  also have "{name \<in> fst ` (set bp \<union> set cp). map_of bp name \<noteq> map_of cp name}
      = {name. map_of bp name \<noteq> map_of cp name}"
    by (auto simp: image_Un) (metis map_of_eq_None_iff)
  finally show ?thesis
    unfolding compare_node_def assms prod.case option.case
    by (subst fold_result_count [where w = ?w
          and ok = "\<lambda>name. property_ok expected path name (map_of bp name) (map_of cp name)"])
      (auto simp: compare_property_ok)
qed

lemma require_expected_all:
  "fold_result (require_expected candidate) expected () = Inr ()
     \<longleftrightarrow> (\<forall>((path, name), v)\<in>set expected. property_of candidate path name = Some v)"
  by (induction expected)
     (auto simp: require_expected_def bind_result_eq_Inr split: if_splits)

lemma distinct_expected: "distinct (map fst (expected_properties ph))"
  by (simp add: expected_properties_def FIXED_PROPERTIES_def dtb_paths)

lemma expected_properties_all:
  "(\<forall>((path, name), v)\<in>set (expected_properties ph). P path name v)
     \<longleftrightarrow> (\<forall>path name v. map_of (expected_properties ph) (path, name) = Some v \<longrightarrow> P path name v)"
  using distinct_expected [of ph] by (auto simp: map_of_eq_Some_iff)

lemma property_of_outside: "path \<notin> fst ` set nodes \<Longrightarrow> property_of nodes path name = None"
  by (simp add: property_of_def map_of_eq_None_iff [symmetric])

lemma finite_dom_property_of: "finite (dom (property_of nodes path))"
proof (cases "map_of nodes path")
  case None
  then have "dom (property_of nodes path) = {}" by (auto simp: property_of_def)
  then show ?thesis by simp
next
  case (Some ps)
  then have "property_of nodes path = map_of ps" by (auto simp: property_of_def)
  then show ?thesis by (simp add: finite_dom_map_of)
qed

lemma differing_card:
  assumes "set (map fst base) = set (map fst candidate)"
  shows "card {(path, name). property_of base path name \<noteq> property_of candidate path name}
    = (\<Sum>path\<in>fst ` set base. card {name. property_of base path name \<noteq> property_of candidate path name})"
proof -
  have finite: "finite {name. property_of base path name \<noteq> property_of candidate path name}" for path
  proof (rule finite_subset)
    show "{name. property_of base path name \<noteq> property_of candidate path name}
       \<subseteq> dom (property_of base path) \<union> dom (property_of candidate path)" by auto
    show "finite (dom (property_of base path) \<union> dom (property_of candidate path))"
      by (simp add: finite_dom_property_of)
  qed
  have "{(path, name). property_of base path name \<noteq> property_of candidate path name}
    = (SIGMA path : fst ` set base. {name. property_of base path name \<noteq> property_of candidate path name})"
    using assms by (auto simp: property_of_def split: option.splits)
      (metis fst_conv image_eqI map_of_SomeD set_map)+
  then show ?thesis by (simp add: card_SigmaI finite)
qed

lemma compare_nodes_ok:
  assumes "set (map fst base) = set (map fst candidate)"
  shows "fold_result (compare_node expected base candidate) (sorted_keys base) 0 = Inr m \<longleftrightarrow>
     (\<forall>path\<in>fst ` set base. \<forall>name.
        property_of base path name \<noteq> None \<or> property_of candidate path name \<noteq> None \<longrightarrow>
        property_ok expected path name (property_of base path name) (property_of candidate path name))
     \<and> m = card {(path, name). property_of base path name \<noteq> property_of candidate path name}"
proof -
  let ?ok = "\<lambda>path. \<forall>name.
        property_of base path name \<noteq> None \<or> property_of candidate path name \<noteq> None \<longrightarrow>
        property_ok expected path name (property_of base path name) (property_of candidate path name)"
  let ?w = "\<lambda>path. card {name. property_of base path name \<noteq> property_of candidate path name}"
  have node: "compare_node expected base candidate path n = Inr m \<longleftrightarrow> ?ok path \<and> m = n + ?w path"
    if "path \<in> fst ` set base" for path n m
  proof -
    from that assms obtain bp cp where
      "map_of base path = Some bp" "map_of candidate path = Some cp"
      by (metis map_of_eq_None_iff not_None_eq set_map)
    moreover from this have "property_of base path = map_of bp" "property_of candidate path = map_of cp"
      by (auto simp: property_of_def)
    moreover have "fst ` (set bp \<union> set cp) = {name. map_of bp name \<noteq> None \<or> map_of cp name \<noteq> None}"
      by (simp add: map_of_eq_None_iff) blast
    ultimately show ?thesis by (simp only: compare_node_ok ball_simps mem_Collect_eq Ball_def)
  qed
  have "fold_result (compare_node expected base candidate) (sorted_keys base) 0 = Inr m \<longleftrightarrow>
     (\<forall>path\<in>set (sorted_keys base). ?ok path) \<and> m = 0 + sum_list (map ?w (sorted_keys base))"
    by (rule fold_result_count) (use node in simp)
  then show ?thesis
    by (simp add: differing_card [OF assms] sum_list_distinct_conv_sum_set)
qed

text \<open>
  The reviewed contract: the same nodes, every approved property at its approved value, and
  every other property as it was.
\<close>

definition approved_delta :: "bytes \<Rightarrow> dtb_nodes \<Rightarrow> dtb_nodes \<Rightarrow> bool" where
  "approved_delta ph base candidate \<longleftrightarrow>
     set (map fst base) = set (map fst candidate)
     \<and> (\<forall>path name. property_of candidate path name =
           (case map_of (expected_properties ph) (path, name) of
              Some v \<Rightarrow> Some v | None \<Rightarrow> property_of base path name))"

lemma approved_delta_iff:
  assumes keys: "set (map fst base) = set (map fst candidate)"
  shows "approved_delta ph base candidate \<longleftrightarrow>
     (\<forall>path\<in>fst ` set base. \<forall>name.
        property_of base path name \<noteq> None \<or> property_of candidate path name \<noteq> None \<longrightarrow>
        property_ok (expected_properties ph) path name
          (property_of base path name) (property_of candidate path name))
     \<and> (\<forall>((path, name), v)\<in>set (expected_properties ph). property_of candidate path name = Some v)"
    (is "_ \<longleftrightarrow> ?loop \<and> ?all")
proof
  assume "approved_delta ph base candidate"
  then show "?loop \<and> ?all"
    unfolding expected_properties_all by (auto simp: approved_delta_def property_ok_def split: option.splits)
next
  assume both: "?loop \<and> ?all"
  have "property_of candidate path name =
           (case map_of (expected_properties ph) (path, name) of
              Some v \<Rightarrow> Some v | None \<Rightarrow> property_of base path name)" for path name
  proof (cases "map_of (expected_properties ph) (path, name)")
    case None
    show ?thesis
    proof (cases "path \<in> fst ` set base")
      case True
      with both have "property_of base path name \<noteq> None \<or> property_of candidate path name \<noteq> None \<longrightarrow>
          property_ok (expected_properties ph) path name
            (property_of base path name) (property_of candidate path name)"
        by blast
      with None show ?thesis by (auto simp: property_ok_def)
    next
      case False
      with keys have "path \<notin> fst ` set candidate" by simp
      with False None show ?thesis by (simp add: property_of_outside)
    qed
  next
    case (Some v)
    with both show ?thesis unfolding expected_properties_all by simp
  qed
  with keys show "approved_delta ph base candidate" by (simp add: approved_delta_def)
qed

text \<open>
  C10. The comparison accepts a candidate, with the number of changed properties, exactly when
  both trees carry the board's identity, the candidate's USB2 PHY has a one-cell handle, the
  candidate is the base with the reviewed properties set and nothing else touched, and at least
  one property differs.
\<close>

theorem compare_exact:
  "compare base candidate = Inr n \<longleftrightarrow>
     property_of base ''/'' ''compatible'' = Some board_identity
     \<and> property_of candidate ''/'' ''compatible'' = Some board_identity
     \<and> (\<exists>hsphy ph. map_of candidate USB_HSPHY = Some hsphy \<and> hsphy_phandle hsphy = Some ph
           \<and> length ph = 4 \<and> approved_delta ph base candidate)
     \<and> n = card {(path, name). property_of base path name \<noteq> property_of candidate path name}
     \<and> 0 < n"
proof (cases "set (map fst base) = set (map fst candidate)")
  case False
  then show ?thesis
    by (auto simp: compare_def approved_delta_def bind_result_eq_Inr simp del: set_map)
next
  case True
  show ?thesis
    using True
    by (auto simp: compare_def bind_result_eq_Inr compare_nodes_ok [OF True] require_expected_all
        approved_delta_iff [OF True] Let_def simp del: set_map split: option.splits if_splits)
qed

subsection \<open>The trees a parse returns\<close>

definition node_name_ok :: "string \<Rightarrow> bool" where
  "node_name_ok name \<longleftrightarrow> name \<noteq> [] \<and> CHR ''/'' \<notin> set name"

text \<open>
  Paths are distinct, the root comes first, every other node hangs below a node of the tree, and
  the names of a node's properties are distinct and well formed.
\<close>

definition paths_wf :: "string list \<Rightarrow> bool" where
  "paths_wf paths \<longleftrightarrow> distinct paths \<and> (paths \<noteq> [] \<longrightarrow> hd paths = ''/'')
     \<and> (\<forall>path\<in>set paths. path = ''/''
           \<or> (\<exists>parent\<in>set paths. \<exists>name. node_name_ok name \<and> path = child_path parent name))"

definition properties_wf :: "properties \<Rightarrow> bool" where
  "properties_wf props \<longleftrightarrow> distinct (map fst props) \<and> (\<forall>name\<in>fst ` set props. node_name_ok name)"

definition dtb_wf :: "dtb_nodes \<Rightarrow> bool" where
  "dtb_wf nodes \<longleftrightarrow> paths_wf (map fst nodes) \<and> (\<forall>props\<in>snd ` set nodes. properties_wf props)"

lemma dtb_wf_Nil: "dtb_wf []"
  by (simp add: dtb_wf_def paths_wf_def)

lemma dtb_wf_root: "dtb_wf [(''/'', [])]"
  by (simp add: dtb_wf_def paths_wf_def properties_wf_def)

lemma paths_wf_child:
  assumes "paths_wf paths" and "parent \<in> set paths" and "node_name_ok name"
    and "child_path parent name \<notin> set paths"
  shows "paths_wf (paths @ [child_path parent name])"
proof -
  from assms(2) have "paths \<noteq> []" by auto
  with assms show ?thesis unfolding paths_wf_def by (auto simp: hd_append)
qed

lemma fst_set_property [simp]: "map fst (set_property nodes path name v) = map fst nodes"
  by (auto simp: set_property_def)

lemma fst_set_set_property [simp]: "fst ` set (set_property nodes path name v) = fst ` set nodes"
  using fst_set_property [of nodes path name v] by (metis set_map)

lemma dtb_wf_set_property:
  assumes wf: "dtb_wf nodes" and path: "map_of nodes path = Some props"
    and name: "name \<notin> set (map fst props)" "node_name_ok name"
  shows "dtb_wf (set_property nodes path name v)"
proof -
  have "properties_wf ps" if mem: "(q, ps) \<in> set (set_property nodes path name v)" for q ps
  proof -
    from mem obtain qs where qs: "(q, qs) \<in> set nodes"
      and ps: "ps = (if q = path then qs @ [(name, v)] else qs)"
      by (auto simp: set_property_def split: if_splits)
    from wf qs have "properties_wf qs" by (force simp: dtb_wf_def)
    moreover from wf have "distinct (map fst nodes)" by (simp add: dtb_wf_def paths_wf_def)
    then have "qs = props" if "q = path" using qs path that by simp
    ultimately show ?thesis using ps name by (auto simp: properties_wf_def)
  qed
  with wf show ?thesis by (auto simp: dtb_wf_def)
qed

lemma parse_token_wf:
  assumes "parse_token blk strings nodes stack position = Inr (Some (nodes', stack', position'))"
    and "dtb_wf nodes" and "set stack \<subseteq> set (map fst nodes)"
  shows "dtb_wf nodes' \<and> set stack' \<subseteq> set (map fst nodes')"
proof -
  have add: "dtb_wf (nodes @ [(path, [])])" if "paths_wf (map fst nodes @ [path])" for path
    using that assms(2) by (auto simp: dtb_wf_def properties_wf_def)
  from assms(2) have "paths_wf (map fst nodes)" by (simp add: dtb_wf_def)
  with assms show ?thesis
    by (auto simp: parse_token_def Let_def bind_result_eq_Inr dtb_wf_root
        node_name_ok_def simp del: set_map
        intro!: add paths_wf_child dtb_wf_set_property
        split: if_split_asm list.split_asm option.split_asm)
qed

lemma parse_structure_wf:
  assumes "parse_structure blk strings nodes stack position = Inr (nodes', ended)"
    and "dtb_wf nodes" and "set stack \<subseteq> set (map fst nodes)"
  shows "dtb_wf nodes'"
  using assms
proof (induction blk strings nodes stack position rule: parse_structure.induct)
  case (1 blk strings nodes stack position)
  show ?case
  proof (cases "parse_token blk strings nodes stack position")
    case (Inl e)
    with "1.prems" show ?thesis by (simp add: parse_structure.simps [of blk] split: if_splits)
  next
    case (Inr turn)
    show ?thesis
    proof (cases "position < length blk \<and> turn \<noteq> None")
      case False
      with Inr "1.prems" show ?thesis
        by (cases turn) (auto simp: parse_structure.simps [of blk strings nodes] split: if_splits)
    next
      case True
      then obtain nodes1 stack1 position1 where turn: "turn = Some (nodes1, stack1, position1)"
        by (cases turn) auto
      with Inr "1.prems" have "dtb_wf nodes1 \<and> set stack1 \<subseteq> set (map fst nodes1)"
        by (auto dest!: parse_token_wf simp del: set_map)
      moreover from True turn Inr "1.prems"(1)
      have "parse_structure blk strings nodes1 stack1 position1 = Inr (nodes', ended)"
        by (simp add: parse_structure.simps [of blk strings nodes])
      ultimately show ?thesis using "1.IH" True turn Inr by simp
    qed
  qed
qed

lemma parse_dtb_wf:
  assumes "parse_dtb data label = Inr nodes"
  shows "dtb_wf nodes \<and> nodes \<noteq> []"
proof -
  from assms obtain blk strings ended where
    "parse_structure blk strings [] [] 0 = Inr (nodes, ended)" "''/'' \<in> set (map fst nodes)"
    by (auto simp: parse_dtb_def Let_def bind_result_eq_Inr split: if_splits option.splits)
  then show ?thesis
    by (auto dest!: parse_structure_wf simp: dtb_wf_Nil)
qed

subsection \<open>Every encoded tree parses back\<close>

text \<open>
  A reference encoder, the layout the device tree compiler writes: header, an empty reservation
  map, the structure block with each node's properties before its children, the strings block.
\<close>

datatype dt = Dt (dt_name: string) (dt_props: properties) (dt_children: "dt list")

definition pad4 :: "bytes \<Rightarrow> bytes" where
  "pad4 bs = bs @ replicate (aligned (length bs) - length bs) NUL"

definition emit_property :: "(string \<Rightarrow> nat) \<Rightarrow> string \<times> bytes \<Rightarrow> bytes" where
  "emit_property off = (\<lambda>(name, v).
     nat_be 4 FDT_PROP @ nat_be 4 (length v) @ nat_be 4 (off name) @ pad4 v)"

primrec emit_node :: "(string \<Rightarrow> nat) \<Rightarrow> dt \<Rightarrow> bytes" where
  "emit_node off (Dt name props kids) =
     nat_be 4 FDT_BEGIN_NODE @ pad4 (name @ [NUL]) @ concat (map (emit_property off) props)
     @ concat (map (emit_node off) kids) @ nat_be 4 FDT_END_NODE"

primrec flatten_at :: "string \<Rightarrow> dt \<Rightarrow> dtb_nodes" where
  "flatten_at path (Dt name props kids) =
     (path, props) # concat (map (\<lambda>k. flatten_at (child_path path (dt_name k)) k) kids)"
lemma aligned_add: "a mod 4 = 0 \<Longrightarrow> aligned (a + b) = a + aligned b"
  unfolding aligned_def by presburger

lemma aligned_mod [simp]: "aligned n mod 4 = 0"
  by (simp add: aligned_def)

lemma length_pad4 [simp]: "length (pad4 bs) = aligned (length bs)"
  using aligned_ge [of "length bs"] by (simp add: pad4_def)

lemma u32_at_append:
  "length pre = p \<Longrightarrow> n < 2 ^ 32 \<Longrightarrow> u32_at (pre @ nat_be 4 n @ rest) p = n"
  by (simp add: u32_at_def slice_def)

lemma c_string_append:
  assumes "length pre = p" and "NUL \<notin> set text" and "list_all is_ascii text"
  shows "c_string (pre @ text @ NUL # rest) p l = Inr (text, p + length text + 1)"
proof -
  have "takeWhile (\<lambda>c. c \<noteq> NUL) (text @ NUL # rest) = text"
    using assms(2) by (subst takeWhile_append2) auto
  with assms show ?thesis by (simp add: c_string_def Let_def)
qed

lemma pad4_NUL: "pad4 (name @ [NUL]) @ rest = name @ NUL # (replicate (aligned (length name + 1) - (length name + 1)) NUL @ rest)"
  by (simp add: pad4_def)

definition plain_name :: "string \<Rightarrow> bool" where
  "plain_name name \<longleftrightarrow> node_name_ok name \<and> NUL \<notin> set name \<and> list_all is_ascii name"

lemma parse_begin_child:
  assumes "blk = pre @ nat_be 4 FDT_BEGIN_NODE @ pad4 (name @ [NUL]) @ rest" and "length pre mod 4 = 0"
    and "plain_name name" and "child_path parent name \<notin> fst ` set nodes"
  shows "parse_structure blk strings nodes (parent # stack) (length pre) =
     parse_structure blk strings (nodes @ [(child_path parent name, [])])
       (child_path parent name # parent # stack) (length pre + (4 + aligned (length name + 1)))"
proof -
  have "c_string ((pre @ nat_be 4 FDT_BEGIN_NODE) @ pad4 (name @ [NUL]) @ rest) (length pre + 4) l
     = Inr (name, length pre + 4 + length name + 1)" for l
    unfolding pad4_NUL using assms(3) by (intro c_string_append) (simp_all add: plain_name_def)
  moreover have "aligned (length pre + 4 + length name + 1) = length pre + (4 + aligned (length name + 1))"
    using aligned_add [of "length pre + 4" "length name + 1"] assms(2) by (simp add: add.assoc mod_simps)
  moreover have "u32_at blk (length pre) = FDT_BEGIN_NODE"
    unfolding assms(1) by (rule u32_at_append) (simp_all add: fdt_constants)
  ultimately have "parse_token blk strings nodes (parent # stack) (length pre) = Inr (Some
      (nodes @ [(child_path parent name, [])], child_path parent name # parent # stack,
       length pre + (4 + aligned (length name + 1))))"
    using assms(3,4) by (simp add: parse_token_def assms(1) plain_name_def node_name_ok_def)
  then show ?thesis
    by (subst parse_structure.simps) (simp add: assms(1))
qed

lemma parse_end_node:
  assumes "blk = pre @ nat_be 4 FDT_END_NODE @ rest"
  shows "parse_structure blk strings nodes (node # stack) (length pre) =
     parse_structure blk strings nodes stack (length pre + 4)"
proof -
  have "u32_at blk (length pre) = FDT_END_NODE"
    unfolding assms(1) by (rule u32_at_append) (simp_all add: fdt_constants)
  then have "parse_token blk strings nodes (node # stack) (length pre) = Inr (Some (nodes, stack, length pre + 4))"
    by (simp add: parse_token_def assms fdt_constants)
  then show ?thesis by (subst parse_structure.simps) (simp add: assms(1))
qed

lemma parse_property:
  assumes blk: "blk = pre @ emit_property off (name, v) @ rest" and "length pre mod 4 = 0"
    and "node_name_ok name" and "\<And>l. \<exists>k. c_string strings (off name) l = Inr (name, k)"
    and "length v < 2 ^ 32" and "off name < 2 ^ 32"
    and path: "path \<notin> fst ` set nodes" and "name \<notin> fst ` set props"
  shows "parse_structure blk strings (nodes @ [(path, props)]) (path # stack) (length pre) =
     parse_structure blk strings (nodes @ [(path, props @ [(name, v)])]) (path # stack)
       (length pre + length (emit_property off (name, v)))"
proof -
  have token: "u32_at blk (length pre) = FDT_PROP"
    unfolding blk emit_property_def by (simp, rule u32_at_append) (simp_all add: fdt_constants)
  have blk2: "blk = (pre @ nat_be 4 FDT_PROP) @ nat_be 4 (length v) @ nat_be 4 (off name) @ pad4 v @ rest"
    and blk3: "blk = (pre @ nat_be 4 FDT_PROP @ nat_be 4 (length v)) @ nat_be 4 (off name) @ pad4 v @ rest"
    and blk4: "blk = (pre @ nat_be 4 FDT_PROP @ nat_be 4 (length v) @ nat_be 4 (off name)) @ pad4 v @ rest"
    by (simp_all add: blk emit_property_def)
  have n: "u32_at blk (length pre + 4) = length v"
    unfolding blk2 using assms(5) by (intro u32_at_append) simp_all
  have o: "u32_at blk (length pre + 4 + 4) = off name"
    unfolding blk3 using assms(6) by (intro u32_at_append) simp_all
  have v: "bounded_slice blk (length pre + 4 + 8) (length v) l = Inr v" for l
    unfolding blk4 bounded_slice_def by (simp add: slice_def pad4_def)
  obtain k where k: "c_string strings (off name) ''DTB property name'' = Inr (name, k)"
    using assms(4) by blast
  have len: "aligned (length pre + 4 + 8 + length v) = length pre + length (emit_property off (name, v))"
  proof -
    from assms(2) have "(length pre + 12) mod 4 = 0" by presburger
    from aligned_add [OF this, of "length v"] show ?thesis
      by (simp add: emit_property_def add.commute [of 12])
  qed
  have set: "set_property (nodes @ [(path, props)]) path name v = nodes @ [(path, props @ [(name, v)])]"
    using path by (force simp: set_property_def intro: map_idI)
  have "map_of (nodes @ [(path, props)]) path = Some props"
    using path by (simp add: map_of_eq_None_iff [symmetric] map_add_def)
  then have "parse_token blk strings (nodes @ [(path, props)]) (path # stack) (length pre) = Inr (Some
     (nodes @ [(path, props @ [(name, v)])], path # stack, length pre + length (emit_property off (name, v))))"
    using assms(3,8) token n o v k len set
    by (simp add: parse_token_def fdt_constants node_name_ok_def Let_def blk4)
  then show ?thesis
    by (subst parse_structure.simps) (simp add: blk4)
qed

fun dt_names :: "dt \<Rightarrow> string list" where
  "dt_names (Dt name props kids) = map fst props @ concat (map dt_names kids)"

text \<open>The trees the format can hold: plain names, and property values of a 32-bit length.\<close>

fun dt_wf :: "dt \<Rightarrow> bool" where
  "dt_wf (Dt name props kids) \<longleftrightarrow>
     distinct (map fst props) \<and> (\<forall>(n, v)\<in>set props. plain_name n \<and> length v < 2 ^ 32)
     \<and> (\<forall>k\<in>set kids. plain_name (dt_name k) \<and> dt_wf k)"

definition strings_at :: "(string \<Rightarrow> nat) \<Rightarrow> bytes \<Rightarrow> string set \<Rightarrow> bool" where
  "strings_at off strings names \<longleftrightarrow>
     (\<forall>name\<in>names. off name < 2 ^ 32 \<and> (\<forall>l. \<exists>k. c_string strings (off name) l = Inr (name, k)))"

lemma length_emit_property [simp]: "length (emit_property off p) mod 4 = 0"
proof -
  have "(12 + aligned n) mod 4 = 0" for n unfolding aligned_def by presburger
  then show ?thesis by (cases p) (simp add: emit_property_def add.assoc)
qed

lemma length_concat_mod:
  "(\<And>x. x \<in> set xs \<Longrightarrow> length (f x) mod (4::nat) = 0) \<Longrightarrow> length (concat (map f xs)) mod 4 = 0"
proof (induction xs)
  case (Cons x xs)
  then have "length (f x) mod 4 = 0" "length (concat (map f xs)) mod 4 = 0" by simp_all
  then show ?case by (simp, presburger)
qed simp

lemma length_emit_node: "length (emit_node off t) mod 4 = 0"
proof (induction t)
  case (Dt name props kids)
  have "length (concat (map (emit_property off) props)) mod 4 = 0"
    "length (concat (map (emit_node off) kids)) mod 4 = 0"
    by (rule length_concat_mod, simp_all add: Dt)+
  moreover have "aligned n mod 4 = 0" for n by simp
  ultimately have "(4 + (aligned (Suc (length name)) + (length (concat (map (emit_property off) props))
     + (length (concat (map (emit_node off) kids)) + 4)))) mod 4 = 0"
    by (metis (no_types, lifting) add_0_right mod_add_left_eq mod_add_right_eq mod_self)
  then show ?case by (simp only: emit_node.simps length_append length_nat_be length_pad4) simp
qed

lemma parse_properties:
  assumes "blk = pre @ concat (map (emit_property off) props) @ rest" and "length pre mod 4 = 0"
    and "\<forall>(n, v)\<in>set props. plain_name n \<and> length v < 2 ^ 32"
    and "strings_at off strings (fst ` set props)"
    and "path \<notin> fst ` set nodes" and "distinct (map fst (done @ props))"
  shows "parse_structure blk strings (nodes @ [(path, done)]) (path # stack) (length pre) =
     parse_structure blk strings (nodes @ [(path, done @ props)]) (path # stack)
       (length pre + length (concat (map (emit_property off) props)))"
  using assms
proof (induction props arbitrary: pre "done")
  case (Cons p props)
  obtain n v where p: "p = (n, v)" by (cases p)
  let ?pre = "pre @ emit_property off p"
  have "parse_structure blk strings (nodes @ [(path, done)]) (path # stack) (length pre) =
     parse_structure blk strings (nodes @ [(path, done @ [p])]) (path # stack) (length ?pre)"
    unfolding p length_append using Cons.prems unfolding p
    by (intro parse_property [where rest = "concat (map (emit_property off) props) @ rest"])
       (auto simp: plain_name_def strings_at_def)
  also have "length ?pre mod 4 = 0"
    using Cons.prems(2) length_emit_property [of off p] by (simp, presburger)
  with Cons.prems have "parse_structure blk strings (nodes @ [(path, done @ [p])]) (path # stack) (length ?pre) =
     parse_structure blk strings (nodes @ [(path, (done @ [p]) @ props)]) (path # stack)
       (length ?pre + length (concat (map (emit_property off) props)))"
    by (intro Cons.IH) (auto simp: strings_at_def)
  finally show ?case by (simp add: add.assoc)
qed simp

definition node_parses :: "(string \<Rightarrow> nat) \<Rightarrow> bytes \<Rightarrow> dt \<Rightarrow> bool" where
  "node_parses off strings t \<longleftrightarrow> (\<forall>pre rest parent nodes stack.
     length pre mod 4 = 0 \<longrightarrow>
     distinct (map fst (nodes @ flatten_at (child_path parent (dt_name t)) t)) \<longrightarrow>
     parse_structure (pre @ emit_node off t @ rest) strings nodes (parent # stack) (length pre) =
     parse_structure (pre @ emit_node off t @ rest) strings
       (nodes @ flatten_at (child_path parent (dt_name t)) t) (parent # stack)
       (length (pre @ emit_node off t)))"

lemma node_parsesD:
  assumes "node_parses off strings t" and "blk = pre @ emit_node off t @ rest"
    and "length pre mod 4 = 0"
    and "distinct (map fst (nodes @ flatten_at (child_path parent (dt_name t)) t))"
  shows "parse_structure blk strings nodes (parent # stack) (length pre) =
     parse_structure blk strings (nodes @ flatten_at (child_path parent (dt_name t)) t)
       (parent # stack) (length (pre @ emit_node off t))"
  unfolding assms(2)
  by (rule assms(1) [unfolded node_parses_def, rule_format, OF assms(3,4)])

lemma strings_at_mono: "strings_at off strings B \<Longrightarrow> A \<subseteq> B \<Longrightarrow> strings_at off strings A"
  by (auto simp: strings_at_def)

definition flatten_kids :: "string \<Rightarrow> dt list \<Rightarrow> dtb_nodes" where
  "flatten_kids path kids = concat (map (\<lambda>k. flatten_at (child_path path (dt_name k)) k) kids)"

lemma parse_kids:
  assumes "\<And>k. k \<in> set kids \<Longrightarrow> node_parses off strings k"
    and "blk = pre @ concat (map (emit_node off) kids) @ rest" and "length pre mod 4 = 0"
    and "distinct (map fst (nodes @ flatten_kids path kids))"
  shows "parse_structure blk strings nodes (path # stack) (length pre) =
     parse_structure blk strings (nodes @ flatten_kids path kids) (path # stack)
       (length (pre @ concat (map (emit_node off) kids)))"
  using assms
proof (induction kids arbitrary: pre nodes)
  case (Cons k kids)
  let ?pre = "pre @ emit_node off k" and ?nodes = "nodes @ flatten_at (child_path path (dt_name k)) k"
  have "node_parses off strings k" by (rule Cons.prems) simp
  with Cons.prems(2-4) have "parse_structure blk strings nodes (path # stack) (length pre) =
     parse_structure blk strings ?nodes (path # stack) (length ?pre)"
    by (intro node_parsesD [where rest = "concat (map (emit_node off) kids) @ rest"])
       (auto simp: flatten_kids_def)
  also have "length ?pre mod 4 = 0"
    using Cons.prems(3) length_emit_node [of off k] by (simp, presburger)
  with Cons.prems have "parse_structure blk strings ?nodes (path # stack) (length ?pre) =
     parse_structure blk strings (?nodes @ flatten_kids path kids) (path # stack)
       (length (?pre @ concat (map (emit_node off) kids)))"
    by (intro Cons.IH) (auto simp: flatten_kids_def)
  finally show ?case by (simp add: flatten_kids_def)
qed (simp add: flatten_kids_def)

text \<open>The body of a node, the root's too: properties, children, end token.\<close>

lemma parse_body:
  assumes kids: "\<And>k. k \<in> set kids \<Longrightarrow> node_parses off strings k"
    and blk: "blk = pre @ concat (map (emit_property off) props) @ concat (map (emit_node off) kids)
         @ nat_be 4 FDT_END_NODE @ rest"
    and pre: "length pre mod 4 = 0"
    and props: "\<forall>(n, v)\<in>set props. plain_name n \<and> length v < 2 ^ 32"
      "strings_at off strings (fst ` set props)" "distinct (map fst props)"
    and distinct: "distinct (map fst (nodes @ (path, props) # flatten_kids path kids))"
  shows "parse_structure blk strings (nodes @ [(path, [])]) (path # stack) (length pre) =
     parse_structure blk strings (nodes @ (path, props) # flatten_kids path kids) stack
       (length (pre @ concat (map (emit_property off) props) @ concat (map (emit_node off) kids)
         @ nat_be 4 FDT_END_NODE))"
proof -
  let ?pre1 = "pre @ concat (map (emit_property off) props)"
  let ?pre2 = "?pre1 @ concat (map (emit_node off) kids)"
  have "length (concat (map (emit_property off) props)) mod 4 = 0"
    by (rule length_concat_mod) simp
  with pre have pre1: "length ?pre1 mod 4 = 0" by (simp, presburger)
  have "parse_structure blk strings (nodes @ [(path, [])]) (path # stack) (length pre) =
     parse_structure blk strings (nodes @ [(path, [] @ props)]) (path # stack)
       (length pre + length (concat (map (emit_property off) props)))"
    using blk pre props distinct by (intro parse_properties) auto
  also have "\<dots> = parse_structure blk strings (nodes @ [(path, props)]) (path # stack) (length ?pre1)"
    by simp
  also have "\<dots> = parse_structure blk strings ((nodes @ [(path, props)]) @ flatten_kids path kids)
      (path # stack) (length ?pre2)"
    using distinct by (intro parse_kids [OF kids _ pre1]) (auto simp: blk)
  also have "\<dots> = parse_structure blk strings ((nodes @ [(path, props)]) @ flatten_kids path kids)
      stack (length ?pre2 + 4)"
    by (rule parse_end_node [where rest = rest]) (simp add: blk)
  finally show ?thesis by (simp add: add.assoc)
qed

lemma node_parses_all:
  assumes "dt_wf t" and "plain_name (dt_name t)" and "strings_at off strings (set (dt_names t))"
  shows "node_parses off strings t"
  using assms
proof (induction t)
  case (Dt name props kids)
  have kids: "node_parses off strings k" if "k \<in> set kids" for k
    using Dt.prems that by (intro Dt.IH) (auto intro: strings_at_mono)
  show ?case
    unfolding node_parses_def dt.sel
  proof (intro allI impI)
    fix pre rest :: bytes and parent :: string and nodes :: dtb_nodes and stack :: "string list"
    let ?path = "child_path parent name" and ?t = "Dt name props kids"
    let ?pre = "pre @ nat_be 4 FDT_BEGIN_NODE @ pad4 (name @ [NUL])"
    let ?blk = "pre @ emit_node off ?t @ rest"
    assume pre: "length pre mod 4 = 0"
      and distinct: "distinct (map fst (nodes @ flatten_at ?path ?t))"
    have "(length pre + (4 + aligned (length name + 1))) mod 4 = 0"
      using pre unfolding aligned_def by presburger
    then have "length ?pre mod 4 = 0" by simp
    moreover have "parse_structure ?blk strings nodes (parent # stack) (length pre)
        = parse_structure ?blk strings (nodes @ [(?path, [])]) (?path # parent # stack)
            (length pre + (4 + aligned (length name + 1)))"
      using Dt.prems(2) pre distinct
      by (intro parse_begin_child [where rest = "concat (map (emit_property off) props)
            @ concat (map (emit_node off) kids) @ nat_be 4 FDT_END_NODE @ rest"]) auto
    ultimately show "parse_structure ?blk strings nodes (parent # stack) (length pre) =
        parse_structure ?blk strings (nodes @ flatten_at ?path ?t) (parent # stack)
          (length (pre @ emit_node off ?t))"
      using parse_body [OF kids, where ?pre = ?pre and blk = ?blk and rest = rest and props = props
          and nodes = nodes and path = ?path and stack = "parent # stack"] Dt.prems distinct
      by (auto simp: flatten_kids_def strings_at_def)
  qed
qed

lemma parse_begin_root:
  assumes blk: "blk = nat_be 4 FDT_BEGIN_NODE @ pad4 [NUL] @ rest"
  shows "parse_structure blk strings [] [] 0 = parse_structure blk strings [(''/'', [])] [''/''] 8"
proof -
  have al: "aligned 5 = 8" "aligned (Suc 0) = 4" by (simp_all add: aligned_def)
  have "c_string (nat_be 4 FDT_BEGIN_NODE @ [] @ NUL # replicate 3 NUL @ rest) 4 l = Inr ([], 5)" for l
    using c_string_append [of "nat_be 4 FDT_BEGIN_NODE" 4 "[]" "replicate 3 NUL @ rest" l] by simp
  moreover have "pad4 [NUL] @ rest = [] @ NUL # replicate 3 NUL @ rest"
    by (simp add: pad4_def al)
  moreover have "u32_at blk 0 = FDT_BEGIN_NODE"
    using u32_at_append [of "[]" 0 FDT_BEGIN_NODE] by (simp add: blk fdt_constants)
  ultimately have "parse_token blk strings [] [] 0 = Inr (Some ([(''/'', [])], [''/''], 8))"
    unfolding parse_token_def by (simp add: blk al)
  then show ?thesis by (subst parse_structure.simps) (simp add: blk)
qed

lemma parse_end:
  assumes blk: "blk = pre @ nat_be 4 FDT_END"
  shows "parse_structure blk strings nodes [] (length pre) = Inr (nodes, True)"
proof -
  have "u32_at blk (length pre) = FDT_END"
    using u32_at_append [of pre "length pre" FDT_END "[]"] by (simp add: blk fdt_constants)
  then have "parse_token blk strings nodes [] (length pre) = Inr None"
    by (simp add: parse_token_def blk fdt_constants)
  then show ?thesis by (subst parse_structure.simps) (simp add: blk)
qed

lemma parse_structure_tree:
  assumes "dt_wf t" and "dt_name t = []" and "strings_at off strings (set (dt_names t))"
    and "distinct (map fst (flatten_at ''/'' t))"
  shows "parse_structure (emit_node off t @ nat_be 4 FDT_END) strings [] [] 0
    = Inr (flatten_at ''/'' t, True)"
proof -
  obtain props kids where t: "t = Dt [] props kids" using assms(2) by (cases t) auto
  let ?body = "concat (map (emit_property off) props) @ concat (map (emit_node off) kids)
       @ nat_be 4 FDT_END_NODE"
  let ?head = "nat_be 4 FDT_BEGIN_NODE @ pad4 [NUL]"
  let ?blk = "emit_node off t @ nat_be 4 FDT_END"
  have head: "length ?head = 8" by (simp add: aligned_def)
  have kids: "node_parses off strings k" if "k \<in> set kids" for k
    using assms that by (intro node_parses_all) (auto simp: t strings_at_def)
  have "parse_structure ?blk strings [] [] 0 = parse_structure ?blk strings [(''/'', [])] [''/''] 8"
    by (rule parse_begin_root [where rest = "?body @ nat_be 4 FDT_END"]) (simp add: t)
  also have "\<dots> = parse_structure ?blk strings (flatten_at ''/'' t) [] (length (?head @ ?body))"
    using parse_body [OF kids, where ?pre = ?head and blk = ?blk and rest = "nat_be 4 FDT_END"
        and props = props and nodes = "[]" and path = "''/''" and stack = "[]"] assms
    by (auto simp: head t flatten_kids_def strings_at_def aligned_def)
  also have "\<dots> = Inr (flatten_at ''/'' t, True)"
    by (rule parse_end) (simp add: t)
  finally show ?thesis .
qed

definition strings_block :: "string list \<Rightarrow> bytes" where
  "strings_block names = concat (map (\<lambda>n. n @ [NUL]) names)"

definition string_offset :: "string list \<Rightarrow> string \<Rightarrow> nat" where
  "string_offset names name = length (strings_block (takeWhile (\<lambda>n. n \<noteq> name) names))"

lemma strings_at_block:
  assumes "\<forall>name\<in>set names. plain_name name" and "length (strings_block names) < 2 ^ 32"
  shows "strings_at (string_offset names) (strings_block names) (set names)"
  unfolding strings_at_def
proof (intro ballI conjI allI)
  fix name l
  assume name: "name \<in> set names"
  let ?pre = "takeWhile (\<lambda>n. n \<noteq> name) names"
  obtain rest where "names = ?pre @ name # rest"
    using name by (metis (mono_tags, lifting) dropWhile_eq_Nil_conv hd_dropWhile list.collapse
        takeWhile_dropWhile_id)
  then have split: "strings_block names = strings_block ?pre @ name @ NUL # strings_block rest"
    by (metis (no_types, lifting) append.assoc append_Cons append_Nil concat.simps(2) concat_append
        list.simps(9) map_append strings_block_def)
  then show "string_offset names name < 2 ^ 32"
    using assms(2) by (simp add: string_offset_def)
  show "\<exists>k. c_string (strings_block names) (string_offset names name) l = Inr (name, k)"
    unfolding split string_offset_def
    using assms(1) name by (auto simp: plain_name_def intro!: exI c_string_append)
qed

definition encode_dtb :: "dt \<Rightarrow> bytes" where
  "encode_dtb t =
     (let names = remdups (dt_names t);
          strings = strings_block names;
          blk = emit_node (string_offset names) t @ nat_be 4 FDT_END
      in concat (map (nat_be 4)
           [FDT_MAGIC, 56 + length blk + length strings, 56, 56 + length blk, 40, 17, 16, 0,
            length strings, length blk])
         @ replicate 16 NUL @ blk @ strings)"

lemma header_word_words:
  assumes "i < length ws" and "ws ! i < 2 ^ 32"
  shows "header_word (concat (map (nat_be 4) ws) @ rest) i = ws ! i"
proof -
  have "concat (map (nat_be 4) ws) @ rest = concat (map (nat_be 4) (take i ws)) @ nat_be 4 (ws ! i)
      @ concat (map (nat_be 4) (drop (Suc i) ws)) @ rest"
    using id_take_nth_drop [OF assms(1)]
    by (metis (no_types, lifting) append.assoc concat.simps(2) concat_append list.simps(9) map_append)
  moreover have "length (concat (map (nat_be 4) xs)) = 4 * length xs" for xs
    by (induction xs) simp_all
  ultimately show ?thesis
    using assms by (simp add: header_word_def u32_at_append)
qed

lemma dt_names_plain: "dt_wf t \<Longrightarrow> name \<in> set (dt_names t) \<Longrightarrow> plain_name name"
  by (induction t) auto

lemma u64_at_zero: "length pre = p \<Longrightarrow> u64_at (pre @ replicate 8 NUL @ rest) p = 0"
proof -
  have "be_nat (replicate n NUL) = 0" for n
    by (induction n) (simp_all add: be_nat_def)
  then show "length pre = p \<Longrightarrow> ?thesis" by (simp add: u64_at_def slice_def)
qed

lemma parse_dtb_layout:
  assumes "parse_structure blk strings [] [] 0 = Inr (nodes, True)" and "''/'' \<in> fst ` set nodes"
    and "0 < length blk" and "56 + length blk + length strings \<le> MAX_DTB_SIZE"
    and data: "data = concat (map (nat_be 4)
           [FDT_MAGIC, 56 + length blk + length strings, 56, 56 + length blk, 40, 17, 16, 0,
            length strings, length blk])
         @ replicate 16 NUL @ blk @ strings"
  shows "parse_dtb data label = Inr nodes"
proof -
  have small: "length blk + length strings < 2 ^ 22" using assms(4) by (simp add: fdt_constants)
  have words: "header_word data 0 = FDT_MAGIC" "header_word data 1 = 56 + length blk + length strings"
    "header_word data 2 = 56" "header_word data 3 = 56 + length blk" "header_word data 4 = 40"
    "header_word data 5 = 17" "header_word data 6 = 16" "header_word data 8 = length strings"
    "header_word data 9 = length blk"
    unfolding data using small by (subst header_word_words; simp add: fdt_constants)+
  have len: "length data = 56 + length blk + length strings" by (simp add: data)
  obtain head where head: "data = head @ replicate 16 NUL @ blk @ strings" "length head = 40"
    by (rule that [OF data]) simp
  have zeros: "replicate 16 NUL = replicate 8 NUL @ replicate 8 NUL"
    by (simp flip: replicate_add)
  have "u64_at data 40 = 0" "u64_at data 48 = 0"
    using u64_at_zero [of head 40 "replicate 8 NUL @ blk @ strings"]
      u64_at_zero [of "head @ replicate 8 NUL" 48 "blk @ strings"] head
    by (simp_all add: zeros)
  then have reservation: "reservation_end data (length data) 40 = Some 56"
    by (subst reservation_end.simps) (simp add: len)
  have blocks: "sort [(40, 56, ''reservation map''), (56, 56 + length blk, ''structure block''),
       (56 + length blk, 56 + length blk + length strings, ''strings block'')]
     = [(40, 56, ''reservation map''), (56, 56 + length blk, ''structure block''),
       (56 + length blk, 56 + length blk + length strings, ''strings block'')]"
    using assms(3) by (intro sorted_sort_id) simp
  have "bounded_slice data 56 (length blk) l = Inr blk"
    "bounded_slice data (56 + length blk) (length strings) l = Inr strings" for l
    by (simp_all add: bounded_slice_def len slice_def) (simp_all add: head)
  moreover have "HEADER_SIZE \<le> length data" "length data \<le> MAX_DTB_SIZE"
    using assms(4) by (simp_all add: len HEADER_SIZE_def)
  ultimately show ?thesis
    using assms(1,2) words reservation
    unfolding parse_dtb_def Let_def words len [symmetric] blocks
    by (simp add: HEADER_SIZE_def not_less blocks len)
qed

text \<open>
  C13. The parser inverts the encoder: every device tree the format can hold, encoded within the
  size limit, is read back node for node and property for property.
\<close>

theorem parse_encode_dtb:
  assumes "dt_wf t" and "dt_name t = []" and "distinct (map fst (flatten_at ''/'' t))"
    and "length (encode_dtb t) \<le> MAX_DTB_SIZE"
  shows "parse_dtb (encode_dtb t) label = Inr (flatten_at ''/'' t)"
proof -
  let ?names = "remdups (dt_names t)"
  let ?blk = "emit_node (string_offset ?names) t @ nat_be 4 FDT_END"
  have len: "56 + length ?blk + length (strings_block ?names) \<le> MAX_DTB_SIZE"
    using assms(4) by (simp add: encode_dtb_def Let_def)
  then have "strings_at (string_offset ?names) (strings_block ?names) (set ?names)"
    using assms(1) by (intro strings_at_block) (auto simp: fdt_constants intro: dt_names_plain)
  with assms have "parse_structure ?blk (strings_block ?names) [] [] 0 = Inr (flatten_at ''/'' t, True)"
    by (intro parse_structure_tree) simp_all
  moreover have "''/'' \<in> fst ` set (flatten_at ''/'' t)" by (cases t) simp
  moreover have "0 < length ?blk" by (cases t) simp
  moreover note len
  ultimately show ?thesis
    by (rule parse_dtb_layout) (simp only: encode_dtb_def Let_def)
qed

theorem parse_encode_dtb_witness:
  "parse_dtb (encode_dtb (Dt [] [(''compatible'', board_identity)]
       [Dt ''soc@0'' [(''status'', ''okay'' @ [NUL])] []])) ''base.dtb''
   = Inr [(''/'', [(''compatible'', board_identity)]), (''/soc@0'', [(''status'', ''okay'' @ [NUL])])]"
proof -
  let ?t = "Dt [] [(''compatible'', board_identity)] [Dt ''soc@0'' [(''status'', ''okay'' @ [NUL])] []]"
  have "dt_wf ?t" and "dt_name ?t = []" and "distinct (map fst (flatten_at ''/'' ?t))"
    by (simp_all add: plain_name_def node_name_ok_def is_ascii_def board_identity_def child_path_def)
  moreover have "length (encode_dtb ?t) \<le> MAX_DTB_SIZE"
    by (simp add: encode_dtb_def Let_def emit_property_def strings_block_def board_identity_def
        aligned_def MAX_DTB_SIZE_def)
  ultimately have "parse_dtb (encode_dtb ?t) ''base.dtb'' = Inr (flatten_at ''/'' ?t)"
    by (rule parse_encode_dtb)
  then show ?thesis by (simp add: child_path_def)
qed

subsection \<open>The script never escapes\<close>

definition handled :: "exn \<Rightarrow> bool" where
  "handled e \<longleftrightarrow> (\<exists>m. e = ValueError m) \<or> e = OSError \<or> e = FileNotFoundError"

lemma handled_simps [simp]: "handled (ValueError m)" "handled OSError" "handled FileNotFoundError"
  by (auto simp: handled_def)

lemma c_string_handled: "c_string data offset l = Inl e \<Longrightarrow> handled e"
  by (auto simp: c_string_def Let_def split: if_splits)

lemma bounded_slice_handled: "bounded_slice data offset n l = Inl e \<Longrightarrow> handled e"
  by (auto simp: bounded_slice_def split: if_splits)

lemma parse_token_handled:
  assumes "parse_token blk strings nodes stack position = Inl e" and "set stack \<subseteq> set (map fst nodes)"
  shows "handled e"
proof -
  have "map_of nodes (hd stack) \<noteq> None" if "stack \<noteq> []"
    using assms(2) that by (cases stack) (auto simp: map_of_eq_None_iff)
  with assms show ?thesis
    by (auto simp: parse_token_def Let_def bind_result_eq_Inl
        dest: c_string_handled bounded_slice_handled split: if_splits list.splits option.splits)
qed

lemma parse_structure_handled:
  assumes "parse_structure blk strings nodes stack position = Inl e"
    and "dtb_wf nodes" and "set stack \<subseteq> set (map fst nodes)"
  shows "handled e"
  using assms
proof (induction blk strings nodes stack position rule: parse_structure.induct)
  case (1 blk strings nodes stack position)
  from "1.prems"(1) have pos: "position < length blk" by (subst (asm) parse_structure.simps) (auto split: if_splits)
  with "1.prems"(1) consider "parse_token blk strings nodes stack position = Inl e"
    | nodes1 stack1 position1 where
        "parse_token blk strings nodes stack position = Inr (Some (nodes1, stack1, position1))"
        "parse_structure blk strings nodes1 stack1 position1 = Inl e"
    by (subst (asm) parse_structure.simps) (auto split: sum.splits option.splits)
  then show ?case
  proof cases
    case 1
    then show ?thesis using "1.prems"(3) by (rule parse_token_handled)
  next
    case 2
    with parse_token_wf [OF 2(1) "1.prems"(2,3)] pos show ?thesis using "1.IH" by simp
  qed
qed

lemma check_ranges_handled: "check_ranges n l blocks = Inl e \<Longrightarrow> handled e"
  by (induction n l blocks rule: check_ranges.induct) (auto split: if_splits)

lemma check_overlap_handled: "check_overlap blocks = Inl e \<Longrightarrow> handled e"
  by (induction blocks rule: check_overlap.induct) (auto split: if_splits)

lemma parse_dtb_handled: "parse_dtb data l = Inl e \<Longrightarrow> handled e"
  by (auto simp: parse_dtb_def Let_def bind_result_eq_Inl dtb_wf_Nil
      dest: check_ranges_handled check_overlap_handled bounded_slice_handled parse_structure_handled
      split: if_splits option.splits)

lemma read_dtb_handled: "read_dtb path src = Inl e \<Longrightarrow> handled e"
  by (auto simp: read_dtb_def read_dtb_bytes_def Let_def bind_result_eq_Inl dest: parse_dtb_handled
      split: if_splits)

lemma read_dtb_whole:
  assumes "read_dtb path src = Inr nodes"
  shows "parse_dtb (contents src) path = Inr nodes \<and> dtb_wf nodes"
proof -
  from assms obtain data where data: "read_dtb_bytes path src = Inr data" "parse_dtb data path = Inr nodes"
    by (auto simp: read_dtb_def bind_result_eq_Inr)
  from data(1) have "data = take (MAX_DTB_SIZE + 1) (contents src)" "length data \<le> MAX_DTB_SIZE"
    by (auto simp: read_dtb_bytes_def Let_def split: if_splits)
  then have "data = contents src" by simp
  with data(2) show ?thesis by (auto dest: parse_dtb_wf)
qed

lemma fold_result_handled:
  "(\<And>x s e. x \<in> set xs \<Longrightarrow> f x s = Inl e \<Longrightarrow> handled e) \<Longrightarrow> fold_result f xs s = Inl e \<Longrightarrow> handled e"
  by (induction xs arbitrary: s) (auto simp: bind_result_eq_Inl)

lemma compare_handled:
  assumes "compare base candidate = Inl e"
  shows "handled e"
proof -
  have node: "handled e'" if "compare_node expected base candidate path n = Inl e'"
    and "set (map fst base) = set (map fst candidate)" and "path \<in> set (sorted_keys base)"
    for e' path expected n
  proof -
    from that(2,3) obtain bp cp where "map_of base path = Some bp" "map_of candidate path = Some cp"
      by (metis map_of_eq_None_iff not_None_eq set_map set_sorted_keys)
    with that(1) show ?thesis
      by (auto simp: compare_node_def compare_property_def Let_def bind_result_eq_Inl
          elim!: fold_result_handled [rotated] split: option.splits if_splits)
  qed
  show ?thesis
    using assms
    by (auto simp: compare_def require_board_identity_def Let_def bind_result_eq_Inl require_expected_def
        simp del: set_map set_sorted_keys elim!: fold_result_handled [rotated] node
        split: if_splits option.splits)
qed


end
