(* ===== verification/Bundle_Registry.thy ===== *)
theory Bundle_Registry
  imports Py_Text "HOL-Library.List_Lexorder" "HOL-Library.Char_ord"
begin

section \<open>The kernel, DTB and bundle registries\<close>

text \<open>
  Models \<^verbatim>\<open>scripts/host/rog5-bundle-registry.py\<close>: the names of kernels, DTBs and bundles, the
  structural validation of the two registry files, the requirements a DTB inherits along its base
  chain, the refusal of a kernel build that lacks them, the edits \<open>set\<close>, \<open>describe\<close> and
  \<open>add-dtb\<close>, the locked save and the generated table.

  The two JSON files are read into the record \<open>registry\<close>; a Python dictionary is an association
  list in insertion order, and a key that may be absent or \<open>null\<close> is an option. A registry whose
  required keys are missing or of another JSON type is outside the model. The file system is a
  parameter where a check reads it: the patch files of the repository, the DTB's resolved path,
  contents and features file. \<open>need\<close> of the script raises \<^term>\<open>ValueError\<close>.
\<close>

abbreviation require :: "bool \<Rightarrow> string \<Rightarrow> unit result" where
  "require ok why \<equiv> Rog5_Prelude.need ok (ValueError why)"

record requires =
  req_patches :: "string list option"
  req_config :: "(string \<times> string) list option"
  req_modules :: "string list option"

record dtb_entry =
  d_path :: string
  d_sha256 :: string
  d_features :: string
  d_base :: "string option"
  d_created :: string
  d_kernel_requires :: "string option"
  d_requires :: "requires option"
  d_notes :: "string option"

record kernel_entry =
  k_build :: string
  k_release :: string
  k_image_sha256 :: string
  k_series :: "string option"
  k_date :: "string option"
  k_changes :: "string option"

record bundle_entry =
  b_name :: string
  b_role :: string
  b_kernel :: string
  b_dtb :: string
  b_status :: string
  b_healthy :: string
  b_release :: string
  b_manifest_sha256 :: string
  b_installed :: "string option"
  b_changes :: "string option"
  b_notes :: "string option"

record registry =
  dtbs_format :: "string option"
  dtbs_root :: string
  dtbs :: "(string \<times> dtb_entry) list"
  data_format :: "string option"
  kernels :: "(string \<times> kernel_entry) list"
  bundles :: "bundle_entry list"

subsection \<open>Names\<close>

definition ROLES :: "string list" where
  "ROLES = [''main'', ''safe'']"

definition STATUSES :: "string list" where
  "STATUSES = [''built'', ''ram-trial-pass'', ''ram-trial-fail'', ''installed-main'',
     ''installed-fallback'', ''retired'', ''not-installed'', ''install-failed'', ''rejected'']"

definition HEALTHY :: "string list" where
  "HEALTHY = [''yes'', ''no'', ''unknown'', ''n/a'']"

definition sha_match :: "string \<Rightarrow> bool" where
  "sha_match s \<longleftrightarrow> length s = 64 \<and> list_all is_hex s"

text \<open>\<open>[1-9][0-9]{0,3}\<close>, and the identifiers \<open>kNNN\<close> and \<open>dN\<close>.\<close>

definition number_match :: "string \<Rightarrow> bool" where
  "number_match s \<longleftrightarrow> s \<noteq> [] \<and> length s \<le> 4 \<and> list_all is_digit s \<and> hd s \<noteq> CHR ''0''"

definition KERNEL_match :: "string \<Rightarrow> bool" where
  "KERNEL_match s \<longleftrightarrow> s \<noteq> [] \<and> hd s = CHR ''k'' \<and> number_match (tl s)"

definition DTB_match :: "string \<Rightarrow> bool" where
  "DTB_match s \<longleftrightarrow> s \<noteq> [] \<and> hd s = CHR ''d'' \<and> number_match (tl s)"

definition loader_char :: "char \<Rightarrow> bool" where
  "loader_char c \<longleftrightarrow> is_lower c \<or> is_digit c \<or> c = CHR ''.'' \<or> c = CHR ''_'' \<or> c = CHR ''-''"

definition LOADER_NAME_match :: "string \<Rightarrow> bool" where
  "LOADER_NAME_match s \<longleftrightarrow>
     s \<noteq> [] \<and> length s \<le> 64 \<and> (is_lower (hd s) \<or> is_digit (hd s)) \<and> list_all loader_char (tl s)"

definition day_match :: "string \<Rightarrow> bool" where
  "day_match s \<longleftrightarrow> length s = 6 \<and> list_all is_digit s"

definition letter_match :: "string \<Rightarrow> bool" where
  "letter_match s \<longleftrightarrow> (case s of [c] \<Rightarrow> is_lower c | _ \<Rightarrow> False)"

text \<open>\<open>NEW_NAME.fullmatch\<close>: role, kernel and DTB identifiers, day and letter.\<close>

definition NEW_NAME_match :: "string \<Rightarrow> (string \<times> string \<times> string \<times> string \<times> string) option" where
  "NEW_NAME_match name =
     (case split_on CHR ''-'' name of
        [role, kern, dtb, stamp] \<Rightarrow>
          if role \<in> set ROLES \<and> KERNEL_match kern \<and> DTB_match dtb
             \<and> day_match (take 6 stamp) \<and> letter_match (drop 6 stamp)
          then Some (role, kern, dtb, take 6 stamp, drop 6 stamp) else None
      | _ \<Rightarrow> None)"

definition FEATURE_match :: "string \<Rightarrow> bool" where
  "FEATURE_match s \<longleftrightarrow> s \<noteq> [] \<and> list_all (\<lambda>c. is_lower c \<or> is_digit c) s"

definition patch_char :: "char \<Rightarrow> bool" where
  "patch_char c \<longleftrightarrow> is_upper c \<or> is_lower c \<or> is_digit c
     \<or> c = CHR ''.'' \<or> c = CHR ''_'' \<or> c = CHR ''+'' \<or> c = CHR ''-''"

definition PATCH_NAME_match :: "string \<Rightarrow> bool" where
  "PATCH_NAME_match s \<longleftrightarrow>
     12 \<le> length s \<and> list_all is_digit (take 4 s) \<and> s ! 4 = CHR ''-'' \<and> suffix ''.patch'' s
     \<and> list_all patch_char (take (length s - 11) (drop 5 s))"

definition symbol_char :: "char \<Rightarrow> bool" where
  "symbol_char c \<longleftrightarrow> is_upper c \<or> is_digit c \<or> c = CHR ''_''"

definition CONFIG_SYMBOL_match :: "string \<Rightarrow> bool" where
  "CONFIG_SYMBOL_match s \<longleftrightarrow>
     prefix ''CONFIG_'' s \<and> drop 7 s \<noteq> [] \<and> list_all symbol_char (drop 7 s)"

definition module_head_char :: "char \<Rightarrow> bool" where
  "module_head_char c \<longleftrightarrow> is_lower c \<or> is_digit c \<or> c = CHR ''_'' \<or> c = CHR ''-''"

definition module_char :: "char \<Rightarrow> bool" where
  "module_char c \<longleftrightarrow> is_upper c \<or> is_lower c \<or> is_digit c \<or> c = CHR ''_'' \<or> c = CHR ''.'' \<or> c = CHR ''-''"

text \<open>\<open>[a-z0-9_-]+(/[A-Za-z0-9_.-]+)*\.ko\<close> on the text before the suffix, split at the slashes.\<close>

definition MODULE_PATH_match :: "string \<Rightarrow> bool" where
  "MODULE_PATH_match s \<longleftrightarrow>
     suffix ''.ko'' s
     \<and> (case split_on CHR ''/'' (take (length s - 3) s) of
          [] \<Rightarrow> False
        | first # rest \<Rightarrow> first \<noteq> [] \<and> list_all module_head_char first
            \<and> (\<forall>part\<in>set rest. part \<noteq> [] \<and> list_all module_char part))"

definition CONFIG_VALUES :: "(string \<times> string list) list" where
  "CONFIG_VALUES = [(''y'', [''y'']), (''m'', [''m'']), (''y|m'', [''y'', ''m''])]"

definition FIRST_NEW_DTB :: nat where
  "FIRST_NEW_DTB = 10"

definition loader_name_ok :: "string \<Rightarrow> bool" where
  "loader_name_ok name \<longleftrightarrow> LOADER_NAME_match name \<and> \<not> contains ''..'' name"

definition bundle_name :: "string \<Rightarrow> string \<Rightarrow> string \<Rightarrow> string \<Rightarrow> string \<Rightarrow> string result" where
  "bundle_name role kern dtb day letter =
     bind_result (require (role \<in> set ROLES) ''role must be main or safe'') (\<lambda>_.
     bind_result (require (KERNEL_match kern) ''kernel must be kNNN (k1 to k9999)'') (\<lambda>_.
     bind_result (require (DTB_match dtb) ''DTB must be dN (d1 to d9999)'') (\<lambda>_.
     bind_result (require (day_match day) ''date must be YYMMDD'') (\<lambda>_.
     bind_result (require (letter_match letter) ''letter must be a-z'') (\<lambda>_.
       let name = role @ ''-'' @ kern @ ''-'' @ dtb @ ''-'' @ day @ letter in
       bind_result (require (NEW_NAME_match name \<noteq> None \<and> loader_name_ok name)
           (''invalid bundle name '' @ name)) (\<lambda>_. Inr name))))))"

subsection \<open>Base chains\<close>

text \<open>
  The \<open>while\<close> loop of \<open>requirements\<close> and of \<open>required_modules\<close>: follow \<open>base\<close> from a DTB,
  refusing an unknown one and one seen before, and accumulate with \<open>step\<close>. An identifier seen
  before is registered, so the two refusals exclude each other.
\<close>

lemma chain_decreases:
  assumes "map_of ds ident = Some entry" and "ident \<notin> set seen"
  shows "card (fst ` set ds - insert ident (set seen)) < card (fst ` set ds - set seen)"
proof -
  from assms have "ident \<in> fst ` set ds - set seen" by (force dest: map_of_SomeD)
  then show ?thesis by (intro psubset_card_mono) auto
qed

function walk_chain ::
    "(string \<Rightarrow> exn) \<Rightarrow> (string \<Rightarrow> exn) \<Rightarrow> (string \<Rightarrow> dtb_entry \<Rightarrow> 'a \<Rightarrow> 'a result)
      \<Rightarrow> (string \<times> dtb_entry) list \<Rightarrow> string list \<Rightarrow> string option \<Rightarrow> 'a \<Rightarrow> 'a result" where
  "walk_chain unknown cycle step ds seen current acc =
     (case current of
        None \<Rightarrow> Inr acc
      | Some ident \<Rightarrow>
          (case map_of ds ident of
             None \<Rightarrow> Inl (unknown ident)
           | Some entry \<Rightarrow>
               if ident \<in> set seen then Inl (cycle ident)
               else (case step ident entry acc of
                       Inl e \<Rightarrow> Inl e
                     | Inr acc' \<Rightarrow> walk_chain unknown cycle step ds (seen @ [ident]) (d_base entry) acc')))"
  by pat_completeness auto
termination
  by (relation "measure (\<lambda>(unknown, cycle, step, ds, seen, current, acc).
        card (fst ` set ds - set seen))")
     (auto intro: chain_decreases)

declare walk_chain.simps [simp del]

definition patches_of :: "dtb_entry \<Rightarrow> string list" where
  "patches_of entry =
     (case d_requires entry of None \<Rightarrow> []
      | Some r \<Rightarrow> (case req_patches r of None \<Rightarrow> [] | Some ps \<Rightarrow> ps))"

definition config_of :: "dtb_entry \<Rightarrow> (string \<times> string) list" where
  "config_of entry =
     (case d_requires entry of None \<Rightarrow> []
      | Some r \<Rightarrow> (case req_config r of None \<Rightarrow> [] | Some cs \<Rightarrow> cs))"

definition modules_of :: "dtb_entry \<Rightarrow> string list" where
  "modules_of entry =
     (case d_requires entry of None \<Rightarrow> []
      | Some r \<Rightarrow> (case req_modules r of None \<Rightarrow> [] | Some ms \<Rightarrow> ms))"

definition set_config ::
    "string \<Rightarrow> string \<Rightarrow> string \<times> string \<Rightarrow> (string \<times> string) list \<Rightarrow> (string \<times> string) list result" where
  "set_config ident current = (\<lambda>(symbol, v) config.
     case map_of config symbol of
       None \<Rightarrow> Inr (config @ [(symbol, v)])
     | Some old \<Rightarrow> if old = v then Inr config
         else Inl (ValueError (ident @ '': '' @ current @ '' and a derived DTB disagree on '' @ symbol)))"

definition requirements_step ::
    "string \<Rightarrow> string \<Rightarrow> dtb_entry \<Rightarrow> string list \<times> (string \<times> string) list
      \<Rightarrow> (string list \<times> (string \<times> string) list) result" where
  "requirements_step ident current entry = (\<lambda>(patches, config).
     bind_result (fold_result (set_config ident current) (config_of entry) config) (\<lambda>config'.
       Inr (patches @ patches_of entry, config')))"

definition requirements ::
    "registry \<Rightarrow> string \<Rightarrow> (string list \<times> (string \<times> string) list) result" where
  "requirements reg ident =
     bind_result
       (walk_chain (\<lambda>c. ValueError (ident @ '': unknown base '' @ c))
          (\<lambda>c. ValueError (ident @ '': base cycle through '' @ c))
          (requirements_step ident) (dtbs reg) [] (Some ident) ([], []))
       (\<lambda>(patches, config). Inr (sort (remdups patches), sort_key fst config))"

definition modules_step :: "string \<Rightarrow> dtb_entry \<Rightarrow> string list \<Rightarrow> string list result" where
  "modules_step current entry modules = Inr (modules @ modules_of entry)"

definition required_modules :: "registry \<Rightarrow> string \<Rightarrow> string list result" where
  "required_modules reg ident =
     bind_result
       (walk_chain KeyError (\<lambda>c. ValueError (ident @ '': base cycle through '' @ c))
          modules_step (dtbs reg) [] (Some ident) [])
       (\<lambda>modules. Inr (sort (remdups modules)))"

subsection \<open>Structural validation\<close>

text \<open>\<open>Path(text).parts\<close> of a relative path.\<close>

definition path_parts :: "string \<Rightarrow> string list" where
  "path_parts s = filter (\<lambda>part. part \<noteq> [] \<and> part \<noteq> ''.'') (split_on CHR ''/'' s)"

definition path_name :: "string \<Rightarrow> string" where
  "path_name s = (case path_parts s of [] \<Rightarrow> [] | parts \<Rightarrow> last parts)"

definition dtb_path_ok :: "string \<Rightarrow> bool" where
  "dtb_path_ok s \<longleftrightarrow> \<not> prefix ''/'' s \<and> ''..'' \<notin> set (path_parts s) \<and> path_name s = ''board.dtb''"

definition validate_requires :: "(string \<Rightarrow> bool) \<Rightarrow> string \<Rightarrow> dtb_entry \<Rightarrow> unit result" where
  "validate_requires known_patch ident entry =
     bind_result (require (d_requires entry \<noteq> None)
        (ident @ '' requires must be an object with patches, config and/or modules'')) (\<lambda>_.
     bind_result (require (distinct (modules_of entry)
          \<and> (\<forall>m\<in>set (modules_of entry). MODULE_PATH_match m \<and> ''..'' \<notin> set (split_on CHR ''/'' m)))
        (ident @ '' requires.modules must be distinct kernel/-relative module paths (drivers/.../x.ko)'')) (\<lambda>_.
     bind_result (require (distinct (patches_of entry) \<and> (\<forall>n\<in>set (patches_of entry). PATCH_NAME_match n))
        (ident @ '' requires.patches must be distinct patch file names'')) (\<lambda>_.
     bind_result (fold_result (\<lambda>name u. require (known_patch name) (ident @ '' requires an unknown patch '' @ name))
        (patches_of entry) ()) (\<lambda>_.
     require (\<forall>(k, v)\<in>set (config_of entry). CONFIG_SYMBOL_match k \<and> map_of CONFIG_VALUES v \<noteq> None)
        (ident @ '' requires.config must map CONFIG_ symbols to y, m or y|m'')))))"

definition validate_dtb ::
    "(string \<Rightarrow> bool) \<Rightarrow> (string \<times> dtb_entry) list \<Rightarrow> string \<times> dtb_entry \<Rightarrow> string list \<Rightarrow> string list result"
    where
  "validate_dtb known_patch ds = (\<lambda>(ident, entry) paths.
     bind_result (require (DTB_match ident) (''DTB id '' @ ident)) (\<lambda>_.
     bind_result (require (sha_match (d_sha256 entry)) (ident @ '' sha256'')) (\<lambda>_.
     bind_result (require (dtb_path_ok (d_path entry))
        (ident @ '' path must be <dir>/board.dtb under root'')) (\<lambda>_.
     bind_result (require (d_path entry \<notin> set paths) (ident @ '' path registered twice'')) (\<lambda>_.
     bind_result (require (\<forall>f\<in>set (split_on CHR '','' (d_features entry)). FEATURE_match f)
        (ident @ '' features'')) (\<lambda>_.
     bind_result (require (case d_base entry of None \<Rightarrow> True | Some b \<Rightarrow> b \<in> set (map fst ds))
        (ident @ '' base'')) (\<lambda>_.
     bind_result (validate_requires known_patch ident entry) (\<lambda>_.
       Inr (d_path entry # paths)))))))))"

definition validate_kernel :: "string \<times> kernel_entry \<Rightarrow> unit \<Rightarrow> unit result" where
  "validate_kernel = (\<lambda>(ident, entry) u.
     bind_result (require (KERNEL_match ident) (''kernel id '' @ ident)) (\<lambda>_.
     bind_result (require (suffix (''-build-r'' @ tl ident) (k_build entry))
        (ident @ '' build directory must end in -build-r'' @ tl ident)) (\<lambda>_.
     bind_result (require (sha_match (k_image_sha256 entry)) (ident @ '' image sha256'')) (\<lambda>_.
     require (LOADER_NAME_match (k_release entry)) (ident @ '' release'')))))"

definition validate_bundle :: "registry \<Rightarrow> bundle_entry \<Rightarrow> string list \<Rightarrow> string list result" where
  "validate_bundle reg entry names =
     (let name = b_name entry in
      bind_result (require (loader_name_ok name) (''bundle name not accepted by the loader: '' @ name)) (\<lambda>_.
      bind_result (require (name \<notin> set names) (''bundle listed twice: '' @ name)) (\<lambda>_.
      bind_result (require (b_role entry \<in> set ROLES) (name @ '' role'')) (\<lambda>_.
      bind_result (require (b_kernel entry \<in> set (map fst (kernels reg)))
         (name @ '' kernel '' @ b_kernel entry @ '' not in kernels'')) (\<lambda>_.
      bind_result (require (b_dtb entry \<in> set (map fst (dtbs reg)))
         (name @ '' DTB '' @ b_dtb entry @ '' not in dtbs.json'')) (\<lambda>_.
      bind_result (require (b_status entry \<in> set STATUSES) (name @ '' status'')) (\<lambda>_.
      bind_result (require (b_healthy entry \<in> set HEALTHY) (name @ '' healthy'')) (\<lambda>_.
      bind_result (require (sha_match (b_manifest_sha256 entry)) (name @ '' manifest sha256'')) (\<lambda>_.
      bind_result (require (map_option k_release (map_of (kernels reg) (b_kernel entry)) = Some (b_release entry))
         (name @ '' release differs from its kernel'')) (\<lambda>_.
      bind_result
        (case NEW_NAME_match name of
           Some (role, kern, dtb, day, letter) \<Rightarrow>
             require (role = b_role entry \<and> kern = b_kernel entry \<and> dtb = b_dtb entry)
               (name @ '' does not match its role/kernel/DTB'')
         | None \<Rightarrow> require (prefix ''production-'' name)
               (name @ '' is neither a scheme name nor a legacy name''))
        (\<lambda>_. Inr (name # names))))))))))))"

definition single_status :: "registry \<Rightarrow> string \<Rightarrow> unit \<Rightarrow> unit result" where
  "single_status reg status u =
     require (length (filter (\<lambda>entry. b_status entry = status) (bundles reg)) \<le> 1)
       (''more than one bundle is '' @ status)"

definition validate :: "(string \<Rightarrow> bool) \<Rightarrow> registry \<Rightarrow> unit result" where
  "validate known_patch reg =
     bind_result (require (dtbs_format reg = Some ''rog5-dtb-registry-v1'') ''dtbs.json format'') (\<lambda>_.
     bind_result (require (data_format reg = Some ''rog5-bundle-registry-v1'') ''bundles.json format'') (\<lambda>_.
     bind_result (fold_result (validate_dtb known_patch (dtbs reg)) (dtbs reg) []) (\<lambda>_.
     bind_result (fold_result (\<lambda>(ident, _) u. bind_result (requirements reg ident) (\<lambda>_. Inr ()))
        (dtbs reg) ()) (\<lambda>_.
     bind_result (fold_result validate_kernel (kernels reg) ()) (\<lambda>_.
     bind_result (fold_result (validate_bundle reg) (bundles reg) []) (\<lambda>_.
     fold_result (single_status reg) [''installed-main'', ''installed-fallback''] ()))))))"

subsection \<open>Kernel builds and DTB files\<close>

text \<open>\<open>bundle\<close>, \<open>dtb\<close> and the text of a features file.\<close>

definition find_bundle :: "registry \<Rightarrow> string \<Rightarrow> bundle_entry result" where
  "find_bundle reg name =
     (case filter (\<lambda>entry. b_name entry = name) (bundles reg) of
        [entry] \<Rightarrow> Inr entry
      | _ \<Rightarrow> Inl (ValueError (''unknown bundle '' @ name)))"

definition find_dtb :: "registry \<Rightarrow> string \<Rightarrow> dtb_entry result" where
  "find_dtb reg ident =
     option_result (ValueError (''unknown DTB '' @ ident @ '' (configs/production/dtbs.json)''))
       (map_of (dtbs reg) ident)"

definition dtb_file_path :: "registry \<Rightarrow> dtb_entry \<Rightarrow> string" where
  "dtb_file_path reg entry = dtbs_root reg @ ''/'' @ d_path entry"

definition features_path :: "registry \<Rightarrow> dtb_entry \<Rightarrow> string" where
  "features_path reg entry =
     (let path = dtb_file_path reg entry in take (length path - length ''board.dtb'') path @ ''features'')"

definition features_text :: "string \<Rightarrow> dtb_entry \<Rightarrow> string" where
  "features_text ident entry =
     ''id='' @ ident @ [LF] @ ''sha256='' @ d_sha256 entry @ [LF] @ ''features='' @ d_features entry @ [LF]
     @ ''base='' @ (case d_base entry of None \<Rightarrow> ''none'' | Some b \<Rightarrow> if b = [] then ''none'' else b) @ [LF]"

text \<open>The symbols a \<open>.config\<close> sets; a later line for a symbol replaces an earlier one.\<close>

definition config_line :: "string \<Rightarrow> (string \<times> string) option" where
  "config_line line =
     (case partition_at CHR ''='' line of (symbol, sep, v) \<Rightarrow>
        if sep \<noteq> [] \<and> CONFIG_SYMBOL_match symbol then Some (symbol, v) else None)"

definition config_symbols :: "string \<Rightarrow> string \<Rightarrow> string option" where
  "config_symbols text =
     foldl (\<lambda>values line. case config_line line of None \<Rightarrow> values | Some (k, v) \<Rightarrow> values(k \<mapsto> v))
       Map.empty (splitlines text)"

definition symbol_ok :: "(string \<Rightarrow> string option) \<Rightarrow> string \<times> string \<Rightarrow> bool" where
  "symbol_ok values = (\<lambda>(symbol, v).
     (case (values symbol, map_of CONFIG_VALUES v) of
        (Some x, Some allowed) \<Rightarrow> x \<in> set allowed
      | _ \<Rightarrow> False))"

definition wrong_symbol :: "(string \<Rightarrow> string option) \<Rightarrow> string \<times> string \<Rightarrow> string" where
  "wrong_symbol values = (\<lambda>(symbol, v).
     symbol @ ''='' @ v @ '' (has '' @ (case values symbol of None \<Rightarrow> ''unset'' | Some x \<Rightarrow> x) @ '')'')"

definition check_kernel ::
    "registry \<Rightarrow> string \<Rightarrow> string \<Rightarrow> string list \<Rightarrow> string option
      \<Rightarrow> (string list \<times> (string \<times> string) list) result" where
  "check_kernel reg ident kern applied config_text =
     bind_result (requirements reg ident) (\<lambda>(patches, config).
     bind_result (require (applied \<noteq> [] \<or> patches = [])
        (kern @ '': result.json records no production series'')) (\<lambda>_.
     let missing = filter (\<lambda>name. name \<notin> set applied) patches in
     bind_result (require (missing = [])
        (ident @ '' needs kernel patches '' @ kern @ '' does not carry: '' @ join '', '' missing)) (\<lambda>_.
     bind_result
       (if config = [] then Inr ()
        else case config_text of
          None \<Rightarrow> Inl (ValueError
            (ident @ '' needs .config symbols but the '' @ kern @ '' build has no .config''))
        | Some text \<Rightarrow>
            let values = config_symbols text;
                wrong = map (wrong_symbol values) (filter (\<lambda>kv. \<not> symbol_ok values kv) config)
            in require (wrong = [])
                 (ident @ '' needs kernel config '' @ kern @ '' does not have: '' @ join '', '' wrong))
       (\<lambda>_. Inr (patches, config)))))"

text \<open>What the file system holds for one DTB: contents and features file.\<close>

record dtb_file =
  board_dtb :: "bytes option"
  board_is_link :: bool
  features_file :: "string option"

definition verify_dtb :: "(bytes \<Rightarrow> bytes) \<Rightarrow> registry \<Rightarrow> string \<Rightarrow> dtb_file \<Rightarrow> unit result" where
  "verify_dtb H reg ident found =
     bind_result (find_dtb reg ident) (\<lambda>entry.
     let path = dtb_file_path reg entry in
     case (if board_is_link found then None else board_dtb found) of
       None \<Rightarrow> Inl (ValueError (ident @ '': '' @ path @ '' missing''))
     | Some contents \<Rightarrow>
         bind_result (require (to_hex (H contents) = d_sha256 entry)
            (ident @ '': '' @ path @ '' does not match its sha256'')) (\<lambda>_.
         case features_file found of
           None \<Rightarrow> Inl (ValueError (ident @ '': no features file next to '' @ path))
         | Some text \<Rightarrow> require (text = features_text ident entry)
             (ident @ '': '' @ features_path reg entry @ '' differs from dtbs.json'')))"

definition next_dtb_id :: "registry \<Rightarrow> string" where
  "next_dtb_id reg =
     ''d'' @ show_nat (fold max (map (\<lambda>(ident, _). read_nat (tl ident)) (dtbs reg)) (FIRST_NEW_DTB - 1) + 1)"

subsection \<open>Edits\<close>

datatype change_args =
    Set (set_name: string) (set_status: "string option") (set_healthy: "string option")
      (set_installed: "string option") (set_changes: "string option") (set_notes: "string option")
  | Describe string string
  | AddDtb (add_path: "string list") (add_root: "string list") (add_digest: string)
      (add_features: string) (add_base: "string option") (add_kernel_requires: string)
      (add_notes: string) (add_today: string) (add_patches: "string list")
      (add_config: "string list") (add_modules: "string list")
  | Render

text \<open>The \<open>choices\<close> that \<open>argparse\<close> enforces.\<close>

definition args_ok :: "change_args \<Rightarrow> bool" where
  "args_ok args \<longleftrightarrow>
     (case args of
        Set name status healthy installed changes notes \<Rightarrow>
          (status \<noteq> None \<longrightarrow> the status \<in> set STATUSES) \<and> (healthy \<noteq> None \<longrightarrow> the healthy \<in> set HEALTHY)
      | _ \<Rightarrow> True)"

definition requires_config :: "string list \<Rightarrow> (string \<times> string) list result" where
  "requires_config items =
     fold_result (\<lambda>item config.
        case partition_at CHR ''='' item of (symbol, _, v) \<Rightarrow>
          bind_result (require (symbol \<notin> set (map fst config)) (''config symbol given twice: '' @ symbol))
            (\<lambda>_. Inr (config @ [(symbol, v)])))
       items []"

definition requires_argument :: "string list \<Rightarrow> string list \<Rightarrow> string list \<Rightarrow> requires result" where
  "requires_argument patches config modules =
     bind_result (requires_config config) (\<lambda>cs.
       Inr \<lparr>req_patches = if patches = [] then None else Some patches,
            req_config = if config = [] then None else Some cs,
            req_modules = if modules = [] then None else Some modules\<rparr>)"

definition or_else :: "'a option \<Rightarrow> 'a \<Rightarrow> 'a" where
  "or_else x d = (case x of None \<Rightarrow> d | Some y \<Rightarrow> y)"

definition set_entry :: "change_args \<Rightarrow> bundle_entry \<Rightarrow> bundle_entry" where
  "set_entry args b =
     b\<lparr>b_status := or_else (set_status args) (b_status b),
       b_healthy := or_else (set_healthy args) (b_healthy b),
       b_installed := (case set_installed args of None \<Rightarrow> b_installed b | t \<Rightarrow> t),
       b_changes := (case set_changes args of None \<Rightarrow> b_changes b | t \<Rightarrow> t),
       b_notes := (case set_notes args of None \<Rightarrow> b_notes b | t \<Rightarrow> t)\<rparr>"

definition retire_entry :: "change_args \<Rightarrow> bundle_entry \<Rightarrow> bundle_entry" where
  "retire_entry args b =
     (if set_status args \<in> {Some ''installed-main'', Some ''installed-fallback''}
         \<and> set_status args = Some (b_status b)
      then b\<lparr>b_status := ''retired''\<rparr> else b)"

definition set_bundle :: "change_args \<Rightarrow> registry \<Rightarrow> registry result" where
  "set_bundle args reg =
     bind_result (find_bundle reg (set_name args)) (\<lambda>entry.
       Inr (reg\<lparr>bundles := map (\<lambda>b. if b_name b = set_name args then set_entry args b
                                 else retire_entry args b) (bundles reg)\<rparr>))"

definition update_key :: "'k \<Rightarrow> ('v \<Rightarrow> 'v) \<Rightarrow> ('k \<times> 'v) list \<Rightarrow> ('k \<times> 'v) list" where
  "update_key key f d = map (\<lambda>(k, v). if k = key then (k, f v) else (k, v)) d"

definition describe :: "string \<Rightarrow> string \<Rightarrow> registry \<Rightarrow> registry result" where
  "describe ident text reg =
     (if KERNEL_match ident
      then bind_result (require (ident \<in> set (map fst (kernels reg))) (''unknown kernel '' @ ident)) (\<lambda>_.
             Inr (reg\<lparr>kernels := update_key ident (k_changes_update (\<lambda>_. Some text)) (kernels reg)\<rparr>))
      else bind_result (find_dtb reg ident) (\<lambda>_.
             Inr (reg\<lparr>dtbs := update_key ident (d_notes_update (\<lambda>_. Some text)) (dtbs reg)\<rparr>)))"

definition unregistered :: "string \<Rightarrow> string \<Rightarrow> string \<times> dtb_entry \<Rightarrow> unit \<Rightarrow> unit result" where
  "unregistered relative digest = (\<lambda>(ident, entry) u.
     require (d_path entry \<noteq> relative \<and> d_sha256 entry \<noteq> digest) (''already registered as '' @ ident))"

definition add_dtb :: "change_args \<Rightarrow> registry \<Rightarrow> registry result" where
  "add_dtb args reg =
     (let path = add_path args; root = add_root args in
      bind_result (require (path \<noteq> [] \<and> last path = ''board.dtb'' \<and> butlast (butlast path) = root)
         (''the DTB must be '' @ join ''/'' ([] # root) @ ''/<dir>/board.dtb'')) (\<lambda>_.
      let relative = join ''/'' (drop (length root) path) in
      bind_result (fold_result (unregistered relative (add_digest args)) (dtbs reg) ()) (\<lambda>_.
      bind_result (require (case add_base args of None \<Rightarrow> True | Some b \<Rightarrow> b \<in> set (map fst (dtbs reg)))
         (''unknown base '' @ or_else (add_base args) ''None'')) (\<lambda>_.
      bind_result (requires_argument (add_patches args) (add_config args) (add_modules args)) (\<lambda>reqs.
      let entry = \<lparr>d_path = relative, d_sha256 = add_digest args, d_features = add_features args,
            d_base = add_base args, d_created = add_today args,
            d_kernel_requires = Some (add_kernel_requires args), d_requires = Some reqs,
            d_notes = Some (add_notes args)\<rparr>
      in Inr (reg\<lparr>dtbs := dtbs reg @ [(next_dtb_id reg, entry)]\<rparr>))))))"

subsection \<open>The generated table\<close>

abbreviation BACKSLASH :: char where "BACKSLASH \<equiv> CHR 0x5C"
abbreviation QUOTE :: char where "QUOTE \<equiv> CHR 0x22"

definition cell :: "string option \<Rightarrow> string" where
  "cell v = concat (map (\<lambda>c. if c = CHR ''|'' then [BACKSLASH, CHR ''|''] else if c = LF then '' '' else [c])
     (or_else v []))"

definition row :: "string option list \<Rightarrow> string" where
  "row cells = ''| '' @ join '' | '' (map cell cells) @ '' |''"

text \<open>Runs of consecutive patch numbers, and their text \<open>NNNN\<close> or \<open>NNNN-NNNN\<close>.\<close>

definition add_number :: "(nat \<times> nat) list \<Rightarrow> nat \<Rightarrow> (nat \<times> nat) list" where
  "add_number runs number =
     (if runs \<noteq> [] \<and> number = snd (last runs) + 1
      then butlast runs @ [(fst (last runs), number)]
      else runs @ [(number, number)])"

definition number_runs :: "nat list \<Rightarrow> (nat \<times> nat) list" where
  "number_runs numbers = foldl add_number [] numbers"

definition four_digits :: "nat \<Rightarrow> string" where
  "four_digits n = replicate (4 - length (show_nat n)) CHR ''0'' @ show_nat n"

definition number_run_text :: "nat \<times> nat \<Rightarrow> string" where
  "number_run_text = (\<lambda>(a, b). if a = b then four_digits a else four_digits a @ ''-'' @ four_digits b)"

definition needs_text :: "registry \<Rightarrow> string \<Rightarrow> string result" where
  "needs_text reg ident =
     bind_result (requirements reg ident) (\<lambda>(patches, config).
     bind_result (required_modules reg ident) (\<lambda>modules.
     bind_result (option_result (KeyError ident) (map_of (dtbs reg) ident)) (\<lambda>entry.
       let numbers = map number_run_text (number_runs (sort (map (\<lambda>name. read_nat (take 4 name)) patches)));
           enforced = join '', '' (numbers @ map (\<lambda>(k, v). k @ ''='' @ v) config @ map path_name modules);
           text = or_else (d_kernel_requires entry) []
       in Inr (if enforced = [] then text
               else enforced @ (if text = [] then [] else '' ('' @ text @ '')'')))))"

definition render_head :: "string list" where
  "render_head =
     [''# Bundles, kernels and DTBs'', [],
      ''<!-- Generated by scripts/host/rog5-bundle-registry.py from configs/production/bundles.json'',
      ''     and configs/production/dtbs.json. Edit those files (or use the tools), then render. -->'', [],
      ''Naming: kernel builds are `kNNN` (build directory `rog5-kernel-<base>-build-rNNN`), DTBs are'',
      ''`dN` (`configs/production/dtbs.json`) and bundles are `<role>-k<kernel>-d<dtb>-<YYMMDD><letter>`'',
      ''with role `main` (the try-once default, built with a trial descriptor) or `safe` (the'',
      ''fallback, no descriptor). From k111 on `uname -r` is `<base>-rog5-kNNN`; k110 and older'',
      ''report `7.2.7-rog5-production`. Bundles made before the scheme keep their names.'',
      ''Build one with `scripts/host/rog5-make-bundle.py --role main|safe --kernel kNNN --dtb dN`'',
      ''(see '' @ [QUOTE] @ ''Bundle names and the bundle tool'' @ [QUOTE]
        @ '' in [development.md](development.md)).'', []]"

definition first_with_status :: "registry \<Rightarrow> string \<Rightarrow> string" where
  "first_with_status reg status =
     (case filter (\<lambda>b. b_status b = status) (bundles reg) of [] \<Rightarrow> ''none recorded'' | b # _ \<Rightarrow> b_name b)"

definition quoted :: "string \<Rightarrow> string option" where
  "quoted s = Some (''`'' @ s @ ''`'')"

definition bundle_row :: "bundle_entry \<Rightarrow> string" where
  "bundle_row b =
     row [quoted (b_name b), Some (b_role b), Some (b_kernel b), Some (b_dtb b), Some (b_status b),
          Some (b_healthy b), Some (or_else (b_installed b) []), b_changes b, b_notes b]"

definition kernel_row :: "string \<times> kernel_entry \<Rightarrow> string" where
  "kernel_row = (\<lambda>(ident, k).
     row [Some ident, quoted (k_build k), quoted (k_release k), k_series k, k_date k, k_changes k])"

definition dtb_row :: "registry \<Rightarrow> string \<times> dtb_entry \<Rightarrow> string result" where
  "dtb_row reg = (\<lambda>(ident, d).
     bind_result (needs_text reg ident) (\<lambda>needs.
       Inr (row [Some ident, quoted (d_path d), quoted (take 8 (d_sha256 d)), Some (or_else (d_base d) []),
            Some (concat (map (\<lambda>c. if c = CHR '','' then '', '' else [c]) (d_features d))),
            Some needs, d_notes d])))"

definition newest_first :: "(string \<times> 'v) list \<Rightarrow> (string \<times> 'v) list" where
  "newest_first d = sort_key (\<lambda>(ident, _). - int (read_nat (tl ident))) d"

definition render :: "registry \<Rightarrow> string result" where
  "render reg =
     bind_result (map_result (dtb_row reg) (newest_first (dtbs reg))) (\<lambda>dtb_rows.
       Inr (join [LF]
         (render_head
          @ [''Installed: default `'' @ first_with_status reg ''installed-main'' @ ''`, fallback `''
               @ first_with_status reg ''installed-fallback'' @ ''`.'', [], ''## Bundles'', [],
             ''| Bundle | Role | Kernel | DTB | Status | Healthy | Installed | Key changes | Notes |'',
             ''|---|---|---|---|---|---|---|---|---|'']
          @ map bundle_row (rev (bundles reg))
          @ [[], ''## Kernel builds'', [],
             ''| Kernel | Build directory | uname -r | Series | Date | Changes |'', ''|---|---|---|---|---|---|'']
          @ map kernel_row (newest_first (kernels reg))
          @ [[], ''## DTBs'', [],
             ''Paths are under `'' @ dtbs_root reg @ ''`; each directory holds `board.dtb` and `features`.'', [],
             ''| DTB | Path | SHA-256 | Base | Features | Needs | Notes |'', ''|---|---|---|---|---|---|---|'']
          @ dtb_rows) @ [LF]))"

subsection \<open>The locked read, edit and save\<close>

text \<open>
  The files: the two registries (\<open>json.dumps\<close> and \<open>json.loads\<close> invert each other, so a file is
  the value it holds), the generated page and the features files by DTB path. Each write takes
  the next entry of \<open>write_faults\<close>: \<open>Some n\<close> is an \<open>OSError\<close> after \<open>n\<close> characters.
\<close>

record registry_files =
  on_disk :: registry
  doc :: string
  features_files :: "string \<Rightarrow> string option"
  write_faults :: "nat option list"

definition next_fault :: "(registry_files, nat option) io" where
  "next_fault s =
     (case write_faults s of
        [] \<Rightarrow> (Inr None, s)
      | f # fs \<Rightarrow> (Inr f, s\<lparr>write_faults := fs\<rparr>))"

text \<open>\<open>write_json\<close> replaces its target in one step or, on an error, not at all.\<close>

definition write_json :: "(registry \<Rightarrow> registry) \<Rightarrow> (registry_files, unit) io" where
  "write_json upd =
     bind_io next_fault (\<lambda>fault.
       if fault = None then modify (on_disk_update upd) else raise OSError)"

definition write_dtbs :: "registry \<Rightarrow> (registry_files, unit) io" where
  "write_dtbs reg = write_json (\<lambda>old. old\<lparr>dtbs_format := dtbs_format reg, dtbs_root := dtbs_root reg,
     dtbs := dtbs reg\<rparr>)"

definition write_bundles :: "registry \<Rightarrow> (registry_files, unit) io" where
  "write_bundles reg = write_json (\<lambda>old. old\<lparr>data_format := data_format reg, kernels := kernels reg,
     bundles := bundles reg\<rparr>)"

definition write_doc :: "string \<Rightarrow> (registry_files, unit) io" where
  "write_doc text =
     bind_io next_fault (\<lambda>fault. case fault of
        None \<Rightarrow> modify (doc_update (\<lambda>_. text))
      | Some n \<Rightarrow> bind_io (modify (doc_update (\<lambda>_. take n text))) (\<lambda>_. raise OSError))"

definition write_features :: "registry \<Rightarrow> string \<Rightarrow> (registry_files, unit) io" where
  "write_features reg ident =
     bind_io (lift_result (find_dtb reg ident)) (\<lambda>entry.
     bind_io (gets (\<lambda>s. features_files s (d_path entry))) (\<lambda>present.
       let text = features_text ident entry in
       case present of
         Some old \<Rightarrow> when_raise (old \<noteq> text) (ValueError (features_path reg entry @ '' exists with other content''))
       | None \<Rightarrow> bind_io next_fault (\<lambda>fault. case fault of
            None \<Rightarrow> modify (features_files_update (\<lambda>f. f(d_path entry \<mapsto> text)))
          | Some n \<Rightarrow> bind_io (modify (features_files_update (\<lambda>f. f(d_path entry \<mapsto> take n text))))
               (\<lambda>_. raise OSError))))"

definition save :: "(string \<Rightarrow> bool) \<Rightarrow> registry \<Rightarrow> (registry_files, unit) io" where
  "save known_patch reg =
     bind_io (lift_result (validate known_patch reg)) (\<lambda>_.
     bind_io (write_dtbs reg) (\<lambda>_.
     bind_io (write_bundles reg) (\<lambda>_.
     bind_io (lift_result (render reg)) write_doc)))"

definition change :: "(string \<Rightarrow> bool) \<Rightarrow> change_args \<Rightarrow> registry \<Rightarrow> (registry_files, registry) io" where
  "change known_patch args reg =
     (case args of
        Set _ _ _ _ _ _ \<Rightarrow> lift_result (set_bundle args reg)
      | Describe ident text \<Rightarrow> lift_result (describe ident text reg)
      | AddDtb _ _ _ _ _ _ _ _ _ _ _ \<Rightarrow>
          bind_io (lift_result (add_dtb args reg)) (\<lambda>reg'.
          bind_io (lift_result (validate known_patch reg')) (\<lambda>_.
          bind_io (write_features reg' (next_dtb_id reg)) (\<lambda>_. ret reg')))
      | Render \<Rightarrow> ret reg)"

text \<open>\<open>main\<close> with \<open>locked\<close>: load under the lock, validate, edit, save.\<close>

definition locked_change :: "(string \<Rightarrow> bool) \<Rightarrow> change_args \<Rightarrow> (registry_files, unit) io" where
  "locked_change known_patch args =
     bind_io (gets on_disk) (\<lambda>reg.
     bind_io (lift_result (validate known_patch reg)) (\<lambda>_.
     bind_io (change known_patch args reg) (save known_patch)))"

subsection \<open>What a walk collects\<close>

text \<open>The chain of a DTB: itself, its base, the base of that, down to one without a base.\<close>

inductive bases :: "(string \<times> dtb_entry) list \<Rightarrow> string option \<Rightarrow> string list \<Rightarrow> bool"
  for ds where
  bases_end: "bases ds None []"
| bases_step: "map_of ds ident = Some entry \<Longrightarrow> bases ds (d_base entry) rest \<Longrightarrow>
    bases ds (Some ident) (ident # rest)"

inductive_cases bases_NoneE: "bases ds None cs"
inductive_cases bases_SomeE: "bases ds (Some ident) cs"

lemma bases_unique: "bases ds cur cs \<Longrightarrow> bases ds cur cs' \<Longrightarrow> cs = cs'"
proof (induction arbitrary: cs' rule: bases.induct)
  case bases_end
  then show ?case by (auto elim: bases_NoneE)
next
  case (bases_step ident entry rest)
  from bases_step.prems bases_step.hyps(1) obtain rest' where
    "cs' = ident # rest'" "bases ds (d_base entry) rest'"
    by (auto elim: bases_SomeE)
  with bases_step.IH show ?case by simp
qed

lemma bases_registered: "bases ds cur cs \<Longrightarrow> set cs \<subseteq> fst ` set ds"
  by (induction rule: bases.induct) (auto dest: map_of_SomeD intro: rev_image_eqI)

lemma bases_suffix: "bases ds cur (xs @ c # ys) \<Longrightarrow> bases ds (Some c) (c # ys)"
proof (induction xs arbitrary: cur)
  case Nil
  then show ?case by (cases cur) (auto elim: bases_NoneE bases_SomeE intro: bases_step)
next
  case (Cons x xs)
  from Cons.prems obtain cur' where "bases ds cur' (xs @ c # ys)" by (cases rule: bases.cases) auto
  then show ?case by (rule Cons.IH)
qed

lemma bases_distinct: "bases ds cur cs \<Longrightarrow> distinct cs"
proof (rule ccontr)
  assume chain: "bases ds cur cs" and "\<not> distinct cs"
  then obtain xs ys zs c where "cs = xs @ c # ys @ c # zs"
    by (metis append.assoc append_Cons not_distinct_decomp append_Nil)
  with chain have "bases ds (Some c) (c # ys @ c # zs)" "bases ds (Some c) (c # zs)"
    by (auto intro: bases_suffix bases_suffix [where xs = "xs @ c # ys"])
  then have "c # ys @ c # zs = c # zs" by (rule bases_unique)
  then have "length (c # ys @ c # zs) = length (c # zs)" by (rule arg_cong)
  then show False by simp
qed

definition chain_step ::
    "(string \<times> dtb_entry) list \<Rightarrow> (string \<Rightarrow> dtb_entry \<Rightarrow> 'a \<Rightarrow> 'a result) \<Rightarrow> string \<Rightarrow> 'a \<Rightarrow> 'a result" where
  "chain_step ds step ident acc =
     (case map_of ds ident of None \<Rightarrow> Inl (KeyError ident) | Some entry \<Rightarrow> step ident entry acc)"

lemma chain_step_Some: "map_of ds ident = Some entry \<Longrightarrow> chain_step ds step ident acc = step ident entry acc"
  by (simp add: chain_step_def)

lemma chain_step_ok:
  "chain_step ds step ident acc = Inr r \<longleftrightarrow>
     (\<exists>entry. map_of ds ident = Some entry \<and> step ident entry acc = Inr r)"
  by (simp add: chain_step_def split: option.splits)

lemma walk_bases:
  assumes "bases ds cur cs" and "set seen \<inter> set cs = {}"
  shows "walk_chain unknown cycle step ds seen cur acc = fold_result (chain_step ds step) cs acc"
  using assms
proof (induction arbitrary: seen acc rule: bases.induct)
  case bases_end
  then show ?case by (simp add: walk_chain.simps)
next
  case (bases_step ident entry rest)
  from bases_step.hyps have "bases ds (Some ident) (ident # rest)" by (rule bases.bases_step)
  then have "distinct (ident # rest)" by (rule bases_distinct)
  with bases_step show ?case
    by (subst walk_chain.simps) (auto simp: chain_step_Some bind_result_def split: sum.splits)
qed

lemma walk_ok_bases:
  "walk_chain unknown cycle step ds seen cur acc = Inr r \<Longrightarrow> \<exists>cs. bases ds cur cs"
proof (induction unknown cycle step ds seen cur acc rule: walk_chain.induct)
  case (1 unknown cycle step ds seen cur acc)
  show ?case
  proof (cases cur)
    case None
    then show ?thesis by (auto intro: bases_end)
  next
    case (Some ident)
    with "1.prems" obtain entry acc' where entry: "map_of ds ident = Some entry"
      and "ident \<notin> set seen" "step ident entry acc = Inr acc'"
      and "walk_chain unknown cycle step ds (seen @ [ident]) (d_base entry) acc' = Inr r"
      by (subst (asm) walk_chain.simps) (auto split: option.splits if_splits sum.splits)
    with "1.IH" Some obtain cs where "bases ds (d_base entry) cs" by blast
    with entry Some show ?thesis by (auto intro: bases_step)
  qed
qed

lemma walk_chain_ok_iff:
  "walk_chain unknown cycle step ds [] cur acc = Inr r \<longleftrightarrow>
     (\<exists>cs. bases ds cur cs \<and> fold_result (chain_step ds step) cs acc = Inr r)" (is "?walk \<longleftrightarrow> ?fold")
proof
  assume walk: ?walk
  from walk_ok_bases [OF walk] obtain cs where "bases ds cur cs" by auto
  with walk walk_bases [of ds cur cs "[]" unknown cycle step acc] show ?fold by auto
next
  assume ?fold
  then show ?walk by (auto simp: walk_bases)
qed

text \<open>
  The contract of a loop body that collects: what it holds after an entry is what it held before
  and what that entry adds. Then a walk holds what the chain adds, and nothing else.
\<close>

locale chain_collector =
  fixes step :: "string \<Rightarrow> dtb_entry \<Rightarrow> 'a \<Rightarrow> 'a result"
    and adds :: "dtb_entry \<Rightarrow> 'b set"
    and held :: "'a \<Rightarrow> 'b set"
  assumes step_held: "step ident entry acc = Inr acc' \<Longrightarrow> held acc' = held acc \<union> adds entry"
begin

definition chain_adds :: "(string \<times> dtb_entry) list \<Rightarrow> string list \<Rightarrow> 'b set" where
  "chain_adds ds cs = (\<Union>c\<in>set cs. \<Union>(adds ` set_option (map_of ds c)))"

lemma fold_held:
  "fold_result (chain_step ds step) cs acc = Inr r \<Longrightarrow> held r = held acc \<union> chain_adds ds cs"
proof (induction cs arbitrary: acc)
  case Nil
  then show ?case by (simp add: chain_adds_def)
next
  case (Cons c cs)
  from Cons.prems obtain entry acc' where "map_of ds c = Some entry" "step c entry acc = Inr acc'"
    and "fold_result (chain_step ds step) cs acc' = Inr r"
    by (auto simp: chain_step_ok bind_result_eq_Inr)
  with Cons.IH show ?case by (auto simp: chain_adds_def step_held)
qed

lemma walk_held:
  assumes "walk_chain unknown cycle step ds [] cur acc = Inr r"
  shows "\<exists>cs. bases ds cur cs \<and> held r = held acc \<union> chain_adds ds cs"
  using assms fold_held by (auto simp: walk_chain_ok_iff)

end

subsection \<open>Requirements and modules of a chain\<close>

lemma set_config_ok:
  assumes "set_config ident current kv config = Inr config'" and "distinct (map fst config)"
  shows "set config' = insert kv (set config) \<and> distinct (map fst config')"
proof (cases kv)
  case (Pair k v)
  show ?thesis
  proof (cases "map_of config k")
    case None
    with assms Pair show ?thesis by (auto simp: set_config_def map_of_eq_None_iff)
  next
    case (Some old)
    with assms Pair show ?thesis by (auto simp: set_config_def dest: map_of_SomeD split: if_splits)
  qed
qed

lemma fold_set_config:
  assumes "fold_result (set_config ident current) kvs config = Inr config'" and "distinct (map fst config)"
  shows "set config' = set kvs \<union> set config \<and> distinct (map fst config')"
  using assms
proof (induction kvs arbitrary: config)
  case (Cons kv kvs)
  then obtain c where c: "set_config ident current kv config = Inr c"
    "fold_result (set_config ident current) kvs c = Inr config'"
    by (auto simp: bind_result_eq_Inr)
  with Cons.IH [OF c(2)] set_config_ok [OF c(1) Cons.prems(2)] show ?case by simp
qed simp

text \<open>Which pairs of symbol and value agree, and when the loop over them succeeds.\<close>

definition functional :: "('k \<times> 'v) set \<Rightarrow> bool" where
  "functional r \<longleftrightarrow> (\<forall>k v w. (k, v) \<in> r \<longrightarrow> (k, w) \<in> r \<longrightarrow> v = w)"

lemma distinct_functional: "distinct (map fst xs) \<Longrightarrow> functional (set xs)"
  by (auto simp: functional_def intro: eq_key_imp_eq_value)

lemma functional_inj: "functional r \<Longrightarrow> inj_on fst r"
  by (auto simp: functional_def intro!: inj_onI)

lemma fold_set_config_ok:
  assumes "functional (set kvs \<union> set config)" and "distinct (map fst config)"
  shows "\<exists>config'. fold_result (set_config ident current) kvs config = Inr config'"
  using assms
proof (induction kvs arbitrary: config)
  case Nil
  then show ?case by simp
next
  case (Cons kv kvs)
  obtain k v where kv: "kv = (k, v)" by (cases kv)
  have "\<exists>c. set_config ident current kv config = Inr c"
  proof (cases "map_of config k")
    case None
    then show ?thesis by (simp add: set_config_def kv)
  next
    case (Some old)
    then have "(k, old) \<in> set config" by (rule map_of_SomeD)
    with Cons.prems(1) kv have "old = v" by (auto simp: functional_def)
    with Some show ?thesis by (simp add: set_config_def kv)
  qed
  then obtain c where c: "set_config ident current kv config = Inr c" ..
  with set_config_ok [OF c Cons.prems(2)] Cons.prems(1) show ?case
    using Cons.IH [of c] by (simp add: bind_result_def)
qed

lemma requirements_step_ok:
  assumes "requirements_step ident current entry acc = Inr acc'"
  shows "set (fst acc') = set (fst acc) \<union> set (patches_of entry)"
    and "fold_result (set_config ident current) (config_of entry) (snd acc) = Inr (snd acc')"
  using assms by (cases acc; auto simp: requirements_step_def bind_result_eq_Inr)+

interpretation patch_chain: chain_collector "requirements_step ident" "\<lambda>e. set (patches_of e)"
    "\<lambda>acc. set (fst acc)"
  for ident
  by unfold_locales (simp add: requirements_step_ok(1))

interpretation module_chain: chain_collector modules_step "\<lambda>e. set (modules_of e)" set
  by unfold_locales (auto simp: modules_step_def)

definition chain_patches :: "(string \<times> dtb_entry) list \<Rightarrow> string list \<Rightarrow> string set" where
  "chain_patches ds cs = (\<Union>c\<in>set cs. \<Union>(set ` patches_of ` set_option (map_of ds c)))"

definition chain_config :: "(string \<times> dtb_entry) list \<Rightarrow> string list \<Rightarrow> (string \<times> string) set" where
  "chain_config ds cs = (\<Union>c\<in>set cs. \<Union>(set ` config_of ` set_option (map_of ds c)))"

definition chain_modules :: "(string \<times> dtb_entry) list \<Rightarrow> string list \<Rightarrow> string set" where
  "chain_modules ds cs = (\<Union>c\<in>set cs. \<Union>(set ` modules_of ` set_option (map_of ds c)))"

lemma chain_patches_eq: "patch_chain.chain_adds ds cs = chain_patches ds cs"
  by (simp add: patch_chain.chain_adds_def chain_patches_def image_image)

lemma chain_modules_eq: "module_chain.chain_adds ds cs = chain_modules ds cs"
  by (simp add: module_chain.chain_adds_def chain_modules_def image_image)

lemma fold_requirements_config:
  assumes "fold_result (chain_step ds (requirements_step ident)) cs acc = Inr r"
    and "distinct (map fst (snd acc))"
  shows "set (snd r) = set (snd acc) \<union> chain_config ds cs \<and> distinct (map fst (snd r))"
  using assms
proof (induction cs arbitrary: acc)
  case Nil
  then show ?case by (simp add: chain_config_def)
next
  case (Cons c cs)
  from Cons.prems(1) obtain entry acc' where entry: "map_of ds c = Some entry"
    and step: "requirements_step ident c entry acc = Inr acc'"
    and rest: "fold_result (chain_step ds (requirements_step ident)) cs acc' = Inr r"
    by (auto simp: chain_step_ok bind_result_eq_Inr)
  from fold_set_config [OF requirements_step_ok(2) [OF step] Cons.prems(2)]
  have "set (snd acc') = set (config_of entry) \<union> set (snd acc)" "distinct (map fst (snd acc'))"
    by simp_all
  with Cons.IH [OF rest] entry show ?case by (auto simp: chain_config_def)
qed

lemma fold_requirements_ok:
  assumes "functional (set (snd acc) \<union> chain_config ds cs)" and "distinct (map fst (snd acc))"
    and "set cs \<subseteq> fst ` set ds"
  shows "\<exists>r. fold_result (chain_step ds (requirements_step ident)) cs acc = Inr r"
  using assms
proof (induction cs arbitrary: acc)
  case Nil
  then show ?case by simp
next
  case (Cons c cs)
  from Cons.prems(3) obtain entry where entry: "map_of ds c = Some entry"
    by (metis list.set_intros(1) map_of_eq_None_iff not_None_eq subsetD)
  have "functional (set (config_of entry) \<union> set (snd acc))"
    using Cons.prems(1) entry unfolding functional_def chain_config_def by fastforce
  then obtain config' where config':
    "fold_result (set_config ident c) (config_of entry) (snd acc) = Inr config'"
    using fold_set_config_ok Cons.prems(2) by metis
  from fold_set_config [OF config' Cons.prems(2)] have
    "functional (set config' \<union> chain_config ds cs)" "distinct (map fst config')"
    using Cons.prems(1) entry by (auto simp: chain_config_def Un_ac)
  with Cons.IH [of "(fst acc @ patches_of entry, config')"] Cons.prems(3) config' show ?case
    by (cases acc) (auto simp: chain_step_Some [OF entry] requirements_step_def)
qed

lemma requirements_bases:
  assumes "requirements reg ident = Inr (patches, config)"
  shows "\<exists>cs. bases (dtbs reg) (Some ident) cs \<and> functional (chain_config (dtbs reg) cs)
     \<and> patches = sorted_list_of_set (chain_patches (dtbs reg) cs)
     \<and> sorted (map fst config) \<and> distinct (map fst config) \<and> set config = chain_config (dtbs reg) cs"
proof -
  from assms obtain ps cfg cs where cs: "bases (dtbs reg) (Some ident) cs"
    and fold: "fold_result (chain_step (dtbs reg) (requirements_step ident)) cs ([], []) = Inr (ps, cfg)"
    and result: "patches = sort (remdups ps)" "config = sort_key fst cfg"
    by (auto simp: requirements_def bind_result_eq_Inr walk_chain_ok_iff)
  from fold_requirements_config [OF fold] have cfg: "set cfg = chain_config (dtbs reg) cs" "distinct (map fst cfg)"
    by simp_all
  have "set ps = chain_patches (dtbs reg) cs"
    using patch_chain.fold_held [OF fold] by (simp add: chain_patches_eq)
  then have "patches = sorted_list_of_set (chain_patches (dtbs reg) cs)"
    by (simp add: result(1) sorted_list_of_set_sort_remdups flip: \<open>set ps = _\<close>)
  moreover have "distinct (map fst config)"
    using cfg(2) by (simp add: result(2) distinct_map)
  ultimately show ?thesis
    using cs cfg distinct_functional [OF cfg(2)] by (auto simp: result(2))
qed

lemma requirements_total:
  assumes "bases (dtbs reg) (Some ident) cs" and "functional (chain_config (dtbs reg) cs)"
  shows "\<exists>patches config. requirements reg ident = Inr (patches, config)"
proof -
  from fold_requirements_ok [of "([], [])" "dtbs reg" cs ident] assms bases_registered
  obtain r where "fold_result (chain_step (dtbs reg) (requirements_step ident)) cs ([], []) = Inr r"
    by auto
  then show ?thesis
    by (cases r) (simp add: requirements_def walk_bases [OF assms(1)])
qed

text \<open>
  C19. The requirements of a DTB are those of its base chain and nothing else: the patches of the
  chain, sorted and without repetition, and its configuration symbols, sorted, each with the one
  value the chain agrees on. They are refused exactly when the chain does not end (a cycle or an
  unregistered base) or two of its DTBs disagree on a symbol.
\<close>

theorem requirements_exact:
  "requirements reg ident = Inr (patches, config) \<longleftrightarrow>
     (\<exists>cs. bases (dtbs reg) (Some ident) cs \<and> functional (chain_config (dtbs reg) cs)
        \<and> patches = sorted_list_of_set (chain_patches (dtbs reg) cs)
        \<and> sorted (map fst config) \<and> distinct (map fst config)
        \<and> set config = chain_config (dtbs reg) cs)"
    (is "_ \<longleftrightarrow> (\<exists>cs. ?spec patches config cs)")
proof
  assume "requirements reg ident = Inr (patches, config)"
  then show "\<exists>cs. ?spec patches config cs" by (rule requirements_bases)
next
  assume "\<exists>cs. ?spec patches config cs"
  then obtain cs where cs: "?spec patches config cs" ..
  then obtain ps cfg where found: "requirements reg ident = Inr (ps, cfg)"
    using requirements_total by blast
  from requirements_bases [OF found] obtain cs' where "?spec ps cfg cs'" ..
  moreover from this cs have "cs' = cs" by (blast intro: bases_unique)
  ultimately have "ps = patches" and "cfg = config"
    using cs map_sorted_distinct_set_unique [of fst cfg config]
    by (auto dest: functional_inj)
  with found show "requirements reg ident = Inr (patches, config)" by simp
qed

lemma fold_modules_ok:
  "set cs \<subseteq> fst ` set ds \<Longrightarrow> \<exists>ms. fold_result (chain_step ds modules_step) cs acc = Inr ms"
proof (induction cs arbitrary: acc)
  case (Cons c cs)
  then obtain entry where "map_of ds c = Some entry"
    by (metis list.set_intros(1) map_of_eq_None_iff not_None_eq subsetD)
  with Cons show ?case by (simp add: chain_step_Some modules_step_def)
qed simp

lemma required_modules_bases:
  assumes "bases (dtbs reg) (Some ident) cs"
  shows "required_modules reg ident = Inr (sorted_list_of_set (chain_modules (dtbs reg) cs))"
proof -
  from fold_modules_ok [OF bases_registered [OF assms]] obtain ms where
    ms: "fold_result (chain_step (dtbs reg) modules_step) cs [] = Inr ms" by blast
  have "set ms = chain_modules (dtbs reg) cs"
    using module_chain.fold_held [OF ms] by (simp add: chain_modules_eq)
  then have "sort (remdups ms) = sorted_list_of_set (chain_modules (dtbs reg) cs)"
    by (metis sorted_list_of_set_sort_remdups)
  with ms show ?thesis by (simp add: required_modules_def walk_bases [OF assms])
qed

subsection \<open>Valid registries\<close>

definition dtb_ok :: "(string \<Rightarrow> bool) \<Rightarrow> string set \<Rightarrow> string \<times> dtb_entry \<Rightarrow> bool" where
  "dtb_ok known_patch idents = (\<lambda>(ident, entry).
     DTB_match ident \<and> sha_match (d_sha256 entry) \<and> dtb_path_ok (d_path entry)
     \<and> (\<forall>f\<in>set (split_on CHR '','' (d_features entry)). FEATURE_match f)
     \<and> (\<forall>b. d_base entry = Some b \<longrightarrow> b \<in> idents)
     \<and> d_requires entry \<noteq> None
     \<and> distinct (modules_of entry)
     \<and> (\<forall>m\<in>set (modules_of entry). MODULE_PATH_match m \<and> ''..'' \<notin> set (split_on CHR ''/'' m))
     \<and> distinct (patches_of entry)
     \<and> (\<forall>n\<in>set (patches_of entry). PATCH_NAME_match n \<and> known_patch n)
     \<and> (\<forall>(k, v)\<in>set (config_of entry). CONFIG_SYMBOL_match k \<and> map_of CONFIG_VALUES v \<noteq> None))"

definition kernel_ok :: "string \<times> kernel_entry \<Rightarrow> bool" where
  "kernel_ok = (\<lambda>(ident, entry).
     KERNEL_match ident \<and> suffix (''-build-r'' @ tl ident) (k_build entry)
     \<and> sha_match (k_image_sha256 entry) \<and> LOADER_NAME_match (k_release entry))"

definition name_ok :: "bundle_entry \<Rightarrow> bool" where
  "name_ok entry =
     (case NEW_NAME_match (b_name entry) of
        Some (role, kern, dtb, day, letter) \<Rightarrow> role = b_role entry \<and> kern = b_kernel entry \<and> dtb = b_dtb entry
      | None \<Rightarrow> prefix ''production-'' (b_name entry))"

definition bundle_ok :: "(string \<times> kernel_entry) list \<Rightarrow> string set \<Rightarrow> bundle_entry \<Rightarrow> bool" where
  "bundle_ok ks idents entry \<longleftrightarrow>
     loader_name_ok (b_name entry) \<and> b_role entry \<in> set ROLES \<and> b_kernel entry \<in> fst ` set ks
     \<and> b_dtb entry \<in> idents \<and> b_status entry \<in> set STATUSES \<and> b_healthy entry \<in> set HEALTHY
     \<and> sha_match (b_manifest_sha256 entry)
     \<and> map_option k_release (map_of ks (b_kernel entry)) = Some (b_release entry) \<and> name_ok entry"

text \<open>What a registry the script accepts looks like.\<close>

definition registry_ok :: "(string \<Rightarrow> bool) \<Rightarrow> registry \<Rightarrow> bool" where
  "registry_ok known_patch reg \<longleftrightarrow>
     dtbs_format reg = Some ''rog5-dtb-registry-v1'' \<and> data_format reg = Some ''rog5-bundle-registry-v1''
     \<and> (\<forall>d\<in>set (dtbs reg). dtb_ok known_patch (fst ` set (dtbs reg)) d)
     \<and> distinct (map (d_path \<circ> snd) (dtbs reg))
     \<and> (\<forall>ident\<in>fst ` set (dtbs reg). \<exists>cs. bases (dtbs reg) (Some ident) cs
           \<and> functional (chain_config (dtbs reg) cs))
     \<and> (\<forall>k\<in>set (kernels reg). kernel_ok k)
     \<and> (\<forall>b\<in>set (bundles reg). bundle_ok (kernels reg) (fst ` set (dtbs reg)) b)
     \<and> distinct (map b_name (bundles reg))
     \<and> (\<forall>status\<in>{''installed-main'', ''installed-fallback''}.
           length (filter (\<lambda>b. b_status b = status) (bundles reg)) \<le> 1)"

lemma fold_require:
  "fold_result (\<lambda>x u. require (ok x) (why x)) xs u = Inr v \<longleftrightarrow> (\<forall>x\<in>set xs. ok x)"
  by (induction xs arbitrary: u) (auto simp: bind_result_eq_Inr)

lemma validate_dtb_ok:
  "validate_dtb known_patch ds d paths = Inr r \<longleftrightarrow>
     dtb_ok known_patch (fst ` set ds) d \<and> (d_path \<circ> snd) d \<notin> set paths \<and> r = (d_path \<circ> snd) d # paths"
  by (cases d)
     (auto simp: validate_dtb_def validate_requires_def dtb_ok_def bind_result_eq_Inr fold_require
        split: option.splits)

lemma validate_kernel_ok: "validate_kernel k u = Inr v \<longleftrightarrow> kernel_ok k"
  by (cases k) (simp add: validate_kernel_def kernel_ok_def bind_result_eq_Inr)

lemma validate_bundle_ok:
  "validate_bundle reg b names = Inr r \<longleftrightarrow>
     bundle_ok (kernels reg) (fst ` set (dtbs reg)) b \<and> b_name b \<notin> set names \<and> r = b_name b # names"
  by (auto simp: validate_bundle_def bundle_ok_def name_ok_def bind_result_eq_Inr Let_def
      split: option.splits)

lemma requirements_ok_iff:
  "(\<exists>r. requirements reg ident = Inr r) \<longleftrightarrow>
     (\<exists>cs. bases (dtbs reg) (Some ident) cs \<and> functional (chain_config (dtbs reg) cs))"
  using requirements_bases requirements_total by (metis surj_pair)

lemma validate_ok: "validate known_patch reg = Inr u \<longleftrightarrow> registry_ok known_patch reg"
proof -
  let ?dtbs = "fold_result (validate_dtb known_patch (dtbs reg)) (dtbs reg) []"
  let ?bundles = "fold_result (validate_bundle reg) (bundles reg) []"
  let ?reqs = "fold_result (\<lambda>(ident, _) u. bind_result (requirements reg ident) (\<lambda>_. Inr ())) (dtbs reg) ()"
  let ?kernels = "fold_result validate_kernel (kernels reg) ()"
  have "(\<exists>r. ?dtbs = Inr r) \<longleftrightarrow> (\<forall>d\<in>set (dtbs reg). dtb_ok known_patch (fst ` set (dtbs reg)) d)
     \<and> distinct (map (d_path \<circ> snd) (dtbs reg))"
    by (subst fold_result_fresh [OF validate_dtb_ok]) simp
  moreover have "(\<exists>r. ?bundles = Inr r) \<longleftrightarrow>
      (\<forall>b\<in>set (bundles reg). bundle_ok (kernels reg) (fst ` set (dtbs reg)) b)
      \<and> distinct (map b_name (bundles reg))"
    by (subst fold_result_fresh [OF validate_bundle_ok]) simp
  moreover have "?reqs = Inr () \<longleftrightarrow> (\<forall>ident\<in>fst ` set (dtbs reg). \<exists>cs. bases (dtbs reg) (Some ident) cs
      \<and> functional (chain_config (dtbs reg) cs))"
  proof -
    have "fold_result (\<lambda>(ident, _) u. bind_result (requirements reg ident) (\<lambda>_. Inr ())) ds () = Inr ()
       \<longleftrightarrow> (\<forall>ident\<in>fst ` set ds. \<exists>r. requirements reg ident = Inr r)" for ds :: "(string \<times> dtb_entry) list"
      by (induction ds) (auto simp: bind_result_eq_Inr)
    then show ?thesis unfolding requirements_ok_iff .
  qed
  moreover have "?kernels = Inr () \<longleftrightarrow> (\<forall>k\<in>set (kernels reg). kernel_ok k)"
  proof -
    have "fold_result validate_kernel ks () = Inr () \<longleftrightarrow> (\<forall>k\<in>set ks. kernel_ok k)" for ks
      by (induction ks) (auto simp: bind_result_eq_Inr validate_kernel_ok)
    then show ?thesis .
  qed
  ultimately show ?thesis
    unfolding validate_def registry_ok_def
    by (simp add: bind_result_eq_Inr single_status_def)
qed

subsection \<open>What a valid registry guarantees\<close>

text \<open>
  Once a registry validates, nothing derived from it can fail any more: the requirements and
  modules of every registered DTB exist, and the page renders.
\<close>

theorem validated_registry_renders:
  assumes "validate known_patch reg = Inr ()"
  shows "(\<forall>ident\<in>set (map fst (dtbs reg)). (\<exists>r. requirements reg ident = Inr r)
            \<and> (\<exists>ms. required_modules reg ident = Inr ms))
     \<and> (\<exists>text. render reg = Inr text)"
proof -
  from assms have ok: "registry_ok known_patch reg" by (simp add: validate_ok)
  have chain: "(\<exists>r. requirements reg ident = Inr r) \<and> (\<exists>ms. required_modules reg ident = Inr ms)"
    if "ident \<in> fst ` set (dtbs reg)" for ident
    using ok that required_modules_bases unfolding requirements_ok_iff by (auto simp: registry_ok_def)
  have "\<exists>text. needs_text reg ident = Inr text" if "ident \<in> fst ` set (dtbs reg)" for ident
  proof -
    from that obtain entry where "map_of (dtbs reg) ident = Some entry"
      by (metis map_of_eq_None_iff not_None_eq)
    with chain [OF that] show ?thesis by (auto simp: needs_text_def Let_def)
  qed
  then have row: "\<exists>text. dtb_row reg d = Inr text" if "d \<in> set (newest_first (dtbs reg))" for d
    using that by (cases d) (force simp: dtb_row_def newest_first_def bind_result_eq_Inr)
  have "\<exists>rows. map_result (dtb_row reg) (newest_first (dtbs reg)) = Inr rows"
    by (rule map_result_total) (rule row)
  then have "\<exists>text. render reg = Inr text" by (auto simp: render_def)
  with chain show ?thesis by auto
qed

lemma number_match_chars: "number_match s \<Longrightarrow> c \<in> set s \<Longrightarrow> is_digit c"
  by (auto simp: number_match_def list_all_iff)

lemma no_dash:
  "role \<in> set ROLES \<Longrightarrow> CHR ''-'' \<notin> set role"
  "KERNEL_match kern \<Longrightarrow> CHR ''-'' \<notin> set kern"
  "DTB_match dtb \<Longrightarrow> CHR ''-'' \<notin> set dtb"
  "day_match day \<Longrightarrow> CHR ''-'' \<notin> set day"
  "letter_match letter \<Longrightarrow> CHR ''-'' \<notin> set letter"
  subgoal by (auto simp: ROLES_def)
  subgoal by (cases kern) (auto simp: KERNEL_match_def is_digit_def dest: number_match_chars)
  subgoal by (cases dtb) (auto simp: DTB_match_def is_digit_def dest: number_match_chars)
  subgoal by (auto simp: day_match_def list_all_iff is_digit_def)
  subgoal by (auto simp: letter_match_def is_lower_def split: list.splits)
  done

definition name_parts_ok :: "string \<Rightarrow> string \<Rightarrow> string \<Rightarrow> string \<Rightarrow> string \<Rightarrow> bool" where
  "name_parts_ok role kern dtb day letter \<longleftrightarrow>
     role \<in> set ROLES \<and> KERNEL_match kern \<and> DTB_match dtb \<and> day_match day \<and> letter_match letter"

definition scheme_name :: "string \<Rightarrow> string \<Rightarrow> string \<Rightarrow> string \<Rightarrow> string \<Rightarrow> string" where
  "scheme_name role kern dtb day letter = join ''-'' [role, kern, dtb, day @ letter]"

lemma NEW_NAME_scheme:
  assumes "name_parts_ok role kern dtb day letter"
  shows "NEW_NAME_match (scheme_name role kern dtb day letter) = Some (role, kern, dtb, day, letter)"
proof -
  have "split_on CHR ''-'' (scheme_name role kern dtb day letter) = [role, kern, dtb, day @ letter]"
    unfolding scheme_name_def using assms
    by (intro split_on_join) (auto simp: name_parts_ok_def dest: no_dash)
  moreover from assms have "length day = 6" by (simp add: name_parts_ok_def day_match_def)
  ultimately show ?thesis using assms by (simp add: NEW_NAME_match_def name_parts_ok_def)
qed

lemma NEW_NAME_sound:
  assumes "NEW_NAME_match name = Some (role, kern, dtb, day, letter)"
  shows "name = scheme_name role kern dtb day letter \<and> name_parts_ok role kern dtb day letter"
proof -
  from assms obtain stamp where parts: "split_on CHR ''-'' name = [role, kern, dtb, stamp]"
    and "day = take 6 stamp" "letter = drop 6 stamp" "name_parts_ok role kern dtb day letter"
    by (auto simp: NEW_NAME_match_def name_parts_ok_def split: list.splits if_splits)
  moreover have "name = join ''-'' [role, kern, dtb, stamp]"
    using join_split_on [of "CHR ''-''" name] parts by simp
  ultimately show ?thesis by (simp add: scheme_name_def)
qed

lemma no_dots:
  assumes "\<forall>c\<in>set s. c \<noteq> CHR ''.''"
  shows "\<not> contains ''..'' s"
  using assms set_mono_sublist [of "''..''" s] by (auto simp: contains_sublist)

lemma part_chars:
  "role \<in> set ROLES \<Longrightarrow> c \<in> set role \<Longrightarrow> is_lower c"
  "KERNEL_match kern \<Longrightarrow> c \<in> set kern \<Longrightarrow> is_lower c \<or> is_digit c"
  "DTB_match dtb \<Longrightarrow> c \<in> set dtb \<Longrightarrow> is_lower c \<or> is_digit c"
  "day_match day \<Longrightarrow> c \<in> set day \<Longrightarrow> is_digit c"
  "letter_match letter \<Longrightarrow> c \<in> set letter \<Longrightarrow> is_lower c"
  subgoal by (auto simp: ROLES_def is_lower_def)
  subgoal by (cases kern) (auto simp: KERNEL_match_def is_lower_def dest: number_match_chars)
  subgoal by (cases dtb) (auto simp: DTB_match_def is_lower_def dest: number_match_chars)
  subgoal by (simp add: day_match_def list_all_iff)
  subgoal by (auto simp: letter_match_def split: list.splits)
  done

lemma scheme_name_chars:
  assumes "name_parts_ok role kern dtb day letter" and "c \<in> set (scheme_name role kern dtb day letter)"
  shows "is_lower c \<or> is_digit c \<or> c = CHR ''-''"
  using assms unfolding name_parts_ok_def scheme_name_def by (auto dest: part_chars)

lemma scheme_name_loader:
  assumes ok: "name_parts_ok role kern dtb day letter"
  shows "loader_name_ok (scheme_name role kern dtb day letter)"
proof -
  let ?name = "scheme_name role kern dtb day letter"
  from ok have lengths: "length role = 4" "length kern \<le> 5" "length dtb \<le> 5" "length day = 6" "length letter = 1"
    by (auto simp: name_parts_ok_def ROLES_def KERNEL_match_def DTB_match_def number_match_def
        day_match_def letter_match_def split: list.splits)
  then have len: "length ?name \<le> 64" and "?name \<noteq> []" by (auto simp: scheme_name_def)
  moreover have "is_lower (hd ?name)"
    using ok by (auto simp: name_parts_ok_def scheme_name_def ROLES_def is_lower_def)
  moreover have "list_all loader_char (tl ?name)"
    unfolding list_all_iff
  proof
    fix c assume "c \<in> set (tl ?name)"
    then have "c \<in> set ?name" by (cases ?name) auto
    with scheme_name_chars [OF ok] show "loader_char c" by (auto simp: loader_char_def)
  qed
  moreover have "\<not> contains ''..'' ?name"
    using scheme_name_chars [OF ok, of "CHR ''.''"] by (intro no_dots) (auto simp: is_lower_def is_digit_def)
  ultimately show ?thesis by (simp add: loader_name_ok_def LOADER_NAME_match_def)
qed

text \<open>
  Bundle names round trip. The constructor accepts exactly the parts the scheme allows (its
  last check never fires), every name it makes is one the slot-B loader accepts, and matching a
  name against the scheme gives back the parts it was made of, and only those.
\<close>

theorem bundle_name_roundtrip:
  "(bundle_name role kern dtb day letter = Inr name \<longleftrightarrow>
       NEW_NAME_match name = Some (role, kern, dtb, day, letter))
   \<and> (bundle_name role kern dtb day letter = Inr name \<longrightarrow> loader_name_ok name)"
proof -
  have name: "role @ ''-'' @ kern @ ''-'' @ dtb @ ''-'' @ day @ letter = scheme_name role kern dtb day letter"
    by (simp add: scheme_name_def)
  have "bundle_name role kern dtb day letter = Inr name \<longleftrightarrow>
      name_parts_ok role kern dtb day letter \<and> name = scheme_name role kern dtb day letter"
  proof (cases "name_parts_ok role kern dtb day letter")
    case True
    with NEW_NAME_scheme [OF True] scheme_name_loader [OF True] show ?thesis
      unfolding bundle_name_def name Let_def by (auto simp: name_parts_ok_def)
  next
    case False
    then show ?thesis
      unfolding bundle_name_def by (auto simp: name_parts_ok_def bind_result_eq_Inr)
  qed
  then show ?thesis
    by (auto simp: NEW_NAME_scheme scheme_name_loader dest: NEW_NAME_sound)
qed

subsection \<open>Edits keep a registry valid\<close>

lemma length_filter_mono:
  "(\<And>x. x \<in> set xs \<Longrightarrow> P x \<Longrightarrow> Q x) \<Longrightarrow> length (filter P xs) \<le> length (filter Q xs)"
  by (induction xs) auto

lemma length_filter_key:
  assumes "distinct (map f xs)"
  shows "length (filter (\<lambda>x. f x = k) xs) \<le> 1"
proof -
  have "length (filter (\<lambda>x. f x = k) xs) = length (filter (\<lambda>y. y = k) (map f xs))"
    by (simp add: filter_map comp_def)
  also have "\<dots> = card (set (filter (\<lambda>y. y = k) (map f xs)))"
    using assms by (subst distinct_card) simp_all
  also have "\<dots> \<le> card {k}" by (rule card_mono) auto
  finally show ?thesis by simp
qed

definition edit_entry :: "change_args \<Rightarrow> bundle_entry \<Rightarrow> bundle_entry" where
  "edit_entry args b = (if b_name b = set_name args then set_entry args b else retire_entry args b)"

lemma edit_entry_simps [simp]:
  "b_name (edit_entry args b) = b_name b" "b_role (edit_entry args b) = b_role b"
  "b_kernel (edit_entry args b) = b_kernel b" "b_dtb (edit_entry args b) = b_dtb b"
  "b_release (edit_entry args b) = b_release b"
  "b_manifest_sha256 (edit_entry args b) = b_manifest_sha256 b"
  by (simp_all add: edit_entry_def set_entry_def retire_entry_def)

lemma edit_entry_status:
  "b_status (edit_entry args b) =
     (if b_name b = set_name args then or_else (set_status args) (b_status b)
      else if set_status args \<in> {Some ''installed-main'', Some ''installed-fallback''}
           \<and> set_status args = Some (b_status b) then ''retired'' else b_status b)"
  by (auto simp: edit_entry_def set_entry_def retire_entry_def)

lemma edit_entry_healthy:
  "b_healthy (edit_entry args b) =
     (if b_name b = set_name args then or_else (set_healthy args) (b_healthy b) else b_healthy b)"
  by (simp add: edit_entry_def set_entry_def retire_entry_def)

lemma edit_entry_name_ok: "name_ok (edit_entry args b) = name_ok b"
  unfolding name_ok_def edit_entry_simps ..

lemma edit_entry_ok:
  assumes "bundle_ok ks idents b" and "args_ok args" and "args = Set name status healthy inst ch nt"
  shows "bundle_ok ks idents (edit_entry args b)"
proof -
  have "b_status (edit_entry args b) \<in> set STATUSES"
    using assms by (auto simp: edit_entry_status bundle_ok_def args_ok_def or_else_def STATUSES_def
        split: option.splits)
  moreover have "b_healthy (edit_entry args b) \<in> set HEALTHY"
    using assms by (auto simp: edit_entry_healthy bundle_ok_def args_ok_def or_else_def split: option.splits)
  ultimately show ?thesis using assms(1) by (simp add: bundle_ok_def edit_entry_name_ok)
qed

lemma edit_entry_holder:
  "set_status args = Some st \<Longrightarrow> st \<in> {''installed-main'', ''installed-fallback''} \<Longrightarrow>
     b_status (edit_entry args b) = st \<Longrightarrow> b_name b = set_name args"
  by (auto simp: edit_entry_status split: if_splits)

lemma edit_entry_single:
  assumes "distinct (map b_name bs)" and "length (filter (\<lambda>b. b_status b = st) bs) \<le> 1"
    and st: "st \<in> {''installed-main'', ''installed-fallback''}"
  shows "length (filter (\<lambda>b. b_status b = st) (map (edit_entry args) bs)) \<le> 1"
proof (cases "set_status args = Some st")
  case True
  then have "b_name b = set_name args" if "b_status (edit_entry args b) = st" for b
    using that st by (intro edit_entry_holder)
  then have "length (filter (\<lambda>b. b_status (edit_entry args b) = st) bs)
      \<le> length (filter (\<lambda>b. b_name b = set_name args) bs)"
    by (rule length_filter_mono)
  also have "\<dots> \<le> 1" by (rule length_filter_key [OF assms(1)])
  finally show ?thesis by (simp add: filter_map comp_def)
next
  case False
  then have "b_status b = st" if "b_status (edit_entry args b) = st" for b
    using that st by (auto simp: edit_entry_status or_else_def split: if_splits option.splits)
  then have "length (filter (\<lambda>b. b_status (edit_entry args b) = st) bs)
      \<le> length (filter (\<lambda>b. b_status b = st) bs)"
    by (rule length_filter_mono)
  with assms(2) show ?thesis by (simp add: filter_map comp_def)
qed

lemma set_bundle_eq:
  "set_bundle args reg = Inr reg' \<Longrightarrow> reg' = reg\<lparr>bundles := map (edit_entry args) (bundles reg)\<rparr>"
  by (auto simp: set_bundle_def bind_result_eq_Inr edit_entry_def [abs_def])

lemma set_bundle_valid:
  assumes "registry_ok known_patch reg" and "args_ok args"
    and "args = Set name status healthy inst ch nt" and "set_bundle args reg = Inr reg'"
  shows "registry_ok known_patch reg'"
proof -
  have reg': "reg' = reg\<lparr>bundles := map (edit_entry args) (bundles reg)\<rparr>"
    by (rule set_bundle_eq [OF assms(4)])
  have "length (filter (\<lambda>b. b_status b = st) (map (edit_entry args) (bundles reg))) \<le> 1"
    if "st \<in> {''installed-main'', ''installed-fallback''}" for st
    using assms(1) that by (intro edit_entry_single) (auto simp: registry_ok_def)
  moreover have "\<forall>b\<in>set (map (edit_entry args) (bundles reg)).
      bundle_ok (kernels reg) (fst ` set (dtbs reg)) b"
    using assms(1) edit_entry_ok [OF _ assms(2,3)] by (auto simp: registry_ok_def)
  moreover have "distinct (map b_name (map (edit_entry args) (bundles reg)))"
    using assms(1) by (simp add: comp_def registry_ok_def)
  ultimately show ?thesis
    using assms(1) unfolding registry_ok_def reg' by simp
qed

text \<open>
  C25. Changing a bundle's status keeps the registry valid and exclusive: the named bundle gets
  the status, and any other bundle that held the same installed role is retired.
\<close>

theorem set_bundle_exclusive:
  assumes "validate known_patch reg = Inr ()" and "st \<in> set STATUSES"
    and "set_bundle (Set name (Some st) None inst ch nt) reg = Inr reg'"
  shows "validate known_patch reg' = Inr ()
     \<and> map b_name (bundles reg') = map b_name (bundles reg)
     \<and> (\<forall>b\<in>set (bundles reg'). b_name b = name \<longrightarrow> b_status b = st)
     \<and> (st \<in> {''installed-main'', ''installed-fallback''} \<longrightarrow>
          (\<forall>b\<in>set (bundles reg'). b_status b = st \<longrightarrow> b_name b = name))"
proof -
  let ?args = "Set name (Some st) None inst ch nt"
  have "validate known_patch reg' = Inr ()"
    using assms set_bundle_valid [of known_patch reg ?args name "Some st" None inst ch nt reg']
    by (simp add: validate_ok args_ok_def)
  moreover have bundles: "bundles reg' = map (edit_entry ?args) (bundles reg)"
    by (simp add: set_bundle_eq [OF assms(3)])
  have "map b_name (bundles reg') = map b_name (bundles reg)"
    by (simp add: bundles comp_def)
  moreover have "\<forall>b\<in>set (bundles reg'). b_name b = name \<longrightarrow> b_status b = st"
    by (auto simp: bundles edit_entry_status or_else_def)
  moreover have "b_name b = name"
    if "st \<in> {''installed-main'', ''installed-fallback''}" "b \<in> set (bundles reg')" "b_status b = st" for b
    using that edit_entry_holder [of ?args st] unfolding bundles by fastforce
  ultimately show ?thesis by blast
qed

lemma map_of_update_key:
  "map_of (update_key key f d) x = map_option (\<lambda>v. if x = key then f v else v) (map_of d x)"
  by (induction d) (auto simp: update_key_def)

lemma fst_update_key [simp]: "fst ` set (update_key key f d) = fst ` set d"
  by (force simp: update_key_def)

lemma set_update_key:
  "x \<in> set (update_key key f d) \<Longrightarrow> \<exists>v. (fst x, v) \<in> set d \<and> snd x = (if fst x = key then f v else v)"
  by (auto simp: update_key_def split: if_splits)

lemma bases_notes:
  "bases ds cur cs \<Longrightarrow> bases (update_key ident (d_notes_update g) ds) cur cs"
proof (induction rule: bases.induct)
  case bases_end
  show ?case by (rule bases.bases_end)
next
  case (bases_step c entry rest)
  let ?entry = "if c = ident then d_notes_update g entry else entry"
  have "map_of (update_key ident (d_notes_update g) ds) c = Some ?entry"
    using bases_step.hyps(1) by (simp add: map_of_update_key)
  moreover have "bases (update_key ident (d_notes_update g) ds) (d_base ?entry) rest"
    using bases_step.IH by simp
  ultimately show ?case by (rule bases.bases_step)
qed

lemma of_notes [simp]:
  "config_of (d_notes_update g e) = config_of e" "patches_of (d_notes_update g e) = patches_of e"
  "modules_of (d_notes_update g e) = modules_of e"
  by (simp_all add: config_of_def patches_of_def modules_of_def)

lemma chain_config_notes:
  "chain_config (update_key ident (d_notes_update g) ds) cs = chain_config ds cs"
proof -
  have "\<Union>(set ` config_of ` set_option (map_of (update_key ident (d_notes_update g) ds) c))
     = \<Union>(set ` config_of ` set_option (map_of ds c))" for c
    by (cases "map_of ds c") (simp_all add: map_of_update_key)
  then show ?thesis by (simp add: chain_config_def)
qed

lemma describe_dtb_valid:
  assumes "registry_ok known_patch reg"
  shows "registry_ok known_patch (reg\<lparr>dtbs := update_key ident (d_notes_update g) (dtbs reg)\<rparr>)"
proof -
  let ?ds = "update_key ident (d_notes_update g) (dtbs reg)"
  have "dtb_ok known_patch (fst ` set (dtbs reg)) d" if "d \<in> set ?ds" for d
  proof -
    from set_update_key [OF that] obtain v where v: "(fst d, v) \<in> set (dtbs reg)"
      "snd d = (if fst d = ident then d_notes_update g v else v)" by auto
    from assms v(1) have "dtb_ok known_patch (fst ` set (dtbs reg)) (fst d, v)"
      by (auto simp: registry_ok_def)
    with v(2) show ?thesis
      by (cases d) (simp add: dtb_ok_def)
  qed
  moreover have "map (d_path \<circ> snd) ?ds = map (d_path \<circ> snd) (dtbs reg)"
    by (auto simp: update_key_def)
  ultimately show ?thesis
    using assms bases_notes unfolding registry_ok_def
    by (auto simp: chain_config_notes) (metis fst_conv)
qed

lemma describe_kernel_valid:
  assumes "registry_ok known_patch reg"
  shows "registry_ok known_patch (reg\<lparr>kernels := update_key ident (k_changes_update g) (kernels reg)\<rparr>)"
proof -
  let ?ks = "update_key ident (k_changes_update g) (kernels reg)"
  have "kernel_ok k" if "k \<in> set ?ks" for k
  proof -
    from set_update_key [OF that] obtain v where v: "(fst k, v) \<in> set (kernels reg)"
      "snd k = (if fst k = ident then k_changes_update g v else v)" by auto
    from assms v(1) have "kernel_ok (fst k, v)" by (auto simp: registry_ok_def)
    with v(2) show ?thesis by (cases k) (auto simp: kernel_ok_def)
  qed
  moreover have "map_option k_release (map_of ?ks x) = map_option k_release (map_of (kernels reg) x)" for x
    by (cases "map_of (kernels reg) x") (simp_all add: map_of_update_key)
  then have "bundle_ok ?ks idents = bundle_ok (kernels reg) idents" for idents
    by (intro ext) (simp add: bundle_ok_def)
  ultimately show ?thesis
    using assms unfolding registry_ok_def by simp
qed

text \<open>An edit touches one of the two files.\<close>

definition same_dtbs_file :: "registry \<Rightarrow> registry \<Rightarrow> bool" where
  "same_dtbs_file reg reg' \<longleftrightarrow> dtbs_format reg' = dtbs_format reg \<and> dtbs_root reg' = dtbs_root reg
     \<and> dtbs reg' = dtbs reg"

definition same_bundles_file :: "registry \<Rightarrow> registry \<Rightarrow> bool" where
  "same_bundles_file reg reg' \<longleftrightarrow> data_format reg' = data_format reg \<and> kernels reg' = kernels reg
     \<and> bundles reg' = bundles reg"

lemma change_valid:
  assumes ok: "registry_ok known_patch reg" and args: "args_ok args"
    and run: "change known_patch args reg s = (Inr reg', t)"
  shows "registry_ok known_patch reg' \<and> (same_dtbs_file reg reg' \<or> same_bundles_file reg reg')"
proof (cases args)
  case (Set name status healthy inst ch nt)
  with run have set: "set_bundle args reg = Inr reg'" by (simp add: change_def lift_result_def)
  then show ?thesis
    using set_bundle_valid [OF ok args Set set] set_bundle_eq [OF set] by (simp add: same_dtbs_file_def)
next
  case (Describe ident body)
  with run have "describe ident body reg = Inr reg'" by (simp add: change_def lift_result_def)
  then show ?thesis
    using describe_dtb_valid [OF ok] describe_kernel_valid [OF ok]
    by (auto simp: describe_def bind_result_eq_Inr same_dtbs_file_def same_bundles_file_def split: if_splits)
next
  case AddDtb
  with run have "add_dtb args reg = Inr reg'" "validate known_patch reg' = Inr ()"
    by (auto simp: change_def bind_io_eq_Inr lift_result_def ret_def)
  then show ?thesis
    by (auto simp: add_dtb_def bind_result_eq_Inr Let_def validate_ok same_bundles_file_def)
next
  case Render
  with run ok show ?thesis by (simp add: change_def ret_def same_dtbs_file_def)
qed

subsection \<open>The files stay valid under write failures\<close>

lemma next_fault_on_disk: "next_fault s = (r, t) \<Longrightarrow> on_disk t = on_disk s \<and> doc t = doc s"
  by (auto simp: next_fault_def split: list.splits)

lemma write_json_cases:
  "write_json upd s = (r, t) \<Longrightarrow>
     r = Inr () \<and> on_disk t = upd (on_disk s) \<or> r = Inl OSError \<and> on_disk t = on_disk s"
  by (auto simp: write_json_def bind_io_def next_fault_def run_simps split: list.splits if_splits)

lemma write_doc_on_disk:
  "write_doc page s = (r, t) \<Longrightarrow> on_disk t = on_disk s \<and> (r = Inr () \<longrightarrow> doc t = page)"
  by (auto simp: write_doc_def bind_io_def next_fault_def run_simps split: list.splits option.splits)

lemma write_features_on_disk: "write_features reg ident s = (r, t) \<Longrightarrow> on_disk t = on_disk s"
proof -
  have fault: "on_disk t' = on_disk s'" if "next_fault s' = (r', t')" for s' t' r'
    using next_fault_on_disk [OF that] by simp
  show "write_features reg ident s = (r, t) \<Longrightarrow> on_disk t = on_disk s"
    by (auto simp: write_features_def run_simps bind_io_def Let_def dest!: fault
        split: option.splits sum.splits prod.splits if_splits)
qed

lemma change_on_disk: "change known_patch args reg s = (r, t) \<Longrightarrow> on_disk t = on_disk s"
  by (cases args)
     (auto simp: change_def run_simps bind_io_def dest!: write_features_on_disk
        split: sum.splits prod.splits)

lemma registry_eq_files:
  "same_bundles_file old reg \<Longrightarrow>
     old\<lparr>dtbs_format := dtbs_format reg, dtbs_root := dtbs_root reg, dtbs := dtbs reg\<rparr> = reg"
  "same_dtbs_file old reg \<Longrightarrow>
     old\<lparr>data_format := data_format reg, kernels := kernels reg, bundles := bundles reg\<rparr> = reg"
  "old\<lparr>dtbs_format := dtbs_format reg, dtbs_root := dtbs_root reg, dtbs := dtbs reg,
     data_format := data_format reg, kernels := kernels reg, bundles := bundles reg\<rparr> = reg"
  "same_dtbs_file old reg \<Longrightarrow>
     old\<lparr>dtbs_format := dtbs_format reg, dtbs_root := dtbs_root reg, dtbs := dtbs reg\<rparr> = old"
  by (simp_all add: same_bundles_file_def same_dtbs_file_def)

lemma save_on_disk:
  assumes "save known_patch reg s = (r, t)" and "same_dtbs_file (on_disk s) reg \<or> same_bundles_file (on_disk s) reg"
  shows "on_disk t \<in> {on_disk s, reg}
     \<and> (r = Inr () \<longrightarrow> on_disk t = reg \<and> (\<exists>page. render reg = Inr page \<and> doc t = page))"
proof (cases "validate known_patch reg")
  case (Inl e)
  with assms(1) show ?thesis by (auto simp: save_def bind_io_def run_simps)
next
  case (Inr u)
  obtain r1 s1 where w1: "write_dtbs reg s = (r1, s1)" by (cases "write_dtbs reg s")
  obtain r2 s2 where w2: "write_bundles reg s1 = (r2, s2)" by (cases "write_bundles reg s1")
  from write_json_cases [OF w1 [unfolded write_dtbs_def]] show ?thesis
  proof (elim disjE conjE)
    assume r1: "r1 = Inl OSError" and "on_disk s1 = on_disk s"
    with assms(1) Inr w1 show ?thesis by (auto simp: save_def bind_io_def run_simps)
  next
    assume r1: "r1 = Inr ()" and d1: "on_disk s1 =
      (on_disk s)\<lparr>dtbs_format := dtbs_format reg, dtbs_root := dtbs_root reg, dtbs := dtbs reg\<rparr>"
    then have mid: "on_disk s1 \<in> {on_disk s, reg}" using assms(2) by (auto simp: registry_eq_files)
    from write_json_cases [OF w2 [unfolded write_bundles_def]] show ?thesis
    proof (elim disjE conjE)
      assume "r2 = Inl OSError" and "on_disk s2 = on_disk s1"
      with assms(1) Inr w1 r1 w2 mid show ?thesis by (auto simp: save_def bind_io_def run_simps)
    next
      assume r2: "r2 = Inr ()" and d2: "on_disk s2 =
        (on_disk s1)\<lparr>data_format := data_format reg, kernels := kernels reg, bundles := bundles reg\<rparr>"
      then have "on_disk s2 = reg" unfolding d1 by (simp add: registry_eq_files)
      with assms(1) Inr w1 r1 w2 r2 show ?thesis
        by (cases "render reg") (auto simp: save_def bind_io_def run_simps dest!: write_doc_on_disk)
    qed
  qed
qed

text \<open>
  C18. A locked edit never leaves an invalid pair of registry files behind, whichever of its
  writes fails: the files hold either what they held before or the whole edit, both valid; and
  when it reports success they hold the edit and the page is its rendering.
\<close>

theorem locked_change_crash_safe:
  assumes "validate known_patch (on_disk s) = Inr ()" and "args_ok args"
    and "locked_change known_patch args s = (r, t)"
  shows "validate known_patch (on_disk t) = Inr ()
     \<and> (on_disk t = on_disk s \<or> Inr (on_disk t) = fst (change known_patch args (on_disk s) s))
     \<and> (r = Inr () \<longrightarrow> Inr (on_disk t) = fst (change known_patch args (on_disk s) s)
          \<and> render (on_disk t) = Inr (doc t))"
proof (cases "change known_patch args (on_disk s) s")
  case (Pair result u)
  have disk: "on_disk u = on_disk s" by (rule change_on_disk [OF Pair])
  have run: "locked_change known_patch args s = bind_io (change known_patch args (on_disk s)) (save known_patch) s"
    using assms(1) by (simp add: locked_change_def bind_io_def run_simps)
  show ?thesis
  proof (cases result)
    case (Inl e)
    with assms(1,3) run Pair disk show ?thesis by (auto simp: bind_io_def)
  next
    case (Inr reg')
    have "registry_ok known_patch reg' \<and> (same_dtbs_file (on_disk s) reg' \<or> same_bundles_file (on_disk s) reg')"
      using assms(1,2) Pair Inr by (intro change_valid) (simp_all add: validate_ok)
    moreover from assms(3) run Pair Inr have "save known_patch reg' u = (r, t)" by (simp add: bind_io_def)
    ultimately show ?thesis
      using save_on_disk [of known_patch reg' u r t] assms(1) Pair Inr disk by (auto simp: validate_ok)
  qed
qed

subsection \<open>Kernel checks, new identifiers and the page\<close>

text \<open>
  C21. A kernel build is accepted for a DTB exactly when it carries every patch of the DTB's base
  chain and, where the chain names configuration symbols, the build's \<open>.config\<close> is there and gives
  each symbol an allowed value.
\<close>

theorem check_kernel_exact:
  "check_kernel reg ident kern applied config_text = Inr (patches, config) \<longleftrightarrow>
     requirements reg ident = Inr (patches, config) \<and> set patches \<subseteq> set applied
     \<and> (config \<noteq> [] \<longrightarrow> (\<exists>body. config_text = Some body
          \<and> (\<forall>(symbol, v)\<in>set config. \<exists>x allowed. config_symbols body symbol = Some x
                \<and> map_of CONFIG_VALUES v = Some allowed \<and> x \<in> set allowed)))"
proof -
  have symbol: "symbol_ok vs kv \<longleftrightarrow> (case kv of (symbol, v) \<Rightarrow> \<exists>x allowed. vs symbol = Some x
        \<and> map_of CONFIG_VALUES v = Some allowed \<and> x \<in> set allowed)" for vs kv
    by (auto simp: symbol_ok_def split: prod.splits option.splits)
  have applied: "set patches \<subseteq> set applied \<longleftrightarrow>
      (applied \<noteq> [] \<or> patches = []) \<and> filter (\<lambda>name. name \<notin> set applied) patches = []" for patches
    by (auto simp: filter_empty_conv)
  show ?thesis
    unfolding applied symbol [symmetric]
    by (cases config_text)
       (auto simp: check_kernel_def bind_result_eq_Inr Let_def filter_empty_conv split: if_splits)
qed

lemma fold_max_ge: "x \<in> set xs \<Longrightarrow> x \<le> fold max xs (m::nat)"
  and fold_max_start: "m \<le> fold max xs (m::nat)"
proof -
  show start: "m \<le> fold max xs m" for m :: nat and xs
    by (induction xs arbitrary: m) (auto intro: order_trans [OF max.cobounded2])
  show "x \<in> set xs \<Longrightarrow> x \<le> fold max xs m"
    by (induction xs arbitrary: m) (auto intro: order_trans [OF _ start])
qed

lemma next_dtb_id_fresh: "next_dtb_id reg \<notin> fst ` set (dtbs reg)"
proof
  let ?ns = "map (\<lambda>(ident, _). read_nat (tl ident)) (dtbs reg)"
  let ?n = "fold max ?ns (FIRST_NEW_DTB - 1) + 1"
  assume "next_dtb_id reg \<in> fst ` set (dtbs reg)"
  then obtain entry where "(''d'' @ show_nat ?n, entry) \<in> set (dtbs reg)"
    by (auto simp: next_dtb_id_def)
  then have "read_nat (tl (''d'' @ show_nat ?n)) \<in> set ?ns" by (force simp: image_iff)
  then have "?n \<in> set ?ns" by simp
  from fold_max_ge [OF this, of "FIRST_NEW_DTB - 1"] show False by simp
qed

text \<open>
  Registering a DTB adds one entry under a new identifier, at least \<open>d10\<close>, and touches
  nothing else; neither its path nor its digest was registered before.
\<close>

theorem add_dtb_fresh:
  assumes "add_dtb args reg = Inr reg'"
  shows "\<exists>n entry. 10 \<le> n \<and> dtbs reg' = dtbs reg @ [(''d'' @ show_nat n, entry)]
     \<and> ''d'' @ show_nat n \<notin> set (map fst (dtbs reg))
     \<and> d_sha256 entry = add_digest args \<and> d_base entry = add_base args
     \<and> (\<forall>(ident, old)\<in>set (dtbs reg). d_path old \<noteq> d_path entry \<and> d_sha256 old \<noteq> d_sha256 entry)
     \<and> kernels reg' = kernels reg \<and> bundles reg' = bundles reg"
proof -
  have old: "fold_result (unregistered p digest) ds () = Inr ()
      \<longleftrightarrow> (\<forall>(ident, old)\<in>set ds. d_path old \<noteq> p \<and> d_sha256 old \<noteq> digest)" for p digest ds
    by (induction ds) (auto simp: bind_result_eq_Inr unregistered_def)
  obtain n where n: "next_dtb_id reg = ''d'' @ show_nat n" and "10 \<le> n"
    using fold_max_start [of "FIRST_NEW_DTB - 1"] unfolding next_dtb_id_def FIRST_NEW_DTB_def
    by (metis (no_types, lifting) add_le_mono1 eval_nat_numeral(2) le_add_diff_inverse2 numeral_eq_Suc
        one_le_numeral)
  with assms next_dtb_id_fresh [of reg] show ?thesis
    by (auto simp: add_dtb_def bind_result_eq_Inr Let_def old)
qed

text \<open>
  The runs of patch numbers in the page expand to exactly the numbers they abbreviate.
\<close>

theorem number_runs_expand:
  "concat (map (\<lambda>(a, b). [a..<Suc b]) (number_runs numbers)) = numbers
     \<and> (\<forall>(a, b)\<in>set (number_runs numbers). a \<le> b)"
proof (induction numbers rule: rev_induct)
  case Nil
  then show ?case by (simp add: number_runs_def)
next
  case (snoc n numbers)
  let ?runs = "number_runs numbers"
  have runs: "number_runs (numbers @ [n]) = add_number ?runs n" by (simp add: number_runs_def)
  show ?case
  proof (cases "?runs \<noteq> [] \<and> n = snd (last ?runs) + 1")
    case True
    obtain init a b where split: "?runs = init @ [(a, b)]"
      using True by (metis append_butlast_last_id surj_pair)
    with snoc True show ?thesis unfolding runs by (auto simp: add_number_def)
  next
    case False
    with snoc show ?thesis unfolding runs by (auto simp: add_number_def)
  qed
qed

subsection \<open>A registry\<close>

text \<open>Two DTBs, one derived from the other, a kernel and a bundle.\<close>

definition demo_entry :: "string \<Rightarrow> char \<Rightarrow> string option \<Rightarrow> requires \<Rightarrow> dtb_entry" where
  "demo_entry path c base reqs =
     \<lparr>d_path = path, d_sha256 = replicate 64 c, d_features = ''wifi,gpu'', d_base = base,
      d_created = ''2026-10-01'', d_kernel_requires = Some [], d_requires = Some reqs, d_notes = None\<rparr>"

definition demo_registry :: registry where
  "demo_registry =
     \<lparr>dtbs_format = Some ''rog5-dtb-registry-v1'', dtbs_root = ''/state/dtbs'',
      dtbs =
        [(''d9'', demo_entry ''a/board.dtb'' CHR ''a'' None
            \<lparr>req_patches = Some [''0001-a.patch''], req_config = Some [(''CONFIG_A'', ''y'')],
             req_modules = None\<rparr>),
         (''d10'', demo_entry ''b/board.dtb'' CHR ''b'' (Some ''d9'')
            \<lparr>req_patches = Some [''0002-b.patch''], req_config = Some [(''CONFIG_B'', ''y|m'')],
             req_modules = Some [''drivers/x.ko'']\<rparr>)],
      data_format = Some ''rog5-bundle-registry-v1'',
      kernels = [(''k111'', \<lparr>k_build = ''rog5-kernel-7.2.7-build-r111'', k_release = ''7.2.7-rog5-k111'',
         k_image_sha256 = replicate 64 CHR ''c'', k_series = None, k_date = None, k_changes = None\<rparr>)],
      bundles = [\<lparr>b_name = ''main-k111-d10-261001a'', b_role = ''main'', b_kernel = ''k111'', b_dtb = ''d10'',
         b_status = ''installed-main'', b_healthy = ''yes'', b_release = ''7.2.7-rog5-k111'',
         b_manifest_sha256 = replicate 64 CHR ''d'', b_installed = None, b_changes = None, b_notes = None\<rparr>,
        \<lparr>b_name = ''main-k111-d9-261002a'', b_role = ''main'', b_kernel = ''k111'', b_dtb = ''d9'',
         b_status = ''built'', b_healthy = ''unknown'', b_release = ''7.2.7-rog5-k111'',
         b_manifest_sha256 = replicate 64 CHR ''e'', b_installed = None, b_changes = None, b_notes = None\<rparr>]\<rparr>"

lemma demo_registry_valid: "validate (\<lambda>_. True) demo_registry = Inr ()"
  by code_simp

lemma demo_requirements:
  "requirements demo_registry ''d10'' =
     Inr ([''0001-a.patch'', ''0002-b.patch''], [(''CONFIG_A'', ''y''), (''CONFIG_B'', ''y|m'')])"
  by code_simp

theorem validated_registry_renders_witness:
  "(\<exists>r. requirements demo_registry ''d10'' = Inr r) \<and> (\<exists>page. render demo_registry = Inr page)"
proof -
  have "''d10'' \<in> set (map fst (dtbs demo_registry))" by (simp add: demo_registry_def)
  with validated_registry_renders [OF demo_registry_valid] show ?thesis by blast
qed

theorem bundle_name_roundtrip_witness:
  "bundle_name ''main'' ''k111'' ''d9'' ''261001'' ''a'' = Inr ''main-k111-d9-261001a''
   \<and> NEW_NAME_match ''main-k111-d9-261001a'' = Some (''main'', ''k111'', ''d9'', ''261001'', ''a'')
   \<and> loader_name_ok ''main-k111-d9-261001a''"
proof -
  have "bundle_name ''main'' ''k111'' ''d9'' ''261001'' ''a'' = Inr ''main-k111-d9-261001a''" by code_simp
  with bundle_name_roundtrip [of "''main''" "''k111''" "''d9''" "''261001''" "''a''" "''main-k111-d9-261001a''"]
  show ?thesis by blast
qed

theorem set_bundle_exclusive_witness:
  "\<exists>reg'. set_bundle (Set ''main-k111-d9-261002a'' (Some ''installed-main'') None None None None)
       demo_registry = Inr reg' \<and> validate (\<lambda>_. True) reg' = Inr ()
     \<and> map b_status (bundles reg') = [''retired'', ''installed-main'']"
proof -
  let ?args = "Set ''main-k111-d9-261002a'' (Some ''installed-main'') None None None None"
  have "(case set_bundle ?args demo_registry of Inl _ \<Rightarrow> False
      | Inr reg \<Rightarrow> map b_status (bundles reg) = [''retired'', ''installed-main''])"
    by code_simp
  then obtain reg' where reg': "set_bundle ?args demo_registry = Inr reg'"
    and st: "map b_status (bundles reg') = [''retired'', ''installed-main'']"
    by (auto split: sum.splits)
  have "validate (\<lambda>_. True) reg' = Inr ()"
    using set_bundle_exclusive [OF demo_registry_valid _ reg'] by (simp add: STATUSES_def)
  with reg' st show ?thesis by (intro exI [of _ reg'] conjI)
qed

text \<open>The second write fails: the files keep what they held.\<close>

definition demo_files :: "nat option list \<Rightarrow> registry_files" where
  "demo_files faults = \<lparr>on_disk = demo_registry, doc = [], features_files = (\<lambda>_. None), write_faults = faults\<rparr>"

theorem locked_change_crash_safe_witness:
  "validate (\<lambda>_. True) (on_disk (snd (locked_change (\<lambda>_. True)
     (Set ''main-k111-d9-261002a'' (Some ''installed-main'') None None None None)
     (demo_files [None, Some 0])))) = Inr ()"
proof -
  let ?args = "Set ''main-k111-d9-261002a'' (Some ''installed-main'') None None None None"
  have "validate (\<lambda>_. True) (on_disk (demo_files [None, Some 0])) = Inr ()"
    by (simp add: demo_files_def demo_registry_valid)
  moreover have "args_ok ?args" by (simp add: args_ok_def STATUSES_def)
  ultimately show ?thesis
    using locked_change_crash_safe [of "\<lambda>_. True" "demo_files [None, Some 0]" ?args] by (metis prod.collapse)
qed

theorem check_kernel_exact_witness:
  "check_kernel demo_registry ''d10'' ''k111'' [''0001-a.patch'', ''0002-b.patch'', ''0003-c.patch'']
     (Some (''CONFIG_A=y'' @ [LF] @ ''CONFIG_B=m'' @ [LF]))
   = Inr ([''0001-a.patch'', ''0002-b.patch''], [(''CONFIG_A'', ''y''), (''CONFIG_B'', ''y|m'')])"
proof -
  let ?config = "''CONFIG_A=y'' @ [LF] @ ''CONFIG_B=m'' @ [LF]"
  have "config_symbols ?config ''CONFIG_A'' = Some ''y''" "config_symbols ?config ''CONFIG_B'' = Some ''m''"
    by code_simp+
  then show ?thesis
    by (subst check_kernel_exact) (simp add: demo_requirements CONFIG_VALUES_def)
qed

definition demo_add :: change_args where
  "demo_add = AddDtb [''state'', ''dtbs'', ''c'', ''board.dtb''] [''state'', ''dtbs''] (replicate 64 CHR ''f'')
     ''wifi'' (Some ''d10'') [] [] ''2026-10-02'' [] [] []"

theorem add_dtb_fresh_witness:
  "\<exists>reg'. add_dtb demo_add demo_registry = Inr reg' \<and> length (dtbs reg') = 3
     \<and> kernels reg' = kernels demo_registry"
proof -
  have "\<not> isl (add_dtb demo_add demo_registry)" by code_simp
  then obtain reg' where reg': "add_dtb demo_add demo_registry = Inr reg'"
    by (cases "add_dtb demo_add demo_registry") simp_all
  from add_dtb_fresh [OF reg'] have "length (dtbs reg') = 3" "kernels reg' = kernels demo_registry"
    by (auto simp: demo_registry_def)
  with reg' show ?thesis by (intro exI [of _ reg'] conjI)
qed

theorem number_runs_expand_witness:
  "number_runs [1, 2, 3, 7] = [(1, 3), (7, 7)]
   \<and> concat (map (\<lambda>(a, b). [a..<Suc b]) (number_runs [1, 2, 3, 7])) = [1, 2, 3, 7]"
  using number_runs_expand [of "[1, 2, 3, 7]"] by (simp add: number_runs_def add_number_def)

end
