(* ===== verification/Py_Unicode.thy ===== *)
theory Py_Unicode
  imports Py_Text
begin

section \<open>Text beyond ASCII, and quoting for a shell\<close>

text \<open>
  A Python \<open>str\<close> that comes from outside is its UTF-8 encoding. Here are the operations whose
  meaning depends on code points above 127: strict decoding, \<open>strip\<close>, \<open>split\<close> at white space,
  line breaks and universal newlines; and \<open>shlex.quote\<close>.
\<close>

subsection \<open>Strict UTF-8\<close>

definition continuation :: "char \<Rightarrow> bool" where
  "continuation c \<longleftrightarrow> 128 \<le> code c \<and> code c < 192"

text \<open>
  The number of continuation bytes after a leading byte, with the range of the first of them:
  no overlong form, no surrogate, nothing above \<open>U+10FFFF\<close>.
\<close>

definition utf8_lead :: "char \<Rightarrow> (nat \<times> nat \<times> nat) option" where
  "utf8_lead c =
     (let n = code c in
      if n < 128 then Some (0, 0, 0)
      else if 194 \<le> n \<and> n \<le> 223 then Some (1, 128, 191)
      else if n = 224 then Some (2, 160, 191)
      else if n = 237 then Some (2, 128, 159)
      else if 225 \<le> n \<and> n \<le> 239 then Some (2, 128, 191)
      else if n = 240 then Some (3, 144, 191)
      else if 241 \<le> n \<and> n \<le> 243 then Some (3, 128, 191)
      else if n = 244 then Some (3, 128, 143)
      else None)"

function utf8_ok :: "string \<Rightarrow> bool" where
  "utf8_ok [] = True"
| "utf8_ok (c # s) =
     (case utf8_lead c of
        None \<Rightarrow> False
      | Some (k, low, high) \<Rightarrow>
          k \<le> length s \<and> list_all continuation (take k s)
          \<and> (k = 0 \<or> low \<le> code (hd s) \<and> code (hd s) \<le> high)
          \<and> utf8_ok (drop k s))"
  by pat_completeness auto
termination
  by (relation "measure length") auto

lemma utf8_ok_ascii: "list_all is_ascii s \<Longrightarrow> utf8_ok s"
  by (induction s) (auto simp: utf8_lead_def is_ascii_def)

subsection \<open>White space and lines\<close>

text \<open>The white space of \<open>str.isspace\<close>, in UTF-8.\<close>

definition space_forms :: "string list" where
  "space_forms =
     [[CHR 0x09], [CHR 0x0A], [CHR 0x0B], [CHR 0x0C],
      [CHR 0x0D], [CHR 0x1C], [CHR 0x1D], [CHR 0x1E],
      [CHR 0x1F], [CHR 0x20], [CHR 0xC2, CHR 0x85], [CHR 0xC2, CHR 0xA0],
      [CHR 0xE1, CHR 0x9A, CHR 0x80], [CHR 0xE2, CHR 0x80, CHR 0xA8], [CHR 0xE2, CHR 0x80, CHR 0xA9], [CHR 0xE2, CHR 0x80, CHR 0xAF],
      [CHR 0xE2, CHR 0x81, CHR 0x9F], [CHR 0xE3, CHR 0x80, CHR 0x80], [CHR 0xE2, CHR 0x80, CHR 0x80], [CHR 0xE2, CHR 0x80, CHR 0x81],
      [CHR 0xE2, CHR 0x80, CHR 0x82], [CHR 0xE2, CHR 0x80, CHR 0x83], [CHR 0xE2, CHR 0x80, CHR 0x84], [CHR 0xE2, CHR 0x80, CHR 0x85],
      [CHR 0xE2, CHR 0x80, CHR 0x86], [CHR 0xE2, CHR 0x80, CHR 0x87], [CHR 0xE2, CHR 0x80, CHR 0x88], [CHR 0xE2, CHR 0x80, CHR 0x89],
      [CHR 0xE2, CHR 0x80, CHR 0x8A]]"

definition leading_space :: "string \<Rightarrow> nat" where
  "leading_space s = (case find (\<lambda>w. prefix w s) space_forms of None \<Rightarrow> 0 | Some w \<Rightarrow> length w)"

lemma leading_space_le: "leading_space s \<le> length s"
proof (cases "find (\<lambda>w. prefix w s) space_forms")
  case (Some w)
  then have "prefix w s" by (auto simp: find_Some_iff)
  with Some show ?thesis by (simp add: leading_space_def prefix_length_le)
qed (simp add: leading_space_def)

function lstrip :: "string \<Rightarrow> string" where
  "lstrip s = (if leading_space s = 0 then s else lstrip (drop (leading_space s) s))"
  by pat_completeness auto
termination
proof (relation "measure length")
  fix s :: string
  assume "leading_space s \<noteq> 0"
  with leading_space_le [of s] show "(drop (leading_space s) s, s) \<in> measure length" by auto
qed simp

declare lstrip.simps [simp del]

definition trailing_space :: "string \<Rightarrow> nat" where
  "trailing_space s = (case find (\<lambda>w. suffix w s) space_forms of None \<Rightarrow> 0 | Some w \<Rightarrow> length w)"

lemma trailing_space_le: "trailing_space s \<le> length s"
proof (cases "find (\<lambda>w. suffix w s) space_forms")
  case (Some w)
  then have "suffix w s" by (auto simp: find_Some_iff)
  with Some show ?thesis by (simp add: trailing_space_def suffix_length_le)
qed (simp add: trailing_space_def)

function rstrip :: "string \<Rightarrow> string" where
  "rstrip s = (if trailing_space s = 0 then s else rstrip (take (length s - trailing_space s) s))"
  by pat_completeness auto
termination
proof (relation "measure length")
  fix s :: string
  assume "trailing_space s \<noteq> 0"
  with trailing_space_le [of s] show "(take (length s - trailing_space s) s, s) \<in> measure length" by auto
qed simp

declare rstrip.simps [simp del]

definition strip :: "string \<Rightarrow> string" where
  "strip s = rstrip (lstrip s)"

text \<open>\<open>text.split(maxsplit=1)[0]\<close> of a stripped text that is not empty.\<close>

fun first_word :: "string \<Rightarrow> string" where
  "first_word [] = []"
| "first_word (c # s) = (if 0 < leading_space (c # s) then [] else c # first_word s)"

text \<open>
  \<open>U+0085\<close>, \<open>U+2028\<close> and \<open>U+2029\<close> also break lines: replaced by a vertical tab they are breaks that
  never join with a neighbouring carriage return.
\<close>

fun ascii_breaks :: "string \<Rightarrow> string" where
  "ascii_breaks [] = []"
| "ascii_breaks (c # s) =
     (if prefix ([CHR 0xC2, CHR 0x85]) (c # s) then CHR 0x0B # ascii_breaks (drop 1 s)
      else if prefix ([CHR 0xE2, CHR 0x80, CHR 0xA8]) (c # s) \<or> prefix ([CHR 0xE2, CHR 0x80, CHR 0xA9]) (c # s)
      then CHR 0x0B # ascii_breaks (drop 2 s)
      else c # ascii_breaks s)"

definition text_lines :: "string \<Rightarrow> string list" where
  "text_lines s = splitlines (ascii_breaks s)"

fun universal_newlines :: "string \<Rightarrow> string" where
  "universal_newlines [] = []"
| "universal_newlines [c] = [if c = CHR 0x0D then LF else c]"
| "universal_newlines (c # d # s) =
     (if c = CHR 0x0D then (if d = LF then LF # universal_newlines s else LF # universal_newlines (d # s))
      else c # universal_newlines (d # s))"

lemma ascii_breaks_ascii: "list_all is_ascii s \<Longrightarrow> ascii_breaks s = s"
  by (induction s) (auto simp: is_ascii_def)

lemma text_lines_ascii: "list_all is_ascii s \<Longrightarrow> text_lines s = splitlines s"
  by (simp add: text_lines_def ascii_breaks_ascii)

subsection \<open>Quoting\<close>

definition shell_safe :: "char \<Rightarrow> bool" where
  "shell_safe c \<longleftrightarrow> is_upper c \<or> is_lower c \<or> is_digit c \<or> c \<in> set ''_@%+=:,./-''"

definition shlex_quote :: "string \<Rightarrow> string" where
  "shlex_quote s =
     (if s = [] then [CHR 0x27, CHR 0x27]
      else if list_all shell_safe s then s
      else CHR 0x27 # concat (map (\<lambda>c. if c = CHR 0x27 then [CHR 0x27, CHR 0x22, CHR 0x27, CHR 0x22, CHR 0x27] else [c]) s)
           @ [CHR 0x27])"

lemma shlex_quote_safe: "s \<noteq> [] \<Longrightarrow> list_all shell_safe s \<Longrightarrow> shlex_quote s = s"
  by (simp add: shlex_quote_def)

subsection \<open>Decoding with replacement\<close>

text \<open>\<open>bytes.decode('utf-8', errors='replace')\<close>: each maximal invalid part becomes \<open>U+FFFD\<close>.\<close>

function utf8_replace :: "string \<Rightarrow> string" where
  "utf8_replace [] = []"
| "utf8_replace (c # s) =
     (case utf8_lead c of
        None \<Rightarrow> [CHR 0xEF, CHR 0xBF, CHR 0xBD] @ utf8_replace s
      | Some (k, low, high) \<Rightarrow>
          let run = (if s = [] \<or> code (hd s) < low \<or> high < code (hd s) then []
                     else takeWhile continuation (take k s))
          in if length run = k then c # run @ utf8_replace (drop k s)
             else [CHR 0xEF, CHR 0xBF, CHR 0xBD] @ utf8_replace (drop (length run) s))"
  by pat_completeness auto
termination
  by (relation "measure length") auto

lemma utf8_replace_ascii: "list_all is_ascii s \<Longrightarrow> utf8_replace s = s"
  by (induction s) (auto simp: utf8_lead_def is_ascii_def)

end
