(* ===== verification/Py_Json.thy ===== *)
theory Py_Json
  imports Py_Unicode
begin

section \<open>JSON values as the scripts handle them\<close>

text \<open>
  A value that \<open>json.loads\<close> returns, with the dynamic operations the storage scripts apply to it:
  \<open>get\<close>, subscription, \<open>isinstance\<close>, \<open>is True\<close>, \<open>str\<close> and \<open>int\<close>. A Python \<open>str\<close> is its UTF-8
  encoding, so that equality, prefixes and matches against ASCII patterns are those of the code.
  Floating-point numbers are outside the model (the inventories have none).
\<close>

datatype json =
    JNull
  | JBool bool
  | JInt int
  | JStr string
  | JList "json list"
  | JDict "(string \<times> json) list"

text \<open>\<open>value.get(key)\<close> of a dictionary, and \<open>value[key]\<close> with its \<open>KeyError\<close> or \<open>TypeError\<close>.\<close>

definition dict_get :: "(string \<times> json) list \<Rightarrow> string \<Rightarrow> json" where
  "dict_get d key = (case map_of d key of None \<Rightarrow> JNull | Some v \<Rightarrow> v)"

definition dict_get_or :: "(string \<times> json) list \<Rightarrow> string \<Rightarrow> json \<Rightarrow> json" where
  "dict_get_or d key v = (case map_of d key of None \<Rightarrow> v | Some w \<Rightarrow> w)"

definition dict_item :: "(string \<times> json) list \<Rightarrow> string \<Rightarrow> json result" where
  "dict_item d key = option_result (KeyError key) (map_of d key)"

definition as_dict :: "json \<Rightarrow> (string \<times> json) list option" where
  "as_dict v = (case v of JDict d \<Rightarrow> Some d | _ \<Rightarrow> None)"

definition as_list :: "json \<Rightarrow> json list option" where
  "as_list v = (case v of JList xs \<Rightarrow> Some xs | _ \<Rightarrow> None)"

lemma dict_get_Some: "map_of d key = Some v \<Longrightarrow> dict_get d key = v"
  by (simp add: dict_get_def)

lemma dict_get_or_Some: "map_of d key = Some v \<Longrightarrow> dict_get_or d key w = v"
  by (simp add: dict_get_or_def)

lemma as_dict_eq_Some [simp]: "as_dict v = Some d \<longleftrightarrow> v = JDict d"
  by (cases v) (auto simp: as_dict_def)

lemma as_list_eq_Some [simp]: "as_list v = Some xs \<longleftrightarrow> v = JList xs"
  by (cases v) (auto simp: as_list_def)

text \<open>\<open>str(value)\<close>.\<close>

fun json_repr :: "json \<Rightarrow> string" where
  "json_repr JNull = ''None''"
| "json_repr (JBool b) = (if b then ''True'' else ''False'')"
| "json_repr (JInt i) = show_int i"
| "json_repr (JStr s) = py_repr s"
| "json_repr (JList xs) = ''['' @ join '', '' (map json_repr xs) @ '']''"
| "json_repr (JDict kvs) = ''{'' @ join '', '' (map (\<lambda>(k, v). py_repr k @ '': '' @ json_repr v) kvs) @ ''}''"

definition py_str :: "json \<Rightarrow> string" where
  "py_str v = (case v of JStr s \<Rightarrow> s | _ \<Rightarrow> json_repr v)"

lemma py_str_simps [simp]:
  "py_str (JStr s) = s" "py_str (JInt i) = show_int i" "py_str JNull = ''None''"
  by (simp_all add: py_str_def)

text \<open>
  \<open>int(value)\<close>: a number is itself, a Boolean is 0 or 1, a text is a decimal with an optional
  sign, surrounding white space and single underscores between digits.
\<close>

fun digits_ok :: "string \<Rightarrow> bool" where
  "digits_ok [] = False"
| "digits_ok [c] = is_digit c"
| "digits_ok (c # d # s) =
     (is_digit c \<and> (if d = CHR ''_'' then digits_ok s else digits_ok (d # s)))"

definition read_int :: "string \<Rightarrow> int option" where
  "read_int s =
     (let t = strip s;
          sign = (case t of [] \<Rightarrow> [] | c # _ \<Rightarrow> if c = CHR ''-'' \<or> c = CHR ''+'' then [c] else []);
          body = drop (length sign) t
      in if digits_ok body
         then Some ((if sign = ''-'' then -1 else 1) * int (read_nat (filter is_digit body)))
         else None)"

definition py_int :: "json \<Rightarrow> int result" where
  "py_int v =
     (case v of
        JInt i \<Rightarrow> Inr i
      | JBool b \<Rightarrow> Inr (if b then 1 else 0)
      | JStr s \<Rightarrow> option_result (ValueError ''invalid literal for int() with base 10'') (read_int s)
      | _ \<Rightarrow> Inl TypeError)"

lemma py_int_JInt [simp]: "py_int (JInt i) = Inr i"
  by (simp add: py_int_def)

end
