(* ===== verification/Gpt_Inventory.thy ===== *)
theory Gpt_Inventory
  imports "HOL-Library.Word" Py_Json
begin

section \<open>GUID partition tables\<close>

text \<open>
  Models the GPT part of \<^verbatim>\<open>scripts/device/collect-readonly-storage-inventory.py\<close>: bounded block
  reads, the header check with its CRC, the entry table and the cross-check with the backup
  header. A device is its bytes. A header and a partition are records with the source's keys;
  \<open>header_json\<close> and \<open>partition_json\<close> are the dictionaries the script builds from them.
\<close>

subsection \<open>CRC-32\<close>

text \<open>\<open>binascii.crc32\<close>: the reflected polynomial, one bit at a time.\<close>

unbundle bit_operations_syntax

definition crc_bit :: "32 word \<Rightarrow> 32 word" where
  "crc_bit c = (if c AND 1 = 1 then drop_bit 1 c XOR 0xEDB88320 else drop_bit 1 c)"

definition crc_byte :: "32 word \<Rightarrow> char \<Rightarrow> 32 word" where
  "crc_byte c b = (crc_bit ^^ 8) (c XOR word_of_nat (code b))"

definition crc32 :: "bytes \<Rightarrow> 32 word" where
  "crc32 bs = foldl crc_byte 0xFFFFFFFF bs XOR 0xFFFFFFFF"

text \<open>A stored checksum, little-endian, and its text \<open>f"{value:08x}"\<close>.\<close>

definition word_le :: "bytes \<Rightarrow> 32 word" where
  "word_le bs = foldr (\<lambda>b acc. push_bit 8 acc OR word_of_nat (code b)) bs 0"

definition hex_word :: "32 word \<Rightarrow> string" where
  "hex_word w = to_hex (map (\<lambda>i. char_of (unat (drop_bit (8 * i) w AND 0xFF))) [3, 2, 1, 0])"

subsection \<open>Fields\<close>

definition read_at :: "bytes \<Rightarrow> nat \<Rightarrow> nat \<Rightarrow> bytes result" where
  "read_at device offset n =
     (let data = slice offset (offset + n) device in
      if length data \<noteq> n
      then Inl (InventoryError (''short block read at offset '' @ show_nat offset @ '': expected ''
             @ show_nat n @ '', got '' @ show_nat (length data)))
      else Inr data)"

definition le_at :: "nat \<Rightarrow> nat \<Rightarrow> bytes \<Rightarrow> nat" where
  "le_at offset n raw = le_nat (slice offset (offset + n) raw)"

text \<open>\<open>f"0x{value:08x}"\<close> without the prefix, for a value of the given width in bytes.\<close>

definition hex_text :: "nat \<Rightarrow> nat \<Rightarrow> string" where
  "hex_text width n = to_hex (nat_be width n)"

text \<open>\<open>str(uuid.UUID(bytes_le=raw))\<close>.\<close>

definition uuid_text :: "bytes \<Rightarrow> string" where
  "uuid_text raw =
     to_hex (rev (slice 0 4 raw)) @ ''-'' @ to_hex (rev (slice 4 6 raw)) @ ''-''
     @ to_hex (rev (slice 6 8 raw)) @ ''-'' @ to_hex (slice 8 10 raw) @ ''-'' @ to_hex (slice 10 16 raw)"

definition GPT_HEADER_size :: nat where "GPT_HEADER_size = 92"
definition MAX_GPT_TABLE_BYTES :: nat where "MAX_GPT_TABLE_BYTES = 16 * 1024 * 1024"
definition ZERO_GUID :: bytes where "ZERO_GUID = replicate 16 CHR 0x00"

record gpt_header =
  h_revision :: nat
  h_header_size :: nat
  h_header_crc32 :: "32 word"
  h_header_crc32_valid :: bool
  h_current_lba :: nat
  h_backup_lba :: nat
  h_first_usable_lba :: nat
  h_last_usable_lba :: nat
  h_disk_guid :: string
  h_entries_lba :: nat
  h_entry_count :: nat
  h_entry_size :: nat
  h_entries_crc32 :: "32 word"
  h_table_bytes :: nat

record gpt_partition =
  p_number :: nat
  p_type_guid :: string
  p_unique_guid :: string
  p_first_lba :: nat
  p_last_lba :: nat
  p_size_lba :: nat
  p_offset_bytes :: nat
  p_size_bytes :: nat
  p_attributes :: nat
  p_name :: string

record gpt_table =
  g_primary :: gpt_header
  g_backup :: gpt_header
  g_entries_crc32_valid :: bool
  g_crosscheck :: bool
  g_partitions :: "gpt_partition list"

definition zero_crc_field :: "bytes \<Rightarrow> bytes" where
  "zero_crc_field header = take 16 header @ replicate 4 CHR 0x00 @ drop 20 header"

definition parse_gpt_header :: "bytes \<Rightarrow> nat \<Rightarrow> gpt_header result" where
  "parse_gpt_header raw logical_block_bytes =
     (if length raw \<noteq> logical_block_bytes then Inl (InventoryError ''GPT header block has the wrong size'')
      else if length raw < GPT_HEADER_size then Inl StructError
      else
      let header_size = le_at 12 4 raw; stored_crc32 = word_le (slice 16 20 raw); reserved = le_at 20 4 raw;
          entry_count = le_at 80 4 raw; entry_size = le_at 84 4 raw;
          table_bytes = entry_count * entry_size
      in
      if slice 0 8 raw \<noteq> ''EFI PART'' then Inl (InventoryError ''GPT signature is absent'')
      else if \<not> (GPT_HEADER_size \<le> header_size \<and> header_size \<le> logical_block_bytes)
      then Inl (InventoryError ''GPT header size is invalid'')
      else if reserved \<noteq> 0 then Inl (InventoryError ''GPT reserved field is nonzero'')
      else if \<not> (1 \<le> entry_count \<and> entry_count \<le> 4096)
      then Inl (InventoryError ''GPT entry count is outside the reviewed bound'')
      else if entry_size < 128 \<or> 4096 < entry_size \<or> entry_size mod 8 \<noteq> 0
      then Inl (InventoryError ''GPT entry size is outside the reviewed bound'')
      else if MAX_GPT_TABLE_BYTES < table_bytes
      then Inl (InventoryError ''GPT entry table exceeds the reviewed bound'')
      else Inr \<lparr>h_revision = le_at 8 4 raw, h_header_size = header_size, h_header_crc32 = stored_crc32,
             h_header_crc32_valid = (crc32 (zero_crc_field (take header_size raw)) = stored_crc32),
             h_current_lba = le_at 24 8 raw, h_backup_lba = le_at 32 8 raw,
             h_first_usable_lba = le_at 40 8 raw, h_last_usable_lba = le_at 48 8 raw,
             h_disk_guid = uuid_text (slice 56 72 raw), h_entries_lba = le_at 72 8 raw,
             h_entry_count = entry_count, h_entry_size = entry_size,
             h_entries_crc32 = word_le (slice 88 92 raw), h_table_bytes = table_bytes\<rparr>)"

subsection \<open>Partition names\<close>

text \<open>UTF-8 encoding of a code point, and strict UTF-16-LE decoding to UTF-8 text.\<close>

definition utf8 :: "nat \<Rightarrow> string" where
  "utf8 u =
     (if u < 128 then [char_of u]
      else if u < 2048 then [char_of (192 + u div 64), char_of (128 + u mod 64)]
      else if u < 65536
      then [char_of (224 + u div 4096), char_of (128 + u div 64 mod 64), char_of (128 + u mod 64)]
      else [char_of (240 + u div 262144), char_of (128 + u div 4096 mod 64),
            char_of (128 + u div 64 mod 64), char_of (128 + u mod 64)])"

definition high_surrogate :: "nat \<Rightarrow> bool" where "high_surrogate u \<longleftrightarrow> 55296 \<le> u \<and> u < 56320"
definition low_surrogate :: "nat \<Rightarrow> bool" where "low_surrogate u \<longleftrightarrow> 56320 \<le> u \<and> u < 57344"

fun utf16_units :: "bytes \<Rightarrow> nat list option" where
  "utf16_units [] = Some []"
| "utf16_units [a] = None"
| "utf16_units (a # b # rest) = map_option (\<lambda>us. (code a + 256 * code b) # us) (utf16_units rest)"

fun utf16_text :: "nat list \<Rightarrow> string option" where
  "utf16_text [] = Some []"
| "utf16_text [u] = (if high_surrogate u \<or> low_surrogate u then None else Some (utf8 u))"
| "utf16_text (u # v # us) =
     (if low_surrogate u then None
      else if high_surrogate u
      then if low_surrogate v
           then map_option (\<lambda>s. utf8 (65536 + (u - 55296) * 1024 + (v - 56320)) @ s) (utf16_text us)
           else None
      else map_option (\<lambda>s. utf8 u @ s) (utf16_text (v # us)))"

definition decode_utf16le :: "bytes \<Rightarrow> string result" where
  "decode_utf16le raw = option_result UnicodeError (Option.bind (utf16_units raw) utf16_text)"

definition before_nul :: "string \<Rightarrow> string" where
  "before_nul s = takeWhile (\<lambda>c. c \<noteq> CHR 0x00) s"

subsection \<open>The table\<close>

definition parse_entry :: "nat \<Rightarrow> bytes \<Rightarrow> nat \<Rightarrow> nat \<Rightarrow> gpt_partition option result" where
  "parse_entry logical_block_bytes table entry_size number =
     (let entry = slice ((number - 1) * entry_size) (number * entry_size) table;
          first_lba = le_at 32 8 entry; last_lba = le_at 40 8 entry
      in
      if slice 0 16 entry = ZERO_GUID then Inr None
      else if last_lba < first_lba
      then Inl (InventoryError (''GPT partition '' @ show_nat number @ '' has reversed bounds''))
      else bind_result (decode_utf16le (slice 56 entry_size entry)) (\<lambda>name.
        Inr (Some \<lparr>p_number = number, p_type_guid = uuid_text (slice 0 16 entry),
               p_unique_guid = uuid_text (slice 16 32 entry), p_first_lba = first_lba,
               p_last_lba = last_lba, p_size_lba = last_lba - first_lba + 1,
               p_offset_bytes = first_lba * logical_block_bytes,
               p_size_bytes = (last_lba - first_lba + 1) * logical_block_bytes,
               p_attributes = le_at 48 8 entry, p_name = before_nul name\<rparr>)))"

fun parse_entries :: "nat \<Rightarrow> bytes \<Rightarrow> nat \<Rightarrow> nat list \<Rightarrow> gpt_partition list result" where
  "parse_entries logical_block_bytes table entry_size [] = Inr []"
| "parse_entries logical_block_bytes table entry_size (number # numbers) =
     bind_result (parse_entry logical_block_bytes table entry_size number) (\<lambda>found.
     bind_result (parse_entries logical_block_bytes table entry_size numbers) (\<lambda>rest.
       Inr (case found of None \<Rightarrow> rest | Some p \<Rightarrow> p # rest)))"

definition crosscheck :: "gpt_header \<Rightarrow> gpt_header \<Rightarrow> bool" where
  "crosscheck primary backup \<longleftrightarrow>
     h_disk_guid primary = h_disk_guid backup
     \<and> h_current_lba primary = h_backup_lba backup
     \<and> h_backup_lba primary = h_current_lba backup
     \<and> h_first_usable_lba primary = h_first_usable_lba backup
     \<and> h_last_usable_lba primary = h_last_usable_lba backup
     \<and> h_entry_count primary = h_entry_count backup
     \<and> h_entry_size primary = h_entry_size backup
     \<and> h_entries_crc32 primary = h_entries_crc32 backup"

definition parse_gpt :: "bytes \<Rightarrow> nat \<Rightarrow> nat \<Rightarrow> gpt_table result" where
  "parse_gpt device logical_block_bytes size_bytes =
     bind_result (read_at device logical_block_bytes logical_block_bytes) (\<lambda>primary_raw.
     bind_result (parse_gpt_header primary_raw logical_block_bytes) (\<lambda>primary.
     bind_result (read_at device (h_entries_lba primary * logical_block_bytes) (h_table_bytes primary)) (\<lambda>table.
     bind_result (parse_entries logical_block_bytes table (h_entry_size primary)
        [1..<h_entry_count primary + 1]) (\<lambda>partitions.
     let backup_offset = h_backup_lba primary * logical_block_bytes in
     if size_bytes < backup_offset + logical_block_bytes
     then Inl (InventoryError ''backup GPT header lies beyond the disk'')
     else
     bind_result (read_at device backup_offset logical_block_bytes) (\<lambda>backup_raw.
     bind_result (parse_gpt_header backup_raw logical_block_bytes) (\<lambda>backup.
       Inr \<lparr>g_primary = primary, g_backup = backup,
            g_entries_crc32_valid = (crc32 table = h_entries_crc32 primary),
            g_crosscheck = crosscheck primary backup, g_partitions = partitions\<rparr>))))))"

subsection \<open>The CRC detects a changed byte\<close>

lemma crc_bit_top: "bit (crc_bit c) 31 \<longleftrightarrow> bit c 0"
proof -
  have "bit (0xEDB88320 :: 32 word) 31" by simp
  moreover have "\<not> bit (drop_bit 1 c) 31"
    using bit_imp_le_length [of c 32] by (auto simp: bit_drop_bit_eq)
  moreover have "(c AND 1 = 1) \<longleftrightarrow> bit c 0"
    by (simp add: and_one_eq odd_iff_mod_2_eq_one bit_0)
  ultimately show ?thesis by (simp add: crc_bit_def bit_xor_iff)
qed

lemma crc_bit_inj: "crc_bit a = crc_bit b \<Longrightarrow> a = b"
proof -
  assume eq: "crc_bit a = crc_bit b"
  then have zero: "bit a 0 \<longleftrightarrow> bit b 0" using crc_bit_top by metis
  then have test: "(a AND 1 = 1) \<longleftrightarrow> (b AND 1 = 1)"
    by (simp add: and_one_eq odd_iff_mod_2_eq_one bit_0)
  have rest: "drop_bit 1 a = drop_bit 1 b"
  proof (cases "a AND 1 = 1")
    case True
    with eq test have "drop_bit 1 a XOR 0xEDB88320 = drop_bit 1 b XOR (0xEDB88320 :: 32 word)"
      by (simp add: crc_bit_def)
    then have "(drop_bit 1 a XOR 0xEDB88320) XOR 0xEDB88320 = (drop_bit 1 b XOR 0xEDB88320) XOR (0xEDB88320 :: 32 word)"
      by simp
    then show ?thesis by (simp only: xor.assoc xor_self_eq xor.right_neutral)
  next
    case False
    with eq test show ?thesis by (simp add: crc_bit_def)
  qed
  show "a = b"
  proof (rule bit_eqI)
    fix n
    have "bit (drop_bit 1 a) m = bit (drop_bit 1 b) m" for m using rest by simp
    then have "bit a (Suc m) = bit b (Suc m)" for m by (simp add: bit_drop_bit_eq)
    with zero show "bit a n = bit b n" by (cases n) simp_all
  qed
qed

lemma crc_byte_inj: "crc_byte a x = crc_byte b x \<Longrightarrow> a = b"
proof -
  have pow: "(crc_bit ^^ k) u = (crc_bit ^^ k) v \<Longrightarrow> u = v" for k u v
    by (induction k arbitrary: u v) (auto dest: crc_bit_inj)
  assume "crc_byte a x = crc_byte b x"
  then have "a XOR word_of_nat (code x) = b XOR word_of_nat (code x)" unfolding crc_byte_def by (rule pow)
  then have "(a XOR word_of_nat (code x)) XOR word_of_nat (code x)
     = (b XOR word_of_nat (code x)) XOR word_of_nat (code x)" by simp
  then show ?thesis by (simp only: xor.assoc xor_self_eq xor.right_neutral)
qed

lemma crc_byte_inj_byte: "crc_byte a x = crc_byte a y \<Longrightarrow> x = y"
proof -
  have pow: "(crc_bit ^^ k) u = (crc_bit ^^ k) v \<Longrightarrow> u = v" for k u v
    by (induction k arbitrary: u v) (auto dest: crc_bit_inj)
  assume "crc_byte a x = crc_byte a y"
  then have "a XOR word_of_nat (code x) = a XOR word_of_nat (code y)" unfolding crc_byte_def by (rule pow)
  then have "a XOR (a XOR word_of_nat (code x)) = a XOR (a XOR word_of_nat (code y))" by simp
  then have "(word_of_nat (code x) :: 32 word) = word_of_nat (code y)"
    by (simp only: xor.assoc [symmetric] xor_self_eq xor.left_neutral)
  then have "unat (word_of_nat (code x) :: 32 word) = unat (word_of_nat (code y) :: 32 word)" by simp
  moreover have "unat (word_of_nat (code z) :: 32 word) = code z" for z
  proof -
    have "code z < 4294967296" using code_less_256 [of z] by linarith
    then show ?thesis by (simp add: unat_of_nat)
  qed
  ultimately show ?thesis by simp
qed

lemma crc_fold_inj: "foldl crc_byte a xs = foldl crc_byte b xs \<Longrightarrow> a = b"
  by (induction xs arbitrary: a b) (auto dest: crc_byte_inj)

text \<open>
  The checksum of the headers and tables detects every single changed byte.
\<close>

lemma crc32_detects_byte:
  "crc32 (xs @ x # ys) = crc32 (xs @ y # ys) \<longleftrightarrow> x = y"
proof
  assume "crc32 (xs @ x # ys) = crc32 (xs @ y # ys)"
  then have "foldl crc_byte 0xFFFFFFFF (xs @ x # ys) XOR 0xFFFFFFFF
      = foldl crc_byte 0xFFFFFFFF (xs @ y # ys) XOR 0xFFFFFFFF"
    unfolding crc32_def .
  then have "(foldl crc_byte 0xFFFFFFFF (xs @ x # ys) XOR 0xFFFFFFFF) XOR 0xFFFFFFFF
      = (foldl crc_byte 0xFFFFFFFF (xs @ y # ys) XOR 0xFFFFFFFF) XOR 0xFFFFFFFF" by simp
  then have "foldl crc_byte 0xFFFFFFFF (xs @ x # ys) = foldl crc_byte 0xFFFFFFFF (xs @ y # ys)"
    by (simp only: xor.assoc xor_self_eq xor.right_neutral)
  then have "crc_byte (foldl crc_byte 0xFFFFFFFF xs) x = crc_byte (foldl crc_byte 0xFFFFFFFF xs) y"
    by (auto dest: crc_fold_inj)
  then show "x = y" by (rule crc_byte_inj_byte)
qed simp

subsection \<open>What a parsed table satisfies\<close>

definition header_ok :: "nat \<Rightarrow> gpt_header \<Rightarrow> bool" where
  "header_ok logical h \<longleftrightarrow>
     GPT_HEADER_size \<le> h_header_size h \<and> h_header_size h \<le> logical
     \<and> 1 \<le> h_entry_count h \<and> h_entry_count h \<le> 4096
     \<and> 128 \<le> h_entry_size h \<and> h_entry_size h \<le> 4096 \<and> h_entry_size h mod 8 = 0
     \<and> h_table_bytes h = h_entry_count h * h_entry_size h \<and> h_table_bytes h \<le> MAX_GPT_TABLE_BYTES"

lemma parse_gpt_header_ok:
  "parse_gpt_header raw logical = Inr h \<Longrightarrow> header_ok logical h \<and> length raw = logical"
  by (auto simp: parse_gpt_header_def header_ok_def Let_def split: if_splits)

definition partition_ok :: "nat \<Rightarrow> gpt_partition \<Rightarrow> bool" where
  "partition_ok logical p \<longleftrightarrow>
     p_first_lba p \<le> p_last_lba p \<and> p_size_lba p = p_last_lba p - p_first_lba p + 1
     \<and> p_offset_bytes p = p_first_lba p * logical \<and> p_size_bytes p = p_size_lba p * logical
     \<and> 0 < p_size_lba p \<and> CHR 0x00 \<notin> set (p_name p) \<and> length (p_unique_guid p) = 36"

lemma length_uuid_text: "length raw = 16 \<Longrightarrow> length (uuid_text raw) = 36"
  by (simp add: uuid_text_def)

lemma before_nul_no_nul: "CHR 0x00 \<notin> set (before_nul s)"
  by (auto simp: before_nul_def dest: set_takeWhileD)

lemma parse_entry_ok:
  assumes "parse_entry logical table es number = Inr (Some p)"
    and "number * es \<le> length table" and "0 < number" and "128 \<le> es"
  shows "partition_ok logical p \<and> p_number p = number"
proof -
  let ?entry = "slice ((number - 1) * es) (number * es) table"
  have "(number - 1) * es + es = number * es" using assms(3) by (cases number) simp_all
  with assms(2) have "length ?entry = es" by simp
  then have "length (slice 16 32 ?entry) = 16" using assms(4) by simp
  then show ?thesis
    using assms(1)
    by (auto simp: parse_entry_def Let_def bind_result_eq_Inr partition_ok_def before_nul_no_nul
        length_uuid_text split: if_splits)
qed

lemma parse_entries_ok:
  assumes "parse_entries logical table es ns = Inr ps"
    and "\<forall>n\<in>set ns. 0 < n \<and> n * es \<le> length table" and "128 \<le> es" and "sorted_wrt (<) ns"
  shows "(\<forall>p\<in>set ps. partition_ok logical p \<and> p_number p \<in> set ns)
     \<and> sorted_wrt (<) (map p_number ps)"
  using assms
proof (induction ns arbitrary: ps)
  case (Cons n ns)
  from Cons.prems(1) obtain found rest where found: "parse_entry logical table es n = Inr found"
    and rest: "parse_entries logical table es ns = Inr rest"
    and ps: "ps = (case found of None \<Rightarrow> rest | Some p \<Rightarrow> p # rest)"
    by (auto simp: bind_result_eq_Inr)
  from Cons.IH [OF rest] Cons.prems have IH:
    "(\<forall>p\<in>set rest. partition_ok logical p \<and> p_number p \<in> set ns) \<and> sorted_wrt (<) (map p_number rest)"
    by simp
  show ?case
  proof (cases found)
    case None
    with IH ps show ?thesis by auto
  next
    case (Some p)
    with found Cons.prems have "partition_ok logical p \<and> p_number p = n"
      by (intro parse_entry_ok) auto
    with Some IH ps Cons.prems(4) show ?thesis by auto
  qed
qed simp

lemma read_at_ok: "read_at d off n = Inr x \<longleftrightarrow> x = slice off (off + n) d \<and> off + n \<le> length d \<or> n = 0 \<and> x = []"
  by (auto simp: read_at_def Let_def slice_def)

lemma parse_gpt_parts:
  assumes "parse_gpt d logical n = Inr g"
  obtains raw table raw2 where
    "read_at d logical logical = Inr raw" "parse_gpt_header raw logical = Inr (g_primary g)"
    "read_at d (h_entries_lba (g_primary g) * logical) (h_table_bytes (g_primary g)) = Inr table"
    "parse_entries logical table (h_entry_size (g_primary g)) [1..<h_entry_count (g_primary g) + 1]
       = Inr (g_partitions g)"
    "h_backup_lba (g_primary g) * logical + logical \<le> n"
    "read_at d (h_backup_lba (g_primary g) * logical) logical = Inr raw2"
    "parse_gpt_header raw2 logical = Inr (g_backup g)"
    "g_entries_crc32_valid g = (crc32 table = h_entries_crc32 (g_primary g))"
    "g_crosscheck g = crosscheck (g_primary g) (g_backup g)"
  using assms by (auto simp: parse_gpt_def Let_def bind_result_eq_Inr split: if_splits)


subsection \<open>What a parse reads\<close>

lemma slice_slice: "lo \<le> a \<Longrightarrow> b \<le> hi \<Longrightarrow> slice (a - lo) (b - lo) (slice lo hi d) = slice a b d"
  by (auto simp: slice_def take_drop min_def)

lemma slice_agree:
  assumes "slice lo hi d = slice lo hi e" and "lo \<le> a" and "b \<le> hi"
  shows "slice a b d = slice a b e"
  using slice_slice [OF assms(2,3), of d] slice_slice [OF assms(2,3), of e] assms(1) by simp

lemma read_at_agree:
  "slice lo hi d = slice lo hi e \<Longrightarrow> lo \<le> off \<Longrightarrow> off + n \<le> hi \<Longrightarrow> read_at d off n = read_at e off n"
  using slice_agree [of lo hi d e off "off + n"] by (simp add: read_at_def Let_def)

text \<open>
  Two devices that agree on a head with the primary header and table, and on a tail with the
  backup header, give the same table.
\<close>

lemma parse_gpt_local:
  assumes parse: "parse_gpt d logical n = Inr g"
    and head: "slice 0 primary_bytes d = slice 0 primary_bytes e"
    and tail: "slice backup_offset n d = slice backup_offset n e"
    and "2 * logical \<le> primary_bytes"
    and "h_entries_lba (g_primary g) * logical + h_table_bytes (g_primary g) \<le> primary_bytes"
    and "backup_offset \<le> h_backup_lba (g_primary g) * logical"
  shows "parse_gpt e logical n = Inr g"
proof -
  from parse obtain raw table raw2 where parts:
    "read_at d logical logical = Inr raw" "parse_gpt_header raw logical = Inr (g_primary g)"
    "read_at d (h_entries_lba (g_primary g) * logical) (h_table_bytes (g_primary g)) = Inr table"
    "parse_entries logical table (h_entry_size (g_primary g)) [1..<h_entry_count (g_primary g) + 1]
       = Inr (g_partitions g)"
    "h_backup_lba (g_primary g) * logical + logical \<le> n"
    "read_at d (h_backup_lba (g_primary g) * logical) logical = Inr raw2"
    "parse_gpt_header raw2 logical = Inr (g_backup g)"
    "g_entries_crc32_valid g = (crc32 table = h_entries_crc32 (g_primary g))"
    "g_crosscheck g = crosscheck (g_primary g) (g_backup g)"
    by (rule parse_gpt_parts)
  have "read_at e logical logical = Inr raw"
    "read_at e (h_entries_lba (g_primary g) * logical) (h_table_bytes (g_primary g)) = Inr table"
    "read_at e (h_backup_lba (g_primary g) * logical) logical = Inr raw2"
    using parts(1,3,5,6) assms(4-6) read_at_agree [OF head] read_at_agree [OF tail] by simp_all
  with parts show ?thesis
    by (simp add: parse_gpt_def Let_def)
qed

subsection \<open>A disk\<close>

text \<open>Six blocks of 128 bytes: nothing, header, one entry, the partition, the spare table, spare header.\<close>

definition demo_header :: "nat \<Rightarrow> nat \<Rightarrow> nat \<Rightarrow> bytes" where
  "demo_header current backup entries =
     ''EFI PART'' @ nat_le 4 65536 @ nat_le 4 92 @ nat_le 4 0 @ nat_le 4 0 @ nat_le 8 current @ nat_le 8 backup
     @ nat_le 8 3 @ nat_le 8 3 @ replicate 16 CHR ''g'' @ nat_le 8 entries @ nat_le 4 1 @ nat_le 4 128 @ nat_le 4 0
     @ replicate 36 CHR 0x00"

definition demo_disk :: bytes where
  "demo_disk = replicate 128 CHR 0x00 @ demo_header 1 5 2
     @ replicate 16 CHR ''t'' @ replicate 16 CHR ''u'' @ nat_le 8 3 @ nat_le 8 3 @ nat_le 8 0
     @ [CHR ''a'', CHR 0x00] @ replicate 70 CHR 0x00
     @ replicate 128 CHR 0x00 @ replicate 128 CHR 0x00 @ demo_header 5 1 4"

lemma length_demo_header: "length (demo_header a b c) = 128"
  by (simp add: demo_header_def)

lemma demo_header_parses:
  "\<exists>h. parse_gpt_header (demo_header a b c) 128 = Inr h \<and> h_entries_lba h = c mod 256 ^ 8
     \<and> h_backup_lba h = b mod 256 ^ 8 \<and> h_entry_count h = 1 \<and> h_entry_size h = 128 \<and> h_table_bytes h = 128"
  by (simp add: parse_gpt_header_def Let_def le_at_def le_nat_def slice_def GPT_HEADER_size_def
      MAX_GPT_TABLE_BYTES_def demo_header_def nat_le_def be_nat_be)

lemma utf16_units_zeros:
  assumes "even n"
  shows "utf16_units (replicate n CHR 0x00) = Some (replicate (n div 2) 0)"
proof -
  from assms obtain k where k: "n = 2 * k" ..
  have "utf16_units (replicate (2 * k) CHR 0x00) = Some (replicate k 0)" by (induction k) simp_all
  with k show ?thesis by simp
qed

lemma utf16_text_zeros: "utf16_text (replicate n 0) = Some (replicate n CHR 0x00)"
proof (induction n)
  case (Suc n)
  then show ?case
    by (cases n) (simp_all add: low_surrogate_def high_surrogate_def utf8_def char_of_def)
qed simp

lemma utf16_text_plain:
  "u < 128 \<Longrightarrow> utf16_text (u # us) = map_option (\<lambda>s. char_of u # s) (utf16_text us)"
  by (cases us; cases "utf16_text us")
     (simp_all add: low_surrogate_def high_surrogate_def utf8_def)

lemma demo_disk_parses:
  "\<exists>g. parse_gpt demo_disk 128 768 = Inr g \<and> map p_number (g_partitions g) = [1]
     \<and> h_entries_lba (g_primary g) = 2 \<and> h_backup_lba (g_primary g) = 5
     \<and> h_entries_lba (g_backup g) = 4 \<and> h_table_bytes (g_primary g) = 128"
proof -
  obtain h where h: "parse_gpt_header (demo_header 1 5 2) 128 = Inr h" "h_entries_lba h = 2"
    "h_backup_lba h = 5" "h_entry_count h = 1" "h_entry_size h = 128" "h_table_bytes h = 128"
    using demo_header_parses [of 1 5 2] by auto
  obtain k where k: "parse_gpt_header (demo_header 5 1 4) 128 = Inr k" "h_entries_lba k = 4"
    using demo_header_parses [of 5 1 4] by auto
  have blocks: "read_at demo_disk 128 128 = Inr (demo_header 1 5 2)"
    "read_at demo_disk 640 128 = Inr (demo_header 5 1 4)"
    by (simp_all add: read_at_def slice_def demo_disk_def length_demo_header)
  have table: "read_at demo_disk 256 128 = Inr (replicate 16 CHR ''t'' @ replicate 16 CHR ''u''
      @ nat_le 8 3 @ nat_le 8 3 @ nat_le 8 0 @ [CHR ''a'', CHR 0x00] @ replicate 70 CHR 0x00)" (is "_ = Inr ?t")
    by (simp add: read_at_def slice_def demo_disk_def length_demo_header)
  have "decode_utf16le (CHR ''a'' # CHR 0x00 # replicate 70 CHR 0x00) = Inr (CHR ''a'' # replicate 35 CHR 0x00)"
    by (simp add: decode_utf16le_def utf16_units_zeros utf16_text_zeros utf16_text_plain) code_simp
  then obtain p where "parse_entry 128 ?t 128 1 = Inr (Some p)" "p_number p = 1"
    by (simp add: parse_entry_def Let_def slice_def ZERO_GUID_def le_at_def le_nat_def nat_le_def)
  with h k blocks table show ?thesis by (simp add: parse_gpt_def)
qed


end
