(* ===== verification/Storage_Inventory.thy ===== *)
theory Storage_Inventory
  imports Gpt_Inventory Py_Json "HOL-Library.Char_ord" "HOL-Library.List_Lexorder"
begin

section \<open>The storage inventory of the phone\<close>

text \<open>
  Models the rest of \<^verbatim>\<open>scripts/device/collect-readonly-storage-inventory.py\<close>: reading sysfs and
  procfs, matching the kernel's partitions with the GPT's, the \<open>blkid\<close> probes, and the JSON value
  the script writes. The phone is a record: files by path, block devices by name, what \<open>blkid\<close>
  answers for a device, and what a glob or \<open>resolve\<close> returns.
\<close>

datatype probe_run = NoTool | TimedOut | Ran int bytes bytes

record phone =
  ph_files :: "(string \<times> bytes option) list"
  ph_devices :: "(string \<times> bytes) list"
  ph_blkid :: "string \<Rightarrow> probe_run"
  ph_blocks :: "string list"
  ph_resolve :: "string \<Rightarrow> string"
  ph_glob :: "string \<Rightarrow> string \<Rightarrow> string list"
  ph_utc :: string
  ph_release :: string

subsection \<open>Text files\<close>

definition read_text :: "phone \<Rightarrow> string \<Rightarrow> bool \<Rightarrow> string option result" where
  "read_text ph path required =
     (case map_of (ph_files ph) path of
        None \<Rightarrow> if required then Inl (InventoryError (''required path is absent: '' @ path)) else Inr None
      | Some None \<Rightarrow> if required then Inl (InventoryError (''cannot read required path: '' @ path)) else Inr None
      | Some (Some raw) \<Rightarrow>
          if utf8_ok raw then Inr (Some (strip (universal_newlines raw))) else Inl UnicodeError)"

definition required_text :: "phone \<Rightarrow> string \<Rightarrow> string result" where
  "required_text ph path = bind_result (read_text ph path True) (option_result AssertionError)"

definition path_exists :: "phone \<Rightarrow> string \<Rightarrow> bool" where
  "path_exists ph path \<longleftrightarrow> map_of (ph_files ph) path \<noteq> None"

text \<open>\<open>if separator and key and key not in values: values[key] = value\<close>.\<close>

definition add_field :: "string \<Rightarrow> (string \<times> string) list \<Rightarrow> (string \<times> string) list" where
  "add_field field values =
     (case partition_at CHR ''='' field of (key, separator, v) \<Rightarrow>
        if separator \<noteq> [] \<and> key \<noteq> [] \<and> map_of values key = None then values @ [(key, v)] else values)"

definition uevent :: "phone \<Rightarrow> string \<Rightarrow> (string \<times> string) list result" where
  "uevent ph path =
     bind_result (read_text ph path False) (\<lambda>payload.
       case payload of None \<Rightarrow> Inr [] | Some s \<Rightarrow> Inr (fold add_field (text_lines s) []))"

definition unsigned :: "phone \<Rightarrow> string \<Rightarrow> nat result" where
  "unsigned ph path =
     bind_result (required_text ph path) (\<lambda>v.
       if v = [] \<or> \<not> list_all is_digit v then Inl (InventoryError (''expected unsigned integer in '' @ path))
       else Inr (read_nat v))"

subsection \<open>Probes\<close>

text \<open>\<open>shlex.split(line, posix=True)\<close>: a word, an open quote or an escape.\<close>

datatype lex_state = LSpace | LWord | LQuote char | LEscape lex_state

abbreviation DQ :: char where "DQ \<equiv> CHR 0x22"
abbreviation SQ :: char where "SQ \<equiv> CHR 0x27"
abbreviation BS :: char where "BS \<equiv> CHR 0x5C"

definition lex_space :: "char \<Rightarrow> bool" where
  "lex_space c \<longleftrightarrow> c \<in> set [CHR 0x20, CHR 0x09, CHR 0x0D, CHR 0x0A]"

definition lex_emit :: "string \<Rightarrow> bool \<Rightarrow> string list" where
  "lex_emit token quoted = (if token = [] \<and> \<not> quoted then [] else [rev token])"

fun lex_end :: "lex_state \<Rightarrow> string \<Rightarrow> bool \<Rightarrow> string list result" where
  "lex_end LSpace token quoted = Inr (lex_emit token quoted)"
| "lex_end LWord token quoted = Inr (lex_emit token quoted)"
| "lex_end (LQuote q) token quoted = Inl (ValueError ''No closing quotation'')"
| "lex_end (LEscape st) token quoted = Inl (ValueError ''No escaped character'')"

definition lex_step :: "lex_state \<Rightarrow> string \<Rightarrow> bool \<Rightarrow> char \<Rightarrow> lex_state \<times> string \<times> bool \<times> string list" where
  "lex_step st token quoted c =
     (case st of
        LQuote q \<Rightarrow>
          if c = q then (LWord, token, True, [])
          else if c = BS \<and> q = DQ then (LEscape st, token, True, [])
          else (st, c # token, True, [])
      | LEscape back \<Rightarrow>
          (back, (case back of LQuote q \<Rightarrow> if c \<noteq> BS \<and> c \<noteq> q then c # BS # token else c # token | _ \<Rightarrow> c # token),
           quoted, [])
      | _ \<Rightarrow>
          if lex_space c then (LSpace, [], False, lex_emit token quoted)
          else if c = BS then (LEscape LWord, token, quoted, [])
          else if c = SQ \<or> c = DQ then (LQuote c, token, quoted, [])
          else (LWord, c # token, quoted, []))"

fun lex_run :: "lex_state \<Rightarrow> string \<Rightarrow> bool \<Rightarrow> string \<Rightarrow> string list result" where
  "lex_run st token quoted [] = lex_end st token quoted"
| "lex_run st token quoted (c # s) =
     (case lex_step st token quoted c of (st', token', quoted', words) \<Rightarrow>
        bind_result (lex_run st' token' quoted' s) (\<lambda>rest. Inr (words @ rest)))"

definition shlex_split :: "string \<Rightarrow> string list result" where
  "shlex_split s = lex_run LSpace [] False s"

text \<open>The text after the first \<open>": "\<close> of a line, if there is one.\<close>

fun after_colon :: "string \<Rightarrow> string option" where
  "after_colon (c # d # s) = (if c = CHR '':'' \<and> d = CHR '' '' then Some s else after_colon (d # s))"
| "after_colon _ = None"

definition blkid_line :: "string \<Rightarrow> (string \<times> string) list \<Rightarrow> (string \<times> string) list result" where
  "blkid_line line values =
     (case after_colon line of
        None \<Rightarrow> Inr (add_field line values)
      | Some rest \<Rightarrow>
          (case shlex_split rest of
             Inl _ \<Rightarrow> Inl (InventoryError ''blkid returned malformed quoting'')
           | Inr parts \<Rightarrow> Inr (fold add_field parts values)))"

definition parse_blkid_output :: "string \<Rightarrow> (string \<times> string) list result" where
  "parse_blkid_output payload = fold_result blkid_line (text_lines payload) []"

definition string_dict :: "(string \<times> string) list \<Rightarrow> json" where
  "string_dict kvs = JDict (map (\<lambda>(k, v). (k, JStr v)) kvs)"

definition probe_blkid :: "phone \<Rightarrow> string \<Rightarrow> json result" where
  "probe_blkid ph device =
     (case ph_blkid ph device of
        NoTool \<Rightarrow> Inr (JDict [(''status'', JStr ''tool-unavailable'')])
      | TimedOut \<Rightarrow> Inr (JDict [(''status'', JStr ''timeout'')])
      | Ran returncode stdout stderr \<Rightarrow>
          if \<not> utf8_ok stdout \<or> \<not> utf8_ok stderr then Inl UnicodeError
          else bind_result (parse_blkid_output (universal_newlines stdout)) (\<lambda>values.
            Inr (JDict [(''status'', JStr (if returncode = 0 then ''identified'' else ''unidentified'')),
                        (''returncode'', JInt returncode), (''values'', string_dict values),
                        (''stderr'', JStr (strip (universal_newlines stderr)))])))"

subsection \<open>Disks\<close>

definition text_json :: "string option \<Rightarrow> json" where
  "text_json t = (case t of None \<Rightarrow> JNull | Some s \<Rightarrow> JStr s)"

record sysfs_entry =
  se_name :: string
  se_number :: nat
  se_partname :: "string option"
  se_dev :: string
  se_ro :: nat
  se_start :: nat
  se_size :: nat
  se_devtype :: "string option"

definition sysfs_json :: "sysfs_entry \<Rightarrow> json" where
  "sysfs_json e = JDict
     [(''name'', JStr (se_name e)), (''partition_number'', JInt (int (se_number e))),
      (''partition_name'', text_json (se_partname e)), (''major_minor'', JStr (se_dev e)),
      (''read_only'', JInt (int (se_ro e))), (''start_512_sectors'', JInt (int (se_start e))),
      (''size_512_sectors'', JInt (int (se_size e))), (''devtype'', text_json (se_devtype e))]"

definition sysfs_entry_of :: "phone \<Rightarrow> string \<Rightarrow> string \<Rightarrow> sysfs_entry result" where
  "sysfs_entry_of ph sys_block name =
     (let candidate = sys_block @ ''/'' @ name in
      bind_result (unsigned ph (candidate @ ''/partition'')) (\<lambda>number.
      bind_result (uevent ph (candidate @ ''/uevent'')) (\<lambda>values.
      bind_result (required_text ph (candidate @ ''/dev'')) (\<lambda>dev.
      bind_result (unsigned ph (candidate @ ''/ro'')) (\<lambda>ro.
      bind_result (unsigned ph (candidate @ ''/start'')) (\<lambda>start.
      bind_result (unsigned ph (candidate @ ''/size'')) (\<lambda>sectors.
      Inr \<lparr>se_name = name, se_number = number, se_partname = map_of values ''PARTNAME'', se_dev = dev,
           se_ro = ro, se_start = start, se_size = sectors, se_devtype = map_of values ''DEVTYPE''\<rparr>)))))))"

text \<open>The dictionary by partition number: a later candidate replaces an earlier one.\<close>

definition add_sysfs ::
    "phone \<Rightarrow> string \<Rightarrow> string \<Rightarrow> (nat \<times> sysfs_entry) list \<Rightarrow> (nat \<times> sysfs_entry) list result" where
  "add_sysfs ph sys_block name entries =
     (if \<not> path_exists ph (sys_block @ ''/'' @ name @ ''/partition'') then Inr entries
      else bind_result (sysfs_entry_of ph sys_block name) (\<lambda>e.
        Inr ((se_number e, e) # filter (\<lambda>(n, _). n \<noteq> se_number e) entries)))"

definition sysfs_partition_map :: "phone \<Rightarrow> string \<Rightarrow> string \<Rightarrow> (nat \<times> sysfs_entry) list result" where
  "sysfs_partition_map ph sys_block disk =
     fold_result (add_sysfs ph sys_block) (sort (filter (prefix disk) (ph_blocks ph))) []"

definition gpt_header_json :: "gpt_header \<Rightarrow> json" where
  "gpt_header_json h = JDict
     [(''revision'', JStr (''0x'' @ hex_text 4 (h_revision h))), (''header_size'', JInt (int (h_header_size h))),
      (''header_crc32'', JStr (hex_word (h_header_crc32 h))), (''header_crc32_valid'', JBool (h_header_crc32_valid h)),
      (''current_lba'', JInt (int (h_current_lba h))), (''backup_lba'', JInt (int (h_backup_lba h))),
      (''first_usable_lba'', JInt (int (h_first_usable_lba h))), (''last_usable_lba'', JInt (int (h_last_usable_lba h))),
      (''disk_guid'', JStr (h_disk_guid h)), (''entries_lba'', JInt (int (h_entries_lba h))),
      (''entry_count'', JInt (int (h_entry_count h))), (''entry_size'', JInt (int (h_entry_size h))),
      (''entries_crc32'', JStr (hex_word (h_entries_crc32 h))), (''table_bytes'', JInt (int (h_table_bytes h)))]"

definition gpt_partition_fields :: "gpt_partition \<Rightarrow> (string \<times> json) list" where
  "gpt_partition_fields p =
     [(''number'', JInt (int (p_number p))), (''type_guid'', JStr (p_type_guid p)),
      (''unique_guid'', JStr (p_unique_guid p)), (''first_lba'', JInt (int (p_first_lba p))),
      (''last_lba'', JInt (int (p_last_lba p))), (''size_lba'', JInt (int (p_size_lba p))),
      (''offset_bytes'', JInt (int (p_offset_bytes p))), (''size_bytes'', JInt (int (p_size_bytes p))),
      (''attributes'', JStr (''0x'' @ hex_text 8 (p_attributes p))), (''name'', JStr (p_name p))]"

definition gpt_json :: "gpt_table \<Rightarrow> json list \<Rightarrow> json" where
  "gpt_json g partitions = JDict
     [(''primary'', gpt_header_json (g_primary g)), (''backup'', gpt_header_json (g_backup g)),
      (''primary_entries_crc32_valid'', JBool (g_entries_crc32_valid g)),
      (''primary_backup_crosscheck'', JBool (g_crosscheck g)), (''partitions'', JList partitions)]"

text \<open>One GPT entry with the kernel's view of it and what is on it.\<close>

definition inventory_partition ::
    "phone \<Rightarrow> string \<Rightarrow> (nat \<times> sysfs_entry) list \<Rightarrow> gpt_partition \<Rightarrow> json result" where
  "inventory_partition ph dev_root entries p =
     (case map_of entries (p_number p) of
        None \<Rightarrow> Inr (JDict (gpt_partition_fields p @ [(''sysfs'', JNull)]))
      | Some e \<Rightarrow>
          bind_result (probe_blkid ph (dev_root @ ''/'' @ se_name e)) (\<lambda>probe.
            Inr (JDict (gpt_partition_fields p
              @ [(''sysfs'', sysfs_json e),
                 (''sysfs_gpt_geometry_match'',
                    JBool (se_start e * 512 = p_offset_bytes p \<and> se_size e * 512 = p_size_bytes p)),
                 (''filesystem_probe'', probe)]))))"

definition SCSI_KEYS :: "string list" where
  "SCSI_KEYS = [''vendor'', ''model'', ''rev'', ''type'', ''wwid'']"

definition inventory_disk :: "phone \<Rightarrow> string \<Rightarrow> string \<Rightarrow> string \<Rightarrow> json result" where
  "inventory_disk ph sys_block dev_root name =
     (let disk_path = sys_block @ ''/'' @ name in
      bind_result (unsigned ph (disk_path @ ''/queue/logical_block_size'')) (\<lambda>logical_block_bytes.
      bind_result (unsigned ph (disk_path @ ''/size'')) (\<lambda>size_512_sectors.
      bind_result (sysfs_partition_map ph sys_block name) (\<lambda>partitions.
      bind_result (option_result FileNotFoundError (map_of (ph_devices ph) name)) (\<lambda>device.
      bind_result (parse_gpt device logical_block_bytes (size_512_sectors * 512)) (\<lambda>gpt.
      bind_result (map_result (inventory_partition ph dev_root partitions) (g_partitions gpt)) (\<lambda>entries.
      bind_result (required_text ph (disk_path @ ''/dev'')) (\<lambda>dev.
      bind_result (unsigned ph (disk_path @ ''/ro'')) (\<lambda>ro.
      bind_result (unsigned ph (disk_path @ ''/queue/physical_block_size'')) (\<lambda>physical.
      bind_result (map_result (\<lambda>key. bind_result (read_text ph (disk_path @ ''/device/'' @ key) False)
         (\<lambda>t. Inr (key, text_json t))) SCSI_KEYS) (\<lambda>scsi.
      bind_result (probe_blkid ph (dev_root @ ''/'' @ name)) (\<lambda>probe.
      Inr (JDict
        [(''name'', JStr name), (''major_minor'', JStr dev), (''read_only'', JInt (int ro)),
         (''size_512_sectors'', JInt (int size_512_sectors)), (''size_bytes'', JInt (int (size_512_sectors * 512))),
         (''logical_block_bytes'', JInt (int logical_block_bytes)),
         (''physical_block_bytes'', JInt (int physical)), (''sysfs_path'', JStr (ph_resolve ph disk_path)),
         (''scsi'', JDict scsi), (''disk_probe'', probe), (''gpt'', gpt_json gpt entries)])))))))))))))"

subsection \<open>The rest of the inventory\<close>

definition lines_json :: "string \<Rightarrow> json" where
  "lines_json s = JList (map JStr (text_lines s))"

definition mount_inventory :: "phone \<Rightarrow> string \<Rightarrow> json result" where
  "mount_inventory ph proc_root =
     bind_result (required_text ph (proc_root @ ''/mounts'')) (\<lambda>mounts.
     bind_result (required_text ph (proc_root @ ''/self/mountinfo'')) (\<lambda>mountinfo.
     bind_result (required_text ph (proc_root @ ''/swaps'')) (\<lambda>swaps.
     Inr (JDict [(''mounts'', lines_json mounts), (''mountinfo'', lines_json mountinfo), (''swaps'', lines_json swaps)]))))"

lemma first_word_nonempty: "leading_space s = 0 \<Longrightarrow> s \<noteq> [] \<Longrightarrow> first_word s \<noteq> []"
  by (cases s) auto

lemma length_lstrip: "length (lstrip s) \<le> length s"
  by (induction s rule: lstrip.induct) (subst lstrip.simps, force)

lemma leading_space_lstrip: "leading_space (lstrip s) = 0"
  by (induction s rule: lstrip.induct) (subst lstrip.simps, simp)

text \<open>\<open>text.split()\<close>.\<close>

function words :: "string \<Rightarrow> string list" where
  "words s =
     (let t = lstrip s in if t = [] then [] else first_word t # words (drop (length (first_word t)) t))"
  by pat_completeness auto
termination
proof (relation "measure length")
  fix s t :: string
  assume t: "t = lstrip s" "t \<noteq> []"
  then have "first_word t \<noteq> []" by (simp add: first_word_nonempty leading_space_lstrip)
  then have "length (drop (length (first_word t)) t) < length t" using t(2) by simp
  also have "\<dots> \<le> length s" by (simp add: t(1) length_lstrip)
  finally show "(drop (length (first_word t)) t, s) \<in> measure length" by simp
qed simp

declare words.simps [simp del]

definition CMDLINE_PREFIXES :: "string list" where
  "CMDLINE_PREFIXES =
     [''androidboot.slot_suffix='', ''androidboot.bootdevice='', ''androidboot.boot_devices='',
      ''androidboot.vbmeta.'', ''androidboot.verifiedbootstate='', ''androidboot.device_state='',
      ''androidboot.serialno='', ''androidboot.fused'', ''androidboot.bootreason='']"

fun add_value :: "string \<Rightarrow> string \<Rightarrow> (string \<times> string list) list \<Rightarrow> (string \<times> string list) list" where
  "add_value key v [] = [(key, [v])]"
| "add_value key v ((k, vs) # rest) =
     (if k = key then (k, vs @ [v]) # rest else (k, vs) # add_value key v rest)"

definition cmdline_token :: "string \<Rightarrow> (string \<times> string list) list \<Rightarrow> (string \<times> string list) list" where
  "cmdline_token token selected =
     (if \<exists>p\<in>set CMDLINE_PREFIXES. prefix p token
      then (case partition_at CHR ''='' token of (key, separator, v) \<Rightarrow> add_value key v selected)
      else selected)"

definition cmdline_fields :: "string \<Rightarrow> (string \<times> string list) list" where
  "cmdline_fields cmdline = fold cmdline_token (words cmdline) []"

definition list_paths :: "phone \<Rightarrow> string \<Rightarrow> string \<Rightarrow> json" where
  "list_paths ph root pattern = JList (map (\<lambda>p. JStr (ph_resolve ph p)) (sort (ph_glob ph root pattern)))"

definition is_disk_name :: "string \<Rightarrow> bool" where
  "is_disk_name s \<longleftrightarrow> prefix ''sd'' s \<and> drop 2 s \<noteq> [] \<and> list_all is_lower (drop 2 s)"

definition disk_names :: "phone \<Rightarrow> string \<Rightarrow> string list" where
  "disk_names ph sys_block =
     filter (\<lambda>name. is_disk_name name \<and> path_exists ph (sys_block @ ''/'' @ name @ ''/device'')
        \<and> \<not> path_exists ph (sys_block @ ''/'' @ name @ ''/partition''))
       (sort (filter (prefix ''sd'') (ph_blocks ph)))"

definition collect :: "phone \<Rightarrow> string \<Rightarrow> string \<Rightarrow> string \<Rightarrow> (string \<times> json) list result" where
  "collect ph sys_root dev_root proc_root =
     (let sys_block = sys_root @ ''/class/block''; disks = disk_names ph sys_block in
      if disks = [] then Inl (InventoryError ''no SCSI/UFS disks were found'')
      else
      bind_result (required_text ph (proc_root @ ''/cmdline'')) (\<lambda>cmdline.
      bind_result (required_text ph (proc_root @ ''/sys/kernel/random/boot_id'')) (\<lambda>boot_id.
      bind_result (map_result (inventory_disk ph sys_block dev_root) disks) (\<lambda>inventory.
      bind_result (mount_inventory ph proc_root) (\<lambda>mounts.
      Inr [(''format'', JStr ''rog5-readonly-storage-inventory-v1''), (''captured_utc'', JStr (ph_utc ph)),
           (''kernel_release'', JStr (ph_release ph)), (''boot_id'', JStr boot_id), (''cmdline'', JStr cmdline),
           (''boot_fields'', JDict (map (\<lambda>(k, vs). (k, JList (map JStr vs))) (cmdline_fields cmdline))),
           (''ufs'', JDict
              [(''platform_controllers'', list_paths ph (sys_root @ ''/bus/platform/drivers'') ''ufshcd-qcom/*''),
               (''scsi_hosts'', list_paths ph (sys_root @ ''/class/scsi_host'') ''host*''),
               (''scsi_disks'', list_paths ph (sys_root @ ''/class/scsi_disk'') ''*''),
               (''rpmb_devices'', list_paths ph (sys_root @ ''/class'') ''rpmb/rpmb*'')]),
           (''disks'', JList inventory), (''mounts'', mounts)])))))"

text \<open>The exit status, and the JSON value on standard output when it is 0.\<close>

fun collect_caught :: "exn \<Rightarrow> bool" where
  "collect_caught (InventoryError m) = True"
| "collect_caught OSError = True"
| "collect_caught FileNotFoundError = True"
| "collect_caught UnicodeError = True"
| "collect_caught (ValueError m) = True"
| "collect_caught _ = False"

definition collect_main :: "phone \<Rightarrow> string \<Rightarrow> string \<Rightarrow> string \<Rightarrow> (nat \<times> json option) result" where
  "collect_main ph sys_root dev_root proc_root =
     (case collect ph sys_root dev_root proc_root of
        Inr inventory \<Rightarrow> Inr (0, Some (JDict inventory))
      | Inl e \<Rightarrow> if collect_caught e then Inr (1, None) else Inl e)"

subsection \<open>Quoting and splitting\<close>

lemma lex_run_plain:
  assumes "\<And>c. c \<in> set w \<Longrightarrow> \<not> lex_space c \<and> c \<noteq> BS \<and> c \<noteq> SQ \<and> c \<noteq> DQ"
  shows "lex_run LWord token quoted (w @ r) = lex_run LWord (rev w @ token) quoted r"
  using assms
proof (induction w arbitrary: token)
  case (Cons c w)
  then show ?case by (simp add: lex_step_def bind_result_def split: sum.splits)
qed simp

lemma shell_safe_plain: "shell_safe c \<Longrightarrow> \<not> lex_space c \<and> c \<noteq> BS \<and> c \<noteq> SQ \<and> c \<noteq> DQ"
  by (auto simp: shell_safe_def lex_space_def is_upper_def is_lower_def is_digit_def)

definition quote_char :: "char \<Rightarrow> string" where
  "quote_char c = (if c = SQ then [SQ, DQ, SQ, DQ, SQ] else [c])"

lemma lex_run_quoted:
  "lex_run (LQuote SQ) token True (concat (map quote_char w) @ r) = lex_run (LQuote SQ) (rev w @ token) True r"
proof (induction w arbitrary: token)
  case (Cons c w)
  then show ?case by (simp add: quote_char_def lex_step_def lex_space_def bind_result_def split: sum.splits)
qed simp

lemma lex_run_open: "lex_run (LQuote SQ) token False (c # s) = lex_run (LQuote SQ) token True (c # s)"
  by (simp add: lex_step_def)

text \<open>After a quoted word the lexer is inside a word whose text is the original.\<close>

lemma lex_run_quote:
  assumes "r = [] \<or> (\<exists>s. r = CHR '' '' # s)"
  shows "\<exists>quoted. lex_run LSpace [] False (shlex_quote w @ r) = lex_run LWord (rev w) quoted r \<and> (w = [] \<longrightarrow> quoted)"
proof (cases "w \<noteq> [] \<and> list_all shell_safe w")
  case True
  then obtain c v where w: "w = c # v" by (cases w) auto
  with True have plain: "\<And>c. c \<in> set w \<Longrightarrow> \<not> lex_space c \<and> c \<noteq> BS \<and> c \<noteq> SQ \<and> c \<noteq> DQ"
    by (auto simp: list_all_iff dest: shell_safe_plain)
  then have "lex_run LSpace [] False (w @ r) = lex_run LWord [] False (w @ r)"
    by (simp add: w lex_step_def)
  with lex_run_plain [of w "[]" False r] plain True show ?thesis by (auto simp: shlex_quote_def)
next
  case False
  have quote: "shlex_quote w = SQ # concat (map quote_char w) @ [SQ]"
    using False by (auto simp: shlex_quote_def quote_char_def cong: map_cong)
  have "lex_run LSpace [] False (shlex_quote w @ r) = lex_run (LQuote SQ) [] False (concat (map quote_char w) @ SQ # r)"
    by (simp add: quote lex_step_def lex_space_def bind_result_def split: sum.splits)
  also have "\<dots> = lex_run (LQuote SQ) [] True (concat (map quote_char w) @ SQ # r)"
    by (cases "concat (map quote_char w) @ SQ # r") (simp_all add: lex_run_open del: lex_run.simps)
  also have "\<dots> = lex_run LWord (rev w) True r"
    by (simp add: lex_run_quoted) (simp add: lex_step_def bind_result_def split: sum.splits)
  finally show ?thesis by blast
qed

lemma shlex_split_quote: "shlex_split (shlex_quote w) = Inr [w]"
  using lex_run_quote [of "[]" w] by (auto simp: shlex_split_def lex_emit_def)

lemma shlex_split_quote_more:
  "shlex_split (shlex_quote w @ CHR '' '' # s) = bind_result (shlex_split s) (\<lambda>ws. Inr (w # ws))"
  using lex_run_quote [of "CHR '' '' # s" w]
  by (auto simp: shlex_split_def lex_step_def lex_space_def lex_emit_def bind_result_def split: sum.splits)

text \<open>
  Splitting undoes quoting: words quoted for the shell and joined by a space split into the
  words again, whatever characters they hold.
\<close>

theorem quoted_words_split: "shlex_split (join '' '' (map shlex_quote ws)) = Inr ws"
proof (induction ws rule: induct_list012)
  case 1
  show ?case by (simp add: shlex_split_def lex_emit_def)
next
  case (2 w)
  show ?case by (simp add: shlex_split_quote)
next
  case (3 v w ws)
  then show ?case by (simp add: shlex_split_quote_more)
qed

subsection \<open>The kernel's partitions of a disk\<close>

definition sysfs_sound :: "phone \<Rightarrow> string \<Rightarrow> string \<Rightarrow> (nat \<times> sysfs_entry) list \<Rightarrow> bool" where
  "sysfs_sound ph sys_block disk m \<longleftrightarrow>
     distinct (map fst m)
     \<and> list_all (\<lambda>(n, e). n = se_number e \<and> se_name e \<in> set (ph_blocks ph) \<and> prefix disk (se_name e)
          \<and> sysfs_entry_of ph sys_block (se_name e) = Inr e) m"

lemma sysfs_entry_name: "sysfs_entry_of ph sys_block name = Inr e \<Longrightarrow> se_name e = name"
  by (auto simp: sysfs_entry_of_def Let_def bind_result_eq_Inr)

lemma add_sysfs_sound:
  assumes "add_sysfs ph sys_block name m = Inr m'" and "sysfs_sound ph sys_block disk m"
    and "name \<in> set (ph_blocks ph)" and "prefix disk name"
  shows "sysfs_sound ph sys_block disk m'"
proof (cases "path_exists ph (sys_block @ ''/'' @ name @ ''/partition'')")
  case False
  with assms show ?thesis by (simp add: add_sysfs_def)
next
  case True
  with assms(1) obtain e where e: "sysfs_entry_of ph sys_block name = Inr e"
    and m': "m' = (se_number e, e) # filter (\<lambda>(n, _). n \<noteq> se_number e) m"
    by (auto simp: add_sysfs_def bind_result_eq_Inr)
  have "distinct (map fst (filter (\<lambda>(n, _). n \<noteq> se_number e) m))"
    using assms(2) by (auto simp: sysfs_sound_def distinct_map_filter)
  with assms(2-4) sysfs_entry_name [OF e] e show ?thesis
    by (auto simp: sysfs_sound_def m' list_all_iff)
qed

text \<open>
  The map of a disk's partitions has one entry per partition number, each read from a block
  device whose name starts with the disk's.
\<close>

theorem sysfs_partition_map_sound:
  assumes "sysfs_partition_map ph sys_block disk = Inr m"
  shows "sysfs_sound ph sys_block disk m"
proof -
  have "fold_result (add_sysfs ph sys_block) names m0 = Inr m \<Longrightarrow> sysfs_sound ph sys_block disk m0
      \<Longrightarrow> set names \<subseteq> {n \<in> set (ph_blocks ph). prefix disk n} \<Longrightarrow> sysfs_sound ph sys_block disk m" for names m0
    by (induction names arbitrary: m0) (auto simp: bind_result_eq_Inr dest: add_sysfs_sound)
  from this [of "sort (filter (prefix disk) (ph_blocks ph))" "[]"] assms show ?thesis
    by (auto simp: sysfs_partition_map_def sysfs_sound_def)
qed

text \<open>Two disks of which one name is a prefix of the other, each with a first partition.\<close>

definition demo_block :: "string \<Rightarrow> string \<Rightarrow> (string \<times> bytes option) list" where
  "demo_block name start =
     map (\<lambda>(k, v). (''b/'' @ name @ ''/'' @ k, Some v))
       [(''partition'', ''1''), (''dev'', ''8:1''), (''ro'', ''0''), (''start'', start), (''size'', ''8'')]"

definition demo_phone :: phone where
  "demo_phone = \<lparr>ph_files = demo_block ''sda1'' ''6'' @ demo_block ''sdaa1'' ''7'', ph_devices = [],
     ph_blkid = \<lambda>_. NoTool, ph_blocks = [''sda'', ''sda1'', ''sdaa'', ''sdaa1''], ph_resolve = id,
     ph_glob = \<lambda>_ _. [], ph_utc = [], ph_release = []\<rparr>"

lemma demo_phone_map:
  "sysfs_partition_map demo_phone ''b'' ''sda'' =
     Inr [(1, \<lparr>se_name = ''sdaa1'', se_number = 1, se_partname = None, se_dev = ''8:1'', se_ro = 0,
        se_start = 7, se_size = 8, se_devtype = None\<rparr>)]"
  by code_simp

theorem sysfs_partition_map_sound_witness:
  "sysfs_sound demo_phone ''b'' ''sda'' [(1, \<lparr>se_name = ''sdaa1'', se_number = 1, se_partname = None, se_dev = ''8:1'',
     se_ro = 0, se_start = 7, se_size = 8, se_devtype = None\<rparr>)]"
  by (rule sysfs_partition_map_sound [OF demo_phone_map])

text \<open>
  The candidates are found by prefix, so the partitions of \<open>sdaa\<close> replace those of \<open>sda\<close> with
  the same number: the geometry of \<open>sda1\<close> is then compared with that of \<open>sdaa1\<close>.
\<close>

theorem sysfs_prefix_collision:
  "map_result (\<lambda>name. bind_result (sysfs_partition_map demo_phone ''b'' name) (\<lambda>m. Inr (map_option se_name (map_of m 1))))
     [''sda'', ''sdaa''] = Inr [Some ''sdaa1'', Some ''sdaa1'']"
  by code_simp

end
