(* ===== verification/Storage_Plan.thy ===== *)
theory Storage_Plan
  imports Py_Json
begin

section \<open>What a storage backup reads\<close>

text \<open>
  Models the planning half of \<^verbatim>\<open>scripts/host/backup-readonly-storage-inventory.py\<close>: the checks on
  the inventory (a JSON value, so every dynamic check of the script is one of the model), the
  exact list of partitions and GPT ranges to copy, and the remote commands that copy them.
  The file system's answers about a path are a record.
\<close>

unbundle bit_operations_syntax

subsection \<open>Guarded paths\<close>

record path_info =
  pi_missing :: bool
  pi_symlink :: bool
  pi_regular :: bool
  pi_directory :: bool
  pi_uid :: nat
  pi_mode :: nat

definition canonical_file :: "nat \<Rightarrow> path_info \<Rightarrow> string \<Rightarrow> bool \<Rightarrow> unit result" where
  "canonical_file euid info label private =
     (if pi_missing info then Inl FileNotFoundError
      else if \<not> pi_regular info \<or> pi_symlink info
      then Inl (BackupError (label @ '' is not a regular non-symlink file''))
      else if pi_uid info \<noteq> euid then Inl (BackupError (label @ '' is not caller-owned''))
      else if private \<and> pi_mode info AND 63 \<noteq> 0
      then Inl (BackupError (label @ '' is accessible by another user''))
      else Inr ())"

definition canonical_private_directory :: "nat \<Rightarrow> path_info \<Rightarrow> string \<Rightarrow> unit result" where
  "canonical_private_directory euid info label =
     (if pi_missing info then Inl FileNotFoundError
      else if pi_symlink info \<or> \<not> pi_directory info
      then Inl (BackupError (label @ '' is not a non-symlink directory''))
      else if pi_uid info \<noteq> euid \<or> pi_mode info \<noteq> 448
      then Inl (BackupError (label @ '' is not caller-owned mode 0700''))
      else Inr ())"

subsection \<open>Patterns\<close>

definition EXCLUDED_PARTITIONS :: "string list" where
  "EXCLUDED_PARTITIONS = [''super'', ''userdata'']"

definition DISK_match :: "string \<Rightarrow> bool" where
  "DISK_match s \<longleftrightarrow> prefix ''sd'' s \<and> drop 2 s \<noteq> [] \<and> list_all is_lower (drop 2 s)"

definition DEVICE_match :: "string \<Rightarrow> bool" where
  "DEVICE_match s \<longleftrightarrow>
     prefix ''sd'' s
     \<and> takeWhile is_lower (drop 2 s) \<noteq> [] \<and> dropWhile is_lower (drop 2 s) \<noteq> []
     \<and> list_all is_digit (dropWhile is_lower (drop 2 s))"

definition label_char :: "char \<Rightarrow> bool" where
  "label_char c \<longleftrightarrow> is_upper c \<or> is_lower c \<or> is_digit c \<or> c \<in> set ''_.+-''"

definition LABEL_match :: "string \<Rightarrow> bool" where
  "LABEL_match s \<longleftrightarrow> 1 \<le> length s \<and> length s \<le> 72 \<and> list_all label_char s"

definition SHA256_match :: "string \<Rightarrow> bool" where
  "SHA256_match s \<longleftrightarrow> length s = 64 \<and> list_all is_hex s"

text \<open>Eight, four, four, four and twelve hexadecimal digits: a partition GUID and a boot ID.\<close>

definition UUID_match :: "string \<Rightarrow> bool" where
  "UUID_match s \<longleftrightarrow>
     map length (split_on CHR ''-'' s) = [8, 4, 4, 4, 12]
     \<and> (\<forall>part\<in>set (split_on CHR ''-'' s). list_all is_hex part)"

definition load_inventory :: "nat \<Rightarrow> path_info \<Rightarrow> json option \<Rightarrow> (string \<times> json) list result" where
  "load_inventory euid info payload =
     bind_result (canonical_file euid info ''inventory'' True) (\<lambda>_.
       case payload of
         None \<Rightarrow> Inl (BackupError ''inventory is not valid JSON'')
       | Some (JDict d) \<Rightarrow>
           if dict_get d ''format'' \<noteq> JStr ''rog5-readonly-storage-inventory-v1''
           then Inl (BackupError ''inventory format is not exact'')
           else if \<not> UUID_match (py_str (dict_get_or d ''boot_id'' (JStr [])))
           then Inl (BackupError ''inventory boot ID is invalid'')
           else Inr d
       | Some _ \<Rightarrow> Inl AttributeError)"

subsection \<open>Partitions\<close>

record plan_record =
  pr_node :: string
  pr_label :: string
  pr_guid :: string
  pr_size_bytes :: int
  pr_size_sectors :: int
  pr_start_sectors :: int

record plan_state =
  ps_plan :: "plan_record list"
  ps_total :: int
  ps_labels :: "string list"
  ps_guids :: "string list"

definition plan_partition :: "json \<Rightarrow> plan_state \<Rightarrow> plan_state result" where
  "plan_partition value st =
     (case as_dict value of
        None \<Rightarrow> Inl (BackupError ''inventory partition entry is invalid'')
      | Some entry \<Rightarrow>
        let label = py_str (dict_get_or entry ''name'' (JStr [])) in
        if \<not> LABEL_match label then Inl (BackupError (''unsafe partition label: '' @ py_repr label))
        else if label \<in> set (ps_labels st)
        then Inl (BackupError (''duplicate partition label: '' @ label))
        else let st = st\<lparr>ps_labels := label # ps_labels st\<rparr> in
        if label \<in> set EXCLUDED_PARTITIONS then Inr st
        else let guid = py_str (dict_get_or entry ''unique_guid'' (JStr [])) in
        if guid \<in> set (ps_guids st) \<or> \<not> UUID_match guid
        then Inl (BackupError (''invalid or duplicate partition GUID: '' @ guid))
        else case (if dict_get entry ''sysfs_gpt_geometry_match'' = JBool True
                   then as_dict (dict_get entry ''sysfs'') else None) of
          None \<Rightarrow> Inl (BackupError (''partition geometry is not exact: '' @ label))
        | Some sysfs \<Rightarrow>
          let node = py_str (dict_get_or sysfs ''name'' (JStr [])) in
          bind_result (py_int (dict_get_or entry ''size_bytes'' (JInt (-1)))) (\<lambda>size_bytes.
          bind_result (py_int (dict_get_or sysfs ''size_512_sectors'' (JInt (-1)))) (\<lambda>size_sectors.
          bind_result (py_int (dict_get_or sysfs ''start_512_sectors'' (JInt (-1)))) (\<lambda>start_sectors.
            if \<not> DEVICE_match node \<or> size_bytes \<le> 0 \<or> size_bytes \<noteq> size_sectors * 512 \<or> start_sectors < 0
            then Inl (BackupError (''partition geometry is invalid: '' @ label))
            else Inr (st\<lparr>ps_guids := guid # ps_guids st,
                   ps_plan := ps_plan st @ [\<lparr>pr_node = node, pr_label = label, pr_guid = guid,
                      pr_size_bytes = size_bytes, pr_size_sectors = size_sectors,
                      pr_start_sectors = start_sectors\<rparr>],
                   ps_total := ps_total st + size_bytes\<rparr>)))))"

definition gpt_flag :: "(string \<times> json) list \<Rightarrow> string \<Rightarrow> unit \<Rightarrow> unit result" where
  "gpt_flag gpt key u =
     (if dict_get gpt key \<noteq> JBool True then Inl (BackupError (''inventory GPT check failed: '' @ key))
      else Inr ())"

definition plan_disk :: "json \<Rightarrow> plan_state \<Rightarrow> plan_state result" where
  "plan_disk value st =
     (case as_dict value of
        None \<Rightarrow> Inl (BackupError ''inventory disk name is invalid'')
      | Some disk \<Rightarrow>
        if \<not> DISK_match (py_str (dict_get_or disk ''name'' (JStr [])))
        then Inl (BackupError ''inventory disk name is invalid'')
        else case as_dict (dict_get disk ''gpt'') of
          None \<Rightarrow> Inl (BackupError ''inventory GPT record is invalid'')
        | Some gpt \<Rightarrow>
          bind_result (fold_result (gpt_flag gpt)
             [''primary_entries_crc32_valid'', ''primary_backup_crosscheck''] ()) (\<lambda>_.
          case (as_dict (dict_get gpt ''primary''), as_dict (dict_get gpt ''backup'')) of
            (Some primary, Some backup) \<Rightarrow>
              if dict_get primary ''header_crc32_valid'' \<noteq> JBool True
                 \<or> dict_get backup ''header_crc32_valid'' \<noteq> JBool True
              then Inl (BackupError ''inventory GPT header CRC is invalid'')
              else (case as_list (dict_get gpt ''partitions'') of
                  None \<Rightarrow> Inl (BackupError ''inventory GPT partitions are invalid'')
                | Some partitions \<Rightarrow> fold_result plan_partition partitions st)
          | _ \<Rightarrow> Inl (BackupError ''inventory GPT headers are invalid'')))"

definition seven_disks :: "(string \<times> json) list \<Rightarrow> json list result" where
  "seven_disks inventory =
     (case as_list (dict_get inventory ''disks'') of
        None \<Rightarrow> Inl (BackupError ''inventory does not contain exactly seven UFS LUNs'')
      | Some disks \<Rightarrow>
          if length disks \<noteq> 7
          then Inl (BackupError ''inventory does not contain exactly seven UFS LUNs'')
          else Inr disks)"

definition backup_plan :: "(string \<times> json) list \<Rightarrow> (plan_record list \<times> int) result" where
  "backup_plan inventory =
     bind_result (seven_disks inventory) (\<lambda>disks.
     bind_result (fold_result plan_disk disks
        \<lparr>ps_plan = [], ps_total = 0, ps_labels = [], ps_guids = []\<rparr>) (\<lambda>st.
       if length (ps_labels st) \<noteq> 109 \<or> length (ps_plan st) \<noteq> 107
       then Inl (BackupError ''partition selection is not the exact 109-minus-2 map'')
       else Inr (ps_plan st, ps_total st)))"

subsection \<open>GPT ranges\<close>

record gpt_record =
  gr_disk :: string
  gr_disk_guid :: json
  gr_sectors :: int
  gr_logical :: int
  gr_role :: string
  gr_offset :: int
  gr_size :: int

text \<open>\<open>dict[key]\<close> as an integer: a missing key and a value of the wrong type raise.\<close>

definition int_item :: "(string \<times> json) list \<Rightarrow> string \<Rightarrow> int result" where
  "int_item d key = bind_result (dict_item d key) py_int"

definition gpt_ranges ::
    "string \<Rightarrow> int \<Rightarrow> int \<Rightarrow> int \<Rightarrow> (string \<times> json) list \<Rightarrow> (string \<times> json) list \<Rightarrow> gpt_record list result"
    where
  "gpt_ranges name logical size_bytes size_sectors primary backup =
     bind_result (int_item primary ''entries_lba'') (\<lambda>primary_lba.
     bind_result (int_item primary ''table_bytes'') (\<lambda>table_bytes.
     let primary_end = primary_lba * logical + table_bytes;
         primary_bytes = (primary_end + logical - 1) div logical * logical in
     bind_result (int_item backup ''entries_lba'') (\<lambda>backup_lba.
     let backup_offset = backup_lba * logical;
         backup_bytes = size_bytes - backup_offset in
     if primary_bytes \<le> 2 * logical \<or> 1024 * 1024 < primary_bytes \<or> backup_offset \<le> primary_bytes
        \<or> backup_bytes \<le> logical \<or> 1024 * 1024 < backup_bytes \<or> primary_bytes mod logical \<noteq> 0
        \<or> backup_offset mod logical \<noteq> 0 \<or> backup_bytes mod logical \<noteq> 0
     then Inl (BackupError (''GPT backup range is invalid: '' @ name))
     else bind_result (dict_item primary ''disk_guid'') (\<lambda>guid.
       Inr (map (\<lambda>(role, offset, n). \<lparr>gr_disk = name, gr_disk_guid = guid, gr_sectors = size_sectors,
              gr_logical = logical, gr_role = role, gr_offset = offset, gr_size = n\<rparr>)
         [(''primary'', 0, primary_bytes), (''backup'', backup_offset, backup_bytes)])))))"

definition gpt_plan_disk :: "json \<Rightarrow> gpt_record list \<times> int \<Rightarrow> (gpt_record list \<times> int) result" where
  "gpt_plan_disk value acc =
     (case as_dict value of
        None \<Rightarrow> Inl (BackupError ''inventory disk record is invalid'')
      | Some disk \<Rightarrow>
        let name = py_str (dict_get_or disk ''name'' (JStr [])) in
        if \<not> DISK_match name then Inl (BackupError ''inventory disk name is invalid'')
        else
        bind_result (py_int (dict_get_or disk ''logical_block_bytes'' (JInt (-1)))) (\<lambda>logical.
        bind_result (py_int (dict_get_or disk ''size_bytes'' (JInt (-1)))) (\<lambda>size_bytes.
        bind_result (py_int (dict_get_or disk ''size_512_sectors'' (JInt (-1)))) (\<lambda>size_sectors.
        if logical < 512 \<or> 65536 < logical \<or> logical AND (logical - 1) \<noteq> 0
           \<or> size_bytes \<noteq> size_sectors * 512 \<or> as_dict (dict_get disk ''gpt'') = None
        then Inl (BackupError (''invalid GPT disk geometry: '' @ name))
        else let gpt = the (as_dict (dict_get disk ''gpt'')) in
          case (as_dict (dict_get gpt ''primary''), as_dict (dict_get gpt ''backup'')) of
            (Some primary, Some backup) \<Rightarrow>
              bind_result (gpt_ranges name logical size_bytes size_sectors primary backup) (\<lambda>ranges.
                Inr (fst acc @ ranges, snd acc + sum_list (map gr_size ranges)))
          | _ \<Rightarrow> Inl (BackupError (''invalid GPT header record: '' @ name))))))"

definition gpt_backup_plan :: "(string \<times> json) list \<Rightarrow> (gpt_record list \<times> int) result" where
  "gpt_backup_plan inventory =
     bind_result (seven_disks inventory) (\<lambda>disks. fold_result gpt_plan_disk disks ([], 0))"

subsection \<open>What a plan guarantees\<close>

definition plan_record_ok :: "plan_record \<Rightarrow> bool" where
  "plan_record_ok r \<longleftrightarrow>
     DEVICE_match (pr_node r) \<and> LABEL_match (pr_label r) \<and> pr_label r \<notin> set EXCLUDED_PARTITIONS
     \<and> UUID_match (pr_guid r) \<and> 0 < pr_size_bytes r \<and> pr_size_bytes r = pr_size_sectors r * 512
     \<and> 0 \<le> pr_start_sectors r"

definition plan_inv :: "plan_state \<Rightarrow> bool" where
  "plan_inv st \<longleftrightarrow>
     (\<forall>r\<in>set (ps_plan st). plan_record_ok r)
     \<and> distinct (ps_labels st) \<and> set (map pr_label (ps_plan st)) \<subseteq> set (ps_labels st)
     \<and> distinct (map pr_label (ps_plan st)) \<and> distinct (map pr_guid (ps_plan st))
     \<and> set (map pr_guid (ps_plan st)) = set (ps_guids st)
     \<and> ps_total st = sum_list (map pr_size_bytes (ps_plan st))"

lemma plan_partition_cases:
  assumes "plan_partition v st = Inr st'"
  obtains (excluded) label where "label \<notin> set (ps_labels st)" "st' = st\<lparr>ps_labels := label # ps_labels st\<rparr>"
  | (planned) r where "pr_label r \<notin> set (ps_labels st)" "pr_guid r \<notin> set (ps_guids st)" "plan_record_ok r"
      "st' = st\<lparr>ps_labels := pr_label r # ps_labels st, ps_guids := pr_guid r # ps_guids st,
         ps_plan := ps_plan st @ [r], ps_total := ps_total st + pr_size_bytes r\<rparr>"
proof -
  from assms obtain entry where entry: "as_dict v = Some entry"
    by (auto simp: plan_partition_def split: option.splits)
  define label where "label = py_str (dict_get_or entry ''name'' (JStr []))"
  define guid where "guid = py_str (dict_get_or entry ''unique_guid'' (JStr []))"
  from assms entry have l: "LABEL_match label" "label \<notin> set (ps_labels st)"
    by (auto simp: plan_partition_def label_def [symmetric] Let_def split: if_splits)
  show thesis
  proof (cases "label \<in> set EXCLUDED_PARTITIONS")
    case True
    with assms entry l show ?thesis
      by (intro excluded [of label]) (simp_all add: plan_partition_def label_def [symmetric] Let_def)
  next
    case False
    with assms entry l have g: "guid \<notin> set (ps_guids st)" "UUID_match guid"
      by (auto simp: plan_partition_def label_def [symmetric] guid_def [symmetric] Let_def split: if_splits)
    with assms entry l False obtain sysfs where sysfs: "(if dict_get entry ''sysfs_gpt_geometry_match'' = JBool True
          then as_dict (dict_get entry ''sysfs'') else None) = Some sysfs"
      by (simp add: plan_partition_def label_def [symmetric] guid_def [symmetric] Let_def split: option.splits)
    define node where "node = py_str (dict_get_or sysfs ''name'' (JStr []))"
    from assms entry l False g sysfs obtain sectors start where
      "DEVICE_match node" "0 < sectors" "0 \<le> start"
      "st' = st\<lparr>ps_labels := label # ps_labels st, ps_guids := guid # ps_guids st,
         ps_plan := ps_plan st @ [\<lparr>pr_node = node, pr_label = label, pr_guid = guid,
            pr_size_bytes = sectors * 512, pr_size_sectors = sectors, pr_start_sectors = start\<rparr>],
         ps_total := ps_total st + sectors * 512\<rparr>"
      by (auto simp: plan_partition_def label_def [symmetric] guid_def [symmetric] node_def [symmetric]
          Let_def bind_result_eq_Inr not_le not_less split: if_splits)
    with l g False show ?thesis
      by (intro planned [of "\<lparr>pr_node = node, pr_label = label, pr_guid = guid,
            pr_size_bytes = sectors * 512, pr_size_sectors = sectors, pr_start_sectors = start\<rparr>"])
         (simp_all add: plan_record_ok_def)
  qed
qed

lemma plan_partition_inv:
  assumes "plan_partition v st = Inr st'" and "plan_inv st"
  shows "plan_inv st'"
  using assms(1)
proof (cases rule: plan_partition_cases)
  case (excluded label)
  with assms(2) show ?thesis by (auto simp: plan_inv_def)
next
  case (planned r)
  with assms(2) show ?thesis by (auto simp: plan_inv_def)
qed

lemma fold_result_keeps:
  "fold_result f xs s = Inr t \<Longrightarrow> I s \<Longrightarrow> (\<And>x s t. f x s = Inr t \<Longrightarrow> I s \<Longrightarrow> I t) \<Longrightarrow> I t"
  by (induction xs arbitrary: s) (auto simp: bind_result_eq_Inr)

lemma plan_disk_inv:
  assumes "plan_disk v st = Inr st'" and "plan_inv st"
  shows "plan_inv st'"
proof -
  from assms(1) obtain partitions where "fold_result plan_partition partitions st = Inr st'"
    by (auto simp: plan_disk_def bind_result_eq_Inr split: option.splits if_splits)
  then show ?thesis using assms(2) plan_partition_inv by (rule fold_result_keeps)
qed

lemma backup_plan_inv:
  assumes "backup_plan inventory = Inr (plan, amount)"
  shows "\<exists>st. plan_inv st \<and> length (ps_plan st) = 107 \<and> plan = ps_plan st \<and> amount = ps_total st"
proof -
  from assms obtain disks st where
    fold: "fold_result plan_disk disks \<lparr>ps_plan = [], ps_total = 0, ps_labels = [], ps_guids = []\<rparr> = Inr st"
    and st: "length (ps_plan st) = 107" "plan = ps_plan st" "amount = ps_total st"
    by (auto simp: backup_plan_def bind_result_eq_Inr split: if_splits)
  have "plan_inv st"
    by (rule fold_result_keeps [OF fold]) (simp add: plan_inv_def, rule plan_disk_inv)
  with st show ?thesis by blast
qed

lemma backup_plan_records:
  "backup_plan inventory = Inr (plan, amount) \<Longrightarrow> \<forall>r\<in>set plan. plan_record_ok r"
  by (auto simp: plan_inv_def dest!: backup_plan_inv)

text \<open>
  C30. An accepted inventory gives exactly 107 partitions to copy, none of them \<open>super\<close> or
  \<open>userdata\<close>, with distinct labels and distinct GUIDs, device names and labels without a shell
  metacharacter, positive sizes in whole sectors, and their sum as the total.
\<close>

theorem backup_plan_sound:
  assumes "backup_plan inventory = Inr (plan, amount)"
  shows "length plan = 107 \<and> (\<forall>r\<in>set plan. plan_record_ok r)
     \<and> distinct (map pr_label plan) \<and> distinct (map pr_guid plan)
     \<and> amount = sum_list (map pr_size_bytes plan) \<and> 107 * 512 \<le> amount"
proof -
  from backup_plan_inv [OF assms] obtain st where inv: "plan_inv st"
    and st: "length (ps_plan st) = 107" "plan = ps_plan st" "amount = ps_total st" by blast
  have "512 * int (length rs) \<le> sum_list (map pr_size_bytes rs)" if "\<forall>r\<in>set rs. plan_record_ok r" for rs
    using that
  proof (induction rs)
    case (Cons r rs)
    from Cons.prems have "512 \<le> pr_size_bytes r" by (auto simp: plan_record_ok_def)
    with Cons show ?case by simp
  qed simp
  from this [of plan] inv st show ?thesis by (simp add: plan_inv_def)
qed

text \<open>The two ranges of one disk: the head with the primary table, the tail with the spare one.\<close>

definition range_pair_ok :: "gpt_record \<times> gpt_record \<Rightarrow> bool" where
  "range_pair_ok = (\<lambda>(p, b).
     DISK_match (gr_disk p) \<and> gr_disk b = gr_disk p \<and> gr_disk_guid b = gr_disk_guid p
     \<and> gr_role p = ''primary'' \<and> gr_role b = ''backup''
     \<and> gr_logical b = gr_logical p \<and> 512 \<le> gr_logical p \<and> gr_logical p \<le> 65536
     \<and> gr_sectors b = gr_sectors p
     \<and> gr_offset p = 0 \<and> 2 * gr_logical p < gr_size p \<and> gr_size p \<le> 1024 * 1024
     \<and> gr_size p < gr_offset b \<and> gr_logical p < gr_size b \<and> gr_size b \<le> 1024 * 1024
     \<and> gr_offset b + gr_size b = gr_sectors p * 512
     \<and> gr_size p mod gr_logical p = 0 \<and> gr_offset b mod gr_logical p = 0 \<and> gr_size b mod gr_logical p = 0)"

lemma gpt_plan_disk_ok:
  assumes "gpt_plan_disk v acc = Inr acc'"
  shows "\<exists>p b. acc' = (fst acc @ [p, b], snd acc + gr_size p + gr_size b) \<and> range_pair_ok (p, b)"
  using assms
  by (auto simp: gpt_plan_disk_def gpt_ranges_def Let_def bind_result_eq_Inr range_pair_ok_def
      split: option.splits if_splits)

lemma gpt_plan_fold:
  assumes "fold_result gpt_plan_disk disks acc = Inr (plan, amount)"
  shows "\<exists>pairs. length pairs = length disks \<and> plan = fst acc @ concat (map (\<lambda>(p, b). [p, b]) pairs)
     \<and> (\<forall>q\<in>set pairs. range_pair_ok q)
     \<and> amount = snd acc + sum_list (map (\<lambda>(p, b). gr_size p + gr_size b) pairs)"
  using assms
proof (induction disks arbitrary: acc)
  case (Cons d disks)
  then obtain acc' where step: "gpt_plan_disk d acc = Inr acc'"
    and rest: "fold_result gpt_plan_disk disks acc' = Inr (plan, amount)"
    by (auto simp: bind_result_eq_Inr)
  from gpt_plan_disk_ok [OF step] obtain p b where
    pb: "acc' = (fst acc @ [p, b], snd acc + gr_size p + gr_size b)" "range_pair_ok (p, b)" by blast
  from Cons.IH [OF rest] obtain pairs where "length pairs = length disks"
    "plan = fst acc' @ concat (map (\<lambda>(p, b). [p, b]) pairs)" "\<forall>q\<in>set pairs. range_pair_ok q"
    "amount = snd acc' + sum_list (map (\<lambda>(p, b). gr_size p + gr_size b) pairs)" by blast
  with pb show ?case by (intro exI [of _ "(p, b) # pairs"]) auto
qed (auto intro: exI [of _ "[]"])

text \<open>
  C31. The GPT plan is seven pairs of ranges, one per disk: a head that starts at 0 and a tail
  that ends with the disk, disjoint, block aligned, each at most one mebibyte; the total is their
  sum and at most fourteen mebibytes.
\<close>

theorem gpt_backup_plan_sound:
  assumes "gpt_backup_plan inventory = Inr (plan, amount)"
  shows "\<exists>pairs. length pairs = 7 \<and> plan = concat (map (\<lambda>(p, b). [p, b]) pairs)
     \<and> (\<forall>q\<in>set pairs. range_pair_ok q)
     \<and> amount = sum_list (map gr_size plan) \<and> amount \<le> 14 * (1024 * 1024)"
proof -
  from assms obtain disks where "length disks = 7" and
    fold: "fold_result gpt_plan_disk disks ([], 0) = Inr (plan, amount)"
    by (auto simp: gpt_backup_plan_def seven_disks_def bind_result_eq_Inr split: option.splits if_splits)
  with gpt_plan_fold [OF fold] obtain pairs where pairs: "length pairs = 7"
    "plan = concat (map (\<lambda>(p, b). [p, b]) pairs)" "\<forall>q\<in>set pairs. range_pair_ok q"
    "amount = sum_list (map (\<lambda>(p, b). gr_size p + gr_size b) pairs)" by auto
  have "sum_list (map (\<lambda>(p, b). gr_size p + gr_size b) qs)
      = sum_list (map gr_size (concat (map (\<lambda>(p, b). [p, b]) qs)))" for qs
    by (induction qs) auto
  moreover have "sum_list (map (\<lambda>(p, b). gr_size p + gr_size b) qs) \<le> 2 * (1024 * 1024) * int (length qs)"
    if "\<forall>q\<in>set qs. range_pair_ok q" for qs
    using that by (induction qs) (auto simp: range_pair_ok_def algebra_simps)
  from this [OF pairs(3)] have "amount \<le> 14 * (1024 * 1024)" by (simp add: pairs(1,4))
  ultimately show ?thesis using pairs by (intro exI [of _ pairs]) auto
qed

subsection \<open>Every well-formed inventory is planned\<close>

text \<open>
  The inventory of given disks: the fields the two planners read, as
  \<^verbatim>\<open>collect-readonly-storage-inventory.py\<close> writes them.
\<close>

definition partition_json :: "plan_record \<Rightarrow> json" where
  "partition_json r = JDict
     [(''name'', JStr (pr_label r)), (''unique_guid'', JStr (pr_guid r)), (''size_bytes'', JInt (pr_size_bytes r)),
      (''sysfs_gpt_geometry_match'', JBool True),
      (''sysfs'', JDict [(''name'', JStr (pr_node r)), (''size_512_sectors'', JInt (pr_size_sectors r)),
                         (''start_512_sectors'', JInt (pr_start_sectors r))])]"

definition header_json_of :: "int \<Rightarrow> json" where
  "header_json_of lba = JDict
     [(''header_crc32_valid'', JBool True), (''entries_lba'', JInt lba), (''table_bytes'', JInt 16384),
      (''disk_guid'', JStr ''00000000-0000-0000-0000-000000000001'')]"

definition disk_json :: "string \<Rightarrow> int \<Rightarrow> plan_record list \<Rightarrow> json" where
  "disk_json name blocks parts = JDict
     [(''name'', JStr name), (''logical_block_bytes'', JInt 4096), (''size_bytes'', JInt (blocks * 4096)),
      (''size_512_sectors'', JInt (blocks * 8)),
      (''gpt'', JDict
        [(''primary_entries_crc32_valid'', JBool True), (''primary_backup_crosscheck'', JBool True),
         (''primary'', header_json_of 2), (''backup'', header_json_of (blocks - 5)),
         (''partitions'', JList (map partition_json parts))])]"

definition entry_ok :: "plan_record \<Rightarrow> bool" where
  "entry_ok r \<longleftrightarrow> LABEL_match (pr_label r) \<and> (pr_label r \<notin> set EXCLUDED_PARTITIONS \<longrightarrow> plan_record_ok r)"

definition selected :: "plan_record list \<Rightarrow> plan_record list" where
  "selected rs = filter (\<lambda>r. pr_label r \<notin> set EXCLUDED_PARTITIONS) rs"

lemma plan_partition_of:
  assumes "entry_ok r" and "pr_label r \<notin> set (ps_labels st)"
    and "pr_label r \<notin> set EXCLUDED_PARTITIONS \<Longrightarrow> pr_guid r \<notin> set (ps_guids st)"
  shows "plan_partition (partition_json r) st =
     Inr (if pr_label r \<in> set EXCLUDED_PARTITIONS then st\<lparr>ps_labels := pr_label r # ps_labels st\<rparr>
          else st\<lparr>ps_labels := pr_label r # ps_labels st, ps_guids := pr_guid r # ps_guids st,
                 ps_plan := ps_plan st @ [r], ps_total := ps_total st + pr_size_bytes r\<rparr>)"
  using assms
  by (auto simp: plan_partition_def partition_json_def dict_get_def dict_get_or_def as_dict_def
      entry_ok_def plan_record_ok_def Let_def)

lemma plan_partitions_of:
  assumes "\<forall>r\<in>set rs. entry_ok r" and "distinct (map pr_label rs)" and "distinct (map pr_guid (selected rs))"
    and "set (map pr_label rs) \<inter> set (ps_labels st) = {}"
    and "set (map pr_guid (selected rs)) \<inter> set (ps_guids st) = {}"
  shows "fold_result plan_partition (map partition_json rs) st =
     Inr \<lparr>ps_plan = ps_plan st @ selected rs, ps_total = ps_total st + sum_list (map pr_size_bytes (selected rs)),
          ps_labels = rev (map pr_label rs) @ ps_labels st,
          ps_guids = rev (map pr_guid (selected rs)) @ ps_guids st\<rparr>"
  using assms
proof (induction rs arbitrary: st)
  case (Cons r rs)
  then show ?case
    by (subst list.map, subst fold_result.simps, subst plan_partition_of) (auto simp: selected_def)
qed (simp add: selected_def)

lemma plan_disk_of:
  assumes "DISK_match name"
  shows "plan_disk (disk_json name blocks rs) st = fold_result plan_partition (map partition_json rs) st"
  using assms
  by (simp add: plan_disk_def disk_json_def header_json_of_def as_dict_def as_list_def dict_get_def
      dict_get_or_def gpt_flag_def)

lemma plan_disks_of:
  assumes "\<forall>(name, blocks, rs)\<in>set ds. DISK_match name"
  shows "fold_result plan_disk (map (\<lambda>(name, blocks, rs). disk_json name blocks rs) ds) st =
     fold_result plan_partition (map partition_json (concat (map (\<lambda>(name, blocks, rs). rs) ds))) st"
  using assms by (induction ds arbitrary: st) (auto simp: plan_disk_of fold_result_append bind_result_def split: sum.splits)

definition inventory_json :: "(string \<times> int \<times> plan_record list) list \<Rightarrow> (string \<times> json) list" where
  "inventory_json ds = [(''disks'', JList (map (\<lambda>(name, blocks, rs). disk_json name blocks rs) ds))]"


definition demo_hex :: "nat \<Rightarrow> string" where
  "demo_hex i = [''0123456789abcdef'' ! (i div 16), ''0123456789abcdef'' ! (i mod 16)]"

definition demo_part :: "nat \<Rightarrow> string \<Rightarrow> plan_record" where
  "demo_part i label =
     \<lparr>pr_node = ''sda'' @ show_nat (i + 1), pr_label = label,
      pr_guid = ''00000000-0000-0000-0000-0000000000'' @ demo_hex i,
      pr_size_bytes = 4096, pr_size_sectors = 8, pr_start_sectors = 8 * int i\<rparr>"

definition demo_parts :: "plan_record list" where
  "demo_parts = demo_part 107 ''super'' # demo_part 108 ''userdata''
     # map (\<lambda>i. demo_part i (''p'' @ demo_hex i)) [0..<107]"

definition demo_disks :: "(string \<times> int \<times> plan_record list) list" where
  "demo_disks = (''sda'', 1024, demo_parts) # map (\<lambda>c. (''sd'' @ [c], 1024, [])) ''bcdefg''"

lemma demo_digit:
  assumes "i < 16"
  shows "is_hex (''0123456789abcdef'' ! i)" "label_char (''0123456789abcdef'' ! i)" "''0123456789abcdef'' ! i \<noteq> CHR ''-''"
proof -
  from assms have "''0123456789abcdef'' ! i \<in> set ''0123456789abcdef''" by (intro nth_mem) simp
  moreover have "\<forall>c\<in>set ''0123456789abcdef''. is_hex c \<and> label_char c \<and> c \<noteq> CHR ''-''" by code_simp
  ultimately show "is_hex (''0123456789abcdef'' ! i)" "label_char (''0123456789abcdef'' ! i)"
    "''0123456789abcdef'' ! i \<noteq> CHR ''-''" by blast+
qed

lemma demo_hex_inj: "inj_on demo_hex {0..<256}"
proof (rule inj_onI)
  fix i j :: nat
  assume *: "i \<in> {0..<256}" "j \<in> {0..<256}" "demo_hex i = demo_hex j"
  have d: "distinct ''0123456789abcdef''" by code_simp
  from * have "i div 16 = j div 16" "i mod 16 = j mod 16"
    by (auto simp: demo_hex_def nth_eq_iff_index_eq [OF d])
  then show "i = j" by (metis div_mult_mod_eq)
qed

lemma demo_node: "DEVICE_match (''sda'' @ show_nat n)"
proof -
  have digits: "list_all is_digit (show_nat n)" by (auto simp: list_all_iff show_nat_digits)
  have lower: "\<not> is_lower c" if "is_digit c" for c using that by (auto simp: is_lower_def is_digit_def)
  obtain c s where cs: "show_nat n = c # s" by (cases "show_nat n") auto
  with digits lower have "takeWhile is_lower (show_nat n) = []" "dropWhile is_lower (show_nat n) = show_nat n"
    by simp_all
  moreover have "is_lower CHR ''a''" by code_simp
  ultimately show ?thesis using digits by (simp add: DEVICE_match_def)
qed

lemma demo_entry_ok:
  assumes "i < 256" and "LABEL_match label"
  shows "entry_ok (demo_part i label)"
proof -
  have hex: "i div 16 < 16" "i mod 16 < 16" using assms(1) by auto
  note digits = demo_digit [OF hex(1)] demo_digit [OF hex(2)]
  have "is_hex CHR ''0''" by code_simp
  with digits have "UUID_match (pr_guid (demo_part i label))"
    by (simp add: UUID_match_def demo_part_def demo_hex_def list_all_iff)
  with assms(2) demo_node [of "i + 1"] show ?thesis
    by (simp add: entry_ok_def plan_record_ok_def demo_part_def)
qed

lemma demo_label:
  assumes "i < 256"
  shows "LABEL_match (''p'' @ demo_hex i)"
proof -
  have "label_char CHR ''p''" by code_simp
  moreover have "i div 16 < 16" "i mod 16 < 16" using assms by auto
  ultimately show ?thesis using demo_digit(2) by (simp add: LABEL_match_def demo_hex_def)
qed

lemma demo_selected: "selected demo_parts = map (\<lambda>i. demo_part i (''p'' @ demo_hex i)) [0..<107]"
  by (simp add: demo_parts_def selected_def demo_part_def EXCLUDED_PARTITIONS_def demo_hex_def filter_id_conv)

lemma demo_parts_ok:
  "\<forall>r\<in>set demo_parts. entry_ok r" "distinct (map pr_label demo_parts)"
  "distinct (map pr_guid (selected demo_parts))"
proof -
  have "LABEL_match ''super''" "LABEL_match ''userdata''" by code_simp+
  then show "\<forall>r\<in>set demo_parts. entry_ok r"
    by (auto simp: demo_parts_def intro!: demo_entry_ok demo_label [simplified])
  have inj: "inj_on demo_hex {0..<107}" by (rule inj_on_subset [OF demo_hex_inj]) auto
  then show "distinct (map pr_label demo_parts)"
    by (auto simp: demo_parts_def demo_part_def comp_def distinct_map inj_on_def)
  from inj show "distinct (map pr_guid (selected demo_parts))"
    by (simp add: demo_selected demo_part_def comp_def distinct_map inj_on_def)
qed

lemma demo_counts: "length demo_parts = 109" "length (selected demo_parts) = 107"
  by (simp add: demo_parts_def) (simp add: demo_selected)

lemma demo_disks_ok:
  "length demo_disks = 7" "\<forall>(name, blocks, rs)\<in>set demo_disks. DISK_match name"
  "concat (map (\<lambda>(name, blocks, rs). rs) demo_disks) = demo_parts"
proof -
  show "length demo_disks = 7" by (simp add: demo_disks_def)
  have "\<forall>name\<in>set (map fst demo_disks). DISK_match name" by (simp add: demo_disks_def) code_simp
  then show "\<forall>(name, blocks, rs)\<in>set demo_disks. DISK_match name" by auto
  show "concat (map (\<lambda>(name, blocks, rs). rs) demo_disks) = demo_parts"
    by (simp add: demo_disks_def)
qed


lemma demo_planned:
  "backup_plan (inventory_json demo_disks) =
     Inr (selected demo_parts, sum_list (map pr_size_bytes (selected demo_parts)))"
  by (simp add: backup_plan_def seven_disks_def inventory_json_def as_list_def dict_get_def demo_disks_ok
      plan_disks_of [OF demo_disks_ok(2)] plan_partitions_of [OF demo_parts_ok] demo_counts)

theorem backup_plan_sound_witness:
  "length (selected demo_parts) = 107 \<and> list_all plan_record_ok (selected demo_parts)
     \<and> 107 * 512 \<le> sum_list (map pr_size_bytes (selected demo_parts))"
  using backup_plan_sound [OF demo_planned] by (simp add: list_all_iff)

lemma gpt_plan_disk_of:
  assumes "DISK_match name" and "11 < blocks"
  shows "gpt_plan_disk (disk_json name blocks rs) acc =
     Inr (fst acc @ map (\<lambda>(role, offset, n).
            \<lparr>gr_disk = name, gr_disk_guid = JStr ''00000000-0000-0000-0000-000000000001'',
             gr_sectors = blocks * 8, gr_logical = 4096, gr_role = role, gr_offset = offset, gr_size = n\<rparr>)
          [(''primary'', 0, 24576), (''backup'', (blocks - 5) * 4096, 20480)], snd acc + 45056)"
  using assms
  by (simp add: gpt_plan_disk_def disk_json_def header_json_of_def as_dict_def dict_get_def dict_get_or_def
      Let_def gpt_ranges_def int_item_def dict_item_def option_result_def algebra_simps)

definition demo_ranges :: "gpt_record list" where
  "demo_ranges = concat (map (\<lambda>c. map (\<lambda>(role, offset, n).
            \<lparr>gr_disk = ''sd'' @ [c], gr_disk_guid = JStr ''00000000-0000-0000-0000-000000000001'',
             gr_sectors = 8192, gr_logical = 4096, gr_role = role, gr_offset = offset, gr_size = n\<rparr>)
          [(''primary'', 0, 24576), (''backup'', 4173824, 20480)]) ''abcdefg'')"

lemma demo_gpt_planned: "gpt_backup_plan (inventory_json demo_disks) = Inr (demo_ranges, 315392)"
proof -
  have "DISK_match (''sd'' @ [c])" if "is_lower c" for c using that by (simp add: DISK_match_def)
  moreover have "list_all is_lower ''abcdefg''" by code_simp
  ultimately show ?thesis
    by (simp add: gpt_backup_plan_def seven_disks_def inventory_json_def as_list_def dict_get_def
        demo_disks_def gpt_plan_disk_of demo_ranges_def)
qed

theorem gpt_backup_plan_sound_witness:
  "\<exists>pairs. length pairs = 7 \<and> demo_ranges = concat (map (\<lambda>(p, b). [p, b]) pairs)
     \<and> list_all range_pair_ok pairs"
  using gpt_backup_plan_sound [OF demo_gpt_planned] by (auto simp: list_all_iff)

end
