(* ===== verification/Storage_Backup.thy ===== *)
theory Storage_Backup
  imports Storage_Plan
begin

section \<open>Copying and resuming a storage backup\<close>

text \<open>
  Models the copying half of \<^verbatim>\<open>scripts/host/backup-readonly-storage-inventory.py\<close>: the remote
  commands, the streams into exclusive partial files, the two append-only manifests, resuming, and
  \<open>main\<close>. The phone is a script of replies to the SSH calls, the host's kernel a script of outcomes
  of file-system calls: success, \<open>OSError\<close>, a \<open>KeyboardInterrupt\<close> at that point, or the end of the
  process there (power loss, \<open>SIGKILL\<close>), after which no handler runs. A write that fails may have
  written a prefix, and closing a buffered stream writes what the failed flush left.
\<close>

subsection \<open>State\<close>

datatype fault = Pass | Fault nat | Signal nat | Kill nat

text \<open>
  What an SSH child does: exit with a status after writing to its outputs; outlive the timeout, or
  be overtaken by an interrupt, having written something and heeding \<open>SIGTERM\<close> or not; or be there
  when the host process dies.
\<close>

datatype remote =
    Exit int bytes bytes
  | Expired bytes bool
  | Interrupted bytes bool
  | Lost bytes

datatype area = Gpt | Partitions

record bk_file =
  bf_info :: path_info
  bf_data :: bytes

record bk_dir =
  bd_info :: path_info
  bd_files :: "(string \<times> bk_file) list"
  bd_log :: "bk_file option"
  bd_pending :: bytes

record bk =
  bk_dir :: "area \<Rightarrow> bk_dir"
  bk_output :: path_info
  bk_faults :: "fault list"
  bk_remote :: "remote list"
  bk_sent :: "string list list"
  bk_child :: "bool option"
  bk_signals :: "string list"
  bk_said :: "string list"

record bk_env =
  en_sha256 :: "bytes \<Rightarrow> string"
  en_euid :: nat
  en_text_mode :: nat

definition missing_path :: path_info where
  "missing_path = \<lparr>pi_missing = True, pi_symlink = False, pi_regular = False, pi_directory = False,
     pi_uid = 0, pi_mode = 0\<rparr>"

definition new_file :: "bk_env \<Rightarrow> path_info" where
  "new_file env = \<lparr>pi_missing = False, pi_symlink = False, pi_regular = True, pi_directory = False,
     pi_uid = en_euid env, pi_mode = 384\<rparr>"

definition new_directory :: "bk_env \<Rightarrow> path_info" where
  "new_directory env = \<lparr>pi_missing = False, pi_symlink = False, pi_regular = False, pi_directory = True,
     pi_uid = en_euid env, pi_mode = 448\<rparr>"

definition on_dir :: "area \<Rightarrow> (bk_dir \<Rightarrow> bk_dir) \<Rightarrow> bk \<Rightarrow> bk" where
  "on_dir a f s = s\<lparr>bk_dir := (bk_dir s)(a := f (bk_dir s a))\<rparr>"

definition put_file :: "string \<Rightarrow> bk_file \<Rightarrow> bk_dir \<Rightarrow> bk_dir" where
  "put_file name f d = d\<lparr>bd_files := (name, f) # filter (\<lambda>(n, _). n \<noteq> name) (bd_files d)\<rparr>"

definition drop_file :: "string \<Rightarrow> bk_dir \<Rightarrow> bk_dir" where
  "drop_file name d = d\<lparr>bd_files := filter (\<lambda>(n, _). n \<noteq> name) (bd_files d)\<rparr>"

definition file_of :: "string \<Rightarrow> bk_dir \<Rightarrow> bk_file option" where
  "file_of name d = map_of (bd_files d) name"

subsection \<open>System calls\<close>

fun fault_result :: "fault \<Rightarrow> unit result" where
  "fault_result Pass = Inr ()"
| "fault_result (Fault n) = Inl OSError"
| "fault_result (Signal n) = Inl KeyboardInterrupt"
| "fault_result (Kill n) = Inl Killed"

fun fault_written :: "fault \<Rightarrow> bytes \<Rightarrow> bytes" where
  "fault_written Pass bs = bs"
| "fault_written (Fault n) bs = take n bs"
| "fault_written (Signal n) bs = take n bs"
| "fault_written (Kill n) bs = take n bs"

definition pending_fault :: "bk \<Rightarrow> fault" where
  "pending_fault s = (case bk_faults s of [] \<Rightarrow> Pass | f # _ \<Rightarrow> f)"

definition sys :: "(bk \<Rightarrow> bk) \<Rightarrow> (bk, unit) io" where
  "sys f s =
     (let r = fault_result (pending_fault s); t = s\<lparr>bk_faults := drop 1 (bk_faults s)\<rparr>
      in case r of Inl e \<Rightarrow> (Inl e, t) | Inr _ \<Rightarrow> (Inr (), f t))"

text \<open>\<open>except BaseException: ...; raise\<close>: the handler runs unless the process is gone.\<close>

definition on_raise :: "('s, 'a) io \<Rightarrow> ('s, unit) io \<Rightarrow> ('s, 'a) io" where
  "on_raise m h s =
     (case m s of
        (Inl e, t) \<Rightarrow> if e = Killed then (Inl e, t) else bind_io h (\<lambda>_. raise e) t
      | (Inr x, t) \<Rightarrow> (Inr x, t))"

definition say :: "string \<Rightarrow> (bk, unit) io" where
  "say line = modify (\<lambda>s. s\<lparr>bk_said := bk_said s @ [line]\<rparr>)"

subsection \<open>Remote commands\<close>

definition ssh_base :: "string \<Rightarrow> string \<Rightarrow> string list" where
  "ssh_base key known_hosts =
     [''ssh'', ''-n'', ''-F'', ''/dev/null'', ''-i'', key,
      ''-o'', ''IdentitiesOnly=yes'', ''-o'', ''BatchMode=yes'', ''-o'', ''StrictHostKeyChecking=yes'',
      ''-o'', ''UserKnownHostsFile='' @ known_hosts, ''-o'', ''GlobalKnownHostsFile=/dev/null'',
      ''-o'', ''HostKeyAlias=rog5-fallback'', ''-o'', ''ConnectTimeout=8'', ''-o'', ''ConnectionAttempts=1'',
      ''-o'', ''ServerAliveInterval=5'', ''-o'', ''ServerAliveCountMax=2'', ''-o'', ''LogLevel=ERROR'',
      ''root@169.254.77.2'']"

definition next_remote :: "string list \<Rightarrow> bk \<Rightarrow> remote \<times> bk" where
  "next_remote argv s =
     ((case bk_remote s of [] \<Rightarrow> Exit 255 [] [] | r # _ \<Rightarrow> r),
      s\<lparr>bk_remote := drop 1 (bk_remote s), bk_sent := bk_sent s @ [argv]\<rparr>)"

definition run_text :: "string list \<Rightarrow> string \<Rightarrow> (bk, string) io" where
  "run_text base command =
     bind_io (sys id) (\<lambda>_ s.
       case next_remote (base @ [command]) s of
         (Exit returncode stdout stderr, t) \<Rightarrow>
           (if \<not> utf8_ok stdout \<or> \<not> utf8_ok stderr then Inl UnicodeError
            else if returncode \<noteq> 0
            then Inl (BackupError (''remote read failed ('' @ show_int returncode @ ''): ''
                                   @ strip (universal_newlines stderr)))
            else Inr (strip (universal_newlines stdout)), t)
       | (Expired _ _, t) \<Rightarrow> (Inl SubprocessError, t)
       | (Interrupted _ _, t) \<Rightarrow> (Inl KeyboardInterrupt, t)
       | (Lost _, t) \<Rightarrow> (Inl Killed, t))"

definition boot_check :: "string \<Rightarrow> string" where
  "boot_check boot_id =
     ''set -eu; [ \"$(cat /proc/sys/kernel/random/boot_id)\" = '' @ shlex_quote boot_id @ '' ]; ''"

definition validation_prefix :: "string \<Rightarrow> plan_record \<Rightarrow> string" where
  "validation_prefix boot_id r =
     boot_check boot_id
     @ ''[ \"$(cat /sys/class/block/'' @ pr_node r @ ''/size)\" = '' @ show_int (pr_size_sectors r) @ '' ]; ''
     @ ''[ \"$(cat /sys/class/block/'' @ pr_node r @ ''/start)\" = '' @ show_int (pr_start_sectors r) @ '' ]; ''
     @ ''[ \"$(sed -n '' @ [CHR 0x27] @ ''s/^PARTNAME=//p'' @ [CHR 0x27] @ '' /sys/class/block/'' @ pr_node r
     @ ''/uevent)\" = '' @ shlex_quote (pr_label r) @ '' ]; ''"

definition gpt_validation_prefix :: "string \<Rightarrow> gpt_record \<Rightarrow> string" where
  "gpt_validation_prefix boot_id r =
     boot_check boot_id
     @ ''[ \"$(cat /sys/class/block/'' @ gr_disk r @ ''/size)\" = '' @ show_int (gr_sectors r) @ '' ]; ''
     @ ''[ \"$(cat /sys/class/block/'' @ gr_disk r @ ''/queue/logical_block_size)\" = ''
     @ show_int (gr_logical r) @ '' ]; ''"

definition gpt_read_command :: "string \<Rightarrow> gpt_record \<Rightarrow> string" where
  "gpt_read_command boot_id r =
     gpt_validation_prefix boot_id r
     @ ''dd if=/dev/'' @ gr_disk r @ '' bs='' @ show_int (gr_logical r)
     @ '' skip='' @ show_int (gr_offset r div gr_logical r)
     @ '' count='' @ show_int (gr_size r div gr_logical r) @ '' status=none''"

definition remote_digest :: "string list \<Rightarrow> string \<Rightarrow> string \<Rightarrow> (bk, string) io" where
  "remote_digest base command invalid =
     bind_io (run_text base command) (\<lambda>answer.
       let digest = first_word answer in
       if \<not> SHA256_match digest then raise (BackupError invalid) else ret digest)"

definition source_sha256 :: "string list \<Rightarrow> string \<Rightarrow> plan_record \<Rightarrow> (bk, string) io" where
  "source_sha256 base boot_id r =
     remote_digest base (validation_prefix boot_id r @ ''exec sha256sum /dev/'' @ pr_node r)
       (''source hash is invalid for '' @ pr_label r)"

definition source_gpt_sha256 :: "string list \<Rightarrow> string \<Rightarrow> gpt_record \<Rightarrow> (bk, string) io" where
  "source_gpt_sha256 base boot_id r =
     remote_digest base (gpt_read_command boot_id r @ '' | sha256sum'')
       (''source GPT hash is invalid for '' @ gr_disk r @ '' '' @ gr_role r)"

subsection \<open>Streams into a partial file\<close>

definition stop_child :: "(bk, unit) io" where
  "stop_child = modify (\<lambda>s.
     case bk_child s of
       None \<Rightarrow> s
     | Some stubborn \<Rightarrow>
         s\<lparr>bk_child := None,
           bk_signals := bk_signals s @ ''SIGTERM'' # (if stubborn then [''SIGKILL''] else [])\<rparr>)"

definition open_exclusive :: "bk_env \<Rightarrow> area \<Rightarrow> string \<Rightarrow> (bk, unit) io" where
  "open_exclusive env a name =
     bind_io (gets (\<lambda>s. file_of name (bk_dir s a))) (\<lambda>f.
       if f \<noteq> None then raise FileExistsError
       else sys (on_dir a (put_file name \<lparr>bf_info = new_file env, bf_data = []\<rparr>)))"

definition append_data :: "string \<Rightarrow> bytes \<Rightarrow> bk_dir \<Rightarrow> bk_dir" where
  "append_data name bs d =
     (case file_of name d of
        None \<Rightarrow> d
      | Some f \<Rightarrow> put_file name (f\<lparr>bf_data := bf_data f @ bs\<rparr>) d)"

definition communicate :: "area \<Rightarrow> string \<Rightarrow> string list \<Rightarrow> (bk, int \<times> bytes) io" where
  "communicate a partial argv s =
     (case next_remote argv s of
        (Exit returncode stdout stderr, t) \<Rightarrow>
          (Inr (returncode, stderr), on_dir a (append_data partial stdout) t)
      | (Expired stdout stubborn, t) \<Rightarrow>
          (Inl SubprocessError, on_dir a (append_data partial stdout) (t\<lparr>bk_child := Some stubborn\<rparr>))
      | (Interrupted stdout stubborn, t) \<Rightarrow>
          (Inl KeyboardInterrupt, on_dir a (append_data partial stdout) (t\<lparr>bk_child := Some stubborn\<rparr>))
      | (Lost stdout, t) \<Rightarrow>
          (Inl Killed, on_dir a (append_data partial stdout) (t\<lparr>bk_child := Some True\<rparr>)))"

definition need_file :: "area \<Rightarrow> string \<Rightarrow> (bk, bk_file) io" where
  "need_file a name = bind_io (gets (\<lambda>s. file_of name (bk_dir s a))) (\<lambda>f.
     case f of None \<Rightarrow> raise FileNotFoundError | Some f \<Rightarrow> ret f)"

definition fsync_directory :: "(bk, unit) io" where
  "fsync_directory = bind_io (sys id) (\<lambda>_. sys id)"

definition rename_file :: "area \<Rightarrow> string \<Rightarrow> string \<Rightarrow> (bk, unit) io" where
  "rename_file a old new =
     bind_io (need_file a old) (\<lambda>f. sys (on_dir a (\<lambda>d. put_file new f (drop_file old d))))"

definition stream_body :: "area \<Rightarrow> string list \<Rightarrow> string \<Rightarrow> string \<Rightarrow> int \<Rightarrow> string \<Rightarrow> string \<Rightarrow> (bk, unit) io" where
  "stream_body a argv failed bad_size size_bytes partial name =
     bind_io (sys id) (\<lambda>_.
     bind_io (on_raise (communicate a partial argv) stop_child) (\<lambda>(returncode, stderr).
     bind_io (when_raise (returncode \<noteq> 0) (BackupError (failed @ '': '' @ strip (utf8_replace stderr)))) (\<lambda>_.
     bind_io (sys id) (\<lambda>_.
     bind_io (need_file a partial) (\<lambda>f.
     bind_io (when_raise (int (length (bf_data f)) \<noteq> size_bytes) (BackupError bad_size)) (\<lambda>_.
     bind_io (rename_file a partial name) (\<lambda>_.
     fsync_directory)))))))"

definition stream_to :: "bk_env \<Rightarrow> area \<Rightarrow> string list \<Rightarrow> string \<Rightarrow> string \<Rightarrow> int \<Rightarrow> string \<Rightarrow> (bk, unit) io" where
  "stream_to env a argv failed bad_size size_bytes name =
     (let partial = name @ ''.partial'' in
      bind_io (open_exclusive env a partial) (\<lambda>_.
        on_raise (stream_body a argv failed bad_size size_bytes partial name)
          (sys (on_dir a (drop_file partial)))))"

definition stream_partition ::
    "bk_env \<Rightarrow> string list \<Rightarrow> string \<Rightarrow> plan_record \<Rightarrow> string \<Rightarrow> (bk, unit) io" where
  "stream_partition env base boot_id r name =
     stream_to env Partitions
       (base @ [validation_prefix boot_id r @ ''exec dd if=/dev/'' @ pr_node r @ '' bs=4194304 status=none''])
       (''partition stream failed for '' @ pr_label r) (''partition size mismatch for '' @ pr_label r)
       (pr_size_bytes r) name"

definition stream_gpt ::
    "bk_env \<Rightarrow> string list \<Rightarrow> string \<Rightarrow> gpt_record \<Rightarrow> string \<Rightarrow> (bk, unit) io" where
  "stream_gpt env base boot_id r name =
     stream_to env Gpt (base @ [gpt_read_command boot_id r])
       (''GPT stream failed for '' @ gr_disk r @ '' '' @ gr_role r)
       (''GPT range size mismatch for '' @ gr_disk r @ '' '' @ gr_role r) (gr_size r) name"

definition file_sha256 :: "bk_env \<Rightarrow> area \<Rightarrow> string \<Rightarrow> (bk, string) io" where
  "file_sha256 env a name =
     bind_io (need_file a name) (\<lambda>f. bind_io (sys id) (\<lambda>_. ret (en_sha256 env (bf_data f))))"

subsection \<open>Manifests\<close>

abbreviation TAB :: char where
  "TAB \<equiv> CHR 0x09"

definition PARTITION_MANIFEST_HEADER :: string where
  "PARTITION_MANIFEST_HEADER =
     join [TAB] [''file'', ''label'', ''node'', ''bytes'', ''unique_guid'', ''source_sha256'', ''host_sha256'']"

definition GPT_MANIFEST_HEADER :: string where
  "GPT_MANIFEST_HEADER =
     join [TAB] [''file'', ''disk'', ''role'', ''offset_bytes'', ''bytes'', ''disk_guid'', ''source_sha256'', ''host_sha256'']"

definition info_of :: "bk_file option \<Rightarrow> path_info" where
  "info_of f = (case f of None \<Rightarrow> missing_path | Some f \<Rightarrow> bf_info f)"

definition data_of :: "bk_file option \<Rightarrow> bytes" where
  "data_of f = (case f of None \<Rightarrow> [] | Some f \<Rightarrow> bf_data f)"

definition private_file :: "bk_env \<Rightarrow> bk_file option \<Rightarrow> string \<Rightarrow> unit result" where
  "private_file env f label =
     bind_result (canonical_file (en_euid env) (info_of f) label True) (\<lambda>_.
       if pi_mode (info_of f) \<noteq> 384 then Inl (BackupError (label @ '' is not mode 0600'')) else Inr ())"

definition verified_resume_file ::
    "bk_env \<Rightarrow> bk_file option \<Rightarrow> int \<Rightarrow> string \<Rightarrow> string \<Rightarrow> unit result" where
  "verified_resume_file env f size_bytes digest label =
     bind_result (private_file env f label) (\<lambda>_.
       if int (length (data_of f)) \<noteq> size_bytes then Inl (BackupError (label @ '' has the wrong size''))
       else if en_sha256 env (data_of f) \<noteq> digest
       then Inl (BackupError (label @ '' does not match its accepted hash''))
       else Inr ())"

definition manifest_lines :: "bk_env \<Rightarrow> bk_file option \<Rightarrow> string \<Rightarrow> string \<Rightarrow> string list list result" where
  "manifest_lines env f header label =
     bind_result (private_file env f label) (\<lambda>_.
       if \<not> utf8_ok (data_of f) then Inl (BackupError (label @ '' cannot be read''))
       else let ls = text_lines (data_of f) in
       if ls = [] \<or> hd ls \<noteq> header \<or> [] \<in> set (tl ls)
       then Inl (BackupError (label @ '' header or records are invalid''))
       else Inr (map (split_on TAB) (tl ls)))"

text \<open>What a manifest row must say of a planned range: file name, leading columns, size.\<close>

record copy_job =
  cj_name :: string
  cj_columns :: "string list"
  cj_size :: int

definition resume_row :: "bk_env \<Rightarrow> bk_dir \<Rightarrow> string \<Rightarrow> nat \<times> string list \<times> copy_job \<Rightarrow> unit \<Rightarrow> unit result" where
  "resume_row env d what x u =
     (case x of (index, row, job) \<Rightarrow>
        let n = length (cj_columns job);
            which = what @ '' manifest record '' @ show_nat index in
        if length row \<noteq> n + 2 \<or> take n row \<noteq> cj_columns job
        then Inl (BackupError (which @ '' is not the exact plan prefix''))
        else if \<not> SHA256_match (row ! n) \<or> row ! n \<noteq> row ! (n + 1)
        then Inl (BackupError (which @ '' has invalid hashes''))
        else verified_resume_file env (file_of (cj_name job) d) (cj_size job) (row ! (n + 1))
               (what @ '' file '' @ cj_name job))"

definition verify_resume :: "bk_env \<Rightarrow> bk_dir \<Rightarrow> string \<Rightarrow> string \<Rightarrow> copy_job list \<Rightarrow> nat result" where
  "verify_resume env d header what jobs =
     bind_result (manifest_lines env (bd_log d) header (what @ '' manifest'')) (\<lambda>rows.
       if length jobs < length rows
       then Inl (BackupError (what @ '' manifest contains more records than the exact plan''))
       else bind_result (fold_result (resume_row env d what) (enumerate 1 (zip rows jobs)) ()) (\<lambda>_.
         if set (map fst (bd_files d)) \<noteq> set (map cj_name (take (length rows) jobs))
         then Inl (BackupError (what @ '' directory is not the exact accepted manifest prefix''))
         else Inr (length rows)))"

definition gpt_job :: "gpt_record \<Rightarrow> copy_job" where
  "gpt_job r =
     (let filename = gr_disk r @ ''-'' @ gr_role r @ ''.bin'' in
      \<lparr>cj_name = filename,
       cj_columns = [''gpt/'' @ filename, gr_disk r, gr_role r, show_int (gr_offset r), show_int (gr_size r),
                     py_str (gr_disk_guid r)],
       cj_size = gr_size r\<rparr>)"

definition pad3 :: "nat \<Rightarrow> string" where
  "pad3 n = replicate (3 - length (show_nat n)) CHR ''0'' @ show_nat n"

definition partition_job :: "nat \<times> plan_record \<Rightarrow> copy_job" where
  "partition_job x =
     (case x of (index, r) \<Rightarrow>
        let filename = pad3 index @ ''-'' @ pr_label r @ ''.img'' in
        \<lparr>cj_name = filename,
         cj_columns = [''partitions/'' @ filename, pr_label r, pr_node r, show_int (pr_size_bytes r), pr_guid r],
         cj_size = pr_size_bytes r\<rparr>)"

definition verify_gpt_resume :: "bk_env \<Rightarrow> bk_dir \<Rightarrow> gpt_record list \<Rightarrow> nat result" where
  "verify_gpt_resume env d plan = verify_resume env d GPT_MANIFEST_HEADER ''GPT'' (map gpt_job plan)"

definition verify_partition_resume :: "bk_env \<Rightarrow> bk_dir \<Rightarrow> plan_record list \<Rightarrow> nat result" where
  "verify_partition_resume env d plan =
     verify_resume env d PARTITION_MANIFEST_HEADER ''partition'' (map partition_job (enumerate 1 plan))"

text \<open>A buffered text stream on a manifest: a write stays pending until it is flushed.\<close>

definition log_append :: "bytes \<Rightarrow> bk_dir \<Rightarrow> bk_dir" where
  "log_append bs d = d\<lparr>bd_log := map_option (\<lambda>f. f\<lparr>bf_data := bf_data f @ bs\<rparr>) (bd_log d)\<rparr>"

definition write_log :: "area \<Rightarrow> string \<Rightarrow> (bk, unit) io" where
  "write_log a line = modify (on_dir a (\<lambda>d. d\<lparr>bd_pending := bd_pending d @ line\<rparr>))"

definition flush_log :: "area \<Rightarrow> (bk, unit) io" where
  "flush_log a s =
     (let data = bd_pending (bk_dir s a); sent = fault_written (pending_fault s) data in
      (fault_result (pending_fault s),
       on_dir a (\<lambda>d. (log_append sent d)\<lparr>bd_pending := drop (length sent) data\<rparr>)
         (s\<lparr>bk_faults := drop 1 (bk_faults s)\<rparr>)))"

definition close_log :: "area \<Rightarrow> (bk, unit) io" where
  "close_log a s = (if bd_pending (bk_dir s a) = [] then (Inr (), s) else flush_log a s)"

definition with_log :: "area \<Rightarrow> (bk, 'a) io \<Rightarrow> (bk, 'a) io" where
  "with_log a m s =
     (case m s of
        (Inl Killed, t) \<Rightarrow> (Inl Killed, t)
      | (r, t) \<Rightarrow> (case close_log a t of (Inl e, u) \<Rightarrow> (Inl e, u) | (Inr _, u) \<Rightarrow> (r, u)))"

definition open_log :: "area \<Rightarrow> (bk, unit) io" where
  "open_log a = sys (on_dir a (\<lambda>d. d\<lparr>bd_pending := []\<rparr>))"

definition append_row :: "area \<Rightarrow> string list \<Rightarrow> (bk, unit) io" where
  "append_row a row =
     bind_io (write_log a (join [TAB] row @ [LF])) (\<lambda>_. bind_io (flush_log a) (\<lambda>_. sys id))"

definition create_log :: "bk_env \<Rightarrow> area \<Rightarrow> string \<Rightarrow> (bk, unit) io" where
  "create_log env a header =
     bind_io (gets (\<lambda>s. bd_log (bk_dir s a))) (\<lambda>f.
       if f \<noteq> None then raise FileExistsError
       else bind_io (sys (on_dir a (\<lambda>d. d\<lparr>bd_pending := [], bd_log := Some
              \<lparr>bf_info = (new_file env)\<lparr>pi_mode := en_text_mode env\<rparr>, bf_data = []\<rparr>\<rparr>))) (\<lambda>_.
         with_log a (bind_io
           (sys (on_dir a (\<lambda>d. d\<lparr>bd_log := map_option (\<lambda>f. f\<lparr>bf_info := new_file env\<rparr>) (bd_log d)\<rparr>)))
           (\<lambda>_. append_row a [header]))))"

subsection \<open>The two loops\<close>

definition copy_range ::
    "bk_env \<Rightarrow> area \<Rightarrow> (bk, string) io \<Rightarrow> (string \<Rightarrow> (bk, unit) io) \<Rightarrow> copy_job \<Rightarrow> string \<Rightarrow> (string \<Rightarrow> string)
     \<Rightarrow> (bk, unit) io" where
  "copy_range env a source stream job mismatch report =
     bind_io source (\<lambda>source_digest.
     bind_io (stream (cj_name job)) (\<lambda>_.
     bind_io (file_sha256 env a (cj_name job)) (\<lambda>host_digest.
     bind_io (when_raise (source_digest \<noteq> host_digest) (BackupError mismatch)) (\<lambda>_.
     bind_io (append_row a (cj_columns job @ [source_digest, host_digest])) (\<lambda>_.
     say (report host_digest))))))"

definition copy_gpt :: "bk_env \<Rightarrow> string list \<Rightarrow> string \<Rightarrow> nat \<times> gpt_record \<Rightarrow> (bk, unit) io" where
  "copy_gpt env base boot_id x =
     (case x of (index, r) \<Rightarrow>
        copy_range env Gpt (source_gpt_sha256 base boot_id r) (stream_gpt env base boot_id r) (gpt_job r)
          (''source/host GPT hash mismatch: '' @ gr_disk r @ '' '' @ gr_role r)
          (\<lambda>digest. ''GPT_BACKED_UP '' @ show_nat index @ ''/14 disk='' @ gr_disk r @ '' role='' @ gr_role r
             @ '' sha256='' @ digest))"

definition copy_partition :: "bk_env \<Rightarrow> string list \<Rightarrow> string \<Rightarrow> nat \<times> plan_record \<Rightarrow> (bk, unit) io" where
  "copy_partition env base boot_id x =
     (case x of (index, r) \<Rightarrow>
        copy_range env Partitions (source_sha256 base boot_id r) (stream_partition env base boot_id r)
          (partition_job (index, r)) (''source/host hash mismatch: '' @ pr_label r)
          (\<lambda>digest. ''BACKED_UP '' @ show_nat index @ ''/107 label='' @ pr_label r
             @ '' bytes='' @ show_int (pr_size_bytes r) @ '' sha256='' @ digest))"

subsection \<open>The command\<close>

record bk_args =
  ar_inventory :: path_info
  ar_payload :: "json option"
  ar_key :: string
  ar_key_info :: path_info
  ar_hosts :: string
  ar_hosts_info :: path_info
  ar_output :: string
  ar_parent_missing :: bool
  ar_resume :: bool
  ar_free :: int

definition resume_output :: "bk_env \<Rightarrow> plan_record list \<Rightarrow> gpt_record list \<Rightarrow> (bk, nat \<times> nat) io" where
  "resume_output env plan gpt_plan =
     bind_io (gets bk_output) (\<lambda>info.
     bind_io (lift_result (canonical_private_directory (en_euid env) info ''backup output'')) (\<lambda>_.
     bind_io (gets bk_dir) (\<lambda>dirs.
     bind_io (lift_result (canonical_private_directory (en_euid env) (bd_info (dirs Partitions))
        ''partition backup directory'')) (\<lambda>_.
     bind_io (lift_result (canonical_private_directory (en_euid env) (bd_info (dirs Gpt))
        ''GPT backup directory'')) (\<lambda>_.
     bind_io (sys id) (\<lambda>_.
     bind_io (lift_result (verify_gpt_resume env (dirs Gpt) gpt_plan)) (\<lambda>gpt_done.
     bind_io (sys id) (\<lambda>_.
     bind_io (lift_result (verify_partition_resume env (dirs Partitions) plan)) (\<lambda>partition_done.
     ret (gpt_done, partition_done))))))))))"

definition fresh_output :: "bk_env \<Rightarrow> (bk, nat \<times> nat) io" where
  "fresh_output env =
     bind_io (gets bk_output) (\<lambda>info.
     bind_io (when_raise (\<not> pi_missing info) (BackupError ''backup output already exists'')) (\<lambda>_.
     bind_io (sys (\<lambda>s. s\<lparr>bk_output := new_directory env\<rparr>)) (\<lambda>_.
     bind_io (sys (on_dir Partitions (\<lambda>d. d\<lparr>bd_info := new_directory env\<rparr>))) (\<lambda>_.
     bind_io (sys (on_dir Gpt (\<lambda>d. d\<lparr>bd_info := new_directory env\<rparr>))) (\<lambda>_.
     bind_io (create_log env Gpt GPT_MANIFEST_HEADER) (\<lambda>_.
     bind_io (create_log env Partitions PARTITION_MANIFEST_HEADER) (\<lambda>_.
     ret (0, 0))))))))"

definition copy_all ::
    "bk_env \<Rightarrow> string list \<Rightarrow> string \<Rightarrow> gpt_record list \<Rightarrow> plan_record list \<Rightarrow> nat \<times> nat \<Rightarrow> (bk, unit) io" where
  "copy_all env base boot_id gpt_plan plan finished =
     bind_io (open_log Gpt) (\<lambda>_.
     bind_io (with_log Gpt (for_each (copy_gpt env base boot_id)
        (enumerate (fst finished + 1) (drop (fst finished) gpt_plan)))) (\<lambda>_.
     bind_io (open_log Partitions) (\<lambda>_.
     with_log Partitions (for_each (copy_partition env base boot_id)
        (enumerate (snd finished + 1) (drop (snd finished) plan))))))"

text \<open>The command checks its inputs, prepares the output directory, copies and reports.\<close>

definition backup_inputs ::
    "bk_env \<Rightarrow> bk_args \<Rightarrow> ((string \<times> json) list \<times> plan_record list \<times> int \<times> gpt_record list \<times> int) result" where
  "backup_inputs env args =
     bind_result (load_inventory (en_euid env) (ar_inventory args) (ar_payload args)) (\<lambda>inventory.
     bind_result (canonical_file (en_euid env) (ar_key_info args) ''SSH key'' True) (\<lambda>_.
     bind_result (canonical_file (en_euid env) (ar_hosts_info args) ''known-hosts'' False) (\<lambda>_.
     bind_result (backup_plan inventory) (\<lambda>(plan, partition_bytes).
     bind_result (gpt_backup_plan inventory) (\<lambda>(gpt_plan, gpt_bytes).
     Inr (inventory, plan, partition_bytes, gpt_plan, gpt_bytes))))))"

definition prepare_output :: "bk_env \<Rightarrow> bk_args \<Rightarrow> plan_record list \<Rightarrow> gpt_record list \<Rightarrow> (bk, nat \<times> nat) io" where
  "prepare_output env args plan gpt_plan =
     bind_io (gets bk_output) (\<lambda>info.
     bind_io (when_raise (ar_output args = ''/'' \<or> pi_symlink info) (BackupError ''backup output is unsafe'')) (\<lambda>_.
     bind_io (when_raise (ar_parent_missing args) FileNotFoundError) (\<lambda>_.
     if ar_resume args then resume_output env plan gpt_plan else fresh_output env)))"

definition remaining_bytes :: "gpt_record list \<Rightarrow> plan_record list \<Rightarrow> nat \<times> nat \<Rightarrow> int" where
  "remaining_bytes gpt_plan plan finished =
     sum_list (map gr_size (drop (fst finished) gpt_plan))
     + sum_list (map pr_size_bytes (drop (snd finished) plan))"

definition checked_copy ::
    "bk_env \<Rightarrow> bk_args \<Rightarrow> (string \<times> json) list \<Rightarrow> plan_record list \<Rightarrow> gpt_record list \<Rightarrow> nat \<times> nat
     \<Rightarrow> (bk, unit) io" where
  "checked_copy env args inventory plan gpt_plan finished =
     bind_io (sys id) (\<lambda>_.
     bind_io (when_raise (ar_free args < remaining_bytes gpt_plan plan finished + 1024 * 1024 * 1024)
        (BackupError ''less than the required remaining backup headroom is free'')) (\<lambda>_.
     bind_io (lift_result (dict_item inventory ''boot_id'')) (\<lambda>boot.
     let boot_id = py_str boot; base = ssh_base (ar_key args) (ar_hosts args) in
     bind_io (run_text base
        (''set -eu; printf '' @ [CHR 0x27] @ ''%s'' @ [CHR 0x5C] @ ''n'' @ [CHR 0x27]
         @ '' \"$(cat /proc/sys/kernel/random/boot_id)\"'')) (\<lambda>remote_id.
     bind_io (when_raise (remote_id \<noteq> boot_id) (BackupError ''phone boot identity changed before backup'')) (\<lambda>_.
     copy_all env base boot_id gpt_plan plan finished)))))"

definition backup_body :: "bk_env \<Rightarrow> bk_args \<Rightarrow> (bk, unit) io" where
  "backup_body env args =
     bind_io (lift_result (backup_inputs env args)) (\<lambda>(inventory, plan, partition_bytes, gpt_plan, gpt_bytes).
     bind_io (prepare_output env args plan gpt_plan) (\<lambda>finished.
     bind_io (checked_copy env args inventory plan gpt_plan finished) (\<lambda>_.
     say (''PASS read-only storage backup gpt_ranges='' @ show_nat (length gpt_plan)
          @ '' partitions='' @ show_nat (length plan) @ '' bytes='' @ show_int (partition_bytes + gpt_bytes)
          @ '' output='' @ ar_output args))))"

fun backup_caught :: "exn \<Rightarrow> bool" where
  "backup_caught (BackupError m) = True"
| "backup_caught (ValueError m) = True"
| "backup_caught UnicodeError = True"
| "backup_caught OSError = True"
| "backup_caught FileNotFoundError = True"
| "backup_caught FileExistsError = True"
| "backup_caught SubprocessError = True"
| "backup_caught _ = False"

definition backup_main :: "bk_env \<Rightarrow> bk_args \<Rightarrow> (bk, nat) io" where
  "backup_main env args =
     try_except (bind_io (backup_body env args) (\<lambda>_. ret 0))
       (\<lambda>e. if backup_caught e then bind_io (say ''FAIL read-only partition backup'') (\<lambda>_. ret 1) else raise e)"

end
