(* ===== verification/Backup_Resume.thy ===== *)
theory Backup_Resume
  imports Storage_Backup
begin

section \<open>What a backup run leaves on disk\<close>

text \<open>
  The manifest of a backup area lists a prefix of the plan; every listed file is there with the
  size of the plan and the digest the phone reported. Here: a run that ends well reaches the whole
  plan, resuming accepts exactly such a state, and what an interruption can leave behind.
\<close>

subsection \<open>Directories\<close>

lemma file_of_put [simp]: "file_of m (put_file name f d) = (if m = name then Some f else file_of m d)"
  by (simp add: file_of_def put_file_def map_of_filter_key)

lemma file_of_drop [simp]: "file_of m (drop_file name d) = (if m = name then None else file_of m d)"
  by (simp add: file_of_def drop_file_def map_of_filter_key)

lemma names_put [simp]: "fst ` set (bd_files (put_file name f d)) = insert name (fst ` set (bd_files d))"
  by (auto simp: put_file_def image_iff)

lemma names_drop [simp]: "fst ` set (bd_files (drop_file name d)) = fst ` set (bd_files d) - {name}"
  by (auto simp: drop_file_def image_iff)

lemma file_of_None: "file_of name d = None \<longleftrightarrow> name \<notin> fst ` set (bd_files d)"
  by (simp add: file_of_def map_of_eq_None_iff)

lemma dir_fields_put [simp]:
  "bd_info (put_file n f d) = bd_info d" "bd_log (put_file n f d) = bd_log d"
  "bd_pending (put_file n f d) = bd_pending d"
  "bd_info (drop_file n d) = bd_info d" "bd_log (drop_file n d) = bd_log d"
  "bd_pending (drop_file n d) = bd_pending d"
  by (simp_all add: put_file_def drop_file_def)

lemma bk_dir_on_dir [simp]: "bk_dir (on_dir a f s) b = (if b = a then f (bk_dir s a) else bk_dir s b)"
  by (simp add: on_dir_def)

lemma sys_eq_Inr: "sys f s = (Inr u, t) \<longleftrightarrow>
    pending_fault s = Pass \<and> t = f (s\<lparr>bk_faults := drop 1 (bk_faults s)\<rparr>)"
  by (cases "pending_fault s") (auto simp: sys_def Let_def)

subsection \<open>Frames\<close>

text \<open>
  What a computation on the files of one area leaves alone: the other area, the manifest and the
  bytes pending for it.
\<close>

definition frame :: "area \<Rightarrow> bk \<Rightarrow> bk \<Rightarrow> bool" where
  "frame a s t \<longleftrightarrow>
     (\<forall>b. b \<noteq> a \<longrightarrow> bk_dir t b = bk_dir s b) \<and> bd_log (bk_dir t a) = bd_log (bk_dir s a)
     \<and> bd_pending (bk_dir t a) = bd_pending (bk_dir s a) \<and> bd_info (bk_dir t a) = bd_info (bk_dir s a)
     \<and> bk_output t = bk_output s"

lemma frame_refl [simp]: "frame a s s"
  by (simp add: frame_def)

lemma keeps_sys: "(\<And>t. I t \<Longrightarrow> I (t\<lparr>bk_faults := drop 1 (bk_faults t)\<rparr>)) \<Longrightarrow> (\<And>t. I t \<Longrightarrow> I (f t))
    \<Longrightarrow> keeps I (sys f)"
  by (auto simp: keeps_def sys_def Let_def split: sum.splits)

lemma frame_fields [simp]:
  "frame a s (t\<lparr>bk_faults := x1\<rparr>) = frame a s t" "frame a s (t\<lparr>bk_remote := x2\<rparr>) = frame a s t"
  "frame a s (t\<lparr>bk_sent := x3\<rparr>) = frame a s t" "frame a s (t\<lparr>bk_child := x4\<rparr>) = frame a s t"
  "frame a s (t\<lparr>bk_signals := x5\<rparr>) = frame a s t" "frame a s (t\<lparr>bk_said := x6\<rparr>) = frame a s t"
  by (simp_all add: frame_def)

lemma frame_on_dir:
  "frame a s t \<Longrightarrow> (\<And>d. bd_log (f d) = bd_log d \<and> bd_pending (f d) = bd_pending d \<and> bd_info (f d) = bd_info d)
    \<Longrightarrow> frame a s (on_dir a f t)"
  by (auto simp: frame_def on_dir_def)

lemma keeps_frame_sys [keeps_intros]:
  "(\<And>d. bd_log (f d) = bd_log d \<and> bd_pending (f d) = bd_pending d \<and> bd_info (f d) = bd_info d)
    \<Longrightarrow> keeps (frame a s) (sys (on_dir a f))" "keeps (frame a s) (sys id)"
  by (rule keeps_sys; simp add: frame_on_dir)+

lemma keeps_frame_modify [keeps_intros]: "(\<And>t. frame a s t \<Longrightarrow> frame a s (f t)) \<Longrightarrow> keeps (frame a s) (modify f)"
  by (simp add: keeps_def modify_def)

lemma keeps_on_raise [keeps_intros]: "keeps I m \<Longrightarrow> keeps I h \<Longrightarrow> keeps I (on_raise m h)"
  by (auto simp: keeps_def on_raise_def bind_io_def raise_def split: prod.splits sum.splits)

lemma keeps_case_option [keeps_intros]:
  "keeps I m \<Longrightarrow> (\<And>x. keeps I (f x)) \<Longrightarrow> keeps I (case v of None \<Rightarrow> m | Some x \<Rightarrow> f x)"
  by (cases v) auto

lemma append_data_fields [simp]:
  "bd_log (append_data n x d) = bd_log d" "bd_pending (append_data n x d) = bd_pending d"
  "bd_info (append_data n x d) = bd_info d"
  by (simp_all add: append_data_def split: option.splits)

lemma keeps_frame_communicate [keeps_intros]: "keeps (frame a s) (communicate a n argv)"
  by (rule keepsI) (auto simp: communicate_def next_remote_def frame_on_dir split: remote.splits list.splits)

lemma keeps_frame_stop_child [keeps_intros]: "keeps (frame a s) stop_child"
  by (auto simp: stop_child_def keeps_def modify_def split: option.splits)

lemma keeps_frame_need_file [keeps_intros]: "keeps (frame a s) (need_file a n)"
  unfolding need_file_def by (intro keeps_intros)

lemma keeps_frame_stream [keeps_intros]: "keeps (frame a s) (stream_to env a argv m1 m2 n name)"
  unfolding stream_to_def stream_body_def open_exclusive_def rename_file_def fsync_directory_def Let_def split_def
  by (intro keeps_intros) simp_all

lemma keeps_frame_digest [keeps_intros]: "keeps (frame a s) (remote_digest base command m)"
proof -
  have "keeps (frame a s) (run_text base command)"
    unfolding run_text_def
    by (intro keeps_bind keeps_frame_sys keepsI)
       (auto simp: next_remote_def split: remote.splits list.splits)
  then show ?thesis unfolding remote_digest_def Let_def by (intro keeps_intros)
qed

lemma keeps_frame_file_sha256 [keeps_intros]: "keeps (frame a s) (file_sha256 env b n)"
  unfolding file_sha256_def need_file_def by (intro keeps_intros)

subsection \<open>One range\<close>

text \<open>A stream that succeeds: the new file holds what the phone sent, in the planned size.\<close>

lemma stream_to_Inr:
  assumes "stream_to env a argv m1 m2 n name s = (Inr u, t)"
  obtains data where "int (length data) = n"
    "file_of name (bk_dir t a) = Some \<lparr>bf_info = new_file env, bf_data = data\<rparr>"
    "\<And>m. m \<noteq> name \<Longrightarrow> file_of m (bk_dir t a) = file_of m (bk_dir s a)"
    "fst ` set (bd_files (bk_dir t a)) = insert name (fst ` set (bd_files (bk_dir s a)))"
proof -
  define partial where "partial = name @ ''.partial''"
  have neq: "name \<noteq> partial" "partial \<noteq> name" by (auto simp: partial_def)
  from assms have none: "file_of partial (bk_dir s a) = None"
    by (auto simp: stream_to_def Let_def partial_def [symmetric] open_exclusive_def bind_io_eq_Inr gets_def
        raise_def split: if_splits)
  then have fresh: "partial \<notin> fst ` set (bd_files (bk_dir s a))" by (simp add: file_of_None)
  from assms obtain s1 where body: "stream_body a argv m1 m2 n partial name s1 = (Inr u, t)"
    and s1: "bk_dir s1 a = put_file partial \<lparr>bf_info = new_file env, bf_data = []\<rparr> (bk_dir s a)"
    by (auto simp: stream_to_def Let_def partial_def [symmetric] open_exclusive_def bind_io_eq_Inr gets_def
        raise_def sys_eq_Inr on_raise_def split: if_splits prod.splits sum.splits)
  from body obtain s2 stderr where
    com: "communicate a partial argv (s1\<lparr>bk_faults := drop 1 (bk_faults s1)\<rparr>) = (Inr (0, stderr), s2)"
    and rest: "bind_io (need_file a partial) (\<lambda>f.
       bind_io (when_raise (int (length (bf_data f)) \<noteq> n) (BackupError m2)) (\<lambda>_.
       bind_io (rename_file a partial name) (\<lambda>_. fsync_directory)))
       (s2\<lparr>bk_faults := drop 1 (bk_faults s2)\<rparr>) = (Inr u, t)"
    by (auto simp: stream_body_def bind_io_eq_Inr sys_eq_Inr on_raise_def when_raise_def raise_def
        split: if_splits prod.splits sum.splits)
  from com obtain stdout where
    s2: "bk_dir s2 a = put_file partial \<lparr>bf_info = new_file env, bf_data = stdout\<rparr> (bk_dir s1 a)"
    by (auto simp: communicate_def next_remote_def append_data_def s1 split: remote.splits list.splits)
  from rest have len: "int (length stdout) = n"
    and t: "bk_dir t a = put_file name \<lparr>bf_info = new_file env, bf_data = stdout\<rparr> (drop_file partial (bk_dir s2 a))"
    by (auto simp: need_file_def rename_file_def fsync_directory_def bind_io_eq_Inr gets_def ret_def s2
        when_raise_def sys_eq_Inr split: if_splits)
  show thesis
  proof (rule that [OF len])
    show "file_of name (bk_dir t a) = Some \<lparr>bf_info = new_file env, bf_data = stdout\<rparr>" by (simp add: t)
    show "file_of m (bk_dir t a) = file_of m (bk_dir s a)" if "m \<noteq> name" for m
      using that none by (auto simp: t s2 s1)
    show "fst ` set (bd_files (bk_dir t a)) = insert name (fst ` set (bd_files (bk_dir s a)))"
      using fresh by (auto simp: t s2 s1)
  qed
qed

text \<open>A row that reached the manifest.\<close>

lemma append_row_Inr:
  assumes "append_row a row s = (Inr u, t)"
  shows "bk_dir t a = (log_append (bd_pending (bk_dir s a) @ join [TAB] row @ [LF]) (bk_dir s a))\<lparr>bd_pending := []\<rparr>"
    and "b \<noteq> a \<Longrightarrow> bk_dir t b = bk_dir s b"
proof -
  from assms obtain s1 where
    fl: "flush_log a (on_dir a (\<lambda>d. d\<lparr>bd_pending := bd_pending d @ join [TAB] row @ [LF]\<rparr>) s) = (Inr (), s1)"
    and t: "t = s1\<lparr>bk_faults := drop 1 (bk_faults s1)\<rparr>"
    by (auto simp: append_row_def write_log_def bind_io_eq_Inr modify_def sys_eq_Inr)
  from fl have pass: "pending_fault (on_dir a (\<lambda>d. d\<lparr>bd_pending := bd_pending d @ join [TAB] row @ [LF]\<rparr>) s) = Pass"
    by (cases "pending_fault (on_dir a (\<lambda>d. d\<lparr>bd_pending := bd_pending d @ join [TAB] row @ [LF]\<rparr>) s)")
       (auto simp: flush_log_def Let_def)
  from fl show "bk_dir t a = (log_append (bd_pending (bk_dir s a) @ join [TAB] row @ [LF]) (bk_dir s a))\<lparr>bd_pending := []\<rparr>"
    by (auto simp: flush_log_def Let_def t pass log_append_def)
  from fl show "bk_dir t b = bk_dir s b" if "b \<noteq> a"
    using that by (auto simp: flush_log_def Let_def t)
qed

definition manifest_row :: "copy_job \<Rightarrow> string \<Rightarrow> string" where
  "manifest_row job digest = join [TAB] (cj_columns job @ [digest, digest])"

text \<open>The step from \<open>s\<close> to \<open>t\<close> that copies one range: the file, then its row.\<close>

definition copied :: "bk_env \<Rightarrow> area \<Rightarrow> copy_job \<Rightarrow> string \<Rightarrow> bk \<Rightarrow> bk \<Rightarrow> bool" where
  "copied env a job digest s t \<longleftrightarrow>
     SHA256_match digest
     \<and> (\<exists>data. int (length data) = cj_size job \<and> en_sha256 env data = digest
          \<and> file_of (cj_name job) (bk_dir t a) = Some \<lparr>bf_info = new_file env, bf_data = data\<rparr>)
     \<and> (\<forall>m. m \<noteq> cj_name job \<longrightarrow> file_of m (bk_dir t a) = file_of m (bk_dir s a))
     \<and> fst ` set (bd_files (bk_dir t a)) = insert (cj_name job) (fst ` set (bd_files (bk_dir s a)))
     \<and> bd_log (bk_dir t a) = bd_log (log_append (manifest_row job digest @ [LF]) (bk_dir s a))
     \<and> bd_pending (bk_dir t a) = [] \<and> bd_info (bk_dir t a) = bd_info (bk_dir s a)
     \<and> (\<forall>b. b \<noteq> a \<longrightarrow> bk_dir t b = bk_dir s b)"

lemma remote_digest_Inr: "remote_digest base command m s = (Inr digest, t) \<Longrightarrow> SHA256_match digest"
  by (auto simp: remote_digest_def Let_def bind_io_eq_Inr raise_def ret_def split: if_splits)

lemma copy_range_Inr:
  assumes run: "copy_range env a (remote_digest base command m) (\<lambda>name. stream_to env a argv m1 m2 (cj_size job) name)
      job mismatch report s = (Inr u, t)"
    and pending: "bd_pending (bk_dir s a) = []"
  shows "\<exists>digest. copied env a job digest s t"
proof -
  from run obtain digest s1 s2 s3 s4 where
    src: "remote_digest base command m s = (Inr digest, s1)"
    and str: "stream_to env a argv m1 m2 (cj_size job) (cj_name job) s1 = (Inr (), s2)"
    and sha: "file_sha256 env a (cj_name job) s2 = (Inr digest, s3)"
    and row: "append_row a (cj_columns job @ [digest, digest]) s3 = (Inr (), s4)"
    and t: "t = s4\<lparr>bk_said := bk_said s4 @ [report digest]\<rparr>"
    by (auto simp: copy_range_def bind_io_eq_Inr when_raise_def say_def modify_def split: if_splits)
  from keepsD [OF keeps_frame_digest frame_refl src] have f1: "frame a s s1" "\<And>b. bk_dir s1 b = bk_dir s b"
  proof -
    show "frame a s s1" by (rule keepsD [OF keeps_frame_digest frame_refl src])
    obtain b' where "b' \<noteq> (a :: area)" by (cases a) auto
    from keepsD [OF keeps_frame_digest [of Gpt] frame_refl src]
      keepsD [OF keeps_frame_digest [of Partitions] frame_refl src]
    show "bk_dir s1 b = bk_dir s b" for b by (cases b) (auto simp: frame_def)
  qed
  have f2: "frame a s1 s2" by (rule keepsD [OF keeps_frame_stream frame_refl str])
  from sha obtain f where f: "file_of (cj_name job) (bk_dir s2 a) = Some f" "en_sha256 env (bf_data f) = digest"
    and s3: "bk_dir s3 = bk_dir s2"
    by (auto simp: file_sha256_def need_file_def bind_io_eq_Inr gets_def ret_def raise_def sys_eq_Inr
        split: option.splits)
  have pend: "bd_pending (bk_dir s3 a) = []" using f1(2) f2 pending by (simp add: frame_def s3)
  have t_a: "bk_dir t a = (log_append (manifest_row job digest @ [LF]) (bk_dir s2 a))\<lparr>bd_pending := []\<rparr>"
    using append_row_Inr(1) [OF row] pend by (simp add: t s3 manifest_row_def)
  have t_b: "bk_dir t b = bk_dir s b" if "b \<noteq> a" for b
    using append_row_Inr(2) [OF row that] f2 f1(2) that by (simp add: frame_def t s3)
  have logs: "bd_log (bk_dir s2 a) = bd_log (bk_dir s a)" "bd_info (bk_dir s2 a) = bd_info (bk_dir s a)"
    using f2 f1(2) by (simp_all add: frame_def)
  have same: "file_of m (bk_dir t a) = file_of m (bk_dir s2 a)" "bd_files (bk_dir t a) = bd_files (bk_dir s2 a)" for m
    by (simp_all add: t_a file_of_def log_append_def)
  from str show ?thesis
  proof (rule stream_to_Inr)
    fix data
    assume *: "int (length data) = cj_size job"
      "file_of (cj_name job) (bk_dir s2 a) = Some \<lparr>bf_info = new_file env, bf_data = data\<rparr>"
      "\<And>m. m \<noteq> cj_name job \<Longrightarrow> file_of m (bk_dir s2 a) = file_of m (bk_dir s1 a)"
      "fst ` set (bd_files (bk_dir s2 a)) = insert (cj_name job) (fst ` set (bd_files (bk_dir s1 a)))"
    then have "copied env a job digest s t"
      using f remote_digest_Inr [OF src] t_b logs
      by (simp add: copied_def same f1(2)) (simp add: t_a log_append_def)
    then show ?thesis ..
  qed
qed

lemma copy_gpt_Inr:
  assumes "copy_gpt env base boot_id x s = (Inr u, t)" and "bd_pending (bk_dir s Gpt) = []"
  shows "\<exists>digest. copied env Gpt (gpt_job (snd x)) digest s t"
proof -
  obtain index r where x: "x = (index, r)" by (cases x)
  have "cj_size (gpt_job r) = gr_size r" by (simp add: gpt_job_def Let_def)
  with assms show ?thesis
    by (auto simp: x copy_gpt_def source_gpt_sha256_def stream_gpt_def [abs_def] intro: copy_range_Inr)
qed

lemma copy_partition_Inr:
  assumes "copy_partition env base boot_id x s = (Inr u, t)" and "bd_pending (bk_dir s Partitions) = []"
  shows "\<exists>digest. copied env Partitions (partition_job x) digest s t"
proof -
  obtain index r where x: "x = (index, r)" by (cases x)
  have "cj_size (partition_job (index, r)) = pr_size_bytes r" by (simp add: partition_job_def Let_def)
  with assms show ?thesis
    by (auto simp: x copy_partition_def source_sha256_def stream_partition_def [abs_def] intro: copy_range_Inr)
qed

subsection \<open>The manifest invariant\<close>

definition unlines :: "string list \<Rightarrow> string" where
  "unlines ws = concat (map (\<lambda>w. w @ [LF]) ws)"

definition private_ok :: "bk_env \<Rightarrow> path_info \<Rightarrow> bool" where
  "private_ok env i \<longleftrightarrow> \<not> pi_missing i \<and> pi_regular i \<and> \<not> pi_symlink i \<and> pi_uid i = en_euid env \<and> pi_mode i = 384"

definition job_done :: "bk_env \<Rightarrow> bk_dir \<Rightarrow> copy_job \<Rightarrow> string \<Rightarrow> bool" where
  "job_done env d job digest \<longleftrightarrow>
     (\<exists>f. file_of (cj_name job) d = Some f \<and> private_ok env (bf_info f)
        \<and> int (length (bf_data f)) = cj_size job \<and> en_sha256 env (bf_data f) = digest)"

text \<open>The manifest lists the first ranges of the plan, each with a file of that size and digest.\<close>

definition log_ok :: "bk_env \<Rightarrow> bk_dir \<Rightarrow> string \<Rightarrow> copy_job list \<Rightarrow> string list \<Rightarrow> bool" where
  "log_ok env d header jobs digests \<longleftrightarrow>
     length digests \<le> length jobs \<and> list_all SHA256_match digests
     \<and> list_all2 (job_done env d) (take (length digests) jobs) digests
     \<and> fst ` set (bd_files d) = cj_name ` set (take (length digests) jobs)
     \<and> (\<exists>f. bd_log d = Some f \<and> private_ok env (bf_info f)
          \<and> bf_data f = unlines (header # map2 manifest_row (take (length digests) jobs) digests))"

lemma private_ok_new [simp]: "private_ok env (new_file env)"
  by (simp add: private_ok_def new_file_def)

lemma log_ok_step:
  assumes step: "copied env a (jobs ! length digests) digest s t"
    and ok: "log_ok env (bk_dir s a) header jobs digests"
    and more: "length digests < length jobs" and distinct: "distinct (map cj_name jobs)"
  shows "log_ok env (bk_dir t a) header jobs (digests @ [digest])"
proof -
  let ?n = "length digests" and ?job = "jobs ! length digests"
  have take: "take (Suc ?n) jobs = take ?n jobs @ [?job]" using more by (simp add: take_Suc_conv_app_nth)
  have fresh: "cj_name job \<noteq> cj_name ?job" if "job \<in> set (take ?n jobs)" for job
  proof -
    from that obtain i where "i < ?n" "job = jobs ! i" by (auto simp: in_set_conv_nth)
    with distinct more show ?thesis by (auto simp: distinct_conv_nth)
  qed
  have "list_all2 (job_done env (bk_dir t a)) (take ?n jobs) digests"
  proof (rule list.rel_mono_strong)
    show "list_all2 (job_done env (bk_dir s a)) (take ?n jobs) digests" using ok by (simp add: log_ok_def)
    show "job_done env (bk_dir t a) job g" if "job \<in> set (take ?n jobs)" "job_done env (bk_dir s a) job g" for job g
      using that(2) step fresh [OF that(1)] by (simp add: copied_def job_done_def)
  qed
  moreover have "job_done env (bk_dir t a) ?job digest"
    using step by (auto simp: copied_def job_done_def)
  ultimately show ?thesis
    using ok step more
    by (auto simp: log_ok_def copied_def take log_append_def unlines_def list_all2_appendI)
qed

text \<open>
  A loop over ranges whose body copies one range. The laws are those of the two bodies of
  \<open>main\<close>; the loop is proved once.
\<close>

locale copy_loop =
  fixes copy :: "'x \<Rightarrow> (bk, unit) io" and a :: area and job :: "'x \<Rightarrow> copy_job" and env :: bk_env
  assumes copy_Inr: "copy x s = (Inr u, t) \<Longrightarrow> bd_pending (bk_dir s a) = []
      \<Longrightarrow> \<exists>digest. copied env a (job x) digest s t"
begin

lemma loop_Inr:
  assumes "for_each copy xs s = (Inr u, t)" and "bd_pending (bk_dir s a) = []"
    and "log_ok env (bk_dir s a) header jobs digests" and "drop (length digests) jobs = map job xs"
    and "distinct (map cj_name jobs)"
  shows "\<exists>more. length (digests @ more) = length jobs \<and> log_ok env (bk_dir t a) header jobs (digests @ more)
     \<and> bd_pending (bk_dir t a) = [] \<and> bd_info (bk_dir t a) = bd_info (bk_dir s a)
     \<and> (\<forall>b. b \<noteq> a \<longrightarrow> bk_dir t b = bk_dir s b)"
  using assms
proof (induction xs arbitrary: s digests)
  case Nil
  then have "length digests = length jobs" by (auto simp: log_ok_def)
  with Nil show ?case by (intro exI [of _ "[]"]) (simp add: ret_def)
next
  case (Cons x xs)
  from Cons.prems(1) obtain s1 where x: "copy x s = (Inr (), s1)" and xs: "for_each copy xs s1 = (Inr u, t)"
    by (auto simp: bind_io_eq_Inr)
  from copy_Inr [OF x Cons.prems(2)] obtain digest where step: "copied env a (job x) digest s s1" ..
  from Cons.prems(4) have len: "length digests < length jobs" by (metis drop_all list.distinct(1) list.simps(9) not_le)
  with Cons.prems(4) have nth: "jobs ! length digests = job x" "drop (Suc (length digests)) jobs = map job xs"
    by (metis Cons_nth_drop_Suc list.inject list.simps(9))+
  have "log_ok env (bk_dir s1 a) header jobs (digests @ [digest])"
    by (rule log_ok_step [OF _ Cons.prems(3) len Cons.prems(5)]) (simp add: nth step)
  from Cons.IH [OF xs _ this _ Cons.prems(5)] step nth(2) obtain more where
    "length ((digests @ [digest]) @ more) = length jobs" "log_ok env (bk_dir t a) header jobs ((digests @ [digest]) @ more)"
    "bd_pending (bk_dir t a) = []" "bd_info (bk_dir t a) = bd_info (bk_dir s1 a)" "\<forall>b. b \<noteq> a \<longrightarrow> bk_dir t b = bk_dir s1 b"
    by (auto simp: copied_def)
  with step show ?case by (intro exI [of _ "digest # more"]) (auto simp: copied_def)
qed

end

interpretation gpt_loop: copy_loop "copy_gpt env base boot_id" Gpt "\<lambda>x. gpt_job (snd x)" env for env base boot_id
  by unfold_locales (rule copy_gpt_Inr)

interpretation partition_loop: copy_loop "copy_partition env base boot_id" Partitions partition_job env
  for env base boot_id
  by unfold_locales (rule copy_partition_Inr)

subsection \<open>Resuming\<close>

lemma fold_result_unit: "fold_result f xs () = Inr () \<longleftrightarrow> (\<forall>x\<in>set xs. f x () = Inr ())"
  by (induction xs) (auto simp: bind_result_eq_Inr)

lemma private_file_eq_Inr: "private_file env f label = Inr u \<longleftrightarrow> (\<exists>g. f = Some g \<and> private_ok env (bf_info g))"
proof (cases f)
  case None
  then show ?thesis by (simp add: private_file_def canonical_file_def info_of_def missing_path_def)
next
  case (Some g)
  have "(384 :: nat) AND 63 = 0" by (simp add: and_nat_unfold)
  then show ?thesis
    by (auto simp: Some private_file_def canonical_file_def info_of_def private_ok_def bind_result_eq_Inr)
qed

lemma verified_resume_file_eq_Inr:
  "verified_resume_file env (file_of (cj_name job) d) (cj_size job) digest label = Inr u \<longleftrightarrow> job_done env d job digest"
  by (cases "file_of (cj_name job) d")
     (simp_all add: verified_resume_file_def bind_result_eq_Inr private_file_eq_Inr job_done_def data_of_def)

lemma resume_row_eq_Inr:
  "resume_row env d what (index, row, job) u = Inr v \<longleftrightarrow>
     (\<exists>digest. SHA256_match digest \<and> row = cj_columns job @ [digest, digest] \<and> job_done env d job digest)"
proof -
  let ?n = "length (cj_columns job)"
  have split: "row = cj_columns job @ [row ! ?n, row ! (?n + 1)]" if "length row = ?n + 2" "take ?n row = cj_columns job"
  proof -
    from that(1) have "drop ?n row = [row ! ?n, row ! (?n + 1)]"
      by (simp add: Cons_nth_drop_Suc [symmetric])
    with that(2) show ?thesis by (metis append_take_drop_id)
  qed
  show ?thesis
  proof
    assume "resume_row env d what (index, row, job) u = Inr v"
    then have *: "length row = ?n + 2" "take ?n row = cj_columns job" "SHA256_match (row ! ?n)"
      "row ! ?n = row ! (?n + 1)" "job_done env d job (row ! (?n + 1))"
      by (auto simp: resume_row_def Let_def verified_resume_file_eq_Inr split: if_splits)
    with split show "\<exists>digest. SHA256_match digest \<and> row = cj_columns job @ [digest, digest] \<and> job_done env d job digest"
      by metis
  next
    assume "\<exists>digest. SHA256_match digest \<and> row = cj_columns job @ [digest, digest] \<and> job_done env d job digest"
    then show "resume_row env d what (index, row, job) u = Inr v"
      by (auto simp: resume_row_def Let_def verified_resume_file_eq_Inr nth_append)
  qed
qed

lemma manifest_lines_eq_Inr:
  "manifest_lines env f header label = Inr rows \<longleftrightarrow>
     (\<exists>g ls. f = Some g \<and> private_ok env (bf_info g) \<and> utf8_ok (bf_data g)
        \<and> text_lines (bf_data g) = header # ls \<and> [] \<notin> set ls \<and> rows = map (split_on TAB) ls)"
proof (cases f)
  case None
  then show ?thesis by (simp add: manifest_lines_def bind_result_eq_Inr private_file_eq_Inr)
next
  case (Some g)
  show ?thesis
    by (cases "text_lines (bf_data g)")
       (auto simp: Some manifest_lines_def bind_result_eq_Inr private_file_eq_Inr data_of_def Let_def)
qed

definition rows_of :: "copy_job list \<Rightarrow> string list \<Rightarrow> string list list" where
  "rows_of jobs digests = map2 (\<lambda>job digest. cj_columns job @ [digest, digest]) jobs digests"

lemma resume_rows_eq:
  assumes "length rows \<le> length jobs"
  shows "(\<forall>x\<in>set (enumerate k (zip rows jobs)). resume_row env d what x () = Inr ()) \<longleftrightarrow>
     (\<exists>digests. length digests = length rows \<and> list_all SHA256_match digests
        \<and> list_all2 (job_done env d) (take (length rows) jobs) digests \<and> rows_of jobs digests = rows)"
  using assms
proof (induction rows arbitrary: jobs k)
  case Nil
  then show ?case by (simp add: rows_of_def)
next
  case (Cons row rows)
  then obtain job jobs' where jobs: "jobs = job # jobs'" "length rows \<le> length jobs'" by (cases jobs) auto
  let ?rest = "\<lambda>digests. length digests = length rows \<and> list_all SHA256_match digests
        \<and> list_all2 (job_done env d) (take (length rows) jobs') digests \<and> rows_of jobs' digests = rows"
  let ?one = "\<lambda>digest. SHA256_match digest \<and> row = cj_columns job @ [digest, digest] \<and> job_done env d job digest"
  have "(\<forall>x\<in>set (enumerate k (zip (row # rows) jobs)). resume_row env d what x () = Inr ()) \<longleftrightarrow>
      (\<exists>digest. ?one digest) \<and> (\<exists>digests. ?rest digests)"
    by (simp add: jobs(1) Cons.IH [OF jobs(2)] resume_row_eq_Inr)
  also have "\<dots> \<longleftrightarrow> (\<exists>digest digests. ?one digest \<and> ?rest digests)" by blast
  also have "\<dots> \<longleftrightarrow> (\<exists>gs. length gs = length (row # rows) \<and> list_all SHA256_match gs
      \<and> list_all2 (job_done env d) (take (length (row # rows)) jobs) gs \<and> rows_of jobs gs = row # rows)"
  proof
    assume "\<exists>digest digests. ?one digest \<and> ?rest digests"
    then obtain g gs where "?one g" "?rest gs" by blast
    then show "\<exists>gs. length gs = length (row # rows) \<and> list_all SHA256_match gs
      \<and> list_all2 (job_done env d) (take (length (row # rows)) jobs) gs \<and> rows_of jobs gs = row # rows"
      by (intro exI [of _ "g # gs"]) (simp add: jobs(1) rows_of_def)
  next
    assume "\<exists>gs. length gs = length (row # rows) \<and> list_all SHA256_match gs
      \<and> list_all2 (job_done env d) (take (length (row # rows)) jobs) gs \<and> rows_of jobs gs = row # rows"
    then obtain xs where xs: "length xs = length (row # rows)" "list_all SHA256_match xs"
      "list_all2 (job_done env d) (take (length (row # rows)) jobs) xs" "rows_of jobs xs = row # rows"
      by blast
    from xs(1) obtain g gs where "xs = g # gs" by (cases xs) auto
    with xs show "\<exists>digest digests. ?one digest \<and> ?rest digests"
      by (intro exI [of _ g] exI [of _ gs]) (simp add: jobs(1) rows_of_def)
  qed
  finally show ?case .
qed

lemma map2_take: "map2 f (take (length ys) xs) ys = map2 f xs ys"
proof (induction ys arbitrary: xs)
  case (Cons y ys)
  then show ?case by (cases xs) auto
qed simp

lemma map_join_rows_of: "map (join [TAB]) (rows_of jobs digests) = map2 manifest_row jobs digests"
  by (simp add: rows_of_def manifest_row_def split_def)

definition clean_field :: "string \<Rightarrow> bool" where
  "clean_field w \<longleftrightarrow> list_all (\<lambda>c. is_ascii c \<and> \<not> is_break c \<and> c \<noteq> TAB) w"

definition clean_job :: "copy_job \<Rightarrow> bool" where
  "clean_job job \<longleftrightarrow> list_all clean_field (cj_columns job)"

lemma SHA256_clean: "SHA256_match g \<Longrightarrow> clean_field g"
  by (auto simp: SHA256_match_def clean_field_def list_all_iff is_hex_def is_digit_def is_ascii_def is_break_def)

lemma split_manifest_row:
  assumes "clean_job job" and "SHA256_match digest"
  shows "split_on TAB (manifest_row job digest) = cj_columns job @ [digest, digest]"
proof -
  have "TAB \<notin> set w" if "w \<in> set (cj_columns job @ [digest, digest])" for w
    using that assms SHA256_clean [OF assms(2)] by (auto simp: clean_job_def clean_field_def list_all_iff)
  then show ?thesis unfolding manifest_row_def by (intro split_on_join) auto
qed

lemma split_manifest_rows:
  "list_all clean_job jobs \<Longrightarrow> list_all SHA256_match digests
    \<Longrightarrow> map (split_on TAB) (map2 manifest_row jobs digests) = rows_of jobs digests"
  by (auto simp: rows_of_def list_all_iff intro!: split_manifest_row dest: set_zip_leftD set_zip_rightD)

lemma manifest_row_nonempty: "SHA256_match digest \<Longrightarrow> manifest_row job digest \<noteq> []"
proof -
  assume "SHA256_match digest"
  then have digest: "digest \<noteq> []" by (auto simp: SHA256_match_def)
  have "join [TAB] (ws @ [digest, digest]) \<noteq> []" for ws
    using digest by (induction "[TAB]" "ws @ [digest, digest]" arbitrary: ws rule: join.induct) (auto simp: Cons_eq_append_conv)
  then show ?thesis by (simp add: manifest_row_def)
qed

text \<open>The state that resuming accepts, by the lines of its manifest.\<close>

definition resumable :: "bk_env \<Rightarrow> bk_dir \<Rightarrow> string \<Rightarrow> copy_job list \<Rightarrow> string list \<Rightarrow> bool" where
  "resumable env d header jobs digests \<longleftrightarrow>
     length digests \<le> length jobs \<and> list_all SHA256_match digests
     \<and> list_all2 (job_done env d) (take (length digests) jobs) digests
     \<and> fst ` set (bd_files d) = cj_name ` set (take (length digests) jobs)
     \<and> (\<exists>f. bd_log d = Some f \<and> private_ok env (bf_info f) \<and> utf8_ok (bf_data f)
          \<and> text_lines (bf_data f) = header # map2 manifest_row jobs digests)"

lemma verify_resume_sound:
  assumes "verify_resume env d header what jobs = Inr n"
  shows "\<exists>digests. length digests = n \<and> resumable env d header jobs digests"
proof -
  from assms
  obtain rows where rows: "manifest_lines env (bd_log d) header (what @ '' manifest'') = Inr rows"
    "length rows \<le> length jobs" "fold_result (resume_row env d what) (enumerate 1 (zip rows jobs)) () = Inr ()"
    "fst ` set (bd_files d) = cj_name ` set (take (length rows) jobs)" "n = length rows"
    by (auto simp: verify_resume_def bind_result_eq_Inr split: if_splits)
  from rows(1) obtain g ls where g: "bd_log d = Some g" "private_ok env (bf_info g)" "utf8_ok (bf_data g)"
    "text_lines (bf_data g) = header # ls" "rows = map (split_on TAB) ls"
    by (auto simp: manifest_lines_eq_Inr)
  from rows(3) resume_rows_eq [OF rows(2)] obtain digests where digests: "length digests = length rows"
    "list_all SHA256_match digests" "list_all2 (job_done env d) (take (length rows) jobs) digests"
    "rows_of jobs digests = rows"
    by (auto simp: fold_result_unit)
  have "ls = map (join [TAB]) rows" by (simp add: g(5) comp_def join_split_on)
  then have "ls = map2 manifest_row jobs digests" by (simp only: digests(4) [symmetric] map_join_rows_of)
  with g(4) have "text_lines (bf_data g) = header # map2 manifest_row jobs digests" by simp
  with g(1-3) rows(2,4) digests(1-3) have "resumable env d header jobs digests"
    unfolding resumable_def by (intro conjI exI [of _ g]) simp_all
  with digests(1) rows(5) show ?thesis by auto
qed

text \<open>The rows and files of a listed prefix, whatever else is in the directory.\<close>

definition rows_ok :: "bk_env \<Rightarrow> bk_dir \<Rightarrow> string \<Rightarrow> copy_job list \<Rightarrow> string list \<Rightarrow> bool" where
  "rows_ok env d header jobs digests \<longleftrightarrow>
     length digests \<le> length jobs \<and> list_all SHA256_match digests
     \<and> list_all2 (job_done env d) (take (length digests) jobs) digests
     \<and> (\<exists>f. bd_log d = Some f \<and> private_ok env (bf_info f) \<and> utf8_ok (bf_data f)
          \<and> text_lines (bf_data f) = header # map2 manifest_row jobs digests)"

lemma resumable_rows_ok:
  "resumable env d header jobs digests \<longleftrightarrow>
     rows_ok env d header jobs digests \<and> fst ` set (bd_files d) = cj_name ` set (take (length digests) jobs)"
  by (auto simp: resumable_def rows_ok_def)

lemma verify_resume_rows:
  assumes clean: "list_all clean_job jobs" and r: "rows_ok env d header jobs digests"
  shows "verify_resume env d header what jobs =
     (if fst ` set (bd_files d) = cj_name ` set (take (length digests) jobs) then Inr (length digests)
      else Inl (BackupError (what @ '' directory is not the exact accepted manifest prefix'')))"
proof -
  from r obtain g where g: "bd_log d = Some g" "private_ok env (bf_info g)" "utf8_ok (bf_data g)"
    "text_lines (bf_data g) = header # map2 manifest_row jobs digests" by (auto simp: rows_ok_def)
  let ?rows = "rows_of jobs digests"
  have len: "length ?rows = length digests" using r by (simp add: rows_of_def rows_ok_def)
  have "[] \<notin> set (map2 manifest_row jobs digests)"
  proof
    assume "[] \<in> set (map2 manifest_row jobs digests)"
    then obtain job digest where "(job, digest) \<in> set (zip jobs digests)" and empty: "manifest_row job digest = []"
      by auto
    then have "digest \<in> set digests" by (simp add: set_zip_rightD)
    with r empty show False by (auto simp: rows_ok_def list_all_iff dest!: manifest_row_nonempty)
  qed
  then have lines: "manifest_lines env (bd_log d) header (what @ '' manifest'') = Inr ?rows"
    using g r split_manifest_rows [OF clean] by (auto simp: manifest_lines_eq_Inr rows_ok_def)
  have "\<forall>x\<in>set (enumerate 1 (zip ?rows jobs)). resume_row env d what x () = Inr ()"
    by (rule iffD2 [OF resume_rows_eq]) (use r len in \<open>auto simp: rows_ok_def\<close>)
  then have "fold_result (resume_row env d what) (enumerate 1 (zip ?rows jobs)) () = Inr ()"
    by (simp only: fold_result_unit)
  with lines r len show ?thesis by (simp add: verify_resume_def rows_ok_def)
qed

lemma verify_resume_iff:
  assumes clean: "list_all clean_job jobs"
  shows "verify_resume env d header what jobs = Inr n \<longleftrightarrow>
     (\<exists>digests. length digests = n \<and> resumable env d header jobs digests)"
proof
  assume "verify_resume env d header what jobs = Inr n"
  then show "\<exists>digests. length digests = n \<and> resumable env d header jobs digests" by (rule verify_resume_sound)
next
  assume "\<exists>digests. length digests = n \<and> resumable env d header jobs digests"
  then show "verify_resume env d header what jobs = Inr n"
    by (auto simp: resumable_rows_ok verify_resume_rows [OF clean])
qed

lemma clean_field_append [simp]: "clean_field (u @ v) \<longleftrightarrow> clean_field u \<and> clean_field v"
  by (auto simp: clean_field_def)

definition clean_line :: "string \<Rightarrow> bool" where
  "clean_line w \<longleftrightarrow> list_all (\<lambda>c. is_ascii c \<and> \<not> is_break c) w"

lemma clean_line_join: "(\<And>w. w \<in> set ws \<Longrightarrow> clean_field w) \<Longrightarrow> clean_line (join [TAB] ws)"
proof (induction ws rule: induct_list012)
  case (3 v w ws)
  then have "clean_line (join [TAB] (w # ws))" "clean_field v" by simp_all
  then show ?case by (auto simp: clean_line_def clean_field_def list_all_iff is_ascii_def is_break_def)
qed (auto simp: clean_line_def clean_field_def list_all_iff)

lemma clean_manifest_row: "clean_job job \<Longrightarrow> SHA256_match g \<Longrightarrow> clean_line (manifest_row job g)"
  unfolding manifest_row_def
  by (rule clean_line_join) (auto simp: clean_job_def list_all_iff dest: SHA256_clean)

lemma clean_manifest_rows:
  "list_all clean_job jobs \<Longrightarrow> list_all SHA256_match digests \<Longrightarrow> w \<in> set (map2 manifest_row jobs digests)
    \<Longrightarrow> clean_line w"
  by (auto simp: list_all_iff intro!: clean_manifest_row dest: set_zip_leftD set_zip_rightD)

lemma text_lines_unlines:
  assumes "\<And>w. w \<in> set ws \<Longrightarrow> clean_line w"
  shows "utf8_ok (unlines ws)" "text_lines (unlines ws) = ws"
proof -
  have "list_all is_ascii (unlines ws)"
    using assms by (auto simp: unlines_def clean_line_def list_all_iff is_ascii_def)
  moreover have "splitlines (unlines ws) = ws"
    unfolding unlines_def using assms by (intro splitlines_unlines) (auto simp: clean_line_def list_all_iff)
  ultimately show "utf8_ok (unlines ws)" "text_lines (unlines ws) = ws"
    by (simp_all add: utf8_ok_ascii text_lines_ascii)
qed

lemma log_ok_resumable:
  assumes "log_ok env d header jobs digests" and "clean_line header" and "list_all clean_job jobs"
  shows "resumable env d header jobs digests"
proof -
  have "clean_line w" if "w \<in> set (header # map2 manifest_row jobs digests)" for w
    using that assms clean_manifest_rows [OF assms(3)] by (auto simp: log_ok_def)
  then have lines: "utf8_ok (unlines (header # map2 manifest_row jobs digests))"
    "text_lines (unlines (header # map2 manifest_row jobs digests)) = header # map2 manifest_row jobs digests"
    by (intro text_lines_unlines; blast)+
  from assms(1) show ?thesis
    unfolding log_ok_def resumable_def map2_take using lines by auto
qed

lemma resumable_log_ok:
  assumes "resumable env d header jobs digests" and "\<And>f. bd_log d = Some f \<Longrightarrow> bf_data f = unlines (text_lines (bf_data f))"
  shows "log_ok env d header jobs digests"
  using assms unfolding log_ok_def resumable_def map2_take by fastforce

lemma log_ok_ended:
  assumes "log_ok env d header jobs digests" and "clean_line header" and "list_all clean_job jobs" and "bd_log d = Some f"
  shows "bf_data f = unlines (text_lines (bf_data f))"
  using log_ok_resumable [OF assms(1-3)] assms(1,4) by (simp add: log_ok_def resumable_def map2_take)

subsection \<open>A run that ends well\<close>

definition area_complete :: "bk_env \<Rightarrow> bk \<Rightarrow> area \<Rightarrow> string \<Rightarrow> copy_job list \<Rightarrow> bool" where
  "area_complete env s a header jobs \<longleftrightarrow>
     (\<exists>digests. length digests = length jobs \<and> log_ok env (bk_dir s a) header jobs digests)"

lemma with_log_Inr:
  "with_log a m s = (Inr x, t) \<Longrightarrow>
     \<exists>u. m s = (Inr x, u) \<and> (if bd_pending (bk_dir u a) = [] then t = u else flush_log a u = (Inr (), t))"
proof -
  assume run: "with_log a m s = (Inr x, t)"
  obtain r u where u: "m s = (r, u)" by fastforce
  from run u obtain y where r: "r = Inr y"
    by (cases r) (auto simp: with_log_def split: exn.splits prod.splits sum.splits)
  from run u r show ?thesis
    by (auto simp: with_log_def close_log_def split: prod.splits sum.splits if_splits)
qed

lemma enumerate_snd: "map (\<lambda>x. f (snd x)) (enumerate k xs) = map f xs"
  by (induction xs arbitrary: k) auto

lemma drop_enumerate: "drop n (enumerate k xs) = enumerate (k + n) (drop n xs)"
  by (induction xs arbitrary: n k) (auto simp: drop_Cons split: nat.splits)

lemma copy_all_complete:
  assumes run: "copy_all env base boot_id gpt_plan plan (length gs, length ps) s = (Inr (), t)"
    and gs: "log_ok env (bk_dir s Gpt) GPT_MANIFEST_HEADER (map gpt_job gpt_plan) gs"
    and ps: "log_ok env (bk_dir s Partitions) PARTITION_MANIFEST_HEADER (map partition_job (enumerate 1 plan)) ps"
    and names: "distinct (map cj_name (map gpt_job gpt_plan))"
      "distinct (map cj_name (map partition_job (enumerate 1 plan)))"
  shows "area_complete env t Gpt GPT_MANIFEST_HEADER (map gpt_job gpt_plan)
     \<and> area_complete env t Partitions PARTITION_MANIFEST_HEADER (map partition_job (enumerate 1 plan))"
proof -
  from run obtain s1 s2 s3 where s1: "open_log Gpt s = (Inr (), s1)"
    and s2: "with_log Gpt (for_each (copy_gpt env base boot_id)
        (enumerate (length gs + 1) (drop (length gs) gpt_plan))) s1 = (Inr (), s2)"
    and s3: "open_log Partitions s2 = (Inr (), s3)"
    and t: "with_log Partitions (for_each (copy_partition env base boot_id)
        (enumerate (length ps + 1) (drop (length ps) plan))) s3 = (Inr (), t)"
    by (auto simp: copy_all_def bind_io_eq_Inr)
  have log_pending: "log_ok env (d\<lparr>bd_pending := x\<rparr>) h jobs xs = log_ok env d h jobs xs" for d x h jobs xs
    by (simp add: log_ok_def job_done_def [abs_def] file_of_def)
  from s1 have s1: "bk_dir s1 Gpt = (bk_dir s Gpt)\<lparr>bd_pending := []\<rparr>" "bk_dir s1 Partitions = bk_dir s Partitions"
    by (auto simp: open_log_def sys_eq_Inr)
  from s3 have s3: "bk_dir s3 Partitions = (bk_dir s2 Partitions)\<lparr>bd_pending := []\<rparr>" "bk_dir s3 Gpt = bk_dir s2 Gpt"
    by (auto simp: open_log_def sys_eq_Inr)
  from with_log_Inr [OF s2] obtain u where u: "for_each (copy_gpt env base boot_id)
        (enumerate (length gs + 1) (drop (length gs) gpt_plan)) s1 = (Inr (), u)"
    "if bd_pending (bk_dir u Gpt) = [] then s2 = u else flush_log Gpt u = (Inr (), s2)" by blast
  have "\<exists>more. length (gs @ more) = length (map gpt_job gpt_plan)
     \<and> log_ok env (bk_dir u Gpt) GPT_MANIFEST_HEADER (map gpt_job gpt_plan) (gs @ more)
     \<and> bd_pending (bk_dir u Gpt) = [] \<and> bd_info (bk_dir u Gpt) = bd_info (bk_dir s1 Gpt)
     \<and> (\<forall>b. b \<noteq> Gpt \<longrightarrow> bk_dir u b = bk_dir s1 b)"
    by (rule gpt_loop.loop_Inr [OF u(1) _ _ _ names(1)]) (simp_all add: s1 log_pending gs enumerate_snd drop_map)
  with u(2) s1 obtain more where gpt: "length (gs @ more) = length (map gpt_job gpt_plan)"
    "log_ok env (bk_dir s2 Gpt) GPT_MANIFEST_HEADER (map gpt_job gpt_plan) (gs @ more)"
    "bk_dir s2 Partitions = bk_dir s Partitions" by auto
  from with_log_Inr [OF t] obtain v where v: "for_each (copy_partition env base boot_id)
        (enumerate (length ps + 1) (drop (length ps) plan)) s3 = (Inr (), v)"
    "if bd_pending (bk_dir v Partitions) = [] then t = v else flush_log Partitions v = (Inr (), t)" by blast
  have "\<exists>more. length (ps @ more) = length (map partition_job (enumerate 1 plan))
     \<and> log_ok env (bk_dir v Partitions) PARTITION_MANIFEST_HEADER (map partition_job (enumerate 1 plan)) (ps @ more)
     \<and> bd_pending (bk_dir v Partitions) = [] \<and> bd_info (bk_dir v Partitions) = bd_info (bk_dir s3 Partitions)
     \<and> (\<forall>b. b \<noteq> Partitions \<longrightarrow> bk_dir v b = bk_dir s3 b)"
    by (rule partition_loop.loop_Inr [OF v(1) _ _ _ names(2)])
       (simp_all add: s3 gpt(3) log_pending ps [unfolded One_nat_def] drop_map drop_enumerate)
  then obtain rest where rest: "length (ps @ rest) = length (map partition_job (enumerate 1 plan))"
    "log_ok env (bk_dir v Partitions) PARTITION_MANIFEST_HEADER (map partition_job (enumerate 1 plan)) (ps @ rest)"
    "bd_pending (bk_dir v Partitions) = []" "\<forall>b. b \<noteq> Partitions \<longrightarrow> bk_dir v b = bk_dir s3 b" by blast
  with v(2) s3(2) have "t = v" "bk_dir v Gpt = bk_dir s2 Gpt" by auto
  with gpt(1,2) rest(1,2) show ?thesis unfolding area_complete_def
    by (intro conjI exI [of _ "gs @ more"] exI [of _ "ps @ rest"]) auto
qed

text \<open>Fresh areas: nothing is listed and nothing is there.\<close>

lemma create_log_Inr:
  assumes "create_log env a header s = (Inr u, t)"
  shows "bd_log (bk_dir t a) = Some \<lparr>bf_info = new_file env, bf_data = unlines [header]\<rparr>"
    "bd_files (bk_dir t a) = bd_files (bk_dir s a)" "b \<noteq> a \<Longrightarrow> bk_dir t b = bk_dir s b"
proof -
  define s1 where "s1 = on_dir a (\<lambda>d. d\<lparr>bd_pending := [], bd_log := Some
       \<lparr>bf_info = (new_file env)\<lparr>pi_mode := en_text_mode env\<rparr>, bf_data = []\<rparr>\<rparr>) (s\<lparr>bk_faults := drop 1 (bk_faults s)\<rparr>)"
  from assms have body: "with_log a (bind_io
           (sys (on_dir a (\<lambda>d. d\<lparr>bd_log := map_option (\<lambda>f. f\<lparr>bf_info := new_file env\<rparr>) (bd_log d)\<rparr>)))
           (\<lambda>_. append_row a [header])) s1 = (Inr u, t)"
    by (auto simp: create_log_def bind_io_eq_Inr gets_def raise_def sys_eq_Inr s1_def split: if_splits)
  have s1: "bd_pending (bk_dir s1 a) = []" "bd_files (bk_dir s1 a) = bd_files (bk_dir s a)"
      "\<And>b. b \<noteq> a \<Longrightarrow> bk_dir s1 b = bk_dir s b"
      "bd_log (bk_dir s1 a) = Some \<lparr>bf_info = (new_file env)\<lparr>pi_mode := en_text_mode env\<rparr>, bf_data = []\<rparr>"
    by (simp_all add: s1_def)
  from with_log_Inr [OF body] obtain s2 s3 where
    s2: "s2 = on_dir a (\<lambda>d. d\<lparr>bd_log := map_option (\<lambda>f. f\<lparr>bf_info := new_file env\<rparr>) (bd_log d)\<rparr>)
       (s1\<lparr>bk_faults := drop 1 (bk_faults s1)\<rparr>)"
    and s3: "append_row a [header] s2 = (Inr u, s3)"
    "if bd_pending (bk_dir s3 a) = [] then t = s3 else flush_log a s3 = (Inr (), t)"
    by (auto simp: bind_io_eq_Inr sys_eq_Inr)
  note row = append_row_Inr [OF s3(1)]
  have t: "t = s3" using s3(2) row(1) by simp
  show "bd_log (bk_dir t a) = Some \<lparr>bf_info = new_file env, bf_data = unlines [header]\<rparr>"
    "bd_files (bk_dir t a) = bd_files (bk_dir s a)"
    using s1 by (simp_all add: t row(1) s2 log_append_def unlines_def)
  show "bk_dir t b = bk_dir s b" if "b \<noteq> a" using that s1 by (simp add: t row(2) s2)
qed

lemma log_ok_empty:
  "bd_files d = [] \<Longrightarrow> bd_log d = Some \<lparr>bf_info = new_file env, bf_data = unlines [header]\<rparr>
    \<Longrightarrow> log_ok env d header jobs []"
  by (simp add: log_ok_def)

lemma fresh_output_Inr:
  assumes "fresh_output env s = (Inr finished, t)"
    and "pi_missing (bk_output s) \<Longrightarrow> \<forall>a. bd_files (bk_dir s a) = [] \<and> bd_log (bk_dir s a) = None"
  shows "finished = (0, 0) \<and> log_ok env (bk_dir t Gpt) GPT_MANIFEST_HEADER gpt_jobs []
     \<and> log_ok env (bk_dir t Partitions) PARTITION_MANIFEST_HEADER jobs []"
proof -
  from assms(1) obtain a1 a2 s1 s2 where missing: "pi_missing (bk_output s)"
    and steps: "sys (\<lambda>s. s\<lparr>bk_output := new_directory env\<rparr>) s = (Inr (), a1)"
    "sys (on_dir Partitions (\<lambda>d. d\<lparr>bd_info := new_directory env\<rparr>)) a1 = (Inr (), a2)"
    "sys (on_dir Gpt (\<lambda>d. d\<lparr>bd_info := new_directory env\<rparr>)) a2 = (Inr (), s1)"
    and s2: "create_log env Gpt GPT_MANIFEST_HEADER s1 = (Inr (), s2)"
    and t: "create_log env Partitions PARTITION_MANIFEST_HEADER s2 = (Inr (), t)" and fin: "finished = (0, 0)"
    unfolding fresh_output_def bind_io_eq_Inr by (auto simp: gets_def when_raise_def ret_def split: if_splits)
  from steps assms(2) [OF missing] have "\<forall>a. bd_files (bk_dir s1 a) = []" by (auto simp: sys_eq_Inr)
  with fin
  show ?thesis using create_log_Inr(1,2) [OF s2] create_log_Inr(1,2) [OF t] create_log_Inr(3) [OF s2, of Partitions]
    create_log_Inr(3) [OF t, of Gpt] by (simp add: log_ok_empty)
qed

lemma resume_output_Inr:
  assumes "resume_output env plan gpt_plan s = (Inr finished, t)"
  shows "bk_dir t = bk_dir s \<and> verify_gpt_resume env (bk_dir s Gpt) gpt_plan = Inr (fst finished)
     \<and> verify_partition_resume env (bk_dir s Partitions) plan = Inr (snd finished)"
  using assms
  by (auto simp: resume_output_def bind_io_eq_Inr gets_def lift_result_def ret_def sys_eq_Inr)

subsection \<open>The names of the files\<close>

lemma append_sep_eq: "u @ x # a = v @ x # b \<Longrightarrow> x \<notin> set u \<Longrightarrow> x \<notin> set v \<Longrightarrow> u = v \<and> a = b"
proof (induction u arbitrary: v)
  case Nil
  then show ?case by (cases v) auto
next
  case (Cons y u)
  then show ?case by (cases v) auto
qed

lemma show_nat_no_dash: "CHR ''-'' \<notin> set (show_nat n)"
  using show_nat_digits [of "CHR ''-''" n] by (auto simp: is_digit_def)

lemma read_nat_zeros: "read_nat (replicate k CHR ''0'' @ s) = read_nat s"
  by (induction k) (simp_all add: read_nat_def)

lemma pad3_inj: "pad3 m = pad3 n \<Longrightarrow> m = n"
  by (metis pad3_def read_nat_zeros read_show_nat)

lemma partition_names_distinct: "distinct (map cj_name (map partition_job (enumerate k plan)))"
proof -
  have key: "cj_name (partition_job (i, r)) = cj_name (partition_job (j, q)) \<Longrightarrow> i = j" for i j r q
  proof -
    assume "cj_name (partition_job (i, r)) = cj_name (partition_job (j, q))"
    then have "pad3 i @ CHR ''-'' # (pr_label r @ ''.img'') = pad3 j @ CHR ''-'' # (pr_label q @ ''.img'')"
      by (simp add: partition_job_def Let_def)
    moreover have "CHR ''-'' \<notin> set (pad3 n)" for n using show_nat_no_dash [of n] by (auto simp: pad3_def)
    ultimately show "i = j" by (blast dest: append_sep_eq pad3_inj)
  qed
  have "inj_on (cj_name \<circ> partition_job) (set (enumerate k plan))"
  proof (rule inj_onI)
    fix x y
    assume *: "x \<in> set (enumerate k plan)" "y \<in> set (enumerate k plan)"
      "(cj_name \<circ> partition_job) x = (cj_name \<circ> partition_job) y"
    obtain i r j q where xy: "x = (i, r)" "y = (j, q)" by (cases x, cases y)
    with * key have "i = j" by simp
    with * xy show "x = y" by (auto simp: in_set_enumerate_eq)
  qed
  then show ?thesis by (simp add: distinct_map)
qed

lemma gpt_names_distinct:
  assumes "distinct (map (\<lambda>r. (gr_disk r, gr_role r)) plan)" and "\<forall>r\<in>set plan. DISK_match (gr_disk r)"
  shows "distinct (map cj_name (map gpt_job plan))"
proof -
  have dash: "CHR ''-'' \<notin> set (gr_disk r)" if "r \<in> set plan" for r
  proof
    assume dash: "CHR ''-'' \<in> set (gr_disk r)"
    from assms(2) that have "prefix ''sd'' (gr_disk r)" "list_all is_lower (drop 2 (gr_disk r))"
      by (auto simp: DISK_match_def)
    moreover have "\<not> is_lower CHR ''-''" by (simp add: is_lower_def)
    ultimately show False using dash by (auto simp: prefix_def list_all_iff)
  qed
  have "inj_on (\<lambda>r. cj_name (gpt_job r)) (set plan)"
  proof (rule inj_onI)
    fix r q
    assume *: "r \<in> set plan" "q \<in> set plan" "cj_name (gpt_job r) = cj_name (gpt_job q)"
    then have "gr_disk r @ CHR ''-'' # (gr_role r @ ''.bin'') = gr_disk q @ CHR ''-'' # (gr_role q @ ''.bin'')"
      by (simp add: gpt_job_def Let_def)
    from append_sep_eq [OF this dash dash] *
    have "gr_disk r = gr_disk q \<and> gr_role r @ ''.bin'' = gr_role q @ ''.bin''" by blast
    with assms(1) * show "r = q" by (auto simp: distinct_map dest!: inj_onD)
  qed
  with assms(1) show ?thesis by (simp add: distinct_map comp_def)
qed

lemma gpt_plan_disks:
  assumes "gpt_backup_plan inventory = Inr (plan, amount)"
  shows "\<forall>r\<in>set plan. DISK_match (gr_disk r)"
proof -
  from assms obtain disks where fold: "fold_result gpt_plan_disk disks ([], 0) = Inr (plan, amount)"
    by (auto simp: gpt_backup_plan_def bind_result_eq_Inr)
  from gpt_plan_fold [OF fold] obtain pairs where "plan = concat (map (\<lambda>(p, b). [p, b]) pairs)"
    and ok: "\<forall>q\<in>set pairs. range_pair_ok q" by auto
  moreover have "DISK_match (gr_disk p) \<and> DISK_match (gr_disk b)" if "(p, b) \<in> set pairs" for p b
    using bspec [OF ok that] by (simp add: range_pair_ok_def)
  ultimately show ?thesis by auto
qed

subsection \<open>The whole command\<close>

lemma run_text_dir: "run_text base command s = (Inr x, t) \<Longrightarrow> bk_dir t = bk_dir s"
  by (auto simp: run_text_def bind_io_eq_Inr sys_eq_Inr next_remote_def split: remote.splits list.splits)

lemma backup_body_Inr:
  assumes "backup_body env args s = (Inr u, t)"
  obtains inventory plan x gpt_plan y finished base boot_id s1 s2 s3 where
    "load_inventory (en_euid env) (ar_inventory args) (ar_payload args) = Inr inventory"
    "backup_plan inventory = Inr (plan, x)" "gpt_backup_plan inventory = Inr (gpt_plan, y)"
    "(if ar_resume args then resume_output env plan gpt_plan else fresh_output env) s = (Inr finished, s1)"
    "copy_all env base boot_id gpt_plan plan finished s2 = (Inr (), s3)" "bk_dir s2 = bk_dir s1" "bk_dir t = bk_dir s3"
proof -
  have raised: "when_raise b e s = (Inr u, t) \<longleftrightarrow> \<not> b \<and> t = s" for b e u and s t :: bk
    by (auto simp: when_raise_def)
  from assms obtain inventory plan x gpt_plan y finished s1 s4 where
    inputs: "backup_inputs env args = Inr (inventory, plan, x, gpt_plan, y)"
    and prepare: "prepare_output env args plan gpt_plan s = (Inr finished, s1)"
    and copy: "checked_copy env args inventory plan gpt_plan finished s1 = (Inr (), s4)" and t: "bk_dir t = bk_dir s4"
    by (auto simp: backup_body_def bind_io_eq_Inr lift_result_def say_def modify_def)
  from copy obtain s3 base boot_id where s3: "bk_dir s3 = bk_dir s1"
    and all: "copy_all env base boot_id gpt_plan plan finished s3 = (Inr (), s4)"
    by (auto simp: checked_copy_def bind_io_eq_Inr lift_result_def sys_eq_Inr raised Let_def dest!: run_text_dir)
  have out: "(if ar_resume args then resume_output env plan gpt_plan else fresh_output env) s = (Inr finished, s1)"
    using prepare by (simp add: prepare_output_def bind_io_eq_Inr gets_def raised)
  have "load_inventory (en_euid env) (ar_inventory args) (ar_payload args) = Inr inventory"
    "backup_plan inventory = Inr (plan, x)" "gpt_backup_plan inventory = Inr (gpt_plan, y)"
    using inputs by (auto simp: backup_inputs_def bind_result_eq_Inr)
  then show thesis using out all s3 t by (rule that)
qed


subsection \<open>What resuming accepts, and what it refuses\<close>

lemma clean_show_nat: "clean_field (show_nat n)"
  by (auto simp: clean_field_def list_all_iff is_digit_def is_ascii_def is_break_def dest!: show_nat_digits)

lemma clean_show_int: "clean_field (show_int i)"
proof -
  have "clean_field ''-''" by code_simp
  then show ?thesis by (auto simp: show_int_def clean_show_nat simp del: append.simps)
qed

lemma clean_graphic: "(\<And>c. c \<in> set w \<Longrightarrow> is_graphic c) \<Longrightarrow> clean_field w"
  by (force simp: clean_field_def list_all_iff is_graphic_def is_ascii_def is_break_def)

lemma label_char_graphic: "label_char c \<Longrightarrow> is_graphic c"
proof -
  have "\<forall>c\<in>set ''_.+-''. is_graphic c" by code_simp
  moreover assume "label_char c"
  ultimately show ?thesis by (auto simp: label_char_def graphic_classes)
qed

lemma clean_label: "LABEL_match w \<Longrightarrow> clean_field w"
  by (rule clean_graphic) (auto simp: LABEL_match_def list_all_iff label_char_graphic)

lemma clean_device:
  assumes "DEVICE_match w"
  shows "clean_field w"
proof -
  let ?v = "drop 2 w"
  from assms obtain u where w: "w = ''sd'' @ u" and digits: "list_all is_digit (dropWhile is_lower u)"
    by (auto simp: DEVICE_match_def prefix_def)
  have "is_graphic c" if "c \<in> set u" for c
  proof -
    from that have "c \<in> set (takeWhile is_lower u) \<or> c \<in> set (dropWhile is_lower u)"
      by (metis Un_iff set_append takeWhile_dropWhile_id)
    with digits show ?thesis by (auto simp: list_all_iff graphic_classes dest: set_takeWhileD)
  qed
  moreover have "is_graphic CHR ''s''" "is_graphic CHR ''d''" by code_simp+
  ultimately show ?thesis by (intro clean_graphic) (auto simp: w)
qed

lemma clean_uuid:
  assumes "UUID_match w"
  shows "clean_field w"
proof -
  have dash: "is_graphic CHR ''-''" by code_simp
  have join: "\<forall>v\<in>set vs. list_all is_hex v \<Longrightarrow> list_all is_graphic (join ''-'' vs)" for vs
  proof (induction vs rule: induct_list012)
    case (2 v)
    then show ?case by (simp add: list_all_iff graphic_classes)
  next
    case (3 u v vs)
    then show ?case by (simp add: list_all_iff graphic_classes dash ball_Un)
  qed simp
  from assms have "\<forall>v\<in>set (split_on CHR ''-'' w). list_all is_hex v" by (simp add: UUID_match_def)
  from join [OF this] show ?thesis by (intro clean_graphic) (simp add: join_split_on list_all_iff)
qed

lemma clean_literals:
  "clean_field ''partitions/''" "clean_field ''.img''" "clean_field ''-''" "clean_field ''gpt/''" "clean_field ''.bin''"
  by code_simp+

lemma clean_partition_job:
  assumes "plan_record_ok r"
  shows "clean_job (partition_job (i, r))"
proof -
  have "clean_field (pad3 i)"
    by (simp add: pad3_def clean_show_nat) (simp add: clean_field_def list_all_iff is_ascii_def is_break_def)
  with assms show ?thesis
    by (simp add: clean_job_def partition_job_def Let_def plan_record_ok_def clean_label clean_device clean_uuid
        clean_show_int clean_literals del: append.simps)
qed

lemma partition_jobs_clean:
  assumes "backup_plan inventory = Inr (plan, amount)"
  shows "list_all clean_job (map partition_job (enumerate k plan))"
  using backup_plan_records [OF assms] by (auto simp: list_all_iff in_set_enumerate_eq intro!: clean_partition_job)

lemma clean_headers: "clean_line PARTITION_MANIFEST_HEADER" "clean_line GPT_MANIFEST_HEADER"
  by code_simp+

text \<open>
  C22. For a plan the planner made, resuming accepts \<open>n\<close> partitions exactly when the manifest's
  lines are the header and the rows of the first \<open>n\<close> ranges, each listed file is private, of the
  planned size and of the recorded digest, and the directory holds those files and no other.
\<close>

theorem partition_resume_exact:
  assumes "backup_plan inventory = Inr (plan, amount)"
  shows "verify_partition_resume env d plan = Inr n \<longleftrightarrow>
     (\<exists>digests. length digests = n
        \<and> resumable env d PARTITION_MANIFEST_HEADER (map partition_job (enumerate 1 plan)) digests)"
  unfolding verify_partition_resume_def by (rule verify_resume_iff [OF partition_jobs_clean [OF assms]])

definition demo_env :: bk_env where
  "demo_env = \<lparr>en_sha256 = \<lambda>_. replicate 64 CHR ''0'', en_euid = 1000, en_text_mode = 420\<rparr>"

definition demo_fresh_dir :: "string \<Rightarrow> bk_dir" where
  "demo_fresh_dir header = \<lparr>bd_info = new_directory demo_env, bd_files = [],
     bd_log = Some \<lparr>bf_info = new_file demo_env, bf_data = unlines [header]\<rparr>, bd_pending = []\<rparr>"

lemma demo_fresh_resumable:
  "clean_line header \<Longrightarrow> list_all clean_job jobs \<Longrightarrow> resumable demo_env (demo_fresh_dir header) header jobs []"
  by (rule log_ok_resumable, rule log_ok_empty) (simp_all add: demo_fresh_dir_def)

theorem partition_resume_exact_witness:
  "verify_partition_resume demo_env (demo_fresh_dir PARTITION_MANIFEST_HEADER) (selected demo_parts) = Inr 0"
  using partition_resume_exact [OF demo_planned]
    demo_fresh_resumable [OF clean_headers(1) partition_jobs_clean [OF demo_planned]] by fastforce

text \<open>
  Between the rename of a finished stream and its manifest row there is a file the manifest
  does not list, and resuming refuses the directory for good: after a digest mismatch, a failed
  write of the row or a crash there, the backup has to be started again or repaired by hand.
\<close>

theorem unlisted_file_blocks_resume:
  assumes "backup_plan inventory = Inr (plan, amount)"
    and "log_ok env (bk_dir s Partitions) PARTITION_MANIFEST_HEADER (map partition_job (enumerate 1 plan)) digests"
    and "length digests < length plan"
    and "stream_partition env base boot_id (plan ! length digests)
        (cj_name (partition_job (length digests + 1, plan ! length digests))) s = (Inr (), t)"
  shows "verify_partition_resume env (bk_dir t Partitions) plan =
     Inl (BackupError ''partition directory is not the exact accepted manifest prefix'')"
proof -
  let ?jobs = "map partition_job (enumerate 1 plan)" and ?n = "length digests"
  have job: "?jobs ! ?n = partition_job (?n + 1, plan ! ?n)" using assms(3) by (simp add: nth_enumerate_eq)
  let ?name = "cj_name (?jobs ! ?n)"
  have str: "stream_to env Partitions
       (base @ [validation_prefix boot_id (plan ! ?n) @ ''exec dd if=/dev/'' @ pr_node (plan ! ?n) @ '' bs=4194304 status=none''])
       (''partition stream failed for '' @ pr_label (plan ! ?n)) (''partition size mismatch for '' @ pr_label (plan ! ?n))
       (pr_size_bytes (plan ! ?n)) ?name s = (Inr (), t)"
    using assms(4) by (simp only: job stream_partition_def)
  have frame: "frame Partitions s t" by (rule keepsD [OF keeps_frame_stream frame_refl str])
  have fresh: "?name \<notin> cj_name ` set (take ?n ?jobs)"
  proof -
    have "distinct (map cj_name ?jobs)" by (rule partition_names_distinct)
    moreover have "?n < length ?jobs" using assms(3) by simp
    ultimately show ?thesis by (auto simp: distinct_conv_nth in_set_conv_nth)
  qed
  have clean: "list_all clean_job ?jobs" by (rule partition_jobs_clean [OF assms(1)])
  have res: "resumable env (bk_dir s Partitions) PARTITION_MANIFEST_HEADER ?jobs digests"
    by (rule log_ok_resumable [OF assms(2) clean_headers(1) clean])
  from str have names: "fst ` set (bd_files (bk_dir t Partitions)) = insert ?name (cj_name ` set (take ?n ?jobs))"
    and others: "\<And>m. m \<noteq> ?name \<Longrightarrow> file_of m (bk_dir t Partitions) = file_of m (bk_dir s Partitions)"
    using res by (auto elim!: stream_to_Inr simp: resumable_def)
  have "job_done env (bk_dir t Partitions) job g"
    if "job \<in> set (take ?n ?jobs)" "job_done env (bk_dir s Partitions) job g" for job g
  proof -
    have "cj_name job \<noteq> ?name" using imageI [OF that(1), of cj_name] fresh by metis
    from others [OF this] that(2) show ?thesis by (simp only: job_done_def)
  qed
  with res frame have rows: "rows_ok env (bk_dir t Partitions) PARTITION_MANIFEST_HEADER ?jobs digests"
    by (auto simp: resumable_rows_ok rows_ok_def frame_def elim!: list.rel_mono_strong)
  have "fst ` set (bd_files (bk_dir t Partitions)) \<noteq> cj_name ` set (take ?n ?jobs)"
    using fresh names by blast
  with verify_resume_rows [OF clean rows, of "''partition''"] show ?thesis
    by (simp add: verify_partition_resume_def)
qed

lemma stream_to_succeeds:
  assumes "bk_faults s = []" and "bk_remote s = Exit 0 data err # rest" and "int (length data) = n"
    and "file_of (name @ ''.partial'') (bk_dir s a) = None"
  shows "\<exists>t. stream_to env a argv m1 m2 n name s = (Inr (), t)"
proof -
  have pass: "sys f s = (Inr (), f (s\<lparr>bk_faults := []\<rparr>))" if "bk_faults s = []" for f and s :: bk
    using that by (simp add: sys_def pending_fault_def)
  show ?thesis
    using assms
    by (simp add: stream_to_def Let_def open_exclusive_def bind_io_def gets_def pass stream_body_def on_raise_def
        communicate_def next_remote_def append_data_def on_dir_def when_raise_def need_file_def ret_def
        rename_file_def fsync_directory_def)
qed

definition demo_bk :: bk where
  "demo_bk = \<lparr>bk_dir = case_area (demo_fresh_dir GPT_MANIFEST_HEADER) (demo_fresh_dir PARTITION_MANIFEST_HEADER),
     bk_output = new_directory demo_env, bk_faults = [], bk_remote = [Exit 0 (replicate 4096 CHR ''x'') []],
     bk_sent = [], bk_child = None, bk_signals = [], bk_said = []\<rparr>"

definition demo_stream :: "unit result \<times> bk" where
  "demo_stream = stream_partition demo_env [] [] (selected demo_parts ! 0)
     (cj_name (partition_job (1, selected demo_parts ! 0))) demo_bk"

theorem unlisted_file_blocks_resume_witness:
  "verify_partition_resume demo_env (bk_dir (snd demo_stream) Partitions) (selected demo_parts) =
     Inl (BackupError ''partition directory is not the exact accepted manifest prefix'')"
proof -
  have len: "int (length (replicate 4096 CHR ''x'')) = pr_size_bytes (selected demo_parts ! 0)"
    by (simp add: demo_selected demo_part_def)
  have "\<exists>t. demo_stream = (Inr (), t)"
    unfolding demo_stream_def stream_partition_def
    by (rule stream_to_succeeds [OF _ _ len]) (simp_all add: demo_bk_def demo_fresh_dir_def file_of_def)
  then obtain t where t: "demo_stream = (Inr (), t)" ..
  have "log_ok demo_env (bk_dir demo_bk Partitions) PARTITION_MANIFEST_HEADER
      (map partition_job (enumerate 1 (selected demo_parts))) []"
    by (rule log_ok_empty) (simp_all add: demo_bk_def demo_fresh_dir_def)
  from unlisted_file_blocks_resume [OF demo_planned this, of "[]" "[]" t] t show ?thesis
    by (simp add: demo_stream_def demo_counts)
qed

text \<open>A manifest row determines its length: the digests have 64 characters.\<close>

lemma length_join_append:
  "ws \<noteq> [] \<Longrightarrow> length u = length v \<Longrightarrow> length (join [TAB] (ws @ [u, u])) = length (join [TAB] (ws @ [v, v]))"
proof (induction ws rule: induct_list012)
  case (3 x y ws)
  then show ?case by simp
qed simp_all

lemma length_manifest_row:
  "SHA256_match g \<Longrightarrow> SHA256_match h \<Longrightarrow> length (manifest_row job g) = length (manifest_row job h)"
  by (cases "cj_columns job = []") (simp_all add: manifest_row_def SHA256_match_def length_join_append)

lemma text_lines_torn:
  assumes "\<And>w. w \<in> set (ws @ [v]) \<Longrightarrow> clean_line w" and "v \<noteq> []"
  shows "utf8_ok (unlines ws @ v)" "text_lines (unlines ws @ v) = ws @ [v]"
proof -
  have "list_all is_ascii (unlines ws @ v)"
    using assms(1) by (auto simp: unlines_def clean_line_def list_all_iff is_ascii_def)
  moreover have "splitlines_from acc v = [rev acc @ v]" if "clean_line v" "acc @ v \<noteq> []" for acc v
    using that by (induction v arbitrary: acc) (auto simp: clean_line_def splitlines_from_char)
  then have "splitlines_from [] v = [v]" using assms by simp
  have "splitlines_from [] (unlines ws @ v) = ws @ [v]"
    using assms(1)
  proof (induction ws)
    case Nil
    show ?case using \<open>splitlines_from [] v = [v]\<close> by (simp add: unlines_def)
  next
    case (Cons w ws)
    then have "splitlines_from [] (unlines ws @ v) = ws @ [v]" "clean_line w" by simp_all
    then show ?case by (simp add: unlines_def clean_line_def list_all_iff splitlines_from_line)
  qed
  ultimately show "utf8_ok (unlines ws @ v)" "text_lines (unlines ws @ v) = ws @ [v]"
    by (simp_all add: utf8_ok_ascii text_lines_ascii splitlines_def)
qed

definition set_log :: "string \<Rightarrow> bk_dir \<Rightarrow> bk_dir" where
  "set_log content d = d\<lparr>bd_log := map_option (\<lambda>f. f\<lparr>bf_data := content\<rparr>) (bd_log d)\<rparr>"

definition log_text :: "bk_dir \<Rightarrow> string" where
  "log_text d = data_of (bd_log d)"

lemma unlines_snoc: "unlines (ws @ [v]) = unlines ws @ v @ [LF]"
  by (simp add: unlines_def)

lemma log_ok_snoc:
  assumes "log_ok env d header jobs (gs @ [g])"
  shows "log_text d = unlines (header # map2 manifest_row jobs gs) @ manifest_row (jobs ! length gs) g @ [LF]"
    and "length gs < length jobs" and "SHA256_match g" and "list_all SHA256_match gs"
proof -
  show len: "length gs < length jobs" and "SHA256_match g" "list_all SHA256_match gs"
    using assms by (auto simp: log_ok_def)
  have "map2 manifest_row (take (Suc (length gs)) jobs) (gs @ [g])
      = map2 manifest_row jobs gs @ [manifest_row (jobs ! length gs) g]"
    using len by (simp add: take_Suc_conv_app_nth map2_take)
  with assms show "log_text d = unlines (header # map2 manifest_row jobs gs) @ manifest_row (jobs ! length gs) g @ [LF]"
    by (auto simp: log_ok_def log_text_def data_of_def unlines_def)
qed

lemma torn_row_resumable:
  assumes ok: "log_ok env d header jobs (gs @ [g])" and header: "clean_line header" and clean: "list_all clean_job jobs"
  shows "resumable env (set_log (butlast (log_text d)) d) header jobs (gs @ [g])"
proof -
  note snoc = log_ok_snoc [OF ok]
  let ?rows = "header # map2 manifest_row jobs gs" and ?row = "manifest_row (jobs ! length gs) g"
  have but: "butlast (log_text d) = unlines ?rows @ ?row" unfolding snoc(1) by (simp add: butlast_append)
  have "clean_line w" if "w \<in> set (?rows @ [?row])" for w
    using that header clean snoc clean_manifest_rows [OF clean snoc(4)]
    by (auto simp: list_all_iff intro: clean_manifest_row)
  then have lines: "utf8_ok (unlines ?rows @ ?row)" "text_lines (unlines ?rows @ ?row) = ?rows @ [?row]"
    by (intro text_lines_torn manifest_row_nonempty snoc; blast)+
  have rows: "map2 manifest_row jobs (gs @ [g]) = map2 manifest_row jobs gs @ [?row]"
    using snoc(2) map2_take [of manifest_row "gs @ [g]" jobs] by (simp add: take_Suc_conv_app_nth map2_take)
  show ?thesis
    using ok lines unfolding resumable_def but rows
    by (auto simp: log_ok_def set_log_def job_done_def [abs_def] file_of_def)
qed

lemma glued_row_refused:
  assumes g: "SHA256_match g" and h: "SHA256_match h" and n: "length gs < length jobs"
    and gs: "list_all SHA256_match gs" and header: "clean_line header" and clean: "list_all clean_job jobs"
    and content: "log_text d = unlines (header # map2 manifest_row jobs gs)
        @ (manifest_row (jobs ! length gs) g @ manifest_row job h) @ [LF]"
    and job: "clean_job job"
  shows "verify_resume env d header what jobs \<noteq> Inr k"
proof
  assume "verify_resume env d header what jobs = Inr k"
  from verify_resume_sound [OF this] obtain digests where len: "length digests \<le> length jobs"
    and sha: "list_all SHA256_match digests"
    and lines: "text_lines (log_text d) = header # map2 manifest_row jobs digests"
    by (auto simp: resumable_def log_text_def data_of_def)
  let ?glued = "manifest_row (jobs ! length gs) g @ manifest_row job h"
  have "log_text d = unlines ((header # map2 manifest_row jobs gs) @ [?glued])" unfolding content unlines_snoc by simp
  moreover have "clean_line w" if "w \<in> set ((header # map2 manifest_row jobs gs) @ [?glued])" for w
    using that header clean_manifest_rows [OF clean gs] clean_manifest_row [OF job h] n clean
      clean_manifest_row [OF _ g, of "jobs ! length gs"]
    by (auto simp: list_all_iff clean_line_def)
  ultimately have "text_lines (log_text d) = (header # map2 manifest_row jobs gs) @ [?glued]"
    by (simp only: text_lines_unlines(2))
  with lines have rows: "map2 manifest_row jobs digests = map2 manifest_row jobs gs @ [?glued]" by simp
  from arg_cong [where f = length, OF rows] len n have k: "length digests = Suc (length gs)" by simp
  from arg_cong [where f = "\<lambda>xs. xs ! length gs", OF rows] n len k
  have "manifest_row (jobs ! length gs) (digests ! length gs) = ?glued" by (simp add: nth_append)
  moreover have "SHA256_match (digests ! length gs)" using sha k by (simp add: list_all_length)
  ultimately have "manifest_row job h = []"
    using length_manifest_row [OF _ g, of "digests ! length gs" "jobs ! length gs"] by (metis append_self_conv append_eq_append_conv)
  with manifest_row_nonempty [OF h] show False by blast
qed


subsection \<open>A finished backup, concretely\<close>

definition demo_digest :: string where
  "demo_digest = replicate 64 CHR ''0''"

definition done_dir :: "string \<Rightarrow> copy_job list \<Rightarrow> nat \<Rightarrow> bk_dir" where
  "done_dir header jobs k =
     \<lparr>bd_info = new_directory demo_env,
      bd_files = map (\<lambda>j. (cj_name j, \<lparr>bf_info = new_file demo_env, bf_data = replicate (nat (cj_size j)) CHR ''x''\<rparr>))
        (take k jobs),
      bd_log = Some \<lparr>bf_info = new_file demo_env,
        bf_data = unlines (header # map (\<lambda>j. manifest_row j demo_digest) (take k jobs))\<rparr>,
      bd_pending = []\<rparr>"

lemma list_all2_replicate: "list_all2 P xs (replicate (length xs) d) \<longleftrightarrow> (\<forall>x\<in>set xs. P x d)"
  by (induction xs) auto

lemma done_dir_ok:
  assumes "k \<le> length jobs" and "distinct (map cj_name jobs)" and "\<forall>j\<in>set jobs. 0 \<le> cj_size j"
  shows "log_ok demo_env (done_dir header jobs k) header jobs (replicate k demo_digest)"
proof -
  have sha: "SHA256_match demo_digest" by (simp add: SHA256_match_def demo_digest_def list_all_iff is_hex_def is_digit_def)
  have row: "map2 manifest_row (take k jobs) (replicate k demo_digest) = map (\<lambda>j. manifest_row j demo_digest) (take k jobs)"
    using assms(1) by (simp add: list_eq_iff_nth_eq)
  have "job_done demo_env (done_dir header jobs k) j demo_digest" if "j \<in> set (take k jobs)" for j
  proof -
    have "distinct (map cj_name (take k jobs))" using assms(2) by (metis distinct_take take_map)
    then have "map_of (map (\<lambda>j. (cj_name j, \<lparr>bf_info = new_file demo_env, bf_data = replicate (nat (cj_size j)) CHR ''x''\<rparr>))
        (take k jobs)) (cj_name j) = Some \<lparr>bf_info = new_file demo_env, bf_data = replicate (nat (cj_size j)) CHR ''x''\<rparr>"
      using that by (intro map_of_is_SomeI) (auto simp: comp_def)
    moreover have "0 \<le> cj_size j" using assms(3) that by (auto dest: in_set_takeD)
    ultimately show ?thesis by (simp add: job_done_def file_of_def done_dir_def demo_env_def demo_digest_def)
  qed
  then have "list_all2 (job_done demo_env (done_dir header jobs k)) (take k jobs) (replicate k demo_digest)"
    using assms(1) list_all2_replicate [of "job_done demo_env (done_dir header jobs k)" "take k jobs" demo_digest]
    by (simp add: min_absorb2)
  then show ?thesis
    using assms(1) sha row by (simp add: log_ok_def done_dir_def list_all_iff image_image)
qed

abbreviation demo_jobs :: "copy_job list" where
  "demo_jobs \<equiv> map partition_job (enumerate 1 (selected demo_parts))"

abbreviation demo_gpt_jobs :: "copy_job list" where
  "demo_gpt_jobs \<equiv> map gpt_job demo_ranges"

lemma demo_sizes: "\<forall>j\<in>set demo_jobs. 0 \<le> cj_size j" "\<forall>j\<in>set demo_gpt_jobs. 0 \<le> cj_size j"
  by (auto simp: demo_selected demo_part_def in_set_enumerate_eq partition_job_def demo_ranges_def gpt_job_def Let_def)


definition demo_inventory :: "(string \<times> json) list" where
  "demo_inventory =
     (''format'', JStr ''rog5-readonly-storage-inventory-v1'')
     # (''boot_id'', JStr ''00000000-0000-0000-0000-000000000000'') # inventory_json demo_disks"

definition demo_args :: bk_args where
  "demo_args = \<lparr>ar_inventory = new_file demo_env, ar_payload = Some (JDict demo_inventory),
     ar_key = ''key'', ar_key_info = new_file demo_env, ar_hosts = ''hosts'', ar_hosts_info = new_file demo_env,
     ar_output = ''backup'', ar_parent_missing = False, ar_resume = True, ar_free = 1073741824\<rparr>"

definition demo_done :: bk where
  "demo_done = \<lparr>bk_dir = case_area (done_dir GPT_MANIFEST_HEADER demo_gpt_jobs 14)
       (done_dir PARTITION_MANIFEST_HEADER demo_jobs 107),
     bk_output = new_directory demo_env, bk_faults = [],
     bk_remote = [Exit 0 ''00000000-0000-0000-0000-000000000000'' []],
     bk_sent = [], bk_child = None, bk_signals = [], bk_said = []\<rparr>"

lemma demo_inventory_plans:
  "backup_plan demo_inventory = Inr (selected demo_parts, sum_list (map pr_size_bytes (selected demo_parts)))"
  "gpt_backup_plan demo_inventory = Inr (demo_ranges, 315392)"
proof -
  have "dict_get demo_inventory ''disks'' = dict_get (inventory_json demo_disks) ''disks''"
    by (simp add: demo_inventory_def dict_get_def)
  then have "seven_disks demo_inventory = seven_disks (inventory_json demo_disks)" by (simp add: seven_disks_def)
  then show "backup_plan demo_inventory = Inr (selected demo_parts, sum_list (map pr_size_bytes (selected demo_parts)))"
    "gpt_backup_plan demo_inventory = Inr (demo_ranges, 315392)"
    using demo_planned demo_gpt_planned by (simp_all add: backup_plan_def gpt_backup_plan_def)
qed

lemma demo_ranges_distinct: "distinct (map (\<lambda>r. (gr_disk r, gr_role r)) demo_ranges)"
  by (simp add: demo_ranges_def)

lemma demo_logs:
  "log_ok demo_env (bk_dir demo_done Gpt) GPT_MANIFEST_HEADER demo_gpt_jobs (replicate 14 demo_digest)"
  "log_ok demo_env (bk_dir demo_done Partitions) PARTITION_MANIFEST_HEADER demo_jobs (replicate 107 demo_digest)"
proof -
  have "\<forall>r\<in>set demo_ranges. DISK_match (gr_disk r)" by (rule gpt_plan_disks [OF demo_gpt_planned])
  then show "log_ok demo_env (bk_dir demo_done Gpt) GPT_MANIFEST_HEADER demo_gpt_jobs (replicate 14 demo_digest)"
    unfolding demo_done_def
    by (simp, intro done_dir_ok gpt_names_distinct demo_ranges_distinct demo_sizes) (simp_all add: demo_ranges_def)
  show "log_ok demo_env (bk_dir demo_done Partitions) PARTITION_MANIFEST_HEADER demo_jobs (replicate 107 demo_digest)"
    using done_dir_ok [OF _ partition_names_distinct demo_sizes(1), of 107] by (simp add: demo_counts demo_done_def)
qed

lemma clean_gpt_job:
  assumes "DISK_match (gr_disk r)" and "clean_field (gr_role r)" and "clean_field (py_str (gr_disk_guid r))"
  shows "clean_job (gpt_job r)"
proof -
  have "clean_field (gr_disk r)"
  proof -
    from assms(1) obtain u where "gr_disk r = ''sd'' @ u" "list_all is_lower u" by (auto simp: DISK_match_def prefix_def)
    moreover have "clean_field ''sd''" by code_simp
    moreover have "list_all is_lower u \<Longrightarrow> clean_field u" by (rule clean_graphic) (simp add: list_all_iff graphic_classes)
    ultimately show ?thesis by (simp del: append.simps)
  qed
  with assms show ?thesis
    by (simp add: clean_job_def gpt_job_def Let_def clean_show_int clean_literals del: append.simps)
qed

lemma demo_gpt_jobs_clean: "list_all clean_job demo_gpt_jobs"
proof -
  have *: "clean_field ''00000000-0000-0000-0000-000000000001''" "clean_field ''primary''" "clean_field ''backup''" by code_simp+
  have "\<forall>r\<in>set demo_ranges. clean_field (gr_role r) \<and> clean_field (py_str (gr_disk_guid r))"
    by (auto simp: demo_ranges_def *)
  with gpt_plan_disks [OF demo_gpt_planned] show ?thesis by (auto simp: list_all_iff intro!: clean_gpt_job)
qed

lemma demo_resumed: "resume_output demo_env (selected demo_parts) demo_ranges demo_done = (Inr (14, 107), demo_done)"
proof -
  have "verify_gpt_resume demo_env (bk_dir demo_done Gpt) demo_ranges = Inr 14"
    unfolding verify_gpt_resume_def verify_resume_iff [OF demo_gpt_jobs_clean]
    by (intro exI [of _ "replicate 14 demo_digest"] conjI log_ok_resumable demo_logs clean_headers demo_gpt_jobs_clean) simp
  moreover have "verify_partition_resume demo_env (bk_dir demo_done Partitions) (selected demo_parts) = Inr 107"
    unfolding verify_partition_resume_def verify_resume_iff [OF partition_jobs_clean [OF demo_planned]]
    by (intro exI [of _ "replicate 107 demo_digest"] conjI log_ok_resumable demo_logs clean_headers
        partition_jobs_clean [OF demo_planned]) simp
  moreover have "sys id demo_done = (Inr (), demo_done)" by (simp add: sys_def pending_fault_def demo_done_def)
  moreover have "canonical_private_directory (en_euid demo_env) (new_directory demo_env) label = Inr ()" for label
    by (simp add: canonical_private_directory_def new_directory_def demo_env_def)
  moreover have "bk_output demo_done = new_directory demo_env" "\<And>a. bd_info (bk_dir demo_done a) = new_directory demo_env"
    by (simp_all add: demo_done_def done_dir_def split: area.splits)
  ultimately show ?thesis
    by (simp add: resume_output_def bind_io_def gets_def lift_result_def ret_def)
qed

lemma demo_backup_runs: "\<exists>t. backup_main demo_env demo_args demo_done = (Inr 0, t)"
proof -
  have uuid: "UUID_match ''00000000-0000-0000-0000-000000000000''" by code_simp
  have strip: "strip (universal_newlines ''00000000-0000-0000-0000-000000000000'') = ''00000000-0000-0000-0000-000000000000''"
    "utf8_ok ''00000000-0000-0000-0000-000000000000''" by code_simp+
  have priv: "canonical_file (en_euid demo_env) (new_file demo_env) label p = Inr ()" for label p
    by (simp add: canonical_file_def new_file_def demo_env_def and_nat_unfold)
  have load: "load_inventory (en_euid demo_env) (new_file demo_env) (Some (JDict demo_inventory)) = Inr demo_inventory"
    by (simp add: load_inventory_def priv demo_inventory_def dict_get_def dict_get_or_def uuid)
  have inputs: "backup_inputs demo_env demo_args =
      Inr (demo_inventory, selected demo_parts, sum_list (map pr_size_bytes (selected demo_parts)), demo_ranges, 315392)"
    by (simp add: backup_inputs_def demo_args_def load priv demo_inventory_plans)
  have prepare: "prepare_output demo_env demo_args (selected demo_parts) demo_ranges demo_done = (Inr (14, 107), demo_done)"
    by (simp add: prepare_output_def demo_args_def bind_io_def gets_def when_raise_def demo_resumed)
       (simp add: demo_done_def new_directory_def)
  have drops: "drop 14 demo_ranges = []" "drop 107 (selected demo_parts) = []"
    by (simp add: demo_ranges_def) (simp add: demo_counts)
  have "\<exists>t. checked_copy demo_env demo_args demo_inventory (selected demo_parts) demo_ranges (14, 107) demo_done = (Inr (), t)"
    by (simp add: checked_copy_def bind_io_def sys_def pending_fault_def when_raise_def lift_result_def dict_item_def
        demo_inventory_def run_text_def next_remote_def strip copy_all_def drops open_log_def with_log_def ret_def
        close_log_def remaining_bytes_def demo_args_def demo_done_def done_dir_def on_dir_def Let_def
        utf8_ok.simps(1) del: utf8_ok.simps(2) universal_newlines.simps)
  then obtain t where "checked_copy demo_env demo_args demo_inventory (selected demo_parts) demo_ranges (14, 107) demo_done = (Inr (), t)" ..
  with inputs prepare show ?thesis
    by (simp add: backup_main_def try_except_def backup_body_def bind_io_def lift_result_def say_def modify_def ret_def)
qed


end
