(* ===== verification/Backup_Verify.thy ===== *)
theory Backup_Verify
  imports Storage_Inventory Backup_Resume
begin

section \<open>Verifying a backup by rehearsing the restore\<close>

text \<open>
  Models \<^verbatim>\<open>scripts/host/verify-readonly-storage-backup.py\<close>: the manifests and files are checked as
  for a resume, then every GPT is restored into a sparse image of the disk's size, parsed again and
  compared with the inventory. How much each \<open>pwrite\<close> writes and what \<open>stat\<close> says of an image are
  inputs.
\<close>

subsection \<open>Equality of JSON values\<close>

text \<open>Python's \<open>==\<close>: dictionaries compare by key, and a Boolean equals 0 or 1.\<close>

fun json_num :: "json \<Rightarrow> int option" where
  "json_num (JBool b) = Some (if b then 1 else 0)"
| "json_num (JInt i) = Some i"
| "json_num _ = None"

function json_eq :: "json \<Rightarrow> json \<Rightarrow> bool" where
  "json_eq JNull w = (w = JNull)"
| "json_eq (JBool b) w = (json_num w = json_num (JBool b))"
| "json_eq (JInt i) w = (json_num w = Some i)"
| "json_eq (JStr s) w = (w = JStr s)"
| "json_eq (JList vs) w = (case w of JList ws \<Rightarrow> list_all2 json_eq vs ws | _ \<Rightarrow> False)"
| "json_eq (JDict kvs) w =
     (case w of
        JDict lws \<Rightarrow>
          length kvs = length lws
          \<and> list_all (\<lambda>(k, v). case map_of lws k of None \<Rightarrow> False | Some x \<Rightarrow> json_eq v x) kvs
      | _ \<Rightarrow> False)"
  by pat_completeness auto
termination
  by (relation "measure (\<lambda>(v, w). size v)")
     (auto simp: less_Suc_eq_le intro!: size_list_estimation')

text \<open>A dictionary without duplicate keys, all the way down.\<close>

fun json_wf :: "json \<Rightarrow> bool" where
  "json_wf (JList vs) = list_all json_wf vs"
| "json_wf (JDict kvs) = (distinct (map fst kvs) \<and> list_all (\<lambda>(k, v). json_wf v) kvs)"
| "json_wf _ = True"

lemma json_eq_refl: "json_wf v \<Longrightarrow> json_eq v v"
proof (induction v)
  case (JList vs)
  then show ?case by (auto simp: list_all_iff list.rel_refl_strong intro: list.rel_refl_strong)
next
  case (JDict kvs)
  have "map_of kvs k = Some v" if "(k, v) \<in> set kvs" for k v
    using that JDict.prems by (simp add: map_of_is_SomeI)
  with JDict show ?case by (fastforce simp: list_all_iff)
qed auto

subsection \<open>Restoring into an image\<close>

text \<open>\<open>pwrite\<close> at a position: a hole before it reads as zeros.\<close>

definition write_at :: "bytes \<Rightarrow> nat \<Rightarrow> bytes \<Rightarrow> bytes" where
  "write_at img position data =
     take position img @ replicate (position - length img) CHR 0x00 @ data @ drop (position + length data) img"

record rehearsal =
  rh_image :: bytes
  rh_writes :: "nat list"

definition CHUNK :: nat where
  "CHUNK = 1024 * 1024"

function write_range :: "bytes \<Rightarrow> nat \<Rightarrow> rehearsal \<Rightarrow> rehearsal result" where
  "write_range source position st =
     (if source = [] then Inr st
      else
      let chunk = take CHUNK source;
          written = (case rh_writes st of [] \<Rightarrow> length chunk | w # _ \<Rightarrow> w);
          st' = st\<lparr>rh_image := write_at (rh_image st) position (take written chunk),
                   rh_writes := drop 1 (rh_writes st)\<rparr>
      in if written \<noteq> length chunk then Inl (BackupError ''short write in host-only GPT rehearsal'')
         else write_range (drop CHUNK source) (position + written) st')"
  by pat_completeness auto
termination
  by (relation "measure (\<lambda>(source, _, _). length source)") (auto simp: CHUNK_def)

declare write_range.simps [simp del]

definition PROJECTION_KEYS :: "string list" where
  "PROJECTION_KEYS =
     [''number'', ''type_guid'', ''unique_guid'', ''first_lba'', ''last_lba'', ''size_lba'', ''offset_bytes'',
      ''size_bytes'', ''attributes'', ''name'']"

text \<open>\<open>entry[key]\<close>: only a dictionary can be indexed by a text.\<close>

definition item :: "json \<Rightarrow> string \<Rightarrow> json result" where
  "item v key = (case v of JDict d \<Rightarrow> dict_item d key | _ \<Rightarrow> Inl TypeError)"

definition partition_projection :: "json list \<Rightarrow> json list result" where
  "partition_projection partitions =
     map_result (\<lambda>entry. bind_result (map_result (\<lambda>key. bind_result (item entry key) (\<lambda>v. Inr (key, v)))
        PROJECTION_KEYS) (\<lambda>kvs. Inr (JDict kvs))) partitions"

record image_stat =
  im_mode :: nat
  im_blocks :: nat

text \<open>What \<open>parse_gpt\<close> returns, as the dictionary the script compares.\<close>

definition parsed_item :: "gpt_table \<Rightarrow> string \<Rightarrow> json" where
  "parsed_item g key =
     (if key = ''primary'' then gpt_header_json (g_primary g)
      else if key = ''backup'' then gpt_header_json (g_backup g)
      else if key = ''primary_entries_crc32_valid'' then JBool (g_entries_crc32_valid g)
      else JBool (g_crosscheck g))"

definition compare_item :: "string \<Rightarrow> gpt_table \<Rightarrow> (string \<times> json) list \<Rightarrow> string \<Rightarrow> unit \<Rightarrow> unit result" where
  "compare_item name g expected key u =
     bind_result (dict_item expected key) (\<lambda>v.
       if \<not> json_eq (parsed_item g key) v
       then Inl (BackupError (''restored GPT '' @ key @ '' differs from inventory for '' @ name))
       else Inr ())"

definition COMPARED_KEYS :: "string list" where
  "COMPARED_KEYS = [''primary'', ''backup'', ''primary_entries_crc32_valid'', ''primary_backup_crosscheck'']"

definition compare_gpt :: "string \<Rightarrow> nat \<Rightarrow> bytes \<Rightarrow> gpt_table \<Rightarrow> (string \<times> json) list \<Rightarrow> unit result" where
  "compare_gpt name logical img g expected =
     bind_result (fold_result (compare_item name g expected) COMPARED_KEYS ()) (\<lambda>_.
     bind_result (dict_item expected ''partitions'') (\<lambda>value.
     case as_list value of
       None \<Rightarrow> Inl AssertionError
     | Some expected_partitions \<Rightarrow>
         bind_result (partition_projection expected_partitions) (\<lambda>projection.
         if \<not> json_eq (JList (map (\<lambda>p. JDict (gpt_partition_fields p)) (g_partitions g))) (JList projection)
         then Inl (BackupError (''restored GPT partition map differs from inventory for '' @ name))
         else let offset = h_entries_lba (g_backup g) * logical; n = h_table_bytes (g_backup g);
                  backup_table = slice offset (offset + n) img in
         if length backup_table \<noteq> n \<or> crc32 backup_table \<noteq> h_entries_crc32 (g_backup g)
         then Inl (BackupError (''restored backup GPT entry table CRC differs for '' @ name))
         else Inr ())))"

definition restore_record ::
    "(string \<times> bk_file) list \<Rightarrow> string \<Rightarrow> gpt_record \<Rightarrow> rehearsal \<Rightarrow> rehearsal result" where
  "restore_record files name r st =
     bind_result (option_result FileNotFoundError (map_of files (name @ ''-'' @ gr_role r @ ''.bin''))) (\<lambda>source.
       if gr_offset r < 0 then Inl OSError
       else write_range (bf_data source) (nat (gr_offset r)) st)"

definition restore_image ::
    "(string \<times> bk_file) list \<Rightarrow> (string \<Rightarrow> nat list) \<Rightarrow> string \<Rightarrow> gpt_record list \<Rightarrow> int \<Rightarrow> bytes result" where
  "restore_image files writes name records size_bytes =
     (if size_bytes < 0 then Inl OSError
      else bind_result (fold_result (restore_record files name) records
        \<lparr>rh_image = replicate (nat size_bytes) CHR 0x00, rh_writes = writes name\<rparr>) (\<lambda>st. Inr (rh_image st)))"

definition check_image :: "image_stat \<Rightarrow> gpt_record list \<Rightarrow> unit result" where
  "check_image metadata records =
     (if im_mode metadata \<noteq> 384 then Inl (BackupError ''GPT rehearsal image is not private'')
      else if sum_list (map gr_size records) + 1024 * 1024 < int (im_blocks metadata) * 512
      then Inl (BackupError ''GPT rehearsal image was not created sparsely'')
      else Inr ())"

definition check_restored :: "(string \<times> json) list \<Rightarrow> string \<Rightarrow> int \<Rightarrow> bytes \<Rightarrow> unit result" where
  "check_restored disk name size_bytes img =
     bind_result (int_item disk ''logical_block_bytes'') (\<lambda>logical.
     bind_result (parse_gpt img (nat logical) (nat size_bytes)) (\<lambda>parsed.
     bind_result (dict_item disk ''gpt'') (\<lambda>expected.
     case as_dict expected of
       None \<Rightarrow> Inl AssertionError
     | Some gpt \<Rightarrow> compare_gpt name (nat logical) img parsed gpt)))"

definition rehearse_disk ::
    "(string \<times> bk_file) list \<Rightarrow> (string \<Rightarrow> nat list) \<Rightarrow> (string \<Rightarrow> image_stat) \<Rightarrow> gpt_record list \<Rightarrow> json \<Rightarrow> unit
     \<Rightarrow> unit result" where
  "rehearse_disk files writes stat plan value u =
     (case as_dict value of
        None \<Rightarrow> Inl AssertionError
      | Some disk \<Rightarrow>
        bind_result (dict_item disk ''name'') (\<lambda>disk_name.
        let name = py_str disk_name; records = filter (\<lambda>r. gr_disk r = name) plan in
        if length records \<noteq> 2 \<or> set (map gr_role records) \<noteq> {''primary'', ''backup''}
        then Inl (BackupError (''GPT rehearsal plan is incomplete for '' @ name))
        else
        bind_result (int_item disk ''size_bytes'') (\<lambda>size_bytes.
        bind_result (restore_image files writes name records size_bytes) (\<lambda>img.
        bind_result (check_image (stat name) records) (\<lambda>_.
        check_restored disk name size_bytes img)))))"

definition rehearse_gpt_restore ::
    "(string \<times> bk_file) list \<Rightarrow> (string \<Rightarrow> nat list) \<Rightarrow> (string \<Rightarrow> image_stat) \<Rightarrow> (string \<times> json) list
     \<Rightarrow> gpt_record list \<Rightarrow> unit result" where
  "rehearse_gpt_restore files writes stat inventory plan =
     bind_result (dict_item inventory ''disks'') (\<lambda>value.
     case as_list value of
       None \<Rightarrow> Inl AssertionError
     | Some disks \<Rightarrow> fold_result (rehearse_disk files writes stat plan) disks ())"

subsection \<open>The command\<close>

record verify_args =
  va_inventory :: path_info
  va_payload :: "json option"
  va_output :: path_info
  va_gpt :: bk_dir
  va_partitions :: bk_dir
  va_writes :: "string \<Rightarrow> nat list"
  va_stat :: "string \<Rightarrow> image_stat"

definition verify_body :: "bk_env \<Rightarrow> verify_args \<Rightarrow> unit result" where
  "verify_body env args =
     bind_result (load_inventory (en_euid env) (va_inventory args) (va_payload args)) (\<lambda>inventory.
     bind_result (canonical_private_directory (en_euid env) (va_output args) ''backup output'') (\<lambda>_.
     bind_result (canonical_private_directory (en_euid env) (bd_info (va_partitions args)) ''partition backup directory'') (\<lambda>_.
     bind_result (canonical_private_directory (en_euid env) (bd_info (va_gpt args)) ''GPT backup directory'') (\<lambda>_.
     bind_result (backup_plan inventory) (\<lambda>(plan, partition_bytes).
     bind_result (gpt_backup_plan inventory) (\<lambda>(gpt_plan, gpt_bytes).
     bind_result (verify_gpt_resume env (va_gpt args) gpt_plan) (\<lambda>gpt_count.
     bind_result (verify_partition_resume env (va_partitions args) plan) (\<lambda>partition_count.
     if gpt_count \<noteq> length gpt_plan \<or> partition_count \<noteq> length plan
     then Inl (BackupError ''backup is only a prefix, not complete'')
     else rehearse_gpt_restore (bd_files (va_gpt args)) (va_writes args) (va_stat args) inventory gpt_plan))))))))"

fun verify_caught :: "exn \<Rightarrow> bool" where
  "verify_caught (BackupError m) = True"
| "verify_caught (ValueError m) = True"
| "verify_caught UnicodeError = True"
| "verify_caught OSError = True"
| "verify_caught FileNotFoundError = True"
| "verify_caught FileExistsError = True"
| "verify_caught (KeyError m) = True"
| "verify_caught _ = False"

definition verify_main :: "bk_env \<Rightarrow> verify_args \<Rightarrow> nat result" where
  "verify_main env args =
     (case verify_body env args of
        Inr _ \<Rightarrow> Inr 0
      | Inl e \<Rightarrow> if verify_caught e then Inr 1 else Inl e)"

subsection \<open>What the rehearsal writes\<close>

lemma write_at_append: "write_at (write_at img p a) (p + length a) b = write_at img p (a @ b)"
proof -
  define u where "u = take p img @ replicate (p - length img) CHR 0x00"
  define r where "r = drop (p + length a) img"
  have u: "length u = p" by (simp add: u_def)
  have first: "write_at img p a = u @ a @ r" by (simp add: write_at_def u_def r_def)
  have "write_at (u @ a @ r) (p + length a) b = u @ a @ b @ drop (length b) r"
    by (simp add: write_at_def u)
  also have "\<dots> = write_at img p (a @ b)" by (simp add: write_at_def u_def r_def add_ac)
  finally show ?thesis by (simp add: first)
qed

lemma write_range_step:
  assumes "source \<noteq> []"
  shows "write_range source position st =
     (if (case rh_writes st of [] \<Rightarrow> length (take CHUNK source) | w # _ \<Rightarrow> w) \<noteq> length (take CHUNK source)
      then Inl (BackupError ''short write in host-only GPT rehearsal'')
      else write_range (drop CHUNK source) (position + length (take CHUNK source))
        (st\<lparr>rh_image := write_at (rh_image st) position (take CHUNK source), rh_writes := drop 1 (rh_writes st)\<rparr>))"
  using assms by (subst write_range.simps) (simp add: Let_def min_def split: list.splits)

lemma write_range_Inr:
  "write_range source position st = Inr st' \<Longrightarrow> source \<noteq> [] \<Longrightarrow> rh_image st' = write_at (rh_image st) position source"
proof (induction "length source" arbitrary: source position st rule: less_induct)
  case less
  let ?st = "st\<lparr>rh_image := write_at (rh_image st) position (take CHUNK source), rh_writes := drop 1 (rh_writes st)\<rparr>"
  from less.prems have rest: "write_range (drop CHUNK source) (position + length (take CHUNK source)) ?st = Inr st'"
    by (simp only: write_range_step [OF less.prems(2)] sum.distinct split: if_splits)
  show ?case
  proof (cases "drop CHUNK source = []")
    case True
    from rest have "st' = ?st" by (subst (asm) True) (simp add: write_range.simps)
    with True show ?thesis by simp
  next
    case False
    have "length (drop CHUNK source) < length source" using less.prems(2) by (simp add: CHUNK_def)
    from less.hyps [OF this rest False]
    have "rh_image st' = write_at (rh_image ?st) (position + length (take CHUNK source)) (drop CHUNK source)" .
    then show ?thesis
      using write_at_append [of "rh_image st" position "take CHUNK source" "drop CHUNK source"]
      by (cases st) simp
  qed
qed

lemma write_range_all:
  "rh_writes st = [] \<Longrightarrow> source \<noteq> [] \<Longrightarrow> \<exists>st'. write_range source position st = Inr st' \<and> rh_writes st' = []"
proof (induction "length source" arbitrary: source position st rule: less_induct)
  case less
  let ?st = "st\<lparr>rh_image := write_at (rh_image st) position (take CHUNK source), rh_writes := drop 1 (rh_writes st)\<rparr>"
  have step: "write_range source position st
      = write_range (drop CHUNK source) (position + length (take CHUNK source)) ?st"
    by (subst write_range_step [OF less.prems(2)]) (simp add: less.prems(1))
  show ?case
  proof (cases "drop CHUNK source = []")
    case True
    show ?thesis unfolding step True by (simp add: write_range.simps less.prems(1))
  next
    case False
    have "length (drop CHUNK source) < length source" using less.prems(2) by (simp add: CHUNK_def)
    from less.hyps [OF this _ False] show ?thesis unfolding step by (simp add: less.prems(1))
  qed
qed

text \<open>
  The restored disk: zeros, with the two saved ranges at their places. Its GPT parses, and header,
  flags, partitions and the spare table's checksum are those of the inventory.
\<close>

definition restores_exactly ::
    "(string \<times> bk_file) list \<Rightarrow> (string \<Rightarrow> image_stat) \<Rightarrow> gpt_record list \<Rightarrow> json \<Rightarrow> bool" where
  "restores_exactly files stat plan value \<longleftrightarrow>
     (\<exists>disk name size logical r1 r2 f1 f2 g gpt entries projection.
        value = JDict disk \<and> dict_item disk ''name'' = Inr name
        \<and> int_item disk ''size_bytes'' = Inr (int size) \<and> int_item disk ''logical_block_bytes'' = Inr logical
        \<and> filter (\<lambda>r. gr_disk r = py_str name) plan = [r1, r2] \<and> {gr_role r1, gr_role r2} = {''primary'', ''backup''}
        \<and> map_of files (py_str name @ ''-'' @ gr_role r1 @ ''.bin'') = Some f1
        \<and> map_of files (py_str name @ ''-'' @ gr_role r2 @ ''.bin'') = Some f2
        \<and> 0 \<le> gr_offset r1 \<and> 0 \<le> gr_offset r2 \<and> check_image (stat (py_str name)) [r1, r2] = Inr ()
        \<and> (let img = write_at (write_at (replicate size CHR 0x00) (nat (gr_offset r1)) (bf_data f1))
                       (nat (gr_offset r2)) (bf_data f2);
               offset = h_entries_lba (g_backup g) * nat logical
           in parse_gpt img (nat logical) size = Inr g
              \<and> length (slice offset (offset + h_table_bytes (g_backup g)) img) = h_table_bytes (g_backup g)
              \<and> crc32 (slice offset (offset + h_table_bytes (g_backup g)) img) = h_entries_crc32 (g_backup g))
        \<and> dict_item disk ''gpt'' = Inr (JDict gpt)
        \<and> (\<forall>key\<in>set COMPARED_KEYS. \<exists>v. dict_item gpt key = Inr v \<and> json_eq (parsed_item g key) v)
        \<and> dict_item gpt ''partitions'' = Inr (JList entries) \<and> partition_projection entries = Inr projection
        \<and> json_eq (JList (map (\<lambda>p. JDict (gpt_partition_fields p)) (g_partitions g))) (JList projection))"

lemma compare_gpt_Inr:
  assumes "compare_gpt name logical img g expected = Inr u"
  obtains entries projection where
    "\<forall>key\<in>set COMPARED_KEYS. \<exists>v. dict_item expected key = Inr v \<and> json_eq (parsed_item g key) v"
    "dict_item expected ''partitions'' = Inr (JList entries)" "partition_projection entries = Inr projection"
    "json_eq (JList (map (\<lambda>p. JDict (gpt_partition_fields p)) (g_partitions g))) (JList projection)"
    "length (slice (h_entries_lba (g_backup g) * logical) (h_entries_lba (g_backup g) * logical + h_table_bytes (g_backup g)) img)
       = h_table_bytes (g_backup g)"
    "crc32 (slice (h_entries_lba (g_backup g) * logical) (h_entries_lba (g_backup g) * logical + h_table_bytes (g_backup g)) img)
       = h_entries_crc32 (g_backup g)"
proof -
  have item: "compare_item name g expected key () = Inr () \<longleftrightarrow>
      (\<exists>v. dict_item expected key = Inr v \<and> json_eq (parsed_item g key) v)" for key
    by (auto simp: compare_item_def bind_result_eq_Inr)
  from assms have "\<forall>key\<in>set COMPARED_KEYS. \<exists>v. dict_item expected key = Inr v \<and> json_eq (parsed_item g key) v"
    by (auto simp: compare_gpt_def bind_result_eq_Inr fold_result_unit item)
  moreover from assms obtain entries projection where
    "dict_item expected ''partitions'' = Inr (JList entries)" "partition_projection entries = Inr projection"
    "json_eq (JList (map (\<lambda>p. JDict (gpt_partition_fields p)) (g_partitions g))) (JList projection)"
    "length (slice (h_entries_lba (g_backup g) * logical) (h_entries_lba (g_backup g) * logical + h_table_bytes (g_backup g)) img)
       = h_table_bytes (g_backup g)"
    "crc32 (slice (h_entries_lba (g_backup g) * logical) (h_entries_lba (g_backup g) * logical + h_table_bytes (g_backup g)) img)
       = h_entries_crc32 (g_backup g)"
    by (auto simp: compare_gpt_def Let_def bind_result_eq_Inr simp del: json_eq.simps split: option.splits if_splits)
  ultimately show ?thesis by (rule that)
qed

lemma restore_record_Inr:
  assumes "restore_record files name r st = Inr st'"
  obtains f where "map_of files (name @ ''-'' @ gr_role r @ ''.bin'') = Some f" "0 \<le> gr_offset r"
    "bf_data f \<noteq> [] \<Longrightarrow> rh_image st' = write_at (rh_image st) (nat (gr_offset r)) (bf_data f)"
  using assms by (auto simp: restore_record_def bind_result_eq_Inr split: if_splits intro: write_range_Inr)

lemma rehearse_disk_Inr:
  assumes "rehearse_disk files writes stat plan value () = Inr ()"
    and "\<And>n f. map_of files n = Some f \<Longrightarrow> bf_data f \<noteq> []"
  shows "restores_exactly files stat plan value"
proof -
  from assms(1) obtain disk where val: "value = JDict disk" by (auto simp: rehearse_disk_def split: option.splits)
  from assms(1) obtain name where name: "dict_item disk ''name'' = Inr name"
    by (auto simp: rehearse_disk_def val as_dict_def bind_result_eq_Inr)
  let ?name = "py_str name"
  define records where "records = filter (\<lambda>r. gr_disk r = ?name) plan"
  note run = assms(1) [unfolded rehearse_disk_def val as_dict_def json.case option.case name bind_result_Inr Let_def records_def [symmetric]]
  from run have two: "length records = 2" "set (map gr_role records) = {''primary'', ''backup''}" by (auto split: if_splits)
  then obtain r1 r2 where r: "records = [r1, r2]" by (auto simp: length_Suc_conv eval_nat_numeral)
  from run two obtain sz img where sz': "int_item disk ''size_bytes'' = Inr sz"
    and restored: "restore_image files writes ?name records sz = Inr img"
    and image: "check_image (stat ?name) records = Inr ()" and check: "check_restored disk ?name sz img = Inr ()"
    by (auto simp: bind_result_eq_Inr)
  from restored obtain st where sz: "int_item disk ''size_bytes'' = Inr sz" "0 \<le> sz"
    and st: "fold_result (restore_record files ?name) records
           \<lparr>rh_image = replicate (nat sz) CHR 0x00, rh_writes = writes ?name\<rparr> = Inr st" and img_st: "img = rh_image st"
    using sz' by (auto simp: restore_image_def bind_result_eq_Inr split: if_splits)
  from check obtain logical g gpt where
    rest: "int_item disk ''logical_block_bytes'' = Inr logical"
      "parse_gpt (rh_image st) (nat logical) (nat sz) = Inr g" "dict_item disk ''gpt'' = Inr (JDict gpt)"
      "compare_gpt ?name (nat logical) (rh_image st) g gpt = Inr ()"
    by (auto simp: check_restored_def bind_result_eq_Inr img_st split: option.splits)
  from st r obtain st1 where s1: "restore_record files ?name r1
       \<lparr>rh_image = replicate (nat sz) CHR 0x00, rh_writes = writes ?name\<rparr> = Inr st1"
    and s2: "restore_record files ?name r2 st1 = Inr st" by (auto simp: bind_result_eq_Inr)
  obtain f1 where f1: "map_of files (?name @ ''-'' @ gr_role r1 @ ''.bin'') = Some f1" "0 \<le> gr_offset r1"
    "rh_image st1 = write_at (replicate (nat sz) CHR 0x00) (nat (gr_offset r1)) (bf_data f1)"
    using s1 assms(2) by (elim restore_record_Inr) auto
  obtain f2 where f2: "map_of files (?name @ ''-'' @ gr_role r2 @ ''.bin'') = Some f2" "0 \<le> gr_offset r2"
    "rh_image st = write_at (rh_image st1) (nat (gr_offset r2)) (bf_data f2)"
    using s2 assms(2) by (elim restore_record_Inr) auto
  from rest(4) show ?thesis
  proof (rule compare_gpt_Inr)
    fix entries projection
    assume *: "\<forall>key\<in>set COMPARED_KEYS. \<exists>v. dict_item gpt key = Inr v \<and> json_eq (parsed_item g key) v"
      "dict_item gpt ''partitions'' = Inr (JList entries)" "partition_projection entries = Inr projection"
      "json_eq (JList (map (\<lambda>p. JDict (gpt_partition_fields p)) (g_partitions g))) (JList projection)"
      "length (slice (h_entries_lba (g_backup g) * nat logical)
         (h_entries_lba (g_backup g) * nat logical + h_table_bytes (g_backup g)) (rh_image st)) = h_table_bytes (g_backup g)"
      "crc32 (slice (h_entries_lba (g_backup g) * nat logical)
         (h_entries_lba (g_backup g) * nat logical + h_table_bytes (g_backup g)) (rh_image st)) = h_entries_crc32 (g_backup g)"
    have img: "rh_image st = write_at (write_at (replicate (nat sz) CHR 0x00) (nat (gr_offset r1)) (bf_data f1))
                       (nat (gr_offset r2)) (bf_data f2)" by (simp only: f1(3) f2(3))
    have size: "int_item disk ''size_bytes'' = Inr (int (nat sz))" using sz by simp
    have roles: "{gr_role r1, gr_role r2} = {''primary'', ''backup''}" using two(2) r by simp
    show ?thesis
      unfolding restores_exactly_def Let_def
      by (intro exI conjI)
         (rule val name size rest(1) records_def [unfolded r, symmetric] roles f1(1,2) f2(1,2) image [unfolded r]
          rest(2) [unfolded img] * [unfolded img] rest(3))+
  qed
qed

subsection \<open>An accepted backup\<close>

lemma gpt_plan_positive:
  assumes "gpt_backup_plan inventory = Inr (plan, amount)"
  shows "\<forall>r\<in>set plan. 0 < gr_size r"
proof -
  from assms obtain disks where fold: "fold_result gpt_plan_disk disks ([], 0) = Inr (plan, amount)"
    by (auto simp: gpt_backup_plan_def bind_result_eq_Inr)
  from gpt_plan_fold [OF fold] obtain pairs where "plan = concat (map (\<lambda>(p, b). [p, b]) pairs)"
    and ok: "\<forall>q\<in>set pairs. range_pair_ok q" by auto
  moreover have "0 < gr_size p \<and> 0 < gr_size b" if "(p, b) \<in> set pairs" for p b
    using bspec [OF ok that] by (auto simp: range_pair_ok_def)
  ultimately show ?thesis by auto
qed

text \<open>The files of an area that resuming accepts in full are not empty.\<close>

lemma resumable_nonempty:
  assumes "resumable env d header jobs digests" and "\<forall>j\<in>set jobs. 0 < cj_size j" and "map_of (bd_files d) n = Some f"
  shows "bf_data f \<noteq> []"
proof -
  from assms(3) have "n \<in> fst ` set (bd_files d)" by (force dest: map_of_SomeD)
  with assms(1) obtain j where j: "j \<in> set (take (length digests) jobs)" "cj_name j = n"
    by (auto simp: resumable_def)
  from j(1) assms(1) obtain g where "job_done env d j g"
    by (auto simp: resumable_def list_all2_conv_all_nth in_set_conv_nth)
  moreover have "0 < cj_size j" using j(1) assms(2) by (auto dest: in_set_takeD)
  ultimately show ?thesis using assms(3) j(2) by (auto simp: job_done_def file_of_def)
qed

lemma compare_gptI:
  assumes "\<forall>key\<in>set COMPARED_KEYS. \<exists>v. dict_item expected key = Inr v \<and> json_eq (parsed_item g key) v"
    "dict_item expected ''partitions'' = Inr (JList entries)" "partition_projection entries = Inr projection"
    "json_eq (JList (map (\<lambda>p. JDict (gpt_partition_fields p)) (g_partitions g))) (JList projection)"
    "length (slice (h_entries_lba (g_backup g) * logical) (h_entries_lba (g_backup g) * logical + h_table_bytes (g_backup g)) img)
       = h_table_bytes (g_backup g)"
    "crc32 (slice (h_entries_lba (g_backup g) * logical) (h_entries_lba (g_backup g) * logical + h_table_bytes (g_backup g)) img)
       = h_entries_crc32 (g_backup g)"
  shows "compare_gpt name logical img g expected = Inr ()"
proof -
  have "fold_result (compare_item name g expected) COMPARED_KEYS () = Inr ()"
    using assms(1) by (auto simp: fold_result_unit compare_item_def bind_result_eq_Inr)
  with assms(2-) show ?thesis by (simp add: compare_gpt_def as_list_def Let_def del: json_eq.simps length_slice)
qed

lemma restore_record_all:
  assumes "map_of files (name @ ''-'' @ gr_role r @ ''.bin'') = Some f" and "0 \<le> gr_offset r" and "bf_data f \<noteq> []"
    and "rh_writes st = []"
  shows "\<exists>st'. restore_record files name r st = Inr st' \<and> rh_writes st' = []
     \<and> rh_image st' = write_at (rh_image st) (nat (gr_offset r)) (bf_data f)"
  using assms write_range_all [OF assms(4,3), of "nat (gr_offset r)"]
  by (auto simp: restore_record_def intro: write_range_Inr)

lemma rehearse_diskI:
  assumes ok: "restores_exactly files stat plan value" and full: "\<And>n f. map_of files n = Some f \<Longrightarrow> bf_data f \<noteq> []"
  shows "rehearse_disk files (\<lambda>_. []) stat plan value () = Inr ()"
proof -
  from ok [unfolded restores_exactly_def Let_def] obtain disk name n logical r1 r2 f1 f2 g gpt entries projection where
    val: "value = JDict disk" and name: "dict_item disk ''name'' = Inr name"
    and n: "int_item disk ''size_bytes'' = Inr (int n)" and logical: "int_item disk ''logical_block_bytes'' = Inr logical"
    and records: "filter (\<lambda>r. gr_disk r = py_str name) plan = [r1, r2]"
    and roles: "{gr_role r1, gr_role r2} = {''primary'', ''backup''}"
    and f1: "map_of files (py_str name @ ''-'' @ gr_role r1 @ ''.bin'') = Some f1"
    and f2: "map_of files (py_str name @ ''-'' @ gr_role r2 @ ''.bin'') = Some f2"
    and off: "0 \<le> gr_offset r1" "0 \<le> gr_offset r2"
    and image: "check_image (stat (py_str name)) [r1, r2] = Inr ()"
    and g: "parse_gpt (write_at (write_at (replicate n CHR 0x00) (nat (gr_offset r1)) (bf_data f1))
                       (nat (gr_offset r2)) (bf_data f2)) (nat logical) n = Inr g"
    and len: "length (slice (h_entries_lba (g_backup g) * nat logical)
         (h_entries_lba (g_backup g) * nat logical + h_table_bytes (g_backup g))
         (write_at (write_at (replicate n CHR 0x00) (nat (gr_offset r1)) (bf_data f1)) (nat (gr_offset r2)) (bf_data f2)))
         = h_table_bytes (g_backup g)"
    and crc: "crc32 (slice (h_entries_lba (g_backup g) * nat logical)
         (h_entries_lba (g_backup g) * nat logical + h_table_bytes (g_backup g))
         (write_at (write_at (replicate n CHR 0x00) (nat (gr_offset r1)) (bf_data f1)) (nat (gr_offset r2)) (bf_data f2)))
         = h_entries_crc32 (g_backup g)"
    and gpt: "dict_item disk ''gpt'' = Inr (JDict gpt)"
    and keys: "\<forall>key\<in>set COMPARED_KEYS. \<exists>v. dict_item gpt key = Inr v \<and> json_eq (parsed_item g key) v"
    and parts: "dict_item gpt ''partitions'' = Inr (JList entries)" "partition_projection entries = Inr projection"
      "json_eq (JList (map (\<lambda>p. JDict (gpt_partition_fields p)) (g_partitions g))) (JList projection)"
    by (elim exE conjE)
  let ?st = "\<lparr>rh_image = replicate n CHR 0x00, rh_writes = []\<rparr>"
  obtain st1 where st1: "restore_record files (py_str name) r1 ?st = Inr st1" "rh_writes st1 = []"
    "rh_image st1 = write_at (replicate n CHR 0x00) (nat (gr_offset r1)) (bf_data f1)"
    using restore_record_all [OF f1 off(1) full [OF f1], of ?st] by auto
  obtain st2 where st2: "restore_record files (py_str name) r2 st1 = Inr st2"
    "rh_image st2 = write_at (rh_image st1) (nat (gr_offset r2)) (bf_data f2)"
    using restore_record_all [OF f2 off(2) full [OF f2] st1(2)] by auto
  have img: "restore_image files (\<lambda>_. []) (py_str name) [r1, r2] (int n) = Inr (rh_image st2)"
    using st1 st2 by (simp add: restore_image_def)
  have st2_img: "rh_image st2 = write_at (write_at (replicate n CHR 0x00) (nat (gr_offset r1)) (bf_data f1))
      (nat (gr_offset r2)) (bf_data f2)" by (simp only: st1(3) st2(2))
  have "compare_gpt (py_str name) (nat logical) (rh_image st2) g gpt = Inr ()"
    unfolding st2_img by (rule compare_gptI [OF keys parts len crc])
  then have "check_restored disk (py_str name) (int n) (rh_image st2) = Inr ()"
    using g gpt logical by (simp add: check_restored_def st2_img as_dict_def)
  with img image name n records roles show ?thesis
    by (simp add: rehearse_disk_def val as_dict_def Let_def del: set_map set_filter)
qed


end
