(* ===== verification/Packager.thy ===== *)
theory Packager
  imports Packager_Config
begin

section \<open>Packaging a bundle atomically\<close>

text \<open>
  Models the file-system half of \<^verbatim>\<open>scripts/host/prepare-recovery-runtime-bundle.py\<close>: opening the
  inputs, staging the copies, signing, publishing by a no-replace rename, and cleaning up. Every
  system call takes the next act of a script: it goes ahead, fails, transfers fewer bytes, comes
  after another process has rewritten an input, or is the point where the process dies. \<open>fstat\<close>,
  \<open>lseek\<close> and \<open>close\<close> of an open descriptor do not fail. The staging directory is private to the
  caller, so nobody else writes in it. SHA-256 and \<open>openssl\<close> are parameters.
\<close>

subsection \<open>The host\<close>

datatype act = Go | Fail | Short nat | Change string bytes | Die

record input_file =
  if_dev :: nat
  if_ino :: nat
  if_regular :: bool
  if_uid :: nat
  if_mode :: nat
  if_nlink :: nat
  if_stamp :: nat
  if_data :: bytes

record staged_file =
  sf_uid :: nat
  sf_mode :: nat
  sf_nlink :: nat
  sf_data :: bytes

record bundle_dir =
  du_mode :: nat
  du_files :: "(string \<times> staged_file) list"

record bundle_root =
  br_directory :: bool
  br_uid :: nat
  br_mode :: nat
  br_busy :: bool
  br_entries :: "(string \<times> bundle_dir) list"

record pk =
  pk_inputs :: "string \<Rightarrow> input_file option"
  pk_root :: "bundle_root option"
  pk_created :: "string list"
  pk_sources :: "string list"
  pk_root_open :: bool
  pk_staging_open :: bool
  pk_staging :: "string option"
  pk_fds :: "string list"
  pk_acts :: "act list"

record pk_env =
  pe_sha256 :: "bytes \<Rightarrow> string"
  pe_euid :: nat
  pe_openssl :: bool
  pe_pkcs8 :: "bytes \<Rightarrow> int"
  pe_pubkey :: "bytes \<Rightarrow> int \<times> bytes"
  pe_sign :: "bytes \<Rightarrow> bytes \<Rightarrow> int \<times> bytes"
  pe_token :: "nat \<Rightarrow> string"

definition change_input :: "string \<Rightarrow> bytes \<Rightarrow> pk \<Rightarrow> pk" where
  "change_input path data s =
     s\<lparr>pk_inputs := (pk_inputs s)(path := map_option (\<lambda>f. f\<lparr>if_data := data, if_stamp := Suc (if_stamp f)\<rparr>)
        (pk_inputs s path))\<rparr>"

definition next_act :: "pk \<Rightarrow> act \<times> pk" where
  "next_act s =
     (case pk_acts s of
        [] \<Rightarrow> (Go, s)
      | Change path data # acts \<Rightarrow> (Go, change_input path data (s\<lparr>pk_acts := acts\<rparr>))
      | a # acts \<Rightarrow> (a, s\<lparr>pk_acts := acts\<rparr>))"

definition call :: "(pk \<Rightarrow> 'a result \<times> pk) \<Rightarrow> (pk, 'a) io" where
  "call f s =
     (case next_act s of
        (Fail, t) \<Rightarrow> (Inl OSError, t)
      | (Die, t) \<Rightarrow> (Inl Killed, t)
      | (_, t) \<Rightarrow> f t)"

definition call_do :: "(pk \<Rightarrow> pk) \<Rightarrow> (pk, unit) io" where
  "call_do f = call (\<lambda>s. (Inr (), f s))"

text \<open>\<open>try ... finally\<close>, which a dead process does not reach.\<close>

definition finally_do :: "('s, 'a) io \<Rightarrow> ('s, unit) io \<Rightarrow> ('s, 'a) io" where
  "finally_do m f s =
     (case m s of (r, t) \<Rightarrow>
        if r = Inl Killed then (r, t)
        else (case f t of (Inl e, u) \<Rightarrow> (Inl e, u) | (Inr _, u) \<Rightarrow> (r, u)))"

text \<open>\<open>except OSError as error: raise ... from error\<close>, and \<open>except FileNotFoundError: pass\<close>.\<close>

fun is_os_error :: "exn \<Rightarrow> bool" where
  "is_os_error OSError = True"
| "is_os_error FileNotFoundError = True"
| "is_os_error FileExistsError = True"
| "is_os_error _ = False"

definition on_os_error :: "('s, 'a) io \<Rightarrow> ('s, 'a) io \<Rightarrow> ('s, 'a) io" where
  "on_os_error m h = try_except m (\<lambda>e. if is_os_error e then h else raise e)"

definition unless_missing :: "('s, unit) io \<Rightarrow> ('s, unit) io" where
  "unless_missing m = try_except m (\<lambda>e. if e = FileNotFoundError then ret () else raise e)"

definition open_fd :: "string \<Rightarrow> pk \<Rightarrow> pk" where
  "open_fd fd s = s\<lparr>pk_fds := fd # pk_fds s\<rparr>"

definition close_fd :: "string \<Rightarrow> (pk, unit) io" where
  "close_fd fd = modify (\<lambda>s. s\<lparr>pk_fds := remove1 fd (pk_fds s)\<rparr>)"

definition on_root :: "(bundle_root \<Rightarrow> bundle_root) \<Rightarrow> pk \<Rightarrow> pk" where
  "on_root f s = s\<lparr>pk_root := map_option f (pk_root s)\<rparr>"

definition root_entries :: "pk \<Rightarrow> (string \<times> bundle_dir) list" where
  "root_entries s = (case pk_root s of None \<Rightarrow> [] | Some r \<Rightarrow> br_entries r)"

definition set_entries :: "((string \<times> bundle_dir) list \<Rightarrow> (string \<times> bundle_dir) list) \<Rightarrow> pk \<Rightarrow> pk" where
  "set_entries f = on_root (\<lambda>r. r\<lparr>br_entries := f (br_entries r)\<rparr>)"

definition on_staging :: "string \<Rightarrow> (bundle_dir \<Rightarrow> bundle_dir) \<Rightarrow> pk \<Rightarrow> pk" where
  "on_staging name f = set_entries (map (\<lambda>(n, d). (n, if n = name then f d else d)))"

definition staged_files :: "string \<Rightarrow> pk \<Rightarrow> (string \<times> staged_file) list" where
  "staged_files name s = (case map_of (root_entries s) name of None \<Rightarrow> [] | Some d \<Rightarrow> du_files d)"

subsection \<open>Inputs\<close>

definition input_of :: "string \<Rightarrow> pk \<Rightarrow> input_file" where
  "input_of path s = the (pk_inputs s path)"

definition open_regular :: "string \<Rightarrow> string \<Rightarrow> (pk, unit) io" where
  "open_regular path label =
     bind_io (on_os_error
       (call (\<lambda>s. case pk_inputs s path of
                    None \<Rightarrow> (Inl FileNotFoundError, s)
                  | Some _ \<Rightarrow> (Inr (), open_fd path s)))
       (raise (BundleError (''cannot open '' @ label)))) (\<lambda>_.
     bind_io (gets (input_of path)) (\<lambda>metadata.
       if \<not> if_regular metadata
       then bind_io (close_fd path) (\<lambda>_. raise (BundleError (label @ '' is not a regular file'')))
       else ret ()))"

definition source_snapshot :: "input_file \<Rightarrow> nat \<times> nat \<times> bool \<times> nat \<times> nat \<times> nat \<times> nat" where
  "source_snapshot f =
     (if_dev f, if_ino f, if_regular f, if_mode f, if_nlink f, length (if_data f), if_stamp f)"

definition SPKI_PREFIX :: bytes where
  "SPKI_PREFIX = map char_of [48, 42, 48, 5, 6, 3, 43, 101, 112, 3, 33, 0 :: nat]"

definition validate_private_key :: "pk_env \<Rightarrow> string \<Rightarrow> (pk, bytes) io" where
  "validate_private_key env path =
     bind_io (gets (input_of path)) (\<lambda>metadata.
     bind_io (when_raise (if_uid metadata \<noteq> pe_euid env \<or> if_mode metadata \<notin> {256, 384}
          \<or> if_nlink metadata \<noteq> 1 \<or> length (if_data metadata) < 1 \<or> 64 * 1024 < length (if_data metadata))
        (BundleError ''private key metadata is unsafe'')) (\<lambda>_.
     bind_io (call (\<lambda>s. (Inr (pe_pkcs8 env (if_data (input_of path s))), s))) (\<lambda>returncode.
     bind_io (when_raise (returncode \<noteq> 0) (BundleError ''private key is not unencrypted PKCS#8'')) (\<lambda>_.
     bind_io (call (\<lambda>s. (Inr (pe_pubkey env (if_data (input_of path s))), s))) (\<lambda>(returncode, stdout).
     bind_io (when_raise (returncode \<noteq> 0 \<or> length stdout \<noteq> length SPKI_PREFIX + 32 \<or> \<not> prefix SPKI_PREFIX stdout)
        (BundleError ''private key is not Ed25519'')) (\<lambda>_.
     ret (drop (length SPKI_PREFIX) stdout)))))))"

subsection \<open>The bundle root and the staging directory\<close>

definition directory_inventory :: "(pk \<Rightarrow> string list) \<Rightarrow> (pk, string list) io" where
  "directory_inventory names =
     bind_io (call_do (open_fd ''snapshot'')) (\<lambda>_.
       finally_do (call (\<lambda>s. (Inr (names s), s))) (close_fd ''snapshot''))"

definition open_bundle_root :: "pk_env \<Rightarrow> (pk, unit) io" where
  "open_bundle_root env =
     bind_io (on_os_error
       (call (\<lambda>s. case pk_root s of
                    None \<Rightarrow> (Inl FileNotFoundError, s)
                  | Some r \<Rightarrow> if br_directory r then (Inr (), open_fd ''root'' s) else (Inl OSError, s)))
       (raise (BundleError ''cannot open bundle root''))) (\<lambda>_.
     bind_io (gets (\<lambda>s. the (pk_root s))) (\<lambda>metadata.
     if br_uid metadata \<noteq> pe_euid env \<or> br_mode metadata \<noteq> 448
     then bind_io (close_fd ''root'') (\<lambda>_. raise (BundleError ''bundle root metadata is unsafe''))
     else
     bind_io (on_os_error
       (call (\<lambda>s. if br_busy (the (pk_root s)) then (Inl OSError, s) else (Inr (), s)))
       (bind_io (close_fd ''root'') (\<lambda>_. raise (BundleError ''bundle root is busy'')))) (\<lambda>_.
     bind_io (directory_inventory (\<lambda>s. map fst (root_entries s))) (\<lambda>names.
     if names \<noteq> [] then bind_io (close_fd ''root'') (\<lambda>_. raise (BundleError ''bundle root is not empty''))
     else ret ()))))"

definition staging_name :: "pk_env \<Rightarrow> string \<Rightarrow> nat \<Rightarrow> string" where
  "staging_name env bundle_name i = ''.'' @ bundle_name @ ''.staging-'' @ pe_token env i"

definition make_staging :: "string \<Rightarrow> (pk, bool) io" where
  "make_staging name =
     try_except
       (call (\<lambda>s. if map_of (root_entries s) name \<noteq> None then (Inl FileExistsError, s)
                  else (Inr True, set_entries (\<lambda>es. (name, \<lparr>du_mode = 448, du_files = []\<rparr>) # es) s)))
       (\<lambda>e. if e = FileExistsError then ret False else raise e)"

definition open_staging :: "string \<Rightarrow> (pk, unit) io" where
  "open_staging name =
     on_os_error (call_do (open_fd ''staging''))
       (bind_io (on_os_error (call_do (set_entries (filter (\<lambda>(n, _). n \<noteq> name))))
          (raise (BundleError ''cannot clean failed staging directory'')))
        (\<lambda>_. raise (BundleError ''cannot open private staging directory'')))"

fun staging_attempts :: "pk_env \<Rightarrow> string \<Rightarrow> nat list \<Rightarrow> (pk, string) io" where
  "staging_attempts env bundle_name [] = raise (BundleError ''cannot allocate a private staging directory'')"
| "staging_attempts env bundle_name (i # attempts) =
     bind_io (make_staging (staging_name env bundle_name i)) (\<lambda>made.
     if \<not> made then staging_attempts env bundle_name attempts
     else
     bind_io (open_staging (staging_name env bundle_name i)) (\<lambda>_.
     ret (staging_name env bundle_name i)))"

definition create_staging_directory :: "pk_env \<Rightarrow> string \<Rightarrow> (pk, string) io" where
  "create_staging_directory env bundle_name = staging_attempts env bundle_name [0..<32]"

subsection \<open>Copying and creating files\<close>

definition BLOCK :: nat where
  "BLOCK = 1024 * 1024"

function write_all :: "(bytes \<Rightarrow> pk \<Rightarrow> pk) \<Rightarrow> bytes \<Rightarrow> (pk, unit) io" where
  "write_all put payload s =
     (if payload = [] then (Inr (), s)
      else case next_act s of
        (Fail, t) \<Rightarrow> (Inl OSError, t)
      | (Die, t) \<Rightarrow> (Inl Killed, t)
      | (Short n, t) \<Rightarrow>
          if n = 0 then (Inl (BundleError ''bundle artifact write made no progress''), t)
          else write_all put (drop n payload) (put (take n payload) t)
      | (_, t) \<Rightarrow> (Inr (), put payload t))"
  by pat_completeness auto
termination
  by (relation "measure (\<lambda>(_, payload, _). length payload)") auto

declare write_all.simps [simp del]

text \<open>\<open>os.read(descriptor, 1024 * 1024)\<close> at a position; a short read has at least one byte.\<close>

definition read_block :: "(pk \<Rightarrow> bytes) \<Rightarrow> nat \<Rightarrow> (pk, bytes) io" where
  "read_block data position s =
     (case next_act s of
        (Fail, t) \<Rightarrow> (Inl OSError, t)
      | (Die, t) \<Rightarrow> (Inl Killed, t)
      | (Short n, t) \<Rightarrow> (Inr (take (max 1 n) (take BLOCK (drop position (data t)))), t)
      | (_, t) \<Rightarrow> (Inr (take BLOCK (drop position (data t))), t))"

lemma read_block_more:
  "(Inr block, t) = read_block (\<lambda>_. data) position s \<Longrightarrow> block \<noteq> [] \<Longrightarrow> position < length data"
  "read_block (\<lambda>_. data) position s = (Inr block, t) \<Longrightarrow> block \<noteq> [] \<Longrightarrow> position < length data"
  by (auto simp: read_block_def split: act.splits prod.splits)

definition put_staged :: "string \<Rightarrow> string \<Rightarrow> bytes \<Rightarrow> pk \<Rightarrow> pk" where
  "put_staged staging name bs =
     on_staging staging (\<lambda>d. d\<lparr>du_files := map (\<lambda>(n, f). (n, if n = name then f\<lparr>sf_data := sf_data f @ bs\<rparr> else f))
       (du_files d)\<rparr>)"

function copy_loop :: "string \<Rightarrow> string \<Rightarrow> string \<Rightarrow> nat \<Rightarrow> nat \<Rightarrow> (pk, nat) io" where
  "copy_loop path staging name maximum observed s =
     (case read_block (\<lambda>s. if_data (input_of path s)) observed s of
        (Inl e, t) \<Rightarrow> (Inl e, t)
      | (Inr block, t) \<Rightarrow>
          if block = [] then (Inr observed, t)
          else if maximum < observed + length block
          then (Inl (BundleError (name @ '' changed beyond size policy'')), t)
          else case write_all (put_staged staging name) block t of
            (Inl e, u) \<Rightarrow> (Inl e, u)
          | (Inr _, u) \<Rightarrow> copy_loop path staging name maximum (observed + length block) u)"
  by pat_completeness auto
termination
proof (relation "measure (\<lambda>(_, _, _, maximum, observed, _). maximum - observed)")
  fix path staging name :: string and maximum observed :: nat and s t u :: pk and block :: bytes
  assume "\<not> maximum < observed + length block" "block \<noteq> []"
  moreover from this(2) have "0 < length block" by simp
  ultimately have "maximum - (observed + length block) < maximum - observed" by linarith
  then show "((path, staging, name, maximum, observed + length block, u), path, staging, name, maximum, observed, s)
    \<in> measure (\<lambda>(_, _, _, maximum, observed, _). maximum - observed)" by simp
qed simp

declare copy_loop.simps [simp del]

text \<open>Reading the staged copy back: nobody else writes in the staging directory.\<close>

function hash_loop :: "bytes \<Rightarrow> nat \<Rightarrow> (pk, nat) io" where
  "hash_loop data hashed s =
     (case read_block (\<lambda>_. data) hashed s of
        (Inl e, t) \<Rightarrow> (Inl e, t)
      | (Inr block, t) \<Rightarrow> if block = [] then (Inr hashed, t) else hash_loop data (hashed + length block) t)"
  by pat_completeness auto
termination
  by (relation "measure (\<lambda>(data, hashed, _). length data - hashed)")
     (auto dest!: read_block_more intro!: diff_less_mono2)

declare hash_loop.simps [simp del]

definition staged_of :: "string \<Rightarrow> string \<Rightarrow> pk \<Rightarrow> staged_file" where
  "staged_of staging name s = the (map_of (staged_files staging s) name)"

definition open_staged :: "pk_env \<Rightarrow> string \<Rightarrow> string \<Rightarrow> (pk, unit) io" where
  "open_staged env staging name =
     bind_io (call (\<lambda>s. if map_of (staged_files staging s) name \<noteq> None then (Inl FileExistsError, s)
        else (Inr (), open_fd name (on_staging staging (\<lambda>d. d\<lparr>du_files := du_files d
           @ [(name, \<lparr>sf_uid = pe_euid env, sf_mode = 256, sf_nlink = 1, sf_data = []\<rparr>)]\<rparr>) s)))) (\<lambda>_.
     modify (\<lambda>s. s\<lparr>pk_created := pk_created s @ [name]\<rparr>))"

definition seal_staged :: "string \<Rightarrow> string \<Rightarrow> (pk, unit) io" where
  "seal_staged staging name =
     bind_io (call_do (on_staging staging (\<lambda>d. d\<lparr>du_files := map (\<lambda>(n, f). (n, if n = name then f\<lparr>sf_mode := 256\<rparr> else f))
        (du_files d)\<rparr>))) (\<lambda>_. call_do id)"

definition check_output :: "pk_env \<Rightarrow> staged_file \<Rightarrow> string \<Rightarrow> nat \<Rightarrow> (pk, unit) io" where
  "check_output env metadata name n =
     when_raise (sf_uid metadata \<noteq> pe_euid env \<or> sf_mode metadata \<noteq> 256 \<or> sf_nlink metadata \<noteq> 1
        \<or> length (sf_data metadata) \<noteq> n) (BundleError (name @ '' output metadata is unsafe''))"

definition copy_body :: "pk_env \<Rightarrow> string \<Rightarrow> string \<Rightarrow> string \<Rightarrow> nat \<Rightarrow> input_file \<Rightarrow> (pk, nat \<times> string) io" where
  "copy_body env path staging name maximum before =
     bind_io (copy_loop path staging name maximum 0) (\<lambda>observed.
     bind_io (seal_staged staging name) (\<lambda>_.
     bind_io (gets (staged_of staging name)) (\<lambda>out.
     bind_io (gets (input_of path)) (\<lambda>after.
     bind_io (when_raise (source_snapshot before \<noteq> source_snapshot after \<or> observed \<noteq> length (if_data before))
        (BundleError (name @ '' changed while being copied''))) (\<lambda>_.
     bind_io (check_output env out name observed) (\<lambda>_.
     bind_io (hash_loop (sf_data out) 0) (\<lambda>hashed.
     bind_io (when_raise (hashed \<noteq> observed) (BundleError (name @ '' staged snapshot changed''))) (\<lambda>_.
     ret (observed, pe_sha256 env (sf_data out))))))))))"

definition copy_artifact :: "pk_env \<Rightarrow> string \<Rightarrow> string \<Rightarrow> string \<times> nat \<times> nat \<Rightarrow> (pk, nat \<times> string) io" where
  "copy_artifact env path staging artifact =
     (case artifact of (name, minimum, maximum) \<Rightarrow>
        bind_io (gets (input_of path)) (\<lambda>before.
        bind_io (when_raise (length (if_data before) < minimum \<or> maximum < length (if_data before))
           (BundleError (name @ '' size is outside policy''))) (\<lambda>_.
        bind_io (open_staged env staging name) (\<lambda>_.
        finally_do (copy_body env path staging name maximum before) (close_fd name)))))"

definition create_file :: "pk_env \<Rightarrow> string \<Rightarrow> string \<Rightarrow> bytes \<Rightarrow> (pk, unit) io" where
  "create_file env staging name payload =
     bind_io (open_staged env staging name) (\<lambda>_.
     finally_do
       (bind_io (write_all (put_staged staging name) payload) (\<lambda>_.
        bind_io (seal_staged staging name) (\<lambda>_.
        bind_io (gets (staged_of staging name)) (\<lambda>metadata.
        check_output env metadata name (length payload)))))
       (close_fd name))"

subsection \<open>Signing, publishing, cleaning up\<close>

definition sign_manifest :: "pk_env \<Rightarrow> bytes \<Rightarrow> string \<Rightarrow> (pk, bytes) io" where
  "sign_manifest env manifest private_key =
     bind_io (on_os_error (call_do (open_fd ''message'')) (raise (BundleError ''cannot create private signing input''))) (\<lambda>_.
     bind_io (finally_do
       (bind_io (write_all (\<lambda>_ s. s) manifest) (\<lambda>_.
        call (\<lambda>s. (Inr (pe_sign env (if_data (input_of private_key s)) manifest), s))))
       (close_fd ''message'')) (\<lambda>(returncode, stdout).
     bind_io (when_raise (returncode \<noteq> 0 \<or> length stdout \<noteq> 64) (BundleError ''Ed25519 manifest signing failed'')) (\<lambda>_.
     ret stdout)))"

definition rename_noreplace :: "string \<Rightarrow> string \<Rightarrow> (pk, unit) io" where
  "rename_noreplace source destination =
     on_os_error
       (call (\<lambda>s. if map_of (root_entries s) destination \<noteq> None then (Inl FileExistsError, s)
                  else if map_of (root_entries s) source = None then (Inl FileNotFoundError, s)
                  else (Inr (), set_entries (map (\<lambda>(n, d). (if n = source then destination else n, d))) s)))
       (raise (BundleError ''atomic no-replace publication failed''))"

definition cleanup_staging :: "string \<Rightarrow> (pk, unit) io" where
  "cleanup_staging staging =
     bind_io (on_os_error (call_do (on_staging staging (\<lambda>d. d\<lparr>du_mode := 448\<rparr>))) (ret ())) (\<lambda>_.
     bind_io (gets (\<lambda>s. rev (pk_created s))) (\<lambda>names.
     bind_io (for_each (\<lambda>name. unless_missing
        (call (\<lambda>s. if map_of (staged_files staging s) name = None then (Inl FileNotFoundError, s)
                   else (Inr (), on_staging staging (\<lambda>d. d\<lparr>du_files := filter (\<lambda>(n, _). n \<noteq> name) (du_files d)\<rparr>) s)))) names) (\<lambda>_.
     unless_missing
       (call (\<lambda>s. case map_of (root_entries s) staging of
                    None \<Rightarrow> (Inl FileNotFoundError, s)
                  | Some d \<Rightarrow> if du_files d \<noteq> [] then (Inl OSError, s)
                              else (Inr (), set_entries (filter (\<lambda>(n, _). n \<noteq> staging)) s))))))"

definition FINAL_INVENTORY :: "string list" where
  "FINAL_INVENTORY = [''manifest'', ''manifest.sig''] @ map fst packager_artifacts"

subsection \<open>The packager\<close>

text \<open>
  The local variables that the \<open>finally\<close> block reads are fields of the state: the opened sources, whether
  root and staging are open, and the staging name until the bundle is published.
\<close>

definition open_source :: "nat \<times> nat \<Rightarrow> (string \<times> nat \<times> nat) \<times> string \<Rightarrow> (pk, unit) io" where
  "open_source private_key_identity x =
     (case x of ((name, minimum, maximum), path) \<Rightarrow>
        bind_io (open_regular path name) (\<lambda>_.
        bind_io (gets (input_of path)) (\<lambda>metadata.
        if (if_dev metadata, if_ino metadata) = private_key_identity
        then bind_io (close_fd path) (\<lambda>_. raise (BundleError ''bundle artifact aliases the private key''))
        else modify (\<lambda>s. s\<lparr>pk_sources := pk_sources s @ [path]\<rparr>))))"

fun copy_artifacts ::
    "pk_env \<Rightarrow> string \<Rightarrow> (string \<times> (string \<times> nat \<times> nat)) list \<Rightarrow> (pk, (string \<times> nat \<times> string) list) io" where
  "copy_artifacts env staging [] = ret []"
| "copy_artifacts env staging ((path, artifact) # rest) =
     bind_io (copy_artifact env path staging artifact) (\<lambda>seen.
     bind_io (copy_artifacts env staging rest) (\<lambda>others. ret ((fst artifact, seen) # others)))"

definition observed_of :: "(string \<times> nat \<times> string) list \<Rightarrow> string \<Rightarrow> nat \<times> string" where
  "observed_of observed name = the (map_of observed name)"

definition stage_bundle :: "pk_env \<Rightarrow> configuration \<Rightarrow> string \<Rightarrow> string list \<Rightarrow> string
     \<Rightarrow> nat \<times> nat \<times> bool \<times> nat \<times> nat \<times> nat \<times> nat \<Rightarrow> (pk, bytes) io" where
  "stage_bundle env config private_key sources staging key_snapshot =
     bind_io (copy_artifacts env staging (zip sources packager_artifacts)) (\<lambda>observed.
     bind_io (lift_result (manifest_bytes config (observed_of observed))) (\<lambda>manifest.
     bind_io (create_file env staging ''manifest'' manifest) (\<lambda>_.
     bind_io (sign_manifest env manifest private_key) (\<lambda>signature.
     bind_io (gets (input_of private_key)) (\<lambda>after.
     bind_io (when_raise (source_snapshot after \<noteq> key_snapshot) (BundleError ''private key changed while signing'')) (\<lambda>_.
     bind_io (when_raise (length signature \<noteq> 64) (BundleError ''Ed25519 manifest signature has wrong size'')) (\<lambda>_.
     bind_io (create_file env staging ''manifest.sig'' signature) (\<lambda>_.
     bind_io (directory_inventory (\<lambda>s. map fst (staged_files staging s))) (\<lambda>names.
     bind_io (when_raise (set names \<noteq> set FINAL_INVENTORY) (BundleError ''staging inventory is incomplete'')) (\<lambda>_.
     ret manifest))))))))))"

definition publish :: "string \<Rightarrow> string \<Rightarrow> (pk, unit) io" where
  "publish staging bundle_name =
     bind_io (call_do id) (\<lambda>_.
     bind_io (call_do (on_staging staging (\<lambda>d. d\<lparr>du_mode := 320\<rparr>))) (\<lambda>_.
     bind_io (rename_noreplace staging bundle_name) (\<lambda>_.
     bind_io (modify (\<lambda>s. s\<lparr>pk_staging := None\<rparr>)) (\<lambda>_.
     call_do id))))"

definition prepare_body :: "pk_env \<Rightarrow> configuration \<Rightarrow> (pk, string \<times> string) io" where
  "prepare_body env config =
     (let private_key = cfg_private_key config;
          sources = [cfg_image config, cfg_dtb config, cfg_initramfs config] in
      bind_io (gets (\<lambda>s. source_snapshot (input_of private_key s))) (\<lambda>key_snapshot.
      bind_io (validate_private_key env private_key) (\<lambda>public_key.
      bind_io (gets (\<lambda>s. (if_dev (input_of private_key s), if_ino (input_of private_key s)))) (\<lambda>identity.
      bind_io (for_each (open_source identity) (zip packager_artifacts sources)) (\<lambda>_.
      bind_io (open_bundle_root env) (\<lambda>_.
      bind_io (modify (\<lambda>s. s\<lparr>pk_root_open := True\<rparr>)) (\<lambda>_.
      bind_io (create_staging_directory env (cfg_bundle config)) (\<lambda>staging.
      bind_io (modify (\<lambda>s. s\<lparr>pk_staging := Some staging, pk_staging_open := True\<rparr>)) (\<lambda>_.
      bind_io (stage_bundle env config private_key sources staging key_snapshot) (\<lambda>manifest.
      bind_io (publish staging (cfg_bundle config)) (\<lambda>_.
      ret (pe_sha256 env manifest, pe_sha256 env public_key))))))))))))"

definition release :: "string \<Rightarrow> (pk, unit) io" where
  "release private_key =
     bind_io (gets (\<lambda>s. s)) (\<lambda>s.
     bind_io (case pk_staging s of
                None \<Rightarrow> ret ()
              | Some staging \<Rightarrow> if pk_root_open s \<and> pk_staging_open s then cleanup_staging staging else ret ()) (\<lambda>_.
     bind_io (if pk_staging_open s then close_fd ''staging'' else ret ()) (\<lambda>_.
     bind_io (if pk_root_open s then close_fd ''root'' else ret ()) (\<lambda>_.
     bind_io (for_each close_fd (pk_sources s)) (\<lambda>_.
     close_fd private_key)))))"

definition prepare_bundle :: "pk_env \<Rightarrow> configuration \<Rightarrow> (pk, string \<times> string) io" where
  "prepare_bundle env config =
     bind_io (lift_result (validate_configuration config)) (\<lambda>_.
     bind_io (when_raise (\<not> pe_openssl env) (BundleError ''openssl is unavailable'')) (\<lambda>_.
     bind_io (open_regular (cfg_private_key config) ''private key'') (\<lambda>_.
     bind_io (modify (\<lambda>s. s\<lparr>pk_sources := [], pk_root_open := False, pk_staging_open := False,
        pk_staging := None, pk_created := []\<rparr>)) (\<lambda>_.
     finally_do (prepare_body env config) (release (cfg_private_key config))))))"

text \<open>The exit status and the lines on standard output; the recipe file and the argument parser are inputs.\<close>

definition packager_main :: "pk_env \<Rightarrow> configuration \<Rightarrow> (pk, nat \<times> string list) io" where
  "packager_main env config =
     try_except
       (bind_io (prepare_bundle env config) (\<lambda>(manifest_hash, trust_key_hash).
          ret (0, [''format=rog5-prepared-bundle-v1'', ''bundle='' @ cfg_bundle config,
                   ''profile='' @ cfg_profile config, ''manifest_sha256='' @ manifest_hash,
                   ''trust_key_sha256='' @ trust_key_hash])))
       (\<lambda>e. case e of BundleError m \<Rightarrow> ret (1, []) | _ \<Rightarrow> if is_os_error e then ret (1, []) else raise e)"

end
