(* ===== verification/Bundle_Publication.thy ===== *)
theory Bundle_Publication
  imports Packager
begin

section \<open>A bundle is published whole or not at all\<close>

text \<open>
  For every script of system-call outcomes, deaths of the process included: the bundle root's entry
  of the bundle's name is what it was, or a complete sealed bundle whose manifest describes the
  copied artifacts. A run that returns has published, with the sources' exact contents.
\<close>

subsection \<open>Entries of the bundle root\<close>

definition entry :: "string \<Rightarrow> pk \<Rightarrow> bundle_dir option" where
  "entry name s = map_of (root_entries s) name"

lemma map_of_map_snd: "map_of (map (\<lambda>(n, d). (n, if n = name then f d else d)) xs) m
    = (if m = name then map_option f (map_of xs m) else map_of xs m)"
  by (induction xs) auto

lemma root_entries_set [simp]:
  "root_entries (set_entries f s) = (if pk_root s = None then [] else f (root_entries s))"
  by (auto simp: root_entries_def set_entries_def on_root_def split: option.splits)

lemma entry_on_staging [simp]:
  "entry m (on_staging name f s) = (if m = name then map_option f (entry m s) else entry m s)"
  by (simp add: entry_def on_staging_def map_of_map_snd) (simp add: root_entries_def)

lemma pk_root_updates [simp]: "(pk_root (set_entries f s) = None) = (pk_root s = None)"
  "(pk_root (on_staging n g s) = None) = (pk_root s = None)"
  by (simp_all add: set_entries_def on_root_def on_staging_def)

lemma root_entries_fields [simp]:
  "root_entries (s\<lparr>pk_inputs := x1\<rparr>) = root_entries s" "root_entries (s\<lparr>pk_created := x2\<rparr>) = root_entries s"
  "root_entries (s\<lparr>pk_sources := x3\<rparr>) = root_entries s" "root_entries (s\<lparr>pk_root_open := x4\<rparr>) = root_entries s"
  "root_entries (s\<lparr>pk_staging_open := x5\<rparr>) = root_entries s" "root_entries (s\<lparr>pk_staging := x6\<rparr>) = root_entries s"
  "root_entries (s\<lparr>pk_fds := x7\<rparr>) = root_entries s" "root_entries (s\<lparr>pk_acts := x8\<rparr>) = root_entries s"
  by (simp_all add: root_entries_def)

lemma root_entries_open_fd [simp]: "root_entries (open_fd fd s) = root_entries s"
  by (simp add: open_fd_def)

lemma root_entries_change [simp]: "root_entries (change_input p d s) = root_entries s"
  by (simp add: change_input_def)

lemma next_act_entries: "next_act s = (a, t) \<Longrightarrow> root_entries t = root_entries s"
  by (auto simp: next_act_def split: list.splits act.splits)

lemma entry_cong: "root_entries t = root_entries s \<Longrightarrow> entry n t = entry n s"
  by (simp add: entry_def)

lemma entry_fields [simp]:
  "entry n (s\<lparr>pk_created := x2\<rparr>) = entry n s" "entry n (s\<lparr>pk_sources := x3\<rparr>) = entry n s"
  "entry n (s\<lparr>pk_root_open := x4\<rparr>) = entry n s" "entry n (s\<lparr>pk_staging_open := x5\<rparr>) = entry n s"
  "entry n (s\<lparr>pk_staging := x6\<rparr>) = entry n s" "entry n (s\<lparr>pk_fds := x7\<rparr>) = entry n s"
  "entry n (open_fd fd s) = entry n s"
  by (simp_all add: entry_def)

subsection \<open>Nothing before the rename touches the bundle's name\<close>

lemma keeps_call [keeps_intros]:
  "(\<And>s a t. I s \<Longrightarrow> next_act s = (a, t) \<Longrightarrow> I t) \<Longrightarrow> (\<And>s. I s \<Longrightarrow> I (snd (f s))) \<Longrightarrow> keeps I (call f)"
  by (auto simp: keeps_def call_def split: prod.splits act.splits)

definition kept :: "string \<Rightarrow> bundle_dir option \<Rightarrow> string option set \<Rightarrow> pk \<Rightarrow> bool" where
  "kept b d P s \<longleftrightarrow> entry b s = d \<and> pk_staging s \<in> P"

lemma next_act_staging: "next_act s = (a, t) \<Longrightarrow> pk_staging t = pk_staging s"
  by (auto simp: next_act_def change_input_def split: list.splits act.splits)

lemma pk_staging_updates [simp]: "pk_staging (set_entries f s) = pk_staging s"
  "pk_staging (on_staging n g s) = pk_staging s" "pk_staging (open_fd fd s) = pk_staging s"
  by (simp_all add: set_entries_def on_root_def on_staging_def open_fd_def)

lemma kept_next: "kept b d P s \<Longrightarrow> next_act s = (a, t) \<Longrightarrow> kept b d P t"
  by (simp add: kept_def entry_def next_act_entries next_act_staging)

lemma kept_fields [simp]:
  "kept b d P (s\<lparr>pk_inputs := x1\<rparr>) = kept b d P s" "kept b d P (s\<lparr>pk_created := x2\<rparr>) = kept b d P s"
  "kept b d P (s\<lparr>pk_sources := x3\<rparr>) = kept b d P s" "kept b d P (s\<lparr>pk_root_open := x4\<rparr>) = kept b d P s"
  "kept b d P (s\<lparr>pk_staging_open := x5\<rparr>) = kept b d P s" "kept b d P (s\<lparr>pk_staging := x6\<rparr>) \<longleftrightarrow> entry b s = d \<and> x6 \<in> P"
  "kept b d P (s\<lparr>pk_fds := x7\<rparr>) = kept b d P s" "kept b d P (s\<lparr>pk_acts := x8\<rparr>) = kept b d P s"
  "kept b d P (open_fd fd s) = kept b d P s"
  by (simp_all add: kept_def entry_def)

lemma kept_on_staging [simp]: "n \<noteq> b \<Longrightarrow> kept b d P (on_staging n f s) = kept b d P s"
  by (simp add: kept_def)

lemma kept_filter [simp]: "n \<noteq> b \<Longrightarrow> kept b d P (set_entries (filter (\<lambda>(m, _). m \<noteq> n)) s) = kept b d P s"
  by (simp add: kept_def entry_def map_of_filter_key) (simp add: root_entries_def)

lemma keeps_kept_call [keeps_intros]: "(\<And>s. kept b d P s \<Longrightarrow> kept b d P (snd (f s))) \<Longrightarrow> keeps (kept b d P) (call f)"
  by (rule keeps_call) (auto intro: kept_next)

lemma keeps_kept_do [keeps_intros]: "(\<And>s. kept b d P s \<Longrightarrow> kept b d P (f s)) \<Longrightarrow> keeps (kept b d P) (call_do f)"
  unfolding call_do_def by (rule keeps_kept_call) simp

lemma keeps_modify [keeps_intros]: "(\<And>s. I s \<Longrightarrow> I (f s)) \<Longrightarrow> keeps I (modify f)"
  by (simp add: keeps_def modify_def)

lemma keeps_finally [keeps_intros]: "keeps I m \<Longrightarrow> keeps I f \<Longrightarrow> keeps I (finally_do m f)"
  by (auto simp: keeps_def finally_do_def split: prod.splits sum.splits)

lemma keeps_on_os_error [keeps_intros]: "keeps I m \<Longrightarrow> keeps I h \<Longrightarrow> keeps I (on_os_error m h)"
  unfolding on_os_error_def by (intro keeps_intros)

lemma keeps_unless_missing [keeps_intros]: "keeps I m \<Longrightarrow> keeps I (unless_missing m)"
  unfolding unless_missing_def by (intro keeps_intros)

lemma keeps_close [keeps_intros]: "keeps (kept b d P) (close_fd fd)"
  unfolding close_fd_def by (intro keeps_intros) simp

text \<open>The loops keep whatever an act of the script and a single transfer keep.\<close>

lemma keeps_write_all:
  assumes step: "\<And>s a t. I s \<Longrightarrow> next_act s = (a, t) \<Longrightarrow> I t" and put: "\<And>bs s. I s \<Longrightarrow> I (put bs s)"
  shows "keeps I (write_all put payload)"
proof -
  have "I s \<Longrightarrow> I (snd (write_all put payload s))" for s
  proof (induction "length payload" arbitrary: payload s rule: less_induct)
    case less
    obtain a t where a: "next_act s = (a, t)" by fastforce
    with step less.prems have t: "I t" by blast
    have "I (snd (write_all put (drop n payload) (put (take n payload) t)))" if "n \<noteq> 0" "payload \<noteq> []" for n
      using less.hyps [of "drop n payload"] put [OF t] that by auto
    with t put [OF t] less.prems show ?case
      by (subst write_all.simps) (auto simp: a split: act.splits)
  qed
  then show ?thesis by (simp add: keeps_def)
qed

lemma read_block_state: "read_block data p s = (r, t) \<Longrightarrow> \<exists>a. next_act s = (a, t)"
  by (auto simp: read_block_def split: act.splits prod.splits)

lemma keeps_copy_loop:
  assumes step: "\<And>s a t. I s \<Longrightarrow> next_act s = (a, t) \<Longrightarrow> I t" and put: "\<And>bs s. I s \<Longrightarrow> I (put_staged staging name bs s)"
  shows "keeps I (copy_loop path staging name maximum observed)"
proof -
  have "I s \<Longrightarrow> I (snd (copy_loop path staging name maximum observed s))" for s
  proof (induction "maximum - observed" arbitrary: observed s rule: less_induct)
    case less
    obtain r t where r: "read_block (\<lambda>s. if_data (input_of path s)) observed s = (r, t)" by fastforce
    with step less.prems read_block_state have t: "I t" by blast
    show ?case
    proof (cases r)
      case (Inl e)
      with r t show ?thesis by (subst copy_loop.simps) simp
    next
      case (Inr block)
      obtain q u where q: "write_all (put_staged staging name) block t = (q, u)" by fastforce
      have "keeps I (write_all (put_staged staging name) block)"
        by (rule keeps_write_all) (use step put in blast)+
      from keepsD [OF this t q] have u: "I u" .
      have "I (snd (copy_loop path staging name maximum (observed + length block) u))"
        if "block \<noteq> []" "\<not> maximum < observed + length block"
      proof -
        have "0 < length block" using that(1) by simp
        with that(2) have "maximum - (observed + length block) < maximum - observed" by linarith
        from less.hyps [OF this u] show ?thesis .
      qed
      with r t u q Inr show ?thesis by (subst copy_loop.simps) (auto split: sum.splits)
    qed
  qed
  then show ?thesis by (simp add: keeps_def)
qed

lemma keeps_hash_loop:
  assumes step: "\<And>s a t. I s \<Longrightarrow> next_act s = (a, t) \<Longrightarrow> I t"
  shows "keeps I (hash_loop data hashed)"
proof -
  have "I s \<Longrightarrow> I (snd (hash_loop data hashed s))" for s
  proof (induction "length data - hashed" arbitrary: hashed s rule: less_induct)
    case less
    obtain r t where r: "read_block (\<lambda>_. data) hashed s = (r, t)" by fastforce
    with step less.prems read_block_state have t: "I t" by blast
    show ?case
    proof (cases r)
      case (Inl e)
      with r t show ?thesis by (subst hash_loop.simps) simp
    next
      case (Inr block)
      have "I (snd (hash_loop data (hashed + length block) t))" if "block \<noteq> []"
      proof -
        have "hashed < length data" "0 < length block" using read_block_more(2) [OF r [unfolded Inr]] that by auto
        then have "length data - (hashed + length block) < length data - hashed" by linarith
        from less.hyps [OF this t] show ?thesis .
      qed
      with r t Inr show ?thesis by (subst hash_loop.simps) auto
    qed
  qed
  then show ?thesis by (simp add: keeps_def)
qed

lemma kept_put [simp]: "n \<noteq> b \<Longrightarrow> kept b d P (put_staged n name bs s) = kept b d P s"
  by (simp add: put_staged_def)

lemma keeps_kept_loops [keeps_intros]:
  "n \<noteq> b \<Longrightarrow> keeps (kept b d P) (write_all (put_staged n name) payload)"
  "n \<noteq> b \<Longrightarrow> keeps (kept b d P) (copy_loop path n name maximum observed)"
  "keeps (kept b d P) (hash_loop data hashed)" "keeps (kept b d P) (write_all (\<lambda>_ s. s) payload)"
  by (intro keeps_write_all keeps_copy_loop keeps_hash_loop; simp add: kept_next)+

lemma keeps_kept_open [keeps_intros]: "keeps (kept b d P) (open_regular path label)"
  unfolding open_regular_def by (intro keeps_intros) (auto split: option.splits)

lemma keeps_kept_inventory [keeps_intros]: "keeps (kept b d P) (directory_inventory names)"
  unfolding directory_inventory_def by (intro keeps_intros) simp_all

lemma keeps_kept_root [keeps_intros]: "keeps (kept b d P) (open_bundle_root env)"
  unfolding open_bundle_root_def by (intro keeps_intros) (auto split: option.splits)

lemma keeps_kept_staged [keeps_intros]: "n \<noteq> b \<Longrightarrow> keeps (kept b d P) (open_staged env n name)"
  unfolding open_staged_def by (intro keeps_intros) simp_all

lemma keeps_kept_seal [keeps_intros]: "n \<noteq> b \<Longrightarrow> keeps (kept b d P) (seal_staged n name)"
  unfolding seal_staged_def by (intro keeps_intros) simp_all

lemma keeps_kept_copy [keeps_intros]: "n \<noteq> b \<Longrightarrow> keeps (kept b d P) (copy_artifact env path n artifact)"
  unfolding copy_artifact_def copy_body_def check_output_def split_def by (intro keeps_intros)

lemma keeps_kept_create [keeps_intros]: "n \<noteq> b \<Longrightarrow> keeps (kept b d P) (create_file env n name payload)"
  unfolding create_file_def check_output_def by (intro keeps_intros)

lemma keeps_kept_sign [keeps_intros]: "keeps (kept b d P) (sign_manifest env manifest key)"
  unfolding sign_manifest_def split_def by (intro keeps_intros) simp_all

lemma keeps_kept_key [keeps_intros]: "keeps (kept b d P) (validate_private_key env path)"
  unfolding validate_private_key_def split_def by (intro keeps_intros) simp_all

lemma keeps_kept_source [keeps_intros]: "keeps (kept b d P) (open_source identity x)"
  unfolding open_source_def split_def by (intro keeps_intros) simp

lemma keeps_kept_artifacts [keeps_intros]: "n \<noteq> b \<Longrightarrow> keeps (kept b d P) (copy_artifacts env n xs)"
  by (induction xs) (auto intro!: keeps_intros)

lemma keeps_kept_stage [keeps_intros]:
  "n \<noteq> b \<Longrightarrow> keeps (kept b d P) (stage_bundle env config key sources n snapshot)"
  unfolding stage_bundle_def by (intro keeps_intros)

lemma keeps_kept_cleanup [keeps_intros]: "n \<noteq> b \<Longrightarrow> keeps (kept b d P) (cleanup_staging n)"
  unfolding cleanup_staging_def by (intro keeps_intros) (auto split: option.splits)

subsection \<open>What a successful copy contains\<close>

text \<open>An input is the same file, unless its stamp has moved on.\<close>

definition later :: "string \<Rightarrow> input_file \<Rightarrow> pk \<Rightarrow> bool" where
  "later p f s \<longleftrightarrow> (\<exists>g. pk_inputs s p = Some g \<and> if_stamp f \<le> if_stamp g \<and> (if_stamp f = if_stamp g \<longrightarrow> g = f))"

lemma later_next: "later p f s \<Longrightarrow> next_act s = (a, t) \<Longrightarrow> later p f t"
  by (auto simp: later_def next_act_def change_input_def split: list.splits act.splits)

lemma later_put: "later p f s \<Longrightarrow> later p f (put_staged n name bs s)"
  by (simp add: later_def put_staged_def on_staging_def set_entries_def on_root_def)

lemma later_self: "pk_inputs s p = Some g \<Longrightarrow> later p (input_of p s) s"
  by (simp add: later_def input_of_def)

lemma keeps_later_copy_loop: "keeps (later p f) (copy_loop path n name maximum observed)"
  by (rule keeps_copy_loop) (auto intro: later_next later_put)

lemma keeps_later_write_all: "keeps (later p f) (write_all (put_staged n name) payload)"
  by (rule keeps_write_all) (auto intro: later_next later_put)

definition add_bytes :: "string \<Rightarrow> bytes \<Rightarrow> bundle_dir \<Rightarrow> bundle_dir" where
  "add_bytes name bs d =
     d\<lparr>du_files := map (\<lambda>(n, f). (n, if n = name then f\<lparr>sf_data := sf_data f @ bs\<rparr> else f)) (du_files d)\<rparr>"

lemma add_bytes_Nil [simp]: "add_bytes name [] d = d"
  by (cases d) (auto simp: add_bytes_def intro!: map_idI)

lemma add_bytes_append: "add_bytes name cs (add_bytes name bs d) = add_bytes name (bs @ cs) d"
  by (cases d) (auto simp: add_bytes_def)

lemma entry_put: "entry n (put_staged n name bs s) = map_option (add_bytes name bs) (entry n s)"
  by (simp add: put_staged_def) (simp add: add_bytes_def [abs_def])

lemma entry_next: "next_act s = (a, t) \<Longrightarrow> entry n t = entry n s"
  by (simp add: entry_def next_act_entries)

lemma write_all_Inr:
  "write_all (put_staged n name) payload s = (Inr u, t) \<Longrightarrow> entry n t = map_option (add_bytes name payload) (entry n s)"
proof (induction "length payload" arbitrary: payload s rule: less_induct)
  case less
  show ?case
  proof (cases "payload = []")
    case True
    with less.prems show ?thesis by (cases "entry n s") (simp_all add: write_all.simps)
  next
    case False
    obtain a s1 where a: "next_act s = (a, s1)" by fastforce
    show ?thesis
    proof (cases "\<exists>k. a = Short k")
      case True
      then obtain k where k: "a = Short k" ..
      from less.prems False a k have run: "k \<noteq> 0"
        "write_all (put_staged n name) (drop k payload) (put_staged n name (take k payload) s1) = (Inr u, t)"
        by (subst (asm) write_all.simps, simp split: if_splits)+
      have "length (drop k payload) < length payload" using run(1) False by simp
      from less.hyps [OF this run(2)] show ?thesis
        by (simp add: entry_put entry_next [OF a] option.map_comp comp_def add_bytes_append)
    next
      case short: False
      from less.prems False a short have "t = put_staged n name payload s1"
        by (subst (asm) write_all.simps) (auto split: act.splits)
      then show ?thesis by (simp add: entry_put entry_next [OF a])
    qed
  qed
qed

lemma read_block_take:
  assumes "read_block data position s = (Inr block, t)" and "next_act s = (a, t)"
  shows "\<exists>m>0. block = take m (drop position (data t))"
proof -
  have pos: "0 < BLOCK" by (simp add: BLOCK_def)
  show ?thesis
  proof (cases a)
    case (Short n)
    then have "block = take (min (max 1 n) BLOCK) (drop position (data t))"
      using assms by (simp add: read_block_def)
    moreover have "0 < min (max 1 n) BLOCK" using pos by simp
    ultimately show ?thesis by blast
  qed (use assms pos in \<open>auto simp: read_block_def\<close>)
qed

lemma drop_split: "ys = take m (drop k xs) \<Longrightarrow> drop k xs = ys @ drop (k + length ys) xs"
proof -
  assume ys: "ys = take m (drop k xs)"
  have "drop (k + length ys) xs = drop (length ys) (drop k xs)" by (simp add: add.commute)
  also have "\<dots> = drop m (drop k xs)" unfolding ys by (cases "m \<le> length (drop k xs)") simp_all
  finally show ?thesis unfolding ys by (simp only: append_take_drop_id)
qed

lemma copy_loop_Inr:
  assumes "copy_loop path n name maximum observed s = (Inr k, t)" and "later path f s"
    and "if_stamp (input_of path t) = if_stamp f"
  shows "entry n t = map_option (add_bytes name (drop observed (if_data f))) (entry n s)
     \<and> k = observed + length (drop observed (if_data f))"
  using assms(1,2)
proof (induction "maximum - observed" arbitrary: observed s rule: less_induct)
  case less
  obtain r s1 where r: "read_block (\<lambda>s. if_data (input_of path s)) observed s = (r, s1)" by fastforce
  then obtain a where a: "next_act s = (a, s1)" using read_block_state by blast
  have s1: "later path f s1" using less.prems(2) a by (rule later_next)
  then obtain g where g: "pk_inputs s1 path = Some g" by (auto simp: later_def)
  have unchanged: "input_of path s1 = f" if "later path (input_of path s1) t"
  proof -
    from that have "if_stamp (input_of path s1) \<le> if_stamp (input_of path t)" by (auto simp: later_def input_of_def)
    with s1 assms(3) show ?thesis by (auto simp: later_def input_of_def)
  qed
  from less.prems(1) r obtain block where block: "r = Inr block" by (cases r) (simp_all add: copy_loop.simps [of path])
  have take: "\<exists>m>0. block = take m (drop observed (if_data (input_of path s1)))"
    using r a unfolding block by (rule read_block_take)
  show ?case
  proof (cases "block = []")
    case True
    with less.prems(1) r block have t: "t = s1" "k = observed" by (simp_all add: copy_loop.simps [of path])
    with unchanged later_self [OF g] have "input_of path s1 = f" by simp
    with take True have "drop observed (if_data f) = []" by auto
    with t show ?thesis by (cases "entry n s") (simp_all add: entry_next [OF a])
  next
    case False
    from less.prems(1) r block False obtain u where
      u: "write_all (put_staged n name) block s1 = (Inr (), u)"
      and max: "\<not> maximum < observed + length block"
      and rest: "copy_loop path n name maximum (observed + length block) u = (Inr k, t)"
      by (subst (asm) copy_loop.simps) (auto split: if_splits prod.splits sum.splits)
    have "0 < length block" using False by simp
    with max have small: "maximum - (observed + length block) < maximum - observed" by linarith
    have "later path (input_of path s1) t"
      by (rule keepsD [OF keeps_later_copy_loop keepsD [OF keeps_later_write_all later_self [OF g] u] rest])
    then have f: "input_of path s1 = f" by (rule unchanged)
    have "later path f u" by (rule keepsD [OF keeps_later_write_all s1 u])
    from less.hyps [OF small rest this]
    have t: "entry n t = map_option (add_bytes name (drop (observed + length block) (if_data f))) (entry n u)"
      "k = observed + length block + length (drop (observed + length block) (if_data f))" by simp_all
    from take f obtain m where "block = take m (drop observed (if_data f))" by auto
    then have split: "drop observed (if_data f) = block @ drop (observed + length block) (if_data f)"
      by (rule drop_split)
    show ?thesis
      using t split by (simp add: write_all_Inr [OF u] entry_next [OF a] option.map_comp comp_def add_bytes_append)
  qed
qed

text \<open>A computation that returned, step by step.\<close>

lemma call_Inr: "call f s = (Inr x, t) \<Longrightarrow> \<exists>a u. next_act s = (a, u) \<and> f u = (Inr x, t)"
  by (auto simp: call_def split: prod.splits act.splits)

lemma call_do_Inr: "call_do f s = (Inr x, t) \<Longrightarrow> \<exists>a u. next_act s = (a, u) \<and> t = f u"
  unfolding call_do_def by (drule call_Inr) auto

lemma finally_Inr: "finally_do m f s = (Inr x, t) \<Longrightarrow> \<exists>u. m s = (Inr x, u) \<and> f u = (Inr (), t)"
  by (auto simp: finally_do_def split: prod.splits sum.splits if_splits)

lemma when_raise_Inr [simp]: "when_raise b e s = (Inr x, t) \<longleftrightarrow> \<not> b \<and> t = s"
  by (auto simp: when_raise_def ret_def raise_def)

lemma close_Inr: "close_fd fd s = (r, t) \<Longrightarrow> r = Inr () \<and> entry n t = entry n s"
  by (auto simp: close_fd_def modify_def entry_def)

definition add_file :: "string \<Rightarrow> staged_file \<Rightarrow> bundle_dir \<Rightarrow> bundle_dir" where
  "add_file name f d = d\<lparr>du_files := du_files d @ [(name, f)]\<rparr>"

definition sealed :: "pk_env \<Rightarrow> bytes \<Rightarrow> staged_file" where
  "sealed env data = \<lparr>sf_uid = pe_euid env, sf_mode = 256, sf_nlink = 1, sf_data = data\<rparr>"

lemma staged_files_entry: "staged_files n s = (case entry n s of None \<Rightarrow> [] | Some d \<Rightarrow> du_files d)"
  by (simp add: staged_files_def entry_def)

lemma map_new: "map_of xs name = None \<Longrightarrow> map (\<lambda>(n, f). (n, if n = name then g f else f)) xs = xs"
  by (induction xs) (auto split: if_splits)

lemma add_bytes_add_file:
  "map_of (du_files d) name = None \<Longrightarrow> add_bytes name bs (add_file name (sealed env cs) d) = add_file name (sealed env (cs @ bs)) d"
  by (cases d) (simp add: add_bytes_def add_file_def sealed_def map_new)

lemma open_staged_Inr:
  assumes "open_staged env n name s = (Inr x, t)" and "entry n s = Some d"
  shows "map_of (du_files d) name = None" and "entry n t = Some (add_file name (sealed env []) d)"
  using assms
  by (auto simp: open_staged_def bind_io_eq_Inr modify_def staged_files_entry entry_next add_file_def sealed_def
      split: if_splits dest!: call_Inr)

lemma seal_staged_Inr:
  assumes "seal_staged n name s = (Inr x, t)" and "entry n s = Some (add_file name (sealed env data) d)"
    and "map_of (du_files d) name = None"
  shows "entry n t = entry n s"
  using assms
  by (auto simp: seal_staged_def bind_io_eq_Inr entry_next add_file_def sealed_def map_new dest!: call_do_Inr)

lemma staged_of_new:
  "entry n s = Some (add_file name f d) \<Longrightarrow> map_of (du_files d) name = None \<Longrightarrow> staged_of n name s = f"
  by (simp add: staged_of_def staged_files_entry add_file_def map_add_def)

text \<open>Whatever the copy loop wrote, it wrote into the new file.\<close>

lemma copy_loop_entry:
  assumes "copy_loop path n name maximum k s = (r, t)"
  shows "\<exists>bs. entry n t = map_option (add_bytes name bs) (entry n s)"
proof -
  let ?I = "\<lambda>u. \<exists>bs. entry n u = map_option (add_bytes name bs) (entry n s)"
  have "keeps ?I (copy_loop path n name maximum k)"
  proof (rule keeps_copy_loop)
    show "?I t" if "?I s'" "next_act s' = (a, t)" for s' a t using that by (simp add: entry_next)
    show "?I (put_staged n name bs s')" if "?I s'" for bs s'
      using that by (auto simp: entry_put option.map_comp comp_def add_bytes_append)
  qed
  moreover have "?I s" by (intro exI [of _ "[]"]) (cases "entry n s"; simp)
  ultimately show ?thesis using assms by (blast dest: keepsD)
qed

lemma hash_loop_entry: "hash_loop data k s = (r, t) \<Longrightarrow> entry n t = entry n s"
  using keepsD [OF keeps_kept_loops(3), of n "entry n s" UNIV s data k r t] unfolding kept_def by auto

lemma copy_artifact_Inr:
  assumes "copy_artifact env path n (name, minimum, maximum) s = (Inr seen, t)" and "entry n s = Some d"
  obtains data where "entry n t = Some (add_file name (sealed env data) d)"
    and "seen = (length data, pe_sha256 env data)" and "minimum \<le> length data" and "length data \<le> maximum"
    and "map_of (du_files d) name = None"
proof -
  let ?before = "input_of path s"
  from assms(1) obtain u v where size: "minimum \<le> length (if_data ?before)" "length (if_data ?before) \<le> maximum"
    and u: "open_staged env n name s = (Inr (), u)"
    and v: "copy_body env path n name maximum ?before u = (Inr seen, v)" and t: "close_fd name v = (Inr (), t)"
    by (auto simp: copy_artifact_def bind_io_eq_Inr gets_run dest!: finally_Inr)
  note new = open_staged_Inr [OF u assms(2)]
  from v obtain k u1 u2 where k: "copy_loop path n name maximum 0 u = (Inr k, u1)"
    and u2: "seal_staged n name u1 = (Inr (), u2)"
    and same: "k = length (if_data ?before)"
    and out: "length (sf_data (staged_of n name u2)) = k"
    and hash: "hash_loop (sf_data (staged_of n name u2)) 0 u2 = (Inr k, v)"
    and seen: "seen = (k, pe_sha256 env (sf_data (staged_of n name u2)))"
    by (auto simp: copy_body_def bind_io_eq_Inr gets_run check_output_def ret_def)
  from copy_loop_entry [OF k] new obtain data where
    e: "entry n u1 = Some (add_file name (sealed env data) d)" by (auto simp: add_bytes_add_file)
  with seal_staged_Inr [OF u2 e new(1)] have e2: "entry n u2 = Some (add_file name (sealed env data) d)" by simp
  from staged_of_new [OF this new(1)] have "sf_data (staged_of n name u2) = data" by (simp add: sealed_def)
  with that [of data] size same out seen e2 hash_loop_entry [OF hash] close_Inr [OF t] new(1) show ?thesis by simp
qed

lemma create_file_Inr:
  assumes "create_file env n name payload s = (Inr x, t)" and "entry n s = Some d"
  shows "entry n t = Some (add_file name (sealed env payload) d)" and "map_of (du_files d) name = None"
proof -
  from assms(1) obtain u v w where u: "open_staged env n name s = (Inr (), u)"
    and v: "write_all (put_staged n name) payload u = (Inr (), v)" and w: "seal_staged n name v = (Inr (), w)"
    and t: "close_fd name w = (Inr (), t)"
    by (auto simp: create_file_def bind_io_eq_Inr gets_run check_output_def dest!: finally_Inr)
  note new = open_staged_Inr [OF u assms(2)]
  have "entry n v = Some (add_file name (sealed env payload) d)"
    using write_all_Inr [OF v] new by (simp add: add_bytes_add_file)
  from seal_staged_Inr [OF w this new(1)] this close_Inr [OF t] new(1)
  show "entry n t = Some (add_file name (sealed env payload) d)" and "map_of (du_files d) name = None" by simp_all
qed

subsection \<open>The staged bundle\<close>

lemma copy_artifacts_Inr:
  assumes "copy_artifacts env n xs s = (Inr observed, t)" and "entry n s = Some d"
  shows "\<exists>datas. length datas = length xs
     \<and> entry n t = Some (d\<lparr>du_files := du_files d @ zip (map (fst \<circ> snd) xs) (map (sealed env) datas)\<rparr>)
     \<and> observed = zip (map (fst \<circ> snd) xs) (map (\<lambda>b. (length b, pe_sha256 env b)) datas)
     \<and> list_all2 (\<lambda>(_, _, minimum, maximum) b. minimum \<le> length b \<and> length b \<le> maximum) xs datas"
  using assms
proof (induction xs arbitrary: s observed d)
  case Nil
  then show ?case by (auto simp: ret_def)
next
  case (Cons x xs)
  obtain path name minimum maximum where x: "x = (path, name, minimum, maximum)" by (cases x)
  from Cons.prems(1) x obtain seen u others where
    u: "copy_artifact env path n (name, minimum, maximum) s = (Inr seen, u)"
    and rest: "copy_artifacts env n xs u = (Inr others, t)" and obs: "observed = (name, seen) # others"
    by (auto simp: bind_io_eq_Inr ret_def)
  obtain data where e: "entry n u = Some (add_file name (sealed env data) d)"
    and data: "seen = (length data, pe_sha256 env data)" "minimum \<le> length data" "length data \<le> maximum"
    by (rule copy_artifact_Inr [OF u Cons.prems(2)])
  from Cons.IH [OF rest e] obtain datas where "length datas = length xs"
    "entry n t = Some (add_file name (sealed env data) d\<lparr>du_files := du_files (add_file name (sealed env data) d)
       @ zip (map (fst \<circ> snd) xs) (map (sealed env) datas)\<rparr>)"
    "others = zip (map (fst \<circ> snd) xs) (map (\<lambda>b. (length b, pe_sha256 env b)) datas)"
    "list_all2 (\<lambda>(_, _, minimum, maximum) b. minimum \<le> length b \<and> length b \<le> maximum) xs datas" by blast
  with data x obs show ?case by (intro exI [of _ "data # datas"]) (simp add: add_file_def comp_def)
qed

text \<open>
  What a consumer may rely on: three artifacts within policy, a manifest of exactly their sizes and
  digests, a 64-byte signature of that manifest, every file sealed.
\<close>

definition complete_bundle :: "pk_env \<Rightarrow> configuration \<Rightarrow> bundle_dir \<Rightarrow> bool" where
  "complete_bundle env config d \<longleftrightarrow>
     (\<exists>datas manifest signature key.
        length datas = 3
        \<and> du_files d = zip (map fst packager_artifacts) (map (sealed env) datas)
            @ [(''manifest'', sealed env manifest), (''manifest.sig'', sealed env signature)]
        \<and> list_all2 (\<lambda>(_, minimum, maximum) b. minimum \<le> length b \<and> length b \<le> maximum) packager_artifacts datas
        \<and> manifest_bytes config (observed_of (zip (map fst packager_artifacts)
             (map (\<lambda>b. (length b, pe_sha256 env b)) datas))) = Inr manifest
        \<and> pe_sign env key manifest = (0, signature) \<and> length signature = 64)"

lemma sign_manifest_Inr:
  assumes "sign_manifest env manifest key s = (Inr signature, t)"
  shows "\<exists>k. pe_sign env k manifest = (0, signature) \<and> length signature = 64" and "entry n t = entry n s"
proof -
  show "\<exists>k. pe_sign env k manifest = (0, signature) \<and> length signature = 64"
    using assms by (fastforce simp: sign_manifest_def bind_io_eq_Inr ret_def dest!: finally_Inr call_Inr)
  show "entry n t = entry n s"
    using keepsD [OF keeps_kept_sign, of n "entry n s" UNIV s env manifest key] assms unfolding kept_def by auto
qed

lemma directory_inventory_entry: "directory_inventory names s = (r, t) \<Longrightarrow> entry n t = entry n s"
  using keepsD [OF keeps_kept_inventory, of n "entry n s" UNIV s names r t] unfolding kept_def by auto

lemma stage_bundle_Inr:
  assumes "stage_bundle env config key sources n snapshot s = (Inr manifest, t)" and "length sources = 3"
    and "entry n s = Some \<lparr>du_mode = m, du_files = []\<rparr>"
  obtains d where "entry n t = Some d" and "complete_bundle env config d"
    and "map_of (du_files d) ''manifest'' = Some (sealed env manifest)"
proof -
  let ?xs = "zip sources packager_artifacts"
  have names: "map snd ?xs = packager_artifacts" using assms(2) by (simp add: packager_artifacts_def)
  from assms(1) obtain observed u v signature w z q names' where
    u: "copy_artifacts env n ?xs s = (Inr observed, u)"
    and man: "manifest_bytes config (observed_of observed) = Inr manifest"
    and v: "create_file env n ''manifest'' manifest u = (Inr (), v)"
    and w: "sign_manifest env manifest key v = (Inr signature, w)"
    and z: "create_file env n ''manifest.sig'' signature w = (Inr (), z)"
    and q: "directory_inventory (\<lambda>s. map fst (staged_files n s)) z = (Inr names', t)"
    by (auto simp: stage_bundle_def bind_io_eq_Inr lift_result_run gets_run ret_def)
  from copy_artifacts_Inr [OF u assms(3)] obtain datas where datas: "length datas = length ?xs"
    "entry n u = Some \<lparr>du_mode = m, du_files = zip (map (fst \<circ> snd) ?xs) (map (sealed env) datas)\<rparr>"
    "observed = zip (map (fst \<circ> snd) ?xs) (map (\<lambda>b. (length b, pe_sha256 env b)) datas)"
    "list_all2 (\<lambda>(_, _, minimum, maximum) b. minimum \<le> length b \<and> length b \<le> maximum) ?xs datas" by auto
  have fs: "map (fst \<circ> snd) ?xs = map fst packager_artifacts" using names by (simp flip: map_map)
  have three: "length datas = 3" using datas(1) assms(2) by (simp add: packager_artifacts_def)
  have sizes: "list_all2 (\<lambda>(_, minimum, maximum) b. minimum \<le> length b \<and> length b \<le> maximum) packager_artifacts datas"
    using datas(4) by (subst names [symmetric]) (simp add: list_all2_map1 split_def)
  let ?d = "\<lparr>du_mode = m, du_files = zip (map fst packager_artifacts) (map (sealed env) datas)\<rparr>"
  let ?e = "add_file ''manifest.sig'' (sealed env signature) (add_file ''manifest'' (sealed env manifest) ?d)"
  note m1 = create_file_Inr [OF v datas(2) [unfolded fs]]
  from m1(1) sign_manifest_Inr(2) [OF w] have w': "entry n w = Some (add_file ''manifest'' (sealed env manifest) ?d)" by simp
  from create_file_Inr [OF z w'] directory_inventory_entry [OF q] have t: "entry n t = Some ?e" by simp
  from sign_manifest_Inr(1) [OF w] man datas(3) fs three sizes have "complete_bundle env config ?e"
    unfolding complete_bundle_def add_file_def by auto
  moreover have "map_of (du_files ?e) ''manifest'' = Some (sealed env manifest)"
    using m1(2) by (simp add: add_file_def map_add_def)
  ultimately show ?thesis using that t by blast
qed

subsection \<open>Publication\<close>

lemma map_of_rename:
  "map_of xs b = None \<Longrightarrow> a \<noteq> b \<Longrightarrow> map_of (map (\<lambda>(n, d). (if n = a then b else n, d)) xs) b = map_of xs a"
  by (induction xs) (auto split: if_splits)

lemma root_entries_root: "root_entries s \<noteq> [] \<Longrightarrow> pk_root s \<noteq> None"
  by (cases "pk_root s") (simp_all add: root_entries_def)

lemma rename_Inr:
  assumes "rename_noreplace n b s = (Inr x, t)" and "n \<noteq> b"
  shows "entry b s = None" and "entry b t = entry n s"
proof -
  from assms(1) obtain a u where u: "next_act s = (a, u)" and none: "entry b u = None" and some: "entry n u \<noteq> None"
    and t: "t = set_entries (map (\<lambda>(m, d). (if m = n then b else m, d))) u"
    by (auto simp: rename_noreplace_def on_os_error_def try_except_def raise_def entry_def
        split: prod.splits sum.splits if_splits dest!: call_Inr)
  from some have "pk_root u \<noteq> None" by (intro root_entries_root) (auto simp: entry_def)
  with none assms(2) t have "entry b t = entry n u" unfolding entry_def by (auto simp: map_of_rename)
  with none show "entry b s = None" and "entry b t = entry n s" by (simp_all add: entry_next [OF u])
qed

lemma rename_Inl:
  assumes "rename_noreplace n b s = (Inl e, t)"
  shows "entry m t = entry m s"
proof -
  have "call f s = (Inl e, t) \<Longrightarrow> (\<And>u. entry m (snd (f u)) = entry m u \<or> (\<exists>x. fst (f u) = Inr x)) \<Longrightarrow> entry m t = entry m s"
    for f :: "pk \<Rightarrow> unit result \<times> pk" and e t
    by (auto simp: call_def entry_next split: prod.splits act.splits) (metis entry_next fst_conv snd_conv sum.distinct(1))+
  from this [where f = "\<lambda>s. if map_of (root_entries s) b \<noteq> None then (Inl FileExistsError, s)
                  else if map_of (root_entries s) n = None then (Inl FileNotFoundError, s)
                  else (Inr (), set_entries (map (\<lambda>(m, d). (if m = n then b else m, d))) s)"]
  show ?thesis
    using assms
    by (auto simp: rename_noreplace_def on_os_error_def try_except_def raise_def split: prod.splits sum.splits if_splits)
qed

lemma publish_cases:
  assumes "publish n b s = (r, t)" and "n \<noteq> b" and "entry n s = Some d"
  shows "entry b t = entry b s \<and> isl r \<or> entry b s = None \<and> entry b t = Some (d\<lparr>du_mode := 320\<rparr>)"
proof -
  let ?first = "bind_io (call_do id) (\<lambda>_. call_do (on_staging n (\<lambda>d. d\<lparr>du_mode := 320\<rparr>)))"
  let ?last = "bind_io (modify (\<lambda>s. s\<lparr>pk_staging := None\<rparr>)) (\<lambda>_. call_do id)"
  have split: "publish n b = bind_io ?first (\<lambda>_. bind_io (rename_noreplace n b) (\<lambda>_. ?last))"
    by (simp add: publish_def bind_io_assoc)
  obtain r1 u where u: "?first s = (r1, u)" by fastforce
  have keep: "keeps (kept b (entry b s) UNIV) ?first" using assms(2) by (intro keeps_intros) simp_all
  have b: "entry b u = entry b s" using keepsD [OF keep _ u] by (simp add: kept_def)
  show ?thesis
  proof (cases r1)
    case (Inl e)
    with assms(1) u b show ?thesis by (auto simp: split)
  next
    case (Inr x)
    from u [unfolded Inr] assms(3) have n: "entry n u = Some (d\<lparr>du_mode := 320\<rparr>)"
      by (auto simp: bind_io_eq_Inr entry_next dest!: call_do_Inr)
    obtain r2 v where v: "rename_noreplace n b u = (r2, v)" by fastforce
    show ?thesis
    proof (cases r2)
      case (Inl e)
      with assms(1) u v \<open>r1 = Inr x\<close> b rename_Inl [OF v [unfolded Inl]] show ?thesis by (auto simp: split)
    next
      case (Inr y)
      with assms(1) u v \<open>r1 = Inr x\<close> have last: "?last v = (r, t)" by (simp add: split)
      have "keeps (kept b (entry b v) UNIV) ?last" by (intro keeps_intros) (simp_all add: kept_def)
      from keepsD [OF this _ last] have "entry b t = entry b v" by (simp add: kept_def)
      with rename_Inr [OF v [unfolded Inr] assms(2)] b n show ?thesis by simp
    qed
  qed
qed

definition published :: "pk_env \<Rightarrow> configuration \<Rightarrow> bundle_dir \<Rightarrow> bool" where
  "published env config d \<longleftrightarrow> du_mode d = 320 \<and> complete_bundle env config d"

lemma complete_mode: "complete_bundle env config (d\<lparr>du_mode := m\<rparr>) = complete_bundle env config d"
  by (simp add: complete_bundle_def)

text \<open>The bundle's entry, seen from outside: as before, or complete; its staging directory has another name.\<close>

definition whole :: "pk_env \<Rightarrow> configuration \<Rightarrow> bundle_dir option \<Rightarrow> pk \<Rightarrow> bool" where
  "whole env config before s \<longleftrightarrow>
     pk_staging s \<noteq> Some (cfg_bundle config)
     \<and> (entry (cfg_bundle config) s = before
        \<or> before = None \<and> (\<exists>d. entry (cfg_bundle config) s = Some d \<and> published env config d))"

text \<open>An opened bundle root stays.\<close>

definition rooted :: "pk \<Rightarrow> bool" where
  "rooted s \<longleftrightarrow> pk_root s \<noteq> None"

lemma rooted_next: "rooted s \<Longrightarrow> next_act s = (a, t) \<Longrightarrow> rooted t"
  by (auto simp: rooted_def next_act_def change_input_def split: list.splits act.splits)

lemma rooted_updates [simp]: "rooted (open_fd fd s) = rooted s" "rooted (set_entries f s) = rooted s"
  "rooted (s\<lparr>pk_fds := x\<rparr>) = rooted s"
  by (simp_all add: rooted_def open_fd_def)

lemma keeps_rooted [keeps_intros]:
  "(\<And>s. rooted s \<Longrightarrow> rooted (snd (f s))) \<Longrightarrow> keeps rooted (call f)"
  "(\<And>s. rooted s \<Longrightarrow> rooted (g s)) \<Longrightarrow> keeps rooted (call_do g)"
  "keeps rooted (close_fd fd)"
  by (auto intro!: keeps_call intro: rooted_next simp: call_do_def)
     (simp add: keeps_def close_fd_def modify_def)

lemma open_bundle_root_Inr:
  assumes "open_bundle_root env s = (Inr x, t)"
  shows "rooted t"
proof -
  let ?open = "on_os_error
       (call (\<lambda>s. case pk_root s of
                    None \<Rightarrow> (Inl FileNotFoundError, s)
                  | Some r \<Rightarrow> if br_directory r then (Inr (), open_fd ''root'' s) else (Inl OSError, s)))
       (raise (BundleError ''cannot open bundle root''))"
  from assms obtain k y u where u: "?open s = (Inr y, u)" and t: "k u = (Inr x, t)" and k: "keeps rooted k"
    unfolding open_bundle_root_def bind_io_eq_Inr [of ?open]
    by (elim exE conjE)
       (rule that, assumption, assumption, unfold directory_inventory_def, intro keeps_intros; simp)
  from u have "rooted u"
    by (auto simp: on_os_error_def try_except_def raise_def rooted_def open_fd_def
        split: prod.splits sum.splits if_splits option.splits dest!: call_Inr)
  from keepsD [OF k this t] show ?thesis .
qed

lemma staging_name_other [simp]: "\<not> packager_valid_bundle (staging_name env c i)"
  by (auto simp: staging_name_def packager_valid_bundle_def is_lower_def is_digit_def)

lemma make_staging_Inr:
  assumes "make_staging n s = (Inr made, t)" and "rooted s"
  shows "rooted t" and "made \<Longrightarrow> entry n t = Some \<lparr>du_mode = 448, du_files = []\<rparr>"
proof -
  have "keeps rooted (make_staging n)" unfolding make_staging_def by (intro keeps_intros) simp
  from keepsD [OF this assms(2,1)] show "rooted t" .
  assume made
  with assms(1) obtain a u where u: "next_act s = (a, u)"
    and t: "t = set_entries (\<lambda>es. (n, \<lparr>du_mode = 448, du_files = []\<rparr>) # es) u"
    by (auto simp: make_staging_def try_except_def ret_def raise_def split: prod.splits sum.splits if_splits dest!: call_Inr)
  from rooted_next [OF assms(2) u] have "pk_root u \<noteq> None" by (simp add: rooted_def)
  with t show "entry n t = Some \<lparr>du_mode = 448, du_files = []\<rparr>" by (auto simp: entry_def)
qed

lemma open_staging_Inr: "open_staging m s = (Inr x, t) \<Longrightarrow> entry n t = entry n s"
  by (auto simp: open_staging_def on_os_error_def try_except_def raise_def bind_io_def entry_next
      split: prod.splits sum.splits if_splits dest!: call_do_Inr)

lemma staging_attempts_Inr:
  assumes "staging_attempts env b is s = (Inr n, t)" and "rooted s"
  shows "(\<exists>i. n = staging_name env b i) \<and> entry n t = Some \<lparr>du_mode = 448, du_files = []\<rparr>"
  using assms
proof (induction "is" arbitrary: s)
  case Nil
  then show ?case by (simp add: raise_def)
next
  case (Cons i js)
  from Cons.prems(1) obtain made u where u: "make_staging (staging_name env b i) s = (Inr made, u)"
    and rest: "(if \<not> made then staging_attempts env b js
       else bind_io (open_staging (staging_name env b i)) (\<lambda>_. ret (staging_name env b i))) u = (Inr n, t)"
    by (auto simp: bind_io_eq_Inr)
  note mk = make_staging_Inr [OF u Cons.prems(2)]
  show ?case
  proof (cases made)
    case False
    with rest Cons.IH mk(1) show ?thesis by simp
  next
    case True
    with rest mk(2) show ?thesis by (auto simp: bind_io_eq_Inr ret_def open_staging_Inr)
  qed
qed

lemma keeps_kept_make [keeps_intros]: "n \<noteq> b \<Longrightarrow> keeps (kept b d P) (make_staging n)"
  unfolding make_staging_def by (intro keeps_intros) (auto simp: kept_def entry_def, simp add: root_entries_def)

lemma keeps_kept_open_staging [keeps_intros]: "n \<noteq> b \<Longrightarrow> keeps (kept b d P) (open_staging n)"
  unfolding open_staging_def by (intro keeps_intros) simp_all

lemma keeps_kept_attempts [keeps_intros]:
  "packager_valid_bundle b \<Longrightarrow> keeps (kept b d P) (staging_attempts env c is)"
  by (induction "is") (auto intro!: keeps_intros)

text \<open>Running a step that keeps an invariant, then the rest.\<close>

lemma bind_io_run:
  assumes "keeps K m" and "K s" and "\<And>e t. K t \<Longrightarrow> Q (Inl e, t)"
    and "\<And>x t. m s = (Inr x, t) \<Longrightarrow> K t \<Longrightarrow> Q (f x t)"
  shows "Q (bind_io m f s)"
proof -
  obtain r t where m: "m s = (r, t)" by fastforce
  with keepsD [OF assms(1,2) m] assms(3,4) show ?thesis by (cases r) simp_all
qed

definition outcome :: "pk_env \<Rightarrow> configuration \<Rightarrow> bundle_dir option \<Rightarrow> (string \<times> string) result \<times> pk \<Rightarrow> bool" where
  "outcome env config before x \<longleftrightarrow>
     (case x of (r, t) \<Rightarrow>
        whole env config before t
        \<and> (case r of
             Inl _ \<Rightarrow> True
           | Inr (manifest_hash, _) \<Rightarrow> before = None
               \<and> (\<exists>d manifest. entry (cfg_bundle config) t = Some d \<and> published env config d
                    \<and> map_of (du_files d) ''manifest'' = Some (sealed env manifest)
                    \<and> manifest_hash = pe_sha256 env manifest)))"

lemma kept_whole: "kept (cfg_bundle config) before (- {Some (cfg_bundle config)}) t \<Longrightarrow> whole env config before t"
  by (simp add: whole_def kept_def)

lemma publish_outcome:
  assumes "entry n s = Some d" and "complete_bundle env config d" and "n \<noteq> cfg_bundle config"
    and "map_of (du_files d) ''manifest'' = Some (sealed env manifest)"
    and "kept (cfg_bundle config) before (- {Some (cfg_bundle config)}) s"
  shows "outcome env config before
     (bind_io (publish n (cfg_bundle config)) (\<lambda>_. ret (pe_sha256 env manifest, h)) s)"
proof -
  let ?b = "cfg_bundle config"
  obtain r t where t: "publish n ?b s = (r, t)" by fastforce
  have "keeps (\<lambda>s. pk_staging s \<noteq> Some ?b) (publish n ?b)"
    unfolding publish_def rename_noreplace_def call_do_def
    by (intro keeps_intros) (auto simp: next_act_staging)
  from keepsD [OF this _ t] assms(5) have "pk_staging t \<noteq> Some ?b" by (simp add: kept_def)
  with publish_cases [OF t assms(3,1)] assms(2,4,5) show ?thesis
    by (cases r) (auto simp: t outcome_def whole_def kept_def published_def complete_mode ret_def)
qed

lemma prepare_body_outcome:
  assumes "packager_valid_bundle (cfg_bundle config)"
    and "kept (cfg_bundle config) before (- {Some (cfg_bundle config)}) s"
  shows "outcome env config before (prepare_body env config s)"
proof -
  let ?K = "kept (cfg_bundle config) before (- {Some (cfg_bundle config)})"
  have fail: "outcome env config before (Inl e, t)" if "?K t" for e t
    using that by (simp add: outcome_def kept_whole)
  note step = bind_io_run [where K = ?K and Q = "outcome env config before", OF _ _ fail]
  have steps: "keeps ?K (for_each (open_source identity) xs)" for identity xs by (intro keeps_intros)
  let ?b = "cfg_bundle config" and ?key = "cfg_private_key config"
  let ?sources = "[cfg_image config, cfg_dtb config, cfg_initramfs config]"
  have finish: "outcome env config before
      (bind_io (stage_bundle env config ?key ?sources n snapshot) (\<lambda>manifest.
       bind_io (publish n ?b) (\<lambda>_. ret (pe_sha256 env manifest, h))) s)"
    if "?K s" "n \<noteq> ?b" "entry n s = Some \<lparr>du_mode = 448, du_files = []\<rparr>" for s n snapshot h
  proof (rule step [OF _ that(1)])
    note fresh = that(3)
    show "keeps ?K (stage_bundle env config ?key ?sources n snapshot)" using that(2) by (rule keeps_kept_stage)
    fix manifest t
    assume t: "stage_bundle env config ?key ?sources n snapshot s = (Inr manifest, t)" "?K t"
    obtain d where "entry n t = Some d" "complete_bundle env config d"
      "map_of (du_files d) ''manifest'' = Some (sealed env manifest)"
      by (rule stage_bundle_Inr [OF t(1) _ fresh]) simp
    with publish_outcome that(2) t(2) show "outcome env config before
      (bind_io (publish n ?b) (\<lambda>_. ret (pe_sha256 env manifest, h)) t)" by blast
  qed
  have stage: "outcome env config before
      (bind_io (create_staging_directory env ?b) (\<lambda>staging.
       bind_io (modify (\<lambda>s. s\<lparr>pk_staging := Some staging, pk_staging_open := True\<rparr>)) (\<lambda>_.
       bind_io (stage_bundle env config ?key ?sources staging snapshot) (\<lambda>manifest.
       bind_io (publish staging ?b) (\<lambda>_. ret (pe_sha256 env manifest, h))))) s)"
    if "?K s" "rooted s" for s snapshot h
  proof (rule step [OF _ that(1)])
    show "keeps ?K (create_staging_directory env ?b)"
      unfolding create_staging_directory_def using assms(1) by (rule keeps_kept_attempts)
    fix n t
    assume t: "create_staging_directory env ?b s = (Inr n, t)" "?K t"
    from staging_attempts_Inr [OF t(1) [unfolded create_staging_directory_def] that(2)] assms(1)
    have "n \<noteq> ?b" "entry n t = Some \<lparr>du_mode = 448, du_files = []\<rparr>" by (metis staging_name_other)+
    with finish t(2) show "outcome env config before
      (bind_io (modify (\<lambda>s. s\<lparr>pk_staging := Some n, pk_staging_open := True\<rparr>)) (\<lambda>_.
       bind_io (stage_bundle env config ?key ?sources n snapshot) (\<lambda>manifest.
       bind_io (publish n ?b) (\<lambda>_. ret (pe_sha256 env manifest, h)))) t)"
      by (simp add: modify_def kept_def)
  qed
  have root: "outcome env config before
      (bind_io (open_bundle_root env) (\<lambda>_. bind_io (modify (\<lambda>s. s\<lparr>pk_root_open := True\<rparr>)) (\<lambda>_.
       bind_io (create_staging_directory env ?b) (\<lambda>staging.
       bind_io (modify (\<lambda>s. s\<lparr>pk_staging := Some staging, pk_staging_open := True\<rparr>)) (\<lambda>_.
       bind_io (stage_bundle env config ?key ?sources staging snapshot) (\<lambda>manifest.
       bind_io (publish staging ?b) (\<lambda>_. ret (pe_sha256 env manifest, h))))))) s)"
    if "?K s" for s snapshot h
  proof (rule step [OF keeps_kept_root that])
    fix x t
    assume "open_bundle_root env s = (Inr x, t)" "?K t"
    then show "outcome env config before (bind_io (modify (\<lambda>s. s\<lparr>pk_root_open := True\<rparr>)) (\<lambda>_.
       bind_io (create_staging_directory env ?b) (\<lambda>staging.
       bind_io (modify (\<lambda>s. s\<lparr>pk_staging := Some staging, pk_staging_open := True\<rparr>)) (\<lambda>_.
       bind_io (stage_bundle env config ?key ?sources staging snapshot) (\<lambda>manifest.
       bind_io (publish staging ?b) (\<lambda>_. ret (pe_sha256 env manifest, h)))))) t)"
      using stage [of "t\<lparr>pk_root_open := True\<rparr>"] by (simp add: modify_def rooted_def open_bundle_root_Inr [unfolded rooted_def])
  qed
  show ?thesis
    unfolding prepare_body_def Let_def
    by (rule step [OF keeps_gets assms(2)], assumption,
        rule step [OF keeps_kept_key], assumption, assumption,
        rule step [OF keeps_gets], assumption, assumption,
        rule step [OF steps], assumption, assumption, rule root)
qed

lemma release_kept:
  assumes "kept b d (- {Some b}) s" and "release key s = (r, t)"
  shows "kept b d (- {Some b}) t"
proof -
  let ?K = "kept b d (- {Some b})"
  let ?clean = "case pk_staging s of None \<Rightarrow> ret ()
      | Some staging \<Rightarrow> if pk_root_open s \<and> pk_staging_open s then cleanup_staging staging else ret ()"
  have clean: "keeps ?K ?clean"
    using assms(1) by (cases "pk_staging s") (auto simp: kept_def intro!: keeps_intros)
  have "keeps ?K (bind_io ?clean (\<lambda>_.
     bind_io (if pk_staging_open s then close_fd ''staging'' else ret ()) (\<lambda>_.
     bind_io (if pk_root_open s then close_fd ''root'' else ret ()) (\<lambda>_.
     bind_io (for_each close_fd (pk_sources s)) (\<lambda>_. close_fd key)))))"
    by (intro keeps_intros clean)
  from keepsD [OF this assms(1)] assms(2) show ?thesis by (simp add: release_def gets_def bind_io_def)
qed

lemma outcome_release:
  assumes "outcome env config before (m s)"
  shows "outcome env config before (finally_do m (release key) s)"
proof -
  let ?b = "cfg_bundle config"
  obtain r t where m: "m s = (r, t)" by fastforce
  obtain r2 u where u: "release key t = (r2, u)" by fastforce
  have "kept ?b (entry ?b t) (- {Some ?b}) t" using assms m by (simp add: outcome_def whole_def kept_def)
  from release_kept [OF this u] assms m u show ?thesis
    by (auto simp: finally_do_def outcome_def whole_def kept_def split: sum.splits)
qed

lemma prepare_bundle_cases:
  assumes "prepare_bundle env config s = (r, t)"
  shows "isl r \<and> entry (cfg_bundle config) t = entry (cfg_bundle config) s
     \<or> validate_configuration config = Inr () \<and> outcome env config (entry (cfg_bundle config) s) (r, t)"
proof -
  let ?b = "cfg_bundle config" and ?key = "cfg_private_key config"
  let ?clean = "\<lambda>s. s\<lparr>pk_sources := [], pk_root_open := False, pk_staging_open := False,
        pk_staging := None, pk_created := []\<rparr>"
  obtain r1 s1 where open1: "open_regular ?key ''private key'' s = (r1, s1)" by fastforce
  have s1: "entry ?b s1 = entry ?b s"
    using keepsD [OF keeps_kept_open _ open1, of ?b "entry ?b s" UNIV] by (simp add: kept_def)
  show ?thesis
  proof (cases "validate_configuration config = Inr () \<and> pe_openssl env \<and> r1 = Inr ()")
    case True
    then have "packager_valid_bundle ?b" by (auto simp: validate_configuration_def split: if_splits)
    then have "outcome env config (entry ?b s) (finally_do (prepare_body env config) (release ?key) (?clean s1))"
      using s1 by (intro outcome_release prepare_body_outcome) (simp_all add: kept_def)
    moreover have "prepare_bundle env config s = finally_do (prepare_body env config) (release ?key) (?clean s1)"
      using True open1 by (simp add: prepare_bundle_def lift_result_def when_raise_def ret_def modify_def bind_io_def)
    ultimately show ?thesis using True assms by simp
  next
    case False
    then have "\<exists>e. prepare_bundle env config s = (Inl e, s) \<or> prepare_bundle env config s = (Inl e, s1)"
      using open1
      by (cases "validate_configuration config"; cases r1)
         (auto simp: prepare_bundle_def lift_result_def when_raise_def ret_def raise_def bind_io_def)
    with s1 assms show ?thesis by auto
  qed
qed

subsection \<open>Properties\<close>

text \<open>
  C4. Publication is atomic. Whatever fails, whatever is interrupted and whatever another process does to
  the inputs, after \<open>prepare_bundle\<close> the bundle root's entry of the bundle's name is the one before the run,
  or there was none and it is a complete bundle: three artifacts within policy, a manifest of exactly their
  sizes and digests, a signature of that manifest, all sealed. A run that returns has published such a bundle
  and returns the digest of its manifest.
\<close>

theorem publication_atomic:
  "case prepare_bundle env config s of (r, t) \<Rightarrow>
     (entry (cfg_bundle config) t = entry (cfg_bundle config) s
      \<or> entry (cfg_bundle config) s = None
        \<and> (\<exists>d. entry (cfg_bundle config) t = Some d \<and> published env config d))
     \<and> (case r of
          Inl _ \<Rightarrow> True
        | Inr (manifest_hash, _) \<Rightarrow>
            entry (cfg_bundle config) s = None
            \<and> (\<exists>d manifest. entry (cfg_bundle config) t = Some d \<and> published env config d
                 \<and> map_of (du_files d) ''manifest'' = Some (sealed env manifest)
                 \<and> manifest_hash = pe_sha256 env manifest))"
proof -
  obtain r t where t: "prepare_bundle env config s = (r, t)" by fastforce
  from prepare_bundle_cases [OF t] show ?thesis
    by (auto simp: t outcome_def whole_def isl_def split: sum.splits)
qed

lemma later_stamp: "later p (input_of p s) t \<Longrightarrow> if_stamp (input_of p s) \<le> if_stamp (input_of p t)"
  by (auto simp: later_def input_of_def)

lemma later_updates [simp]: "later p f (on_staging n g s) = later p f s" "later p f (open_fd fd s) = later p f s"
  "later p f (s\<lparr>pk_created := x\<rparr>) = later p f s"
  by (simp_all add: later_def on_staging_def set_entries_def on_root_def open_fd_def)

lemma keeps_later [keeps_intros]:
  "(\<And>s. later p f s \<Longrightarrow> later p f (snd (g s))) \<Longrightarrow> keeps (later p f) (call g)"
  "(\<And>s. later p f s \<Longrightarrow> later p f (h s)) \<Longrightarrow> keeps (later p f) (call_do h)"
  by (auto intro!: keeps_call intro: later_next simp: call_do_def)

lemma later_seal: "keeps (later p f) (seal_staged n name)"
  unfolding seal_staged_def by (intro keeps_intros) simp_all

lemma later_open: "keeps (later p f) (open_staged env n name)"
  unfolding open_staged_def by (intro keeps_intros) simp_all

text \<open>
  C23. A copy that succeeds is exact. If \<open>copy_artifact\<close> returns, the staged file holds, sealed, exactly the
  bytes the source had when the copy began, and the size and digest it returns are those of these bytes:
  however the reads and writes are split, and whenever another process rewrites the source, no mixture of
  two versions passes.
\<close>

theorem copy_artifact_exact:
  assumes "copy_artifact env path n (name, minimum, maximum) s = (Inr seen, t)"
    and "pk_inputs s path = Some f" and "entry n s = Some d"
  shows "entry n t = Some (add_file name (sealed env (if_data f)) d)
     \<and> seen = (length (if_data f), pe_sha256 env (if_data f))"
proof -
  have f: "input_of path s = f" and later: "later path f s" using assms(2) by (simp_all add: input_of_def later_def)
  from assms(1) obtain u v where u: "open_staged env n name s = (Inr (), u)"
    and v: "copy_body env path n name maximum f u = (Inr seen, v)" and t: "close_fd name v = (Inr (), t)"
    by (auto simp: copy_artifact_def bind_io_eq_Inr gets_run f dest!: finally_Inr)
  note new = open_staged_Inr [OF u assms(3)]
  from v obtain k u1 u2 where k: "copy_loop path n name maximum 0 u = (Inr k, u1)"
    and u2: "seal_staged n name u1 = (Inr (), u2)"
    and same: "source_snapshot f = source_snapshot (input_of path u2)"
    and hash: "hash_loop (sf_data (staged_of n name u2)) 0 u2 = (Inr k, v)"
    and seen: "seen = (k, pe_sha256 env (sf_data (staged_of n name u2)))"
    by (auto simp: copy_body_def bind_io_eq_Inr gets_run check_output_def ret_def)
  have lu: "later path f u" by (rule keepsD [OF later_open later u])
  have l1: "later path f u1" by (rule keepsD [OF keeps_later_copy_loop lu k])
  then have "later path (input_of path u1) u1" by (auto simp: later_def input_of_def)
  from later_stamp [OF keepsD [OF later_seal this u2]] same l1
  have "if_stamp (input_of path u1) = if_stamp f" by (auto simp: source_snapshot_def later_def input_of_def)
  from copy_loop_Inr [OF k lu this] new
  have e: "entry n u1 = Some (add_file name (sealed env (if_data f)) d)" "k = length (if_data f)"
    by (simp_all add: add_bytes_add_file)
  from seal_staged_Inr [OF u2 e(1) new(1)] e(1) have e2: "entry n u2 = Some (add_file name (sealed env (if_data f)) d)" by simp
  from staged_of_new [OF this new(1)] have "sf_data (staged_of n name u2) = if_data f" by (simp add: sealed_def)
  with seen e(2) e2 hash_loop_entry [OF hash] close_Inr [OF t] show ?thesis by simp
qed

definition example_env :: pk_env where
  "example_env = \<lparr>pe_sha256 = (\<lambda>b. b), pe_euid = 0, pe_openssl = True, pe_pkcs8 = (\<lambda>_. 0),
     pe_pubkey = (\<lambda>_. (0, [])), pe_sign = (\<lambda>_ _. (0, [])), pe_token = (\<lambda>_. ''t'')\<rparr>"

definition example_input :: input_file where
  "example_input = \<lparr>if_dev = 1, if_ino = 2, if_regular = True, if_uid = 0, if_mode = 256, if_nlink = 1,
     if_stamp = 7, if_data = ''abc''\<rparr>"

definition example_host :: pk where
  "example_host = \<lparr>pk_inputs = [''in'' \<mapsto> example_input],
     pk_root = Some \<lparr>br_directory = True, br_uid = 0, br_mode = 448, br_busy = False,
       br_entries = [(''.b'', \<lparr>du_mode = 448, du_files = []\<rparr>)]\<rparr>,
     pk_created = [], pk_sources = [], pk_root_open = True, pk_staging_open = True, pk_staging = Some ''.b'',
     pk_fds = [], pk_acts = [Go, Short 2, Short 1]\<rparr>"

lemmas run_defs = copy_artifact_def copy_body_def open_staged_def seal_staged_def check_output_def close_fd_def
  bind_io_def ret_def raise_def gets_def modify_def when_raise_def finally_do_def call_def call_do_def next_act_def
  copy_loop.simps hash_loop.simps write_all.simps read_block_def BLOCK_def put_staged_def open_fd_def on_staging_def
  set_entries_def on_root_def root_entries_def staged_files_def staged_of_def input_of_def source_snapshot_def

text \<open>A write that takes a single byte, after a short read of two.\<close>

theorem copy_artifact_exact_witness:
  "fst (copy_artifact example_env ''in'' ''.b'' (''Image'', 1, 9) example_host) = Inr (3, ''abc'')
   \<and> entry ''.b'' (snd (copy_artifact example_env ''in'' ''.b'' (''Image'', 1, 9) example_host))
       = Some \<lparr>du_mode = 448, du_files = [(''Image'', sealed example_env ''abc'')]\<rparr>"
proof -
  obtain r t where run: "copy_artifact example_env ''in'' ''.b'' (''Image'', 1, 9) example_host = (r, t)" by fastforce
  then have "\<not> isl r"
    by (auto simp: run_defs example_env_def example_host_def example_input_def simp del: root_entries_set)
  then obtain seen where "r = Inr seen" by (cases r) simp_all
  with run have "copy_artifact example_env ''in'' ''.b'' (''Image'', 1, 9) example_host = (Inr seen, t)" by simp
  from copy_artifact_exact [OF this, of example_input "\<lparr>du_mode = 448, du_files = []\<rparr>"] run \<open>r = Inr seen\<close>
  show ?thesis
    by (simp add: example_host_def example_input_def example_env_def entry_def root_entries_def add_file_def)
qed

end
