(* ===== verification/Packager_Run.thy ===== *)
theory Packager_Run
  imports Bundle_Publication
begin

section \<open>An undisturbed run of the packager\<close>

text \<open>
  With an empty script every system call goes ahead. Then the packager, on inputs that pass its
  checks, publishes: its result and the bundle root it leaves are given exactly.
\<close>

subsection \<open>Calls that go ahead\<close>

named_theorems quiet "runs with no disturbance left"

lemma quiet_act [quiet]: "pk_acts s = [] \<Longrightarrow> next_act s = (Go, s)"
  by (simp add: next_act_def)

lemma quiet_call [quiet]: "pk_acts s = [] \<Longrightarrow> call f s = f s"
  by (simp add: call_def quiet)

lemma quiet_call_do [quiet]: "pk_acts s = [] \<Longrightarrow> call_do f s = (Inr (), f s)"
  by (simp add: call_do_def quiet)

lemma quiet_write_all [quiet]: "pk_acts s = [] \<Longrightarrow> write_all put payload s = (Inr (), if payload = [] then s else put payload s)"
  by (subst write_all.simps) (simp add: quiet)

lemma quiet_read_block [quiet]:
  "pk_acts s = [] \<Longrightarrow> read_block data position s = (Inr (take BLOCK (drop position (data s))), s)"
  by (simp add: read_block_def quiet)

lemma BLOCK_pos: "0 < BLOCK"
  by (simp add: BLOCK_def)

lemma quiet_hash_loop [quiet]:
  assumes "pk_acts s = []"
  shows "hash_loop data hashed s = (Inr (max hashed (length data)), s)"
proof (induction "length data - hashed" arbitrary: hashed rule: less_induct)
  case less
  let ?block = "take BLOCK (drop hashed data)"
  show ?case
  proof (cases "?block = []")
    case True
    then have "length data \<le> hashed" using BLOCK_pos by auto
    with True show ?thesis by (subst hash_loop.simps) (simp add: quiet assms max_absorb1)
  next
    case False
    then have "hashed < length data" "0 < length ?block" by auto
    then have small: "length data - (hashed + length ?block) < length data - hashed" by linarith
    have "hash_loop data hashed s = hash_loop data (hashed + length ?block) s"
      using False by (subst hash_loop.simps) (simp add: quiet assms)
    also have "\<dots> = (Inr (max (hashed + length ?block) (length data)), s)" by (rule less.hyps [OF small])
    also have "max (hashed + length ?block) (length data) = max hashed (length data)" by simp
    finally show ?thesis .
  qed
qed

text \<open>A root that holds one directory and nothing else.\<close>

definition sole :: "bundle_root \<Rightarrow> string \<Rightarrow> bundle_dir \<Rightarrow> bundle_root" where
  "sole R n d = R\<lparr>br_entries := [(n, d)]\<rparr>"

lemma sole_simps [simp]: "br_entries (sole R n d) = [(n, d)]" "br_directory (sole R n d) = br_directory R"
  "br_uid (sole R n d) = br_uid R" "br_mode (sole R n d) = br_mode R" "br_busy (sole R n d) = br_busy R"
  by (simp_all add: sole_def)

lemma on_staging_sole [simp]:
  "pk_root s = Some (sole R n d) \<Longrightarrow> on_staging n f s = s\<lparr>pk_root := Some (sole R n (f d))\<rparr>"
  by (simp add: on_staging_def set_entries_def on_root_def sole_def)

lemma sole_files [simp]: "pk_root s = Some (sole R n d) \<Longrightarrow> staged_files n s = du_files d"
  "pk_root s = Some (sole R n d) \<Longrightarrow> root_entries s = [(n, d)]"
  by (simp_all add: staged_files_def root_entries_def)

lemma put_sole: "pk_root s = Some (sole R n d) \<Longrightarrow> put_staged n name bs s = s\<lparr>pk_root := Some (sole R n (add_bytes name bs d))\<rparr>"
  by (simp add: put_staged_def add_bytes_def)

lemma quiet_copy_loop:
  assumes "pk_acts s = []" and "pk_inputs s path = Some f" and "pk_root s = Some (sole R n d)"
    and "k \<le> length (if_data f)" and "length (if_data f) \<le> maximum"
  shows "copy_loop path n name maximum k s =
    (Inr (length (if_data f)), s\<lparr>pk_root := Some (sole R n (add_bytes name (drop k (if_data f)) d))\<rparr>)"
  using assms(1-4)
proof (induction "length (if_data f) - k" arbitrary: k s d rule: less_induct)
  case less
  let ?block = "take BLOCK (drop k (if_data f))"
  have r: "read_block (\<lambda>s. if_data (input_of path s)) k s = (Inr ?block, s)"
    using less.prems by (simp add: quiet input_of_def)
  show ?case
  proof (cases "?block = []")
    case True
    with less.prems(4) BLOCK_pos have "k = length (if_data f)" by auto
    with True r less.prems(3) show ?thesis by (subst copy_loop.simps) simp
  next
    case False
    let ?u = "s\<lparr>pk_root := Some (sole R n (add_bytes name ?block d))\<rparr>"
    have len: "k + length ?block \<le> length (if_data f)" using less.prems(4) by simp
    have "0 < length ?block" using False by simp
    with len have small: "length (if_data f) - (k + length ?block) < length (if_data f) - k" by linarith
    have w: "write_all (put_staged n name) ?block s = (Inr (), ?u)"
      using False less.prems(1,3) by (simp add: quiet put_sole)
    have "copy_loop path n name maximum k s = copy_loop path n name maximum (k + length ?block) ?u"
      using False r w len assms(5) by (subst copy_loop.simps) simp
    also have "\<dots> = (Inr (length (if_data f)), ?u\<lparr>pk_root := Some (sole R n
        (add_bytes name (drop (k + length ?block) (if_data f)) (add_bytes name ?block d)))\<rparr>)"
      by (rule less.hyps [OF small]) (use less.prems len in simp_all)
    also have "add_bytes name (drop (k + length ?block) (if_data f)) (add_bytes name ?block d)
        = add_bytes name (drop k (if_data f)) d"
      using drop_split [of ?block BLOCK k "if_data f"] by (simp add: add_bytes_append)
    finally show ?thesis by simp
  qed
qed

subsection \<open>Files of the staging directory\<close>

lemma quiet_open_staged:
  assumes "pk_acts s = []" and "pk_root s = Some (sole R n d)" and "map_of (du_files d) name = None"
  shows "open_staged env n name s = (Inr (), s\<lparr>pk_root := Some (sole R n (add_file name (sealed env []) d)),
     pk_fds := name # pk_fds s, pk_created := pk_created s @ [name]\<rparr>)"
  using assms by (simp add: open_staged_def bind_io_def quiet open_fd_def modify_def add_file_def sealed_def)

lemma quiet_seal:
  assumes "pk_acts s = []" and "pk_root s = Some (sole R n (add_file name (sealed env data) d))"
    and "map_of (du_files d) name = None"
  shows "seal_staged n name s = (Inr (), s)"
proof -
  have "s\<lparr>pk_root := Some (sole R n (add_file name (sealed env data) d))\<rparr> = s" using assms(2) by (cases s) simp
  with assms show ?thesis
    by (simp add: seal_staged_def bind_io_def quiet) (simp add: add_file_def sealed_def map_new)
qed

text \<open>The state once a file has been added and closed.\<close>

definition with_file :: "bundle_root \<Rightarrow> string \<Rightarrow> bundle_dir \<Rightarrow> string \<Rightarrow> staged_file \<Rightarrow> pk \<Rightarrow> pk" where
  "with_file R n d name f s = s\<lparr>pk_root := Some (sole R n (add_file name f d)), pk_created := pk_created s @ [name]\<rparr>"

lemma with_file_fields [simp]: "pk_acts (with_file R n d name f s) = pk_acts s"
  "pk_inputs (with_file R n d name f s) = pk_inputs s" "pk_fds (with_file R n d name f s) = pk_fds s"
  "pk_root (with_file R n d name f s) = Some (sole R n (add_file name f d))"
  "pk_sources (with_file R n d name f s) = pk_sources s" "pk_root_open (with_file R n d name f s) = pk_root_open s"
  "pk_staging_open (with_file R n d name f s) = pk_staging_open s" "pk_staging (with_file R n d name f s) = pk_staging s"
  by (simp_all add: with_file_def)

lemma quiet_copy_artifact:
  assumes "pk_acts s = []" and "pk_inputs s path = Some f" and "pk_root s = Some (sole R n d)"
    and "map_of (du_files d) name = None" and "minimum \<le> length (if_data f)" and "length (if_data f) \<le> maximum"
  shows "copy_artifact env path n (name, minimum, maximum) s =
    (Inr (length (if_data f), pe_sha256 env (if_data f)), with_file R n d name (sealed env (if_data f)) s)"
proof -
  let ?d = "add_file name (sealed env (if_data f)) d"
  let ?u = "s\<lparr>pk_root := Some (sole R n (add_file name (sealed env []) d)), pk_fds := name # pk_fds s,
     pk_created := pk_created s @ [name]\<rparr>"
  let ?v = "?u\<lparr>pk_root := Some (sole R n ?d)\<rparr>"
  have "copy_loop path n name maximum 0 ?u = (Inr (length (if_data f)), ?v)"
    using quiet_copy_loop [of ?u path f R n "add_file name (sealed env []) d" 0 maximum name] assms
    by (simp add: add_bytes_add_file)
  moreover have "seal_staged n name ?v = (Inr (), ?v)" by (rule quiet_seal) (use assms in simp_all)
  moreover have "staged_of n name ?v = sealed env (if_data f)"
    using assms(4) by (simp add: staged_of_def add_file_def map_add_def)
  ultimately have "copy_body env path n name maximum f ?u = (Inr (length (if_data f), pe_sha256 env (if_data f)), ?v)"
    using assms by (simp add: copy_body_def bind_io_def gets_def input_of_def when_raise_def check_output_def sealed_def
        quiet ret_def)
  then show ?thesis
    using assms quiet_open_staged [OF assms(1,3,4), of env]
    by (simp add: copy_artifact_def bind_io_def gets_def input_of_def when_raise_def finally_do_def close_fd_def modify_def
        with_file_def)
qed

lemma quiet_create_file:
  assumes "pk_acts s = []" and "pk_root s = Some (sole R n d)" and "map_of (du_files d) name = None"
  shows "create_file env n name payload s = (Inr (), with_file R n d name (sealed env payload) s)"
proof -
  let ?u = "s\<lparr>pk_root := Some (sole R n (add_file name (sealed env []) d)), pk_fds := name # pk_fds s,
     pk_created := pk_created s @ [name]\<rparr>"
  let ?v = "?u\<lparr>pk_root := Some (sole R n (add_file name (sealed env payload) d))\<rparr>"
  have "write_all (put_staged n name) payload ?u = (Inr (), ?v)"
    using assms by (simp add: quiet put_sole add_bytes_add_file)
  moreover have "seal_staged n name ?v = (Inr (), ?v)" by (rule quiet_seal) (use assms in simp_all)
  moreover have "staged_of n name ?v = sealed env payload"
    using assms(3) by (simp add: staged_of_def add_file_def map_add_def)
  ultimately show ?thesis
    using assms quiet_open_staged [OF assms, of env]
    by (simp add: create_file_def bind_io_def gets_def when_raise_def check_output_def finally_do_def close_fd_def
        modify_def with_file_def sealed_def)
qed

subsection \<open>The run\<close>

text \<open>The directory before it is sealed, and its manifest.\<close>

definition observed_files :: "pk_env \<Rightarrow> bytes list \<Rightarrow> (string \<times> nat \<times> string) list" where
  "observed_files env datas = zip (map fst packager_artifacts) (map (\<lambda>b. (length b, pe_sha256 env b)) datas)"

definition bundle_of :: "pk_env \<Rightarrow> nat \<Rightarrow> bytes list \<Rightarrow> bytes \<Rightarrow> bytes \<Rightarrow> bundle_dir" where
  "bundle_of env mode datas manifest signature =
     \<lparr>du_mode = mode, du_files = zip (map fst packager_artifacts) (map (sealed env) datas)
        @ [(''manifest'', sealed env manifest), (''manifest.sig'', sealed env signature)]\<rparr>"

text \<open>What the undisturbed run needs of the host.\<close>

definition ready :: "pk_env \<Rightarrow> configuration \<Rightarrow> pk \<Rightarrow> bytes list \<Rightarrow> bytes \<Rightarrow> bytes \<Rightarrow> bytes \<Rightarrow> bool" where
  "ready env config s datas public_key manifest signature \<longleftrightarrow>
     pk_acts s = [] \<and> validate_configuration config = Inr () \<and> pe_openssl env
     \<and> (case pk_inputs s (cfg_private_key config) of
          None \<Rightarrow> False
        | Some k \<Rightarrow> if_regular k \<and> if_uid k = pe_euid env \<and> if_mode k \<in> {256, 384} \<and> if_nlink k = 1
            \<and> 1 \<le> length (if_data k) \<and> length (if_data k) \<le> 64 * 1024
            \<and> pe_pkcs8 env (if_data k) = 0 \<and> pe_pubkey env (if_data k) = (0, SPKI_PREFIX @ public_key)
            \<and> length public_key = 32 \<and> pe_sign env (if_data k) manifest = (0, signature) \<and> length signature = 64
            \<and> list_all2 (\<lambda>(name, minimum, maximum) (path, data).
                 case pk_inputs s path of
                   None \<Rightarrow> False
                 | Some f \<Rightarrow> if_regular f \<and> if_data f = data \<and> minimum \<le> length data \<and> length data \<le> maximum
                     \<and> (if_dev f, if_ino f) \<noteq> (if_dev k, if_ino k))
                packager_artifacts (zip [cfg_image config, cfg_dtb config, cfg_initramfs config] datas))
     \<and> length datas = 3
     \<and> manifest_bytes config (observed_of (observed_files env datas)) = Inr manifest
     \<and> (case pk_root s of
          None \<Rightarrow> False
        | Some R \<Rightarrow> br_directory R \<and> br_uid R = pe_euid env \<and> br_mode R = 448 \<and> \<not> br_busy R \<and> br_entries R = [])"

lemma ready_cong:
  "pk_acts t = pk_acts s \<Longrightarrow> pk_inputs t = pk_inputs s \<Longrightarrow> pk_root t = pk_root s \<Longrightarrow>
     ready env config t datas public_key manifest signature = ready env config s datas public_key manifest signature"
  unfolding ready_def by (simp only:)

lemma with_file_sole: "pk_root s = Some (sole R n d) \<Longrightarrow> pk_root (with_file R n d name f s) = Some (sole R n (add_file name f d))"
  by simp

lemma quiet_sign:
  assumes "pk_acts s = []" and "pk_inputs s key = Some k" and "pe_sign env (if_data k) manifest = (0, signature)"
    and "length signature = 64"
  shows "sign_manifest env manifest key s = (Inr signature, s)"
  using assms
  by (simp add: sign_manifest_def on_os_error_def try_except_def bind_io_def quiet finally_do_def open_fd_def close_fd_def
      modify_def input_of_def when_raise_def ret_def)

lemma quiet_inventory: "pk_acts s = [] \<Longrightarrow> directory_inventory names s = (Inr (names (open_fd ''snapshot'' s)), s)"
  by (simp add: directory_inventory_def bind_io_def quiet finally_do_def close_fd_def modify_def open_fd_def)

lemma quiet_open_regular:
  assumes "pk_acts s = []" and "pk_inputs s path = Some f" and "if_regular f"
  shows "open_regular path label s = (Inr (), open_fd path s)"
  using assms
  by (simp add: open_regular_def on_os_error_def try_except_def bind_io_def quiet gets_def input_of_def open_fd_def ret_def)

text \<open>Nothing but the root, the list of created names and the descriptors differs.\<close>

definition same :: "pk \<Rightarrow> pk \<Rightarrow> bool" where
  "same s t \<longleftrightarrow> pk_acts t = pk_acts s \<and> pk_inputs t = pk_inputs s \<and> pk_sources t = pk_sources s
     \<and> pk_root_open t = pk_root_open s \<and> pk_staging_open t = pk_staging_open s \<and> pk_staging t = pk_staging s"

lemma quiet_copy_artifacts:
  assumes "pk_acts s = []" and "pk_root s = Some (sole R n d)"
    and "list_all2 (\<lambda>(path, name, minimum, maximum) b. \<exists>f. pk_inputs s path = Some f \<and> if_data f = b
       \<and> minimum \<le> length b \<and> length b \<le> maximum) xs datas"
    and "distinct (map (fst \<circ> snd) xs)" and "\<forall>x\<in>set xs. map_of (du_files d) (fst (snd x)) = None"
  shows "\<exists>t. copy_artifacts env n xs s
       = (Inr (zip (map (fst \<circ> snd) xs) (map (\<lambda>b. (length b, pe_sha256 env b)) datas)), t)
     \<and> same s t \<and> pk_root t = Some (sole R n (d\<lparr>du_files := du_files d
         @ zip (map (fst \<circ> snd) xs) (map (sealed env) datas)\<rparr>))"
  using assms
proof (induction xs arbitrary: s d datas)
  case Nil
  then show ?case by (auto simp: ret_def same_def)
next
  case (Cons x xs)
  obtain path name minimum maximum where x: "x = (path, name, minimum, maximum)" by (cases x)
  with Cons.prems(3) obtain b datas' f where b: "datas = b # datas'" "pk_inputs s path = Some f" "if_data f = b"
    "minimum \<le> length b" "length b \<le> maximum"
    and rest: "list_all2 (\<lambda>(path, name, minimum, maximum) b. \<exists>f. pk_inputs s path = Some f \<and> if_data f = b
       \<and> minimum \<le> length b \<and> length b \<le> maximum) xs datas'" by (auto simp: list_all2_Cons1)
  let ?u = "with_file R n d name (sealed env b) s" and ?d = "add_file name (sealed env b) d"
  have copy: "copy_artifact env path n (name, minimum, maximum) s = (Inr (length b, pe_sha256 env b), ?u)"
    using quiet_copy_artifact [OF Cons.prems(1) b(2) Cons.prems(2), of name minimum maximum env] b Cons.prems(5) x by simp
  have new: "\<forall>y\<in>set xs. map_of (du_files ?d) (fst (snd y)) = None"
    using Cons.prems(4,5) x by (auto simp: add_file_def map_add_def)
  have "\<exists>t. copy_artifacts env n xs ?u
       = (Inr (zip (map (fst \<circ> snd) xs) (map (\<lambda>b. (length b, pe_sha256 env b)) datas')), t)
     \<and> same ?u t \<and> pk_root t = Some (sole R n (?d\<lparr>du_files := du_files ?d
         @ zip (map (fst \<circ> snd) xs) (map (sealed env) datas')\<rparr>))"
    by (rule Cons.IH) (use Cons.prems(1,4) rest new in simp_all)
  then show ?case
    using copy b(1) x by (auto simp: bind_io_def ret_def same_def add_file_def comp_def)
qed

lemma artifact_names: "distinct (map fst packager_artifacts)" "length packager_artifacts = 3"
  "''manifest'' \<notin> set (map fst packager_artifacts)" "''manifest.sig'' \<notin> set (map fst packager_artifacts)"
  by (simp_all add: packager_artifacts_def)

lemma quiet_stage_bundle:
  assumes "pk_acts s = []" and "pk_root s = Some (sole R n \<lparr>du_mode = 448, du_files = []\<rparr>)"
    and "pk_inputs s key = Some k" and "pe_sign env (if_data k) manifest = (0, signature)" and "length signature = 64"
    and "length sources = 3"
    and "list_all2 (\<lambda>(path, name, minimum, maximum) b. \<exists>f. pk_inputs s path = Some f \<and> if_data f = b
       \<and> minimum \<le> length b \<and> length b \<le> maximum) (zip sources packager_artifacts) datas"
    and "manifest_bytes config (observed_of (observed_files env datas)) = Inr manifest"
  shows "\<exists>t. stage_bundle env config key sources n (source_snapshot k) s = (Inr manifest, t)
     \<and> same s t \<and> pk_root t = Some (sole R n (bundle_of env 448 datas manifest signature))"
proof -
  let ?xs = "zip sources packager_artifacts"
  have len: "length sources = length packager_artifacts" using assms(6) by (simp add: artifact_names)
  have names: "map (fst \<circ> snd) ?xs = map fst packager_artifacts"
    using len by (simp flip: map_map)
  let ?files = "zip (map fst packager_artifacts) (map (sealed env) datas)"
  obtain u where u: "copy_artifacts env n ?xs s = (Inr (observed_files env datas), u)" "same s u"
    "pk_root u = Some (sole R n \<lparr>du_mode = 448, du_files = ?files\<rparr>)"
    using quiet_copy_artifacts [OF assms(1,2,7), of env] names
    by (auto simp: artifact_names observed_files_def)
  have new: "map_of ?files m = None" if "m \<notin> set (map fst packager_artifacts)" for m
    using that by (auto simp: map_of_eq_None_iff dest!: set_zip_leftD)
  let ?d1 = "add_file ''manifest'' (sealed env manifest) \<lparr>du_mode = 448, du_files = ?files\<rparr>"
  let ?v = "with_file R n \<lparr>du_mode = 448, du_files = ?files\<rparr> ''manifest'' (sealed env manifest) u"
  let ?w = "with_file R n ?d1 ''manifest.sig'' (sealed env signature) ?v"
  have acts: "pk_acts u = []" "pk_inputs u = pk_inputs s" using u(2) assms(1) by (simp_all add: same_def)
  have v: "create_file env n ''manifest'' manifest u = (Inr (), ?v)"
    by (rule quiet_create_file [OF acts(1) u(3)]) (use new artifact_names(3) in simp)
  have w: "sign_manifest env manifest key ?v = (Inr signature, ?v)"
    by (rule quiet_sign) (use acts assms(3-5) in simp_all)
  have z: "create_file env n ''manifest.sig'' signature ?v = (Inr (), ?w)"
    by (rule quiet_create_file) (use acts new [OF artifact_names(4)] in \<open>simp_all add: add_file_def map_add_def\<close>)
  have final: "add_file ''manifest.sig'' (sealed env signature) ?d1 = bundle_of env 448 datas manifest signature"
    by (simp add: add_file_def bundle_of_def)
  have "length datas = 3" using assms(6,7) by (auto dest!: list_all2_lengthD simp: artifact_names)
  then have inv: "set (map fst (du_files (bundle_of env 448 datas manifest signature))) = set FINAL_INVENTORY"
    by (auto simp: bundle_of_def FINAL_INVENTORY_def artifact_names)
  have i: "directory_inventory (\<lambda>s. map fst (staged_files n s)) ?w
      = (Inr (map fst (du_files (bundle_of env 448 datas manifest signature))), ?w)"
    using acts by (simp add: quiet_inventory open_fd_def final)
  have "stage_bundle env config key sources n (source_snapshot k) s = (Inr manifest, ?w)"
    using inv unfolding stage_bundle_def
    by (simp add: bind_io_def u(1) lift_result_def assms(8) v w z i gets_def input_of_def acts assms(3,5) when_raise_def ret_def)
  moreover have "same s ?w" using u(2) by (simp add: same_def)
  ultimately show ?thesis using final by auto
qed

lemma quiet_key:
  assumes "pk_acts s = []" and "pk_inputs s key = Some k" and "if_uid k = pe_euid env" and "if_mode k \<in> {256, 384}"
    and "if_nlink k = 1" and "1 \<le> length (if_data k)" and "length (if_data k) \<le> 64 * 1024"
    and "pe_pkcs8 env (if_data k) = 0" and "pe_pubkey env (if_data k) = (0, SPKI_PREFIX @ public_key)"
    and "length public_key = 32"
  shows "validate_private_key env key s = (Inr public_key, s)"
proof -
  have "\<not> (if_uid k \<noteq> pe_euid env \<or> if_mode k \<notin> {256, 384} \<or> if_nlink k \<noteq> 1 \<or> length (if_data k) < 1
      \<or> 64 * 1024 < length (if_data k))" using assms(3-7) by auto
  then show ?thesis
    using assms(1,2,8-10)
    by (simp add: validate_private_key_def bind_io_def gets_def input_of_def when_raise_def quiet ret_def)
qed

lemma quiet_open_source:
  assumes "pk_acts s = []" and "pk_inputs s path = Some f" and "if_regular f" and "(if_dev f, if_ino f) \<noteq> identity"
  shows "open_source identity (artifact, path) s = (Inr (), (open_fd path s)\<lparr>pk_sources := pk_sources s @ [path]\<rparr>)"
proof -
  obtain name minimum maximum where a: "artifact = (name, minimum, maximum)" by (cases artifact)
  have "input_of path (open_fd path s) = f" using assms(2) by (simp add: input_of_def open_fd_def)
  then show ?thesis
    using assms quiet_open_regular [OF assms(1-3), of name]
    by (simp add: a open_source_def bind_io_def gets_def modify_def) (simp add: open_fd_def)
qed

lemma quiet_open_root:
  assumes "pk_acts s = []" and "pk_root s = Some R" and "br_directory R" and "br_uid R = pe_euid env" and "br_mode R = 448"
    and "\<not> br_busy R" and "br_entries R = []"
  shows "open_bundle_root env s = (Inr (), open_fd ''root'' s)"
proof -
  have acts: "pk_acts (open_fd ''root'' s) = []" and root: "pk_root (open_fd fd s) = Some R" for fd
    using assms(1,2) by (simp_all add: open_fd_def)
  have "root_entries (open_fd fd s) = []" for fd using assms(2,7) root by (simp add: root_entries_def)
  then show ?thesis
    using assms acts root
    by (simp add: open_bundle_root_def on_os_error_def try_except_def bind_io_def quiet gets_def quiet_inventory ret_def)
qed

lemma quiet_staging:
  assumes "pk_acts s = []" and "pk_root s = Some R" and "br_entries R = []"
  shows "create_staging_directory env b s = (Inr (staging_name env b 0),
     s\<lparr>pk_root := Some (sole R (staging_name env b 0) \<lparr>du_mode = 448, du_files = []\<rparr>), pk_fds := ''staging'' # pk_fds s\<rparr>)"
proof -
  have "[0..<32] = 0 # [Suc 0..<32]" by (simp add: upt_rec)
  then show ?thesis
    using assms
    by (simp add: create_staging_directory_def make_staging_def open_staging_def on_os_error_def try_except_def bind_io_def
        quiet ret_def root_entries_def set_entries_def on_root_def open_fd_def sole_def)
qed

lemma quiet_publish:
  assumes "pk_acts s = []" and "pk_root s = Some (sole R n d)" and "n \<noteq> b"
  shows "publish n b s = (Inr (), s\<lparr>pk_root := Some (sole R b (d\<lparr>du_mode := 320\<rparr>)), pk_staging := None\<rparr>)"
  using assms
  by (simp add: publish_def rename_noreplace_def on_os_error_def try_except_def bind_io_def quiet modify_def
      set_entries_def on_root_def sole_def root_entries_def)

lemma quiet_open_sources:
  assumes "pk_acts s = []" and "list_all2 (\<lambda>a path. \<exists>f. pk_inputs s path = Some f \<and> if_regular f
     \<and> (if_dev f, if_ino f) \<noteq> identity) artifacts paths"
  shows "for_each (open_source identity) (zip artifacts paths) s
    = (Inr (), s\<lparr>pk_sources := pk_sources s @ paths, pk_fds := rev paths @ pk_fds s\<rparr>)"
  using assms
proof (induction artifacts arbitrary: s paths)
  case Nil
  then show ?case by (simp add: ret_def)
next
  case (Cons a as s all)
  from Cons.prems(2) obtain path paths f where all: "all = path # paths"
    and f: "pk_inputs s path = Some f" "if_regular f" "(if_dev f, if_ino f) \<noteq> identity"
    and rest: "list_all2 (\<lambda>a path. \<exists>f. pk_inputs s path = Some f \<and> if_regular f
     \<and> (if_dev f, if_ino f) \<noteq> identity) as paths" by (auto simp: list_all2_Cons1)
  let ?u = "(open_fd path s)\<lparr>pk_sources := pk_sources s @ [path]\<rparr>"
  have "for_each (open_source identity) (zip as paths) ?u
      = (Inr (), ?u\<lparr>pk_sources := pk_sources ?u @ paths, pk_fds := rev paths @ pk_fds ?u\<rparr>)"
    by (rule Cons.IH) (use Cons.prems(1) rest in \<open>simp_all add: open_fd_def\<close>)
  with quiet_open_source [OF Cons.prems(1) f] show ?case by (simp add: all bind_io_def open_fd_def)
qed

lemma close_each: "for_each close_fd fds s = (Inr (), s\<lparr>pk_fds := fold remove1 fds (pk_fds s)\<rparr>)"
  by (induction fds arbitrary: s) (simp_all add: ret_def bind_io_def close_fd_def modify_def)

lemma quiet_body:
  assumes "ready env config s datas public_key manifest signature" and "pk_root s = Some R"
    and "pk_sources s = []" and "pk_staging s = None"
  shows "\<exists>t. prepare_body env config s = (Inr (pe_sha256 env manifest, pe_sha256 env public_key), t)
     \<and> pk_root t = Some (sole R (cfg_bundle config) (bundle_of env 320 datas manifest signature)) \<and> pk_staging t = None"
proof -
  let ?key = "cfg_private_key config" and ?paths = "[cfg_image config, cfg_dtb config, cfg_initramfs config]"
  let ?b = "cfg_bundle config" and ?n = "staging_name env (cfg_bundle config) 0"
  from assms(1) obtain k where key: "pk_inputs s ?key = Some k" by (auto simp: ready_def split: option.splits)
  note facts = assms(1) [unfolded ready_def key assms(2)]
  from facts have acts: "pk_acts s = []" by simp
  have "packager_valid_bundle ?b" using facts by (auto simp: validate_configuration_def split: if_splits)
  then have n: "?n \<noteq> ?b" by (metis staging_name_other)
  have three: "length datas = 3" using facts by simp
  then obtain a b c where datas: "datas = [a, b, c]" by (auto simp: numeral_3_eq_3 length_Suc_conv)
  obtain x y z where arts: "packager_artifacts = [x, y, z]" by (simp add: packager_artifacts_def)
  from facts have sources: "list_all2 (\<lambda>a path. \<exists>f. pk_inputs s path = Some f \<and> if_regular f
     \<and> (if_dev f, if_ino f) \<noteq> (if_dev k, if_ino k)) packager_artifacts ?paths"
    unfolding arts datas by (auto split: option.splits)
  from facts have inputs: "list_all2 (\<lambda>(path, name, minimum, maximum) b. \<exists>f. pk_inputs s path = Some f \<and> if_data f = b
       \<and> minimum \<le> length b \<and> length b \<le> maximum) (zip ?paths packager_artifacts) datas"
    unfolding arts datas by (auto split: option.splits)
  let ?u = "s\<lparr>pk_sources := ?paths, pk_fds := rev ?paths @ pk_fds s\<rparr>"
  let ?v = "(open_fd ''root'' ?u)\<lparr>pk_root_open := True\<rparr>"
  let ?w = "?v\<lparr>pk_root := Some (sole R ?n \<lparr>du_mode = 448, du_files = []\<rparr>), pk_fds := ''staging'' # pk_fds ?v,
      pk_staging := Some ?n, pk_staging_open := True\<rparr>"
  have 1: "validate_private_key env ?key s = (Inr public_key, s)" by (rule quiet_key [OF acts key]) (use facts in auto)
  have 2: "for_each (open_source (if_dev k, if_ino k)) (zip packager_artifacts ?paths) s = (Inr (), ?u)"
    using quiet_open_sources [OF acts sources] assms(3) by simp
  have 3: "open_bundle_root env ?u = (Inr (), open_fd ''root'' ?u)"
    by (rule quiet_open_root [of _ R]) (use facts assms(2) in simp_all)
  have 4: "create_staging_directory env ?b ?v = (Inr ?n, ?v\<lparr>pk_root := Some (sole R ?n \<lparr>du_mode = 448, du_files = []\<rparr>),
      pk_fds := ''staging'' # pk_fds ?v\<rparr>)"
    by (rule quiet_staging) (use facts assms(2) in \<open>simp_all add: open_fd_def\<close>)
  have "\<exists>t. stage_bundle env config ?key ?paths ?n (source_snapshot k) ?w = (Inr manifest, t)
     \<and> same ?w t \<and> pk_root t = Some (sole R ?n (bundle_of env 448 datas manifest signature))"
    by (rule quiet_stage_bundle) (use facts key inputs in \<open>simp_all add: open_fd_def\<close>)
  then obtain t where t: "stage_bundle env config ?key ?paths ?n (source_snapshot k) ?w = (Inr manifest, t)"
    "same ?w t" "pk_root t = Some (sole R ?n (bundle_of env 448 datas manifest signature))" by blast
  have "pk_acts t = []" using t(2) acts by (simp add: same_def open_fd_def)
  note 5 = quiet_publish [OF this t(3) n]
  have run: "prepare_body env config s = (Inr (pe_sha256 env manifest, pe_sha256 env public_key),
     t\<lparr>pk_root := Some (sole R ?b (bundle_of env 448 datas manifest signature\<lparr>du_mode := 320\<rparr>)), pk_staging := None\<rparr>)"
    using 1 2 3 4 t(1) 5
    by (simp add: prepare_body_def Let_def bind_io_def gets_def input_of_def key modify_def ret_def)
  moreover have "bundle_of env 448 datas manifest signature\<lparr>du_mode := 320\<rparr> = bundle_of env 320 datas manifest signature"
    by (simp add: bundle_of_def)
  ultimately show ?thesis by simp
qed

lemma quiet_prepare:
  assumes "ready env config s datas public_key manifest signature" and "pk_root s = Some R"
  shows "\<exists>t. prepare_bundle env config s = (Inr (pe_sha256 env manifest, pe_sha256 env public_key), t)
     \<and> pk_root t = Some (sole R (cfg_bundle config) (bundle_of env 320 datas manifest signature))"
proof -
  let ?key = "cfg_private_key config"
  let ?s = "(open_fd ?key s)\<lparr>pk_sources := [], pk_root_open := False, pk_staging_open := False,
        pk_staging := None, pk_created := []\<rparr>"
  from assms(1) obtain k where key: "pk_inputs s ?key = Some k" by (auto simp: ready_def split: option.splits)
  note facts = assms(1) [unfolded ready_def key assms(2)]
  have "ready env config ?s datas public_key manifest signature"
    using assms(1) by (subst ready_cong [of _ s]) (simp_all add: open_fd_def)
  moreover have "pk_root ?s = Some R" using assms(2) by (simp add: open_fd_def)
  ultimately obtain t where t: "prepare_body env config ?s = (Inr (pe_sha256 env manifest, pe_sha256 env public_key), t)"
    "pk_root t = Some (sole R (cfg_bundle config) (bundle_of env 320 datas manifest signature))" "pk_staging t = None"
    using quiet_body [of env config ?s datas public_key manifest signature R] by auto
  have opened: "open_regular ?key ''private key'' s = (Inr (), open_fd ?key s)"
    by (rule quiet_open_regular [OF _ key]) (use facts in simp_all)
  obtain u where u: "release ?key t = (Inr (), u)" "pk_root u = pk_root t"
    using t(3)
    by (cases "pk_staging_open t"; cases "pk_root_open t")
       (simp_all add: release_def bind_io_def gets_def ret_def close_each close_fd_def modify_def)
  have "prepare_bundle env config s = (Inr (pe_sha256 env manifest, pe_sha256 env public_key), u)"
    using facts opened t(1) u(1)
    by (simp add: prepare_bundle_def bind_io_def lift_result_def when_raise_def modify_def finally_do_def)
  with t(2) u(2) show ?thesis by simp
qed

text \<open>
  C26. An undisturbed run succeeds. With a valid configuration, an acceptable private key, three regular sources
  within policy that do not alias it, and an empty private bundle root, \<open>prepare_bundle\<close> returns the digests of
  the manifest and of the public key, and leaves in the root exactly the sealed bundle and nothing else.
\<close>

theorem packager_publishes:
  assumes "ready env config s datas public_key manifest signature" and "pk_root s = Some R"
  shows "\<exists>t. prepare_bundle env config s = (Inr (pe_sha256 env manifest, pe_sha256 env public_key), t)
     \<and> pk_root t = Some (sole R (cfg_bundle config) (bundle_of env 320 datas manifest signature))"
  using assms by (rule quiet_prepare)

end
