(* ===== verification/Server_Prepare.thy ===== *)
theory Server_Prepare
  imports Server_Transfer "HOL-Library.List_Lexorder" "HOL-Library.Char_ord"
begin

section \<open>What the bundle server checks before it serves\<close>

text \<open>
  Models the file half of \<^verbatim>\<open>tools/recovery_control/host_bundle_server.py\<close>: \<open>hash_descriptor\<close>,
  \<open>safe_directory\<close>, \<open>open_regular\<close>, \<open>prepare_bundle\<close>, \<open>prepare_production\<close> and the command line. Each
  \<open>open\<close>, \<open>flock\<close>, \<open>listdir\<close> and \<open>read\<close> meets the next event of a script: it goes on, fails, reads only a
  part, or comes after another process has rewritten a file of the bundle in place. An open
  descriptor names its file for good. The digest is the argument \<open>H\<close>.
\<close>

subsection \<open>The host\<close>

datatype file_event = Proceed | Refuse | Part nat | Rewrite string bytes

record served_file =
  vf_regular :: bool
  vf_uid :: nat
  vf_mode :: nat
  vf_nlink :: nat
  vf_dev :: nat
  vf_ino :: nat
  vf_data :: bytes

record served_dir =
  vd_uid :: nat
  vd_mode :: nat
  vd_files :: "(string \<times> served_file) list"

record served_root =
  vr_uid :: nat
  vr_mode :: nat
  vr_busy :: bool
  vr_entries :: "(string \<times> served_dir) list"

record host =
  h_euid :: nat
  h_root :: "served_root option"
  h_open :: "(nat \<times> string \<times> string) list"
  h_next :: nat
  h_descriptors :: "nat list"
  h_events :: "file_event list"

definition entries :: "host \<Rightarrow> (string \<times> served_dir) list" where
  "entries s = (case h_root s of None \<Rightarrow> [] | Some r \<Rightarrow> vr_entries r)"

definition find_file :: "host \<Rightarrow> string \<Rightarrow> string \<Rightarrow> served_file option" where
  "find_file s dir name = Option.bind (map_of (entries s) dir) (\<lambda>d. map_of (vd_files d) name)"

definition rewrite_file :: "string \<Rightarrow> bytes \<Rightarrow> host \<Rightarrow> host" where
  "rewrite_file name data s =
     s\<lparr>h_root := map_option (\<lambda>r. r\<lparr>vr_entries := map (\<lambda>(n, d). (n, d\<lparr>vd_files :=
         map (\<lambda>(m, f). (m, if m = name then f\<lparr>vf_data := data\<rparr> else f)) (vd_files d)\<rparr>)) (vr_entries r)\<rparr>)
       (h_root s)\<rparr>"

definition next_event :: "host \<Rightarrow> file_event \<times> host" where
  "next_event s =
     (case h_events s of
        [] \<Rightarrow> (Proceed, s)
      | Rewrite name data # es \<Rightarrow> (Proceed, rewrite_file name data (s\<lparr>h_events := es\<rparr>))
      | e # es \<Rightarrow> (e, s\<lparr>h_events := es\<rparr>))"

definition request_os :: "(host \<Rightarrow> 'a result \<times> host) \<Rightarrow> (host, 'a) io" where
  "request_os f s = (case next_event s of (Refuse, t) \<Rightarrow> (Inl OSError, t) | (_, t) \<Rightarrow> f t)"

definition refusing :: "string \<Rightarrow> (host, 'a) io \<Rightarrow> (host, 'a) io" where
  "refusing reason m = try_except m (\<lambda>e. if e = OSError then raise (ServerRefusal reason) else raise e)"

definition open_descriptor :: "string \<Rightarrow> string \<Rightarrow> host \<Rightarrow> nat result \<times> host" where
  "open_descriptor dir name s =
     (Inr (h_next s), s\<lparr>h_open := (h_next s, dir, name) # h_open s, h_next := Suc (h_next s)\<rparr>)"

definition close_descriptor :: "nat \<Rightarrow> (host, unit) io" where
  "close_descriptor fd = modify (\<lambda>s. s\<lparr>h_open := filter (\<lambda>(n, _). n \<noteq> fd) (h_open s)\<rparr>)"

text \<open>The file an open descriptor refers to.\<close>

definition file_at :: "host \<Rightarrow> nat \<Rightarrow> served_file" where
  "file_at s fd = (case map_of (h_open s) fd of
      Some (dir, name) \<Rightarrow> the (find_file s dir name) | None \<Rightarrow> the None)"

definition content_at :: "host \<Rightarrow> nat \<Rightarrow> bytes" where
  "content_at s fd = vf_data (file_at s fd)"

subsection \<open>Descriptors and directories\<close>

definition os_read :: "nat \<Rightarrow> nat \<Rightarrow> nat \<Rightarrow> (host, bytes) io" where
  "os_read fd position n s =
     (case next_event s of
        (Refuse, t) \<Rightarrow> (Inl OSError, t)
      | (Part k, t) \<Rightarrow> (Inr (take (max 1 k) (take n (drop position (content_at t fd)))), t)
      | (_, t) \<Rightarrow> (Inr (take n (drop position (content_at t fd))), t))"

function digest_from :: "nat \<Rightarrow> nat \<Rightarrow> bytes \<Rightarrow> (host, bytes) io" where
  "digest_from fd maximum seen s =
     (case os_read fd (length seen) (1024 * 1024) s of
        (Inl e, t) \<Rightarrow> (Inl e, t)
      | (Inr block, t) \<Rightarrow>
          if block = [] then (Inr seen, t)
          else if maximum < length seen + length block
          then (Inl (ServerRefusal ''artifact exceeds allocation policy''), t)
          else digest_from fd maximum (seen @ block) t)"
  by pat_completeness auto
termination
proof (relation "measure (\<lambda>(_, maximum, seen, _). maximum - length seen)")
  fix fd maximum :: nat and seen block :: bytes and s t :: host
  assume "\<not> maximum < length seen + length block" "block \<noteq> []"
  moreover from this(2) have "0 < length block" by simp
  ultimately have "maximum - length (seen @ block) < maximum - length seen" unfolding length_append by linarith
  then show "((fd, maximum, seen @ block, t), fd, maximum, seen, s)
    \<in> measure (\<lambda>(_, maximum, seen, _). maximum - length seen)" by simp
qed simp

declare digest_from.simps [simp del]

definition hash_descriptor :: "(bytes \<Rightarrow> bytes) \<Rightarrow> nat \<Rightarrow> nat \<Rightarrow> (host, nat \<times> string) io" where
  "hash_descriptor H fd maximum =
     bind_io (digest_from fd maximum []) (\<lambda>seen. ret (length seen, to_hex (H seen)))"

definition safe_directory :: "nat \<times> nat \<Rightarrow> nat \<Rightarrow> nat \<Rightarrow> string \<Rightarrow> (host, unit) io" where
  "safe_directory metadata owner mode label =
     when_raise (fst metadata \<noteq> owner \<or> snd metadata \<noteq> mode) (ServerRefusal (''unsafe '' @ label @ '' metadata''))"

definition server_open_regular :: "string \<Rightarrow> nat \<Rightarrow> string \<times> nat \<times> nat \<Rightarrow> (host, nat) io" where
  "server_open_regular dir owner artifact =
     (case artifact of (name, minimum, maximum) \<Rightarrow>
        bind_io (refusing ''cannot open fixed bundle artifact''
          (request_os (\<lambda>s. if find_file s dir name = None then (Inl OSError, s) else open_descriptor dir name s))) (\<lambda>fd.
        bind_io (gets (\<lambda>s. file_at s fd)) (\<lambda>metadata.
        if \<not> vf_regular metadata \<or> vf_uid metadata \<noteq> owner \<or> vf_mode metadata \<noteq> 256
           \<or> vf_nlink metadata \<noteq> 1 \<or> length (vf_data metadata) < minimum \<or> maximum < length (vf_data metadata)
        then bind_io (close_descriptor fd) (\<lambda>_. raise (ServerRefusal ''unsafe fixed bundle artifact''))
        else ret fd)))"

subsection \<open>Preparing the bundle\<close>

text \<open>The list \<open>descriptors\<close> of \<open>prepare_bundle\<close>, which its \<open>except\<close> block closes, is a field of the state.\<close>

fun open_artifacts :: "(bytes \<Rightarrow> bytes) \<Rightarrow> string \<Rightarrow> nat \<Rightarrow> (string \<times> nat \<times> nat) list
    \<Rightarrow> (nat \<times> nat) list \<Rightarrow> (host, (string \<times> nat \<times> string) list) io" where
  "open_artifacts H dir owner [] identities = ret []"
| "open_artifacts H dir owner ((name, minimum, maximum) # rest) identities =
     bind_io (server_open_regular dir owner (name, minimum, maximum)) (\<lambda>fd.
     bind_io (modify (\<lambda>s. s\<lparr>h_descriptors := h_descriptors s @ [fd]\<rparr>)) (\<lambda>_.
     bind_io (gets (\<lambda>s. (vf_dev (file_at s fd), vf_ino (file_at s fd)))) (\<lambda>identity.
     bind_io (when_raise (identity \<in> set identities) (ServerRefusal ''aliased bundle artifacts'')) (\<lambda>_.
     bind_io (hash_descriptor H fd maximum) (\<lambda>hashed.
     bind_io (open_artifacts H dir owner rest (identity # identities)) (\<lambda>others.
     ret ((name, hashed) # others)))))))"

definition inspect_bundle :: "(bytes \<Rightarrow> bytes) \<Rightarrow> string \<Rightarrow> string \<Rightarrow> nat \<Rightarrow> (host, prepared_bundle) io" where
  "inspect_bundle H bundle_name manifest_hash owner =
     bind_io (gets (\<lambda>s. the (map_of (entries s) bundle_name))) (\<lambda>directory.
     bind_io (safe_directory (vd_uid directory, vd_mode directory) owner 320 ''bundle directory'') (\<lambda>_.
     bind_io (request_os (\<lambda>s. (Inr (sort (map fst (vd_files (the (map_of (entries s) bundle_name))))), s))) (\<lambda>inventory.
     bind_io (when_raise (inventory \<noteq> sort (map fst server_artifacts)) (ServerRefusal ''unexpected bundle inventory'')) (\<lambda>_.
     bind_io (open_artifacts H bundle_name owner server_artifacts []) (\<lambda>observed.
     bind_io (gets (\<lambda>s. (hd (h_descriptors s), fst (the (map_of observed ''manifest''))))) (\<lambda>(fd, manifest_size).
     bind_io (os_read fd 0 (manifest_size + 1)) (\<lambda>manifest.
     bind_io (when_raise (length manifest \<noteq> manifest_size) (ServerRefusal ''manifest changed while opening'')) (\<lambda>_.
     bind_io (lift_result (server_validate_manifest H manifest bundle_name manifest_hash (map_of observed))) (\<lambda>_.
     gets (\<lambda>s. \<lparr>descriptors = h_descriptors s, sizes = map (\<lambda>(name, _). fst (the (map_of observed name))) server_artifacts,
        prepared_id = bundle_name, prepared_hash = manifest_hash\<rparr>))))))))))"

definition close_all :: "nat list \<Rightarrow> (host, unit) io" where
  "close_all fds = for_each close_descriptor fds"

definition check_root :: "string \<Rightarrow> string \<Rightarrow> nat \<Rightarrow> (host, unit) io" where
  "check_root bundle_name manifest_hash owner =
     bind_io (when_raise (\<not> server_valid_bundle bundle_name \<or> \<not> server_valid_hash manifest_hash)
        (ServerRefusal ''invalid requested bundle identity'')) (\<lambda>_.
     bind_io (gets (\<lambda>s. the (h_root s))) (\<lambda>root.
     bind_io (safe_directory (vr_uid root, vr_mode root) owner 448 ''bundle root'') (\<lambda>_.
     bind_io (refusing ''bundle root is busy''
        (request_os (\<lambda>s. if vr_busy (the (h_root s)) then (Inl OSError, s) else (Inr (), s)))) (\<lambda>_.
     bind_io (request_os (\<lambda>s. (Inr (sort (map fst (entries s))), s))) (\<lambda>root_inventory.
     when_raise (root_inventory \<noteq> [bundle_name]) (ServerRefusal ''unexpected bundle-root inventory''))))))"

definition release_on_error :: "(host, 'a) io \<Rightarrow> (host, 'a) io" where
  "release_on_error m =
     try_except m (\<lambda>e. bind_io (gets h_descriptors) (\<lambda>fds. bind_io (close_all fds) (\<lambda>_. raise e)))"

definition server_prepare_bundle :: "(bytes \<Rightarrow> bytes) \<Rightarrow> string \<Rightarrow> string \<Rightarrow> nat \<Rightarrow> (host, prepared_bundle) io" where
  "server_prepare_bundle H bundle_name manifest_hash owner =
     bind_io (check_root bundle_name manifest_hash owner) (\<lambda>_.
     bind_io (refusing ''cannot open fixed bundle directory'' (request_os (open_descriptor bundle_name ''.''))) (\<lambda>directory.
     bind_io (modify (\<lambda>s. s\<lparr>h_descriptors := []\<rparr>)) (\<lambda>_.
     try_finally (release_on_error (inspect_bundle H bundle_name manifest_hash owner)) (close_descriptor directory))))"

subsection \<open>The command line\<close>

definition with_production ::
    "(bytes \<Rightarrow> bytes) \<Rightarrow> string \<Rightarrow> string \<Rightarrow> (prepared_bundle \<Rightarrow> (host, 'a) io) \<Rightarrow> (host, 'a) io" where
  "with_production H bundle_name manifest_hash body =
     bind_io (gets h_euid) (\<lambda>euid.
     bind_io (when_raise (euid = 0) (ServerRefusal ''bundle server must run unprivileged'')) (\<lambda>_.
     bind_io (when_raise (\<not> server_valid_bundle bundle_name \<or> \<not> server_valid_hash manifest_hash)
        (ServerRefusal ''invalid requested bundle identity'')) (\<lambda>_.
     bind_io (refusing ''cannot open fixed host bundle root''
        (request_os (\<lambda>s. if h_root s = None then (Inl OSError, s) else open_descriptor [] ''.'' s))) (\<lambda>root.
     try_finally
       (bind_io (server_prepare_bundle H bundle_name manifest_hash euid) (\<lambda>prepared.
          try_finally (body prepared) (close_all (descriptors prepared))))
       (close_descriptor root)))))"

definition run_preflight :: "(bytes \<Rightarrow> bytes) \<Rightarrow> string \<Rightarrow> string \<Rightarrow> (host, unit) io" where
  "run_preflight H bundle_name manifest_hash = with_production H bundle_name manifest_hash (\<lambda>_. ret ())"

text \<open>
  \<open>None\<close> for a listening socket that cannot be bound. What the listener met and sent is the result,
  beside the outcome of \<open>serve_listener\<close>.
\<close>

definition run_production ::
    "(bytes \<Rightarrow> bytes) \<Rightarrow> listener option \<Rightarrow> string \<Rightarrow> string \<Rightarrow> (host, unit result \<times> listener) io" where
  "run_production H socket bundle_name manifest_hash =
     with_production H bundle_name manifest_hash (\<lambda>prepared.
       case socket of
         None \<Rightarrow> raise OSError
       | Some l \<Rightarrow> gets (\<lambda>s. serve_listener (content_at s) prepared production_peer 195 l))"

datatype command_result = Preflight | Served "unit result \<times> listener"

definition server_main ::
    "(bytes \<Rightarrow> bytes) \<Rightarrow> listener option \<Rightarrow> string list \<Rightarrow> (host, command_result) io" where
  "server_main H socket arguments =
     (if length arguments = 4 \<and> arguments ! 1 = ''--preflight''
      then bind_io (run_preflight H (arguments ! 2) (arguments ! 3)) (\<lambda>_. ret Preflight)
      else if length arguments \<noteq> 3 \<or> arguments ! 1 = ''--preflight''
      then raise (ServerRefusal ''usage: serve-recovery-bundle.py [--preflight] BUNDLE MANIFEST_SHA256'')
      else bind_io (run_production H socket (arguments ! 1) (arguments ! 2)) (\<lambda>r. ret (Served r)))"

end
