(* ===== verification/Server_Verdict.thy ===== *)
theory Server_Verdict
  imports Server_Prepare
begin

section \<open>What a prepared bundle guarantees\<close>

text \<open>
  An abstract verdict on a bundle root, and that \<open>prepare_bundle\<close> implements it: what it accepts is
  servable, and an undisturbed run accepts everything that is. No file is rewritten during the check;
  reads may be short and calls may fail.
\<close>

subsection \<open>The verdict\<close>

definition artifact_ok :: "nat \<Rightarrow> nat \<Rightarrow> nat \<Rightarrow> served_file \<Rightarrow> bool" where
  "artifact_ok owner minimum maximum f \<longleftrightarrow>
     vf_regular f \<and> vf_uid f = owner \<and> vf_mode f = 256 \<and> vf_nlink f = 1
     \<and> minimum \<le> length (vf_data f) \<and> length (vf_data f) \<le> maximum"

definition identity_of :: "served_file \<Rightarrow> nat \<times> nat" where
  "identity_of f = (vf_dev f, vf_ino f)"

definition hashed :: "(bytes \<Rightarrow> bytes) \<Rightarrow> served_file \<Rightarrow> nat \<times> string" where
  "hashed H f = (length (vf_data f), to_hex (H (vf_data f)))"

definition servable ::
    "(bytes \<Rightarrow> bytes) \<Rightarrow> string \<Rightarrow> string \<Rightarrow> nat \<Rightarrow> served_root \<Rightarrow> served_file list \<Rightarrow> bool" where
  "servable H bundle_name manifest_hash owner root fs \<longleftrightarrow>
     server_valid_bundle bundle_name \<and> server_valid_hash manifest_hash
     \<and> vr_uid root = owner \<and> vr_mode root = 448 \<and> \<not> vr_busy root
     \<and> (\<exists>d. vr_entries root = [(bundle_name, d)] \<and> vd_uid d = owner \<and> vd_mode d = 320
          \<and> sort (map fst (vd_files d)) = sort (map fst server_artifacts)
          \<and> list_all2 (\<lambda>(name, minimum, maximum) f. map_of (vd_files d) name = Some f
                \<and> artifact_ok owner minimum maximum f) server_artifacts fs)
     \<and> distinct (map identity_of fs)
     \<and> server_validate_manifest H (vf_data (hd fs)) bundle_name manifest_hash
         (map_of (zip (map fst server_artifacts) (map (hashed H) fs))) = Inr ()"

subsection \<open>Events without rewriting\<close>

fun is_rewrite :: "file_event \<Rightarrow> bool" where
  "is_rewrite (Rewrite _ _) = True"
| "is_rewrite _ = False"

definition calm :: "host \<Rightarrow> bool" where
  "calm s \<longleftrightarrow> \<not> list_ex is_rewrite (h_events s)"

definition only_events :: "host \<Rightarrow> host \<Rightarrow> bool" where
  "only_events s t \<longleftrightarrow> calm t \<and> t = s\<lparr>h_events := h_events t\<rparr>"

lemma only_events_fields:
  assumes "only_events s t"
  shows "h_root t = h_root s" and "h_open t = h_open s" and "h_next t = h_next s"
    and "h_descriptors t = h_descriptors s" and "h_euid t = h_euid s" and "calm t"
proof -
  from assms obtain es where t: "t = s\<lparr>h_events := es\<rparr>" and "calm t" unfolding only_events_def by blast
  then show "h_root t = h_root s" and "h_open t = h_open s" and "h_next t = h_next s"
    and "h_descriptors t = h_descriptors s" and "h_euid t = h_euid s" and "calm t" by simp_all
qed

lemma find_file_cong: "h_root t = h_root s \<Longrightarrow> find_file t dir name = find_file s dir name"
  by (simp add: find_file_def entries_def)

lemma file_at_cong:
  assumes "h_root t = h_root s" and "map_of (h_open t) fd = map_of (h_open s) fd"
  shows "file_at t fd = file_at s fd"
  unfolding file_at_def assms(2) find_file_cong [OF assms(1)] ..

lemma only_events_file: "only_events s t \<Longrightarrow> file_at t fd = file_at s fd"
  by (rule file_at_cong) (simp_all add: only_events_fields)

lemma only_events_trans: "only_events s t \<Longrightarrow> only_events t u \<Longrightarrow> only_events s u"
  unfolding only_events_def by (metis host.update_convs(6) host.surjective)

lemma calm_next: "calm s \<Longrightarrow> next_event s = (e, t) \<Longrightarrow> only_events s t"
  by (auto simp: calm_def only_events_def next_event_def split: list.splits file_event.splits)

lemma calm_request:
  "calm s \<Longrightarrow> request_os f s = (Inr x, t) \<Longrightarrow> \<exists>u. only_events s u \<and> f u = (Inr x, t)"
  by (auto simp: request_os_def split: prod.splits file_event.splits dest: calm_next)

lemma refusing_Inr [simp]: "refusing reason m s = (Inr x, t) \<longleftrightarrow> m s = (Inr x, t)"
  by (auto simp: refusing_def try_except_def raise_def split: prod.splits sum.splits if_splits)

lemma when_raise_eq_Inr: "when_raise b e s = (Inr x, t) \<longleftrightarrow> \<not> b \<and> t = s"
  by (auto simp: when_raise_def)

lemma os_read_Inr:
  assumes "calm s" and "os_read fd position n s = (Inr block, t)"
  shows "only_events s t" and "\<exists>m. block = take m (take n (drop position (content_at s fd))) \<and> 0 < m"
proof -
  obtain e u where e: "next_event s = (e, u)" by fastforce
  from calm_next [OF assms(1) e] have u: "only_events s u" .
  have data: "content_at u fd = content_at s fd" using only_events_file [OF u] by (simp add: content_at_def)
  from assms(2) e have t: "t = u" by (auto simp: os_read_def split: file_event.splits)
  with u show "only_events s t" by simp
  show "\<exists>m. block = take m (take n (drop position (content_at s fd))) \<and> 0 < m"
  proof (cases e)
    case (Part k)
    with assms(2) e data show ?thesis by (intro exI [of _ "max 1 k"]) (simp add: os_read_def)
  qed (use assms(2) e data in \<open>auto simp: os_read_def intro!: exI [of _ "Suc n"]\<close>)
qed

lemma digest_from_Inr:
  assumes "digest_from fd maximum seen s = (Inr all, t)" and "calm s" and "prefix seen (content_at s fd)"
  shows "only_events s t \<and> all = content_at s fd"
  using assms
proof (induction "maximum - length seen" arbitrary: seen s rule: less_induct)
  case less
  obtain r u where r: "os_read fd (length seen) (1024 * 1024) s = (r, u)" by fastforce
  from less.prems(1) r obtain block where block: "r = Inr block" by (cases r) (simp_all add: digest_from.simps [of fd])
  note read = os_read_Inr [OF less.prems(2) r [unfolded block]]
  obtain rest where rest: "content_at s fd = seen @ rest" using less.prems(3) by (auto elim: prefixE)
  obtain m where m: "block = take m (take (1024 * 1024) rest)" "0 < m" using read(2) rest by auto
  show ?case
  proof (cases "block = []")
    case True
    with m have "rest = []" by auto
    with less.prems(1) r block True read(1) rest show ?thesis by (simp add: digest_from.simps [of fd])
  next
    case False
    with less.prems(1) r block have run: "digest_from fd maximum (seen @ block) u = (Inr all, t)"
      and max: "\<not> maximum < length seen + length block"
      by (auto simp: digest_from.simps [of fd maximum seen] split: if_splits)
    have "0 < length block" using False by simp
    with max have small: "maximum - length (seen @ block) < maximum - length seen" unfolding length_append by linarith
    have same: "content_at u fd = content_at s fd" using only_events_file [OF read(1)] by (simp add: content_at_def)
    have "prefix block rest" using m(1) by (simp add: take_is_prefix)
    then have "prefix (seen @ block) (content_at u fd)" by (simp add: same rest)
    from less.hyps [OF small run only_events_fields(6) [OF read(1)] this] same read(1)
    show ?thesis by (auto intro: only_events_trans)
  qed
qed

subsection \<open>Opening the artifacts\<close>

lemma find_file_entries:
  "h_root s = Some root \<Longrightarrow> map_of (vr_entries root) dir = Some d \<Longrightarrow> find_file s dir name = map_of (vd_files d) name"
  by (simp add: find_file_def entries_def)

definition opened :: "string \<Rightarrow> string \<Rightarrow> host \<Rightarrow> host" where
  "opened dir name s = s\<lparr>h_open := (h_next s, dir, name) # h_open s, h_next := Suc (h_next s)\<rparr>"

lemma opened_fields [simp]: "h_root (opened dir name s) = h_root s" "h_events (opened dir name s) = h_events s"
  "h_descriptors (opened dir name s) = h_descriptors s" "h_next (opened dir name s) = Suc (h_next s)"
  "h_open (opened dir name s) = (h_next s, dir, name) # h_open s" "calm (opened dir name s) = calm s"
  by (simp_all add: opened_def calm_def)

lemma file_at_opened: "file_at (opened dir name s) (h_next s) = the (find_file s dir name)"
  by (simp add: file_at_def find_file_def entries_def)

lemma server_open_Inr:
  assumes "server_open_regular dir owner (name, minimum, maximum) s = (Inr fd, t)" and "calm s"
    and "h_root s = Some root" and "map_of (vr_entries root) dir = Some d"
  obtains u f where "only_events s u" and "t = opened dir name u" and "fd = h_next s"
    and "map_of (vd_files d) name = Some f" and "artifact_ok owner minimum maximum f" and "file_at t fd = f"
proof -
  from assms(1) obtain t1 where t1: "request_os (\<lambda>s. if find_file s dir name = None then (Inl OSError, s)
        else open_descriptor dir name s) s = (Inr fd, t1)"
    and ok: "t = t1" "artifact_ok owner minimum maximum (file_at t1 fd)"
    by (auto simp: server_open_regular_def bind_io_eq_Inr gets_def ret_def raise_def artifact_ok_def not_less
        close_descriptor_def modify_def split: if_splits)
  from calm_request [OF assms(2) t1] obtain u where u: "only_events s u" "find_file u dir name \<noteq> None"
    "fd = h_next u" "t1 = opened dir name u"
    by (auto simp: open_descriptor_def opened_def split: if_splits)
  have root: "h_root u = Some root" "h_next u = h_next s" using only_events_fields [OF u(1)] assms(3) by simp_all
  note find = find_file_entries [OF root(1) assms(4)]
  from u(2) obtain f where "map_of (vd_files d) name = Some f" unfolding find by auto
  moreover have "file_at t1 fd = the (map_of (vd_files d) name)"
    unfolding u(3,4) file_at_opened find ..
  ultimately show thesis using u ok root(2) that by auto
qed

lemma hash_descriptor_Inr:
  assumes "hash_descriptor H fd maximum s = (Inr h, t)" and "calm s"
  shows "only_events s t" and "h = hashed H (file_at s fd)"
proof -
  from assms(1) obtain all where "digest_from fd maximum [] s = (Inr all, t)" and h: "h = (length all, to_hex (H all))"
    by (auto simp: hash_descriptor_def bind_io_eq_Inr ret_def)
  from digest_from_Inr [OF this(1) assms(2)] h
  show "only_events s t" and "h = hashed H (file_at s fd)" by (simp_all add: hashed_def content_at_def)
qed

text \<open>What opening a list of artifacts leaves behind: descriptors above those in use.\<close>

definition grown :: "host \<Rightarrow> host \<Rightarrow> nat list \<Rightarrow> bool" where
  "grown s t fds \<longleftrightarrow> h_root t = h_root s \<and> calm t \<and> h_descriptors t = h_descriptors s @ fds \<and> h_next s \<le> h_next t
     \<and> (\<forall>fd\<in>set fds. h_next s \<le> fd) \<and> (\<exists>new. h_open t = new @ h_open s \<and> (\<forall>x\<in>set new. h_next s \<le> fst x))"

lemma grown_file:
  assumes "grown s t fds" and "fd < h_next s"
  shows "file_at t fd = file_at s fd"
proof -
  from assms obtain new where new: "h_open t = new @ h_open s" "\<forall>x\<in>set new. h_next s \<le> fst x" "h_root t = h_root s"
    by (auto simp: grown_def)
  have "map_of new fd = None" using new(2) assms(2) by (force simp: map_of_eq_None_iff)
  then have "map_of (h_open t) fd = map_of (h_open s) fd" using new(1) by (simp add: map_add_def)
  with new(3) show ?thesis by (rule file_at_cong)
qed

lemma open_artifacts_Inr:
  assumes "open_artifacts H dir owner arts ids s = (Inr observed, t)" and "calm s"
    and "h_root s = Some root" and "map_of (vr_entries root) dir = Some d"
  shows "\<exists>fs fds. list_all2 (\<lambda>(name, minimum, maximum) f. map_of (vd_files d) name = Some f
         \<and> artifact_ok owner minimum maximum f) arts fs
     \<and> observed = zip (map fst arts) (map (hashed H) fs) \<and> grown s t fds \<and> map (file_at t) fds = fs
     \<and> distinct (map identity_of fs) \<and> set (map identity_of fs) \<inter> set ids = {}"
  using assms
proof (induction arts arbitrary: ids s observed)
  case Nil
  then show ?case by (auto simp: ret_def grown_def)
next
  case (Cons a arts)
  obtain name minimum maximum where a: "a = (name, minimum, maximum)" by (cases a)
  from Cons.prems(1) a obtain fd u hs v others where
    u: "server_open_regular dir owner (name, minimum, maximum) s = (Inr fd, u)"
    and new: "identity_of (file_at (u\<lparr>h_descriptors := h_descriptors u @ [fd]\<rparr>) fd) \<notin> set ids"
    and v: "hash_descriptor H fd maximum (u\<lparr>h_descriptors := h_descriptors u @ [fd]\<rparr>) = (Inr hs, v)"
    and rest: "open_artifacts H dir owner arts (identity_of (file_at (u\<lparr>h_descriptors := h_descriptors u @ [fd]\<rparr>) fd) # ids) v
      = (Inr others, t)"
    and obs: "observed = (name, hs) # others"
    by (auto simp: bind_io_eq_Inr modify_def gets_def when_raise_eq_Inr ret_def identity_of_def)
  obtain u0 f where u0: "only_events s u0" "u = opened dir name u0" "fd = h_next s"
    and f: "map_of (vd_files d) name = Some f" "artifact_ok owner minimum maximum f" "file_at u fd = f"
    by (rule server_open_Inr [OF u Cons.prems(2-4)])
  let ?u = "u\<lparr>h_descriptors := h_descriptors u @ [fd]\<rparr>"
  note e0 = only_events_fields [OF u0(1)]
  have fu: "file_at ?u fd = f" using f(3) by (subst file_at_cong [of _ u]) simp_all
  have calm_u: "calm ?u" using e0(6) u0(2) by (simp add: calm_def)
  note h = hash_descriptor_Inr [OF v calm_u]
  note ev = only_events_fields [OF h(1)]
  have root: "h_root v = Some root" using ev(1) u0(2) e0(1) Cons.prems(3) by simp
  from Cons.IH [OF rest ev(6) root Cons.prems(4)] fu obtain fs fds where fs:
    "list_all2 (\<lambda>(name, minimum, maximum) f. map_of (vd_files d) name = Some f
         \<and> artifact_ok owner minimum maximum f) arts fs"
    "others = zip (map fst arts) (map (hashed H) fs)" "grown v t fds" "map (file_at t) fds = fs"
    "distinct (map identity_of fs)" "set (map identity_of fs) \<inter> set (identity_of f # ids) = {}" by auto
  have v_fields: "h_open v = (fd, dir, name) # h_open s" "h_next v = Suc (h_next s)" "h_descriptors v = h_descriptors s @ [fd]"
    using ev u0 e0 by simp_all
  have "file_at t fd = f"
    using grown_file [OF fs(3), of fd] only_events_file [OF h(1), of fd] v_fields(2) u0(3) fu by simp
  moreover have "grown s t (fd # fds)"
  proof -
    from fs(3) obtain added where "h_open t = added @ h_open v" "\<forall>x\<in>set added. h_next v \<le> fst x" by (auto simp: grown_def)
    then have "h_open t = (added @ [(fd, dir, name)]) @ h_open s" "\<forall>x\<in>set (added @ [(fd, dir, name)]). h_next s \<le> fst x"
      using v_fields u0(3) by auto
    with fs(3) v_fields root Cons.prems(3) show ?thesis unfolding grown_def by (auto simp del: append_assoc)
  qed
  ultimately show ?case
    using fs f a obs h(2) fu new by (intro exI [of _ "f # fs"] exI [of _ "fd # fds"]) auto
qed

subsection \<open>Soundness\<close>

lemma inspect_bundle_Inr:
  assumes "inspect_bundle H b manifest_hash owner s = (Inr prepared, t)" and "calm s"
    and "h_root s = Some root" and "map_of (vr_entries root) b = Some d" and "h_descriptors s = []"
  obtains fs where "vd_uid d = owner" and "vd_mode d = 320" and "sort (map fst (vd_files d)) = sort (map fst server_artifacts)"
    and "list_all2 (\<lambda>(name, minimum, maximum) f. map_of (vd_files d) name = Some f
         \<and> artifact_ok owner minimum maximum f) server_artifacts fs"
    and "distinct (map identity_of fs)"
    and "server_validate_manifest H (vf_data (hd fs)) b manifest_hash
         (map_of (zip (map fst server_artifacts) (map (hashed H) fs))) = Inr ()"
    and "sizes prepared = map (\<lambda>f. length (vf_data f)) fs" and "map (file_at t) (descriptors prepared) = fs"
    and "prepared_id prepared = b" and "prepared_hash prepared = manifest_hash" and "grown s t (descriptors prepared)"
proof -
  have dir: "the (map_of (entries u) b) = d" if "h_root u = Some root" for u using that assms(4) by (simp add: entries_def)
  from assms(1) obtain inv u observed v manifest w where
    meta: "vd_uid d = owner" "vd_mode d = 320"
    and u: "request_os (\<lambda>s. (Inr (sort (map fst (vd_files (the (map_of (entries s) b))))), s)) s = (Inr inv, u)"
    and inv: "inv = sort (map fst server_artifacts)"
    and v: "open_artifacts H b owner server_artifacts [] u = (Inr observed, v)"
    and w: "os_read (hd (h_descriptors v)) 0 (fst (the (map_of observed ''manifest'')) + 1) v = (Inr manifest, w)"
    and size: "length manifest = fst (the (map_of observed ''manifest''))"
    and ok: "server_validate_manifest H manifest b manifest_hash (map_of observed) = Inr ()"
    and p: "t = w" "prepared = \<lparr>descriptors = h_descriptors w, sizes = map (\<lambda>(name, _). fst (the (map_of observed name))) server_artifacts,
        prepared_id = b, prepared_hash = manifest_hash\<rparr>"
    by (auto simp: inspect_bundle_def bind_io_eq_Inr gets_def dir [OF assms(3)] safe_directory_def when_raise_eq_Inr
        lift_result_def)
  from calm_request [OF assms(2) u] obtain u' where u': "only_events s u'" "u = u'"
    "inv = sort (map fst (vd_files (the (map_of (entries u') b))))" by auto
  note eu = only_events_fields [OF u'(1)]
  have root: "h_root u = Some root" using eu u' assms(3) by simp
  have names: "sort (map fst (vd_files d)) = sort (map fst server_artifacts)" using u' inv dir [OF root] by simp
  have "calm u" using eu(6) u'(2) by simp
  from open_artifacts_Inr [OF v this root assms(4)] obtain fs fds where fs:
    "list_all2 (\<lambda>(name, minimum, maximum) f. map_of (vd_files d) name = Some f
         \<and> artifact_ok owner minimum maximum f) server_artifacts fs"
    "observed = zip (map fst server_artifacts) (map (hashed H) fs)" "grown u v fds" "map (file_at v) fds = fs"
    "distinct (map identity_of fs)" by blast
  have five: "length fs = 5" using fs(1) by (auto dest: list_all2_lengthD simp: server_artifacts_def)
  then obtain f0 f1 f2 f3 f4 where five: "fs = [f0, f1, f2, f3, f4]" by (auto simp: numeral_eq_Suc length_Suc_conv)
  have fds: "h_descriptors v = fds" using fs(3) assms(5) eu u'(2) by (simp add: grown_def)
  then have hd: "file_at v (hd (h_descriptors v)) = f0" using fs(4) five by (cases fds) auto
  have calm_v: "calm v" using fs(3) by (simp add: grown_def)
  note rd = os_read_Inr [OF calm_v w]
  note ew = only_events_fields [OF rd(1)]
  have man: "the (map_of observed ''manifest'') = hashed H f0" by (simp add: fs(2) five server_artifacts_def)
  have "manifest = vf_data f0"
    using rd(2) size unfolding man by (auto simp: hashed_def content_at_def hd min_def split: if_splits)
  with ok fs(2) five have valid: "server_validate_manifest H (vf_data (hd fs)) b manifest_hash
         (map_of (zip (map fst server_artifacts) (map (hashed H) fs))) = Inr ()" by simp
  have sz: "sizes prepared = map (\<lambda>f. length (vf_data f)) fs"
    unfolding p by (simp add: fs(2) five server_artifacts_def hashed_def)
  have files: "map (file_at t) (descriptors prepared) = fs"
    using fs(4) fds ew by (auto simp: p only_events_file [OF rd(1)])
  have gr: "grown s t (descriptors prepared)"
    using fs(3) ew fds eu u'(2) assms(5) unfolding grown_def p by auto
  show thesis
    by (rule that [OF meta names fs(1,5) valid sz files _ _ gr]) (simp_all add: p)
qed

lemma close_descriptor_files:
  assumes "close_descriptor fd t = (r, u)"
  shows "r = Inr ()" and "h_root u = h_root t" and "g \<noteq> fd \<Longrightarrow> file_at u g = file_at t g"
    and "h_open u = filter (\<lambda>(n, _). n \<noteq> fd) (h_open t)"
  using assms by (auto simp: close_descriptor_def modify_def map_of_filter_key intro!: file_at_cong)

lemma release_on_error_Inr [simp]: "release_on_error m s = (Inr x, t) \<longleftrightarrow> m s = (Inr x, t)"
  by (auto simp: release_on_error_def try_except_def bind_io_def gets_def raise_def split: prod.splits sum.splits)

lemma try_finally_Inr: "try_finally m f s = (Inr x, t) \<Longrightarrow> \<exists>u. m s = (Inr x, u) \<and> f u = (Inr (), t)"
  by (auto simp: try_finally_def split: prod.splits sum.splits)

lemma sort_single: "sort xs = [x] \<Longrightarrow> xs = [x]"
proof -
  assume s: "sort xs = [x]"
  then have "length xs = Suc 0" by (metis length_sort length_Cons list.size(3))
  then obtain y where "xs = [y]" by (auto simp: length_Suc_conv)
  with s show ?thesis by simp
qed

lemma check_root_Inr:
  assumes "check_root b manifest_hash owner s = (Inr x, t)" and "calm s" and "h_root s = Some root"
  shows "only_events s t" and "server_valid_bundle b" and "server_valid_hash manifest_hash" and "vr_uid root = owner"
    and "vr_mode root = 448" and "\<not> vr_busy root" and "\<exists>d. vr_entries root = [(b, d)]"
proof -
  let ?busy = "request_os (\<lambda>s. if vr_busy (the (h_root s)) then (Inl OSError, s) else (Inr (), s))"
  let ?list = "request_os (\<lambda>s. (Inr (sort (map fst (entries s))), s))"
  from assms(1,3) obtain u where
    valid: "server_valid_bundle b" "server_valid_hash manifest_hash" "vr_uid root = owner" "vr_mode root = 448"
    and u: "?busy s = (Inr (), u)" and v: "?list u = (Inr [b], t)"
    unfolding check_root_def by (simp add: bind_io_eq_Inr gets_def when_raise_eq_Inr safe_directory_def) blast
  from calm_request [OF assms(2) u] have u': "only_events s u" "\<not> vr_busy (the (h_root u))" by (auto split: if_splits)
  note eu = only_events_fields [OF u'(1)]
  from calm_request [OF eu(6) v] have v': "only_events u t" "sort (map fst (entries t)) = [b]" by auto
  have "entries t = vr_entries root"
    using only_events_fields(1) [OF v'(1)] eu(1) assms(3) by (simp add: entries_def)
  with sort_single [OF v'(2)] have "\<exists>d. vr_entries root = [(b, d)]" by (cases "vr_entries root") auto
  with valid u' eu(1) assms(3) only_events_trans [OF u'(1) v'(1)]
  show "only_events s t" and "server_valid_bundle b" and "server_valid_hash manifest_hash" and "vr_uid root = owner"
    and "vr_mode root = 448" and "\<not> vr_busy root" and "\<exists>d. vr_entries root = [(b, d)]" by simp_all
qed

lemma prepare_Inr:
  assumes "server_prepare_bundle H b manifest_hash owner s = (Inr prepared, t)" and "calm s" and "h_root s = Some root"
  shows "servable H b manifest_hash owner root (map (file_at t) (descriptors prepared))
     \<and> sizes prepared = map (\<lambda>fd. length (content_at t fd)) (descriptors prepared)
     \<and> prepared_id prepared = b \<and> prepared_hash prepared = manifest_hash"
proof -
  from assms(1) obtain v fd w x where v: "check_root b manifest_hash owner s = (Inr (), v)"
    and w: "request_os (open_descriptor b ''.'') v = (Inr fd, w)"
    and x: "inspect_bundle H b manifest_hash owner (w\<lparr>h_descriptors := []\<rparr>) = (Inr prepared, x)"
    and t: "close_descriptor fd x = (Inr (), t)"
    unfolding server_prepare_bundle_def by (auto simp: bind_io_eq_Inr modify_def dest!: try_finally_Inr)
  note root = check_root_Inr [OF v assms(2,3)]
  note ev = only_events_fields [OF root(1)]
  from calm_request [OF ev(6) w] obtain w0 where w0: "only_events v w0" "w = opened b ''.'' w0" "fd = h_next w0"
    by (auto simp: open_descriptor_def opened_def)
  note ew = only_events_fields [OF w0(1)]
  from root(7) obtain d where d: "vr_entries root = [(b, d)]" ..
  let ?w = "w\<lparr>h_descriptors := []\<rparr>"
  have wr: "h_root ?w = Some root" "calm ?w" using w0 ew ev assms(3) by (simp_all add: calm_def)
  have md: "map_of (vr_entries root) b = Some d" using d by simp
  obtain fs where fs: "vd_uid d = owner" "vd_mode d = 320" "sort (map fst (vd_files d)) = sort (map fst server_artifacts)"
    "list_all2 (\<lambda>(name, minimum, maximum) f. map_of (vd_files d) name = Some f
         \<and> artifact_ok owner minimum maximum f) server_artifacts fs"
    "distinct (map identity_of fs)"
    "server_validate_manifest H (vf_data (hd fs)) b manifest_hash
         (map_of (zip (map fst server_artifacts) (map (hashed H) fs))) = Inr ()"
    "sizes prepared = map (\<lambda>f. length (vf_data f)) fs" "map (file_at x) (descriptors prepared) = fs"
    "prepared_id prepared = b" "prepared_hash prepared = manifest_hash" "grown ?w x (descriptors prepared)"
    by (rule inspect_bundle_Inr [OF x wr(2,1) md]) simp
  have "fd \<notin> set (descriptors prepared)" using fs(11) w0(2,3) by (auto simp: grown_def)
  then have files: "map (file_at t) (descriptors prepared) = fs"
    using fs(8) close_descriptor_files(3) [OF t] by (metis (no_types, lifting) map_eq_conv)
  moreover have "servable H b manifest_hash owner root fs"
    using root d fs(1-6) by (auto simp: servable_def)
  moreover have "sizes prepared = map (\<lambda>fd. length (content_at t fd)) (descriptors prepared)"
    using fs(7) by (simp add: content_at_def flip: files)
  ultimately show ?thesis using fs(9,10) by simp
qed

subsection \<open>Completeness of an undisturbed run\<close>

lemma still_next: "h_events s = [] \<Longrightarrow> next_event s = (Proceed, s)"
  by (simp add: next_event_def)

lemma still_request: "h_events s = [] \<Longrightarrow> request_os f s = f s"
  by (simp add: request_os_def still_next)

lemma still_read: "h_events s = [] \<Longrightarrow> os_read fd position n s = (Inr (take n (drop position (content_at s fd))), s)"
  by (simp add: os_read_def still_next)

lemma still_digest:
  assumes "h_events s = []" and "content_at s fd = seen @ rest" and "length (content_at s fd) \<le> maximum"
  shows "digest_from fd maximum seen s = (Inr (content_at s fd), s)"
  using assms(2)
proof (induction "length rest" arbitrary: seen rest rule: less_induct)
  case less
  let ?block = "take (1024 * 1024) rest"
  have r: "os_read fd (length seen) (1024 * 1024) s = (Inr ?block, s)"
    using assms(1) less.prems by (simp add: still_read)
  show ?case
  proof (cases "?block = []")
    case True
    with r less.prems show ?thesis by (subst digest_from.simps) simp
  next
    case False
    have split: "content_at s fd = (seen @ ?block) @ drop (1024 * 1024) rest" using less.prems by simp
    have small: "length (drop (1024 * 1024) rest) < length rest" using False by (cases rest) simp_all
    have "length seen + length ?block \<le> maximum" using assms(3) split by simp
    with r False have "digest_from fd maximum seen s = digest_from fd maximum (seen @ ?block) s"
      by (subst digest_from.simps) simp
    with less.hyps [OF small split] show ?thesis by simp
  qed
qed

lemma still_hash:
  "h_events s = [] \<Longrightarrow> length (content_at s fd) \<le> maximum \<Longrightarrow> hash_descriptor H fd maximum s = (Inr (hashed H (file_at s fd)), s)"
  using still_digest [of s fd "[]" "content_at s fd" maximum]
  by (simp add: hash_descriptor_def bind_io_def ret_def hashed_def content_at_def)

lemma still_open:
  assumes "h_events s = []" and "h_root s = Some root" and "map_of (vr_entries root) dir = Some d"
    and "map_of (vd_files d) name = Some f" and "artifact_ok owner minimum maximum f"
  shows "server_open_regular dir owner (name, minimum, maximum) s = (Inr (h_next s), opened dir name s)"
    and "file_at (opened dir name s) (h_next s) = f"
proof -
  have find: "find_file s dir name = Some f" using find_file_entries [OF assms(2,3)] assms(4) by simp
  then show at: "file_at (opened dir name s) (h_next s) = f" by (simp add: file_at_opened)
  have "open_descriptor dir name s = (Inr (h_next s), opened dir name s)" by (simp add: open_descriptor_def opened_def)
  with assms(5) at find show "server_open_regular dir owner (name, minimum, maximum) s = (Inr (h_next s), opened dir name s)"
    by (simp add: server_open_regular_def refusing_def try_except_def bind_io_def still_request [OF assms(1)] gets_def
        ret_def artifact_ok_def)
qed

lemma still_artifacts:
  assumes "h_events s = []" and "h_root s = Some root" and "map_of (vr_entries root) dir = Some d"
    and "list_all2 (\<lambda>(name, minimum, maximum) f. map_of (vd_files d) name = Some f
         \<and> artifact_ok owner minimum maximum f) arts fs"
    and "distinct (map identity_of fs)" and "set (map identity_of fs) \<inter> set ids = {}"
  shows "\<exists>t. open_artifacts H dir owner arts ids s = (Inr (zip (map fst arts) (map (hashed H) fs)), t) \<and> h_events t = []"
  using assms
proof (induction arts arbitrary: s ids fs)
  case Nil
  then show ?case by (simp add: ret_def)
next
  case (Cons a arts)
  obtain name minimum maximum where a: "a = (name, minimum, maximum)" by (cases a)
  with Cons.prems(4) obtain f fs' where fs: "fs = f # fs'" "map_of (vd_files d) name = Some f"
    "artifact_ok owner minimum maximum f"
    "list_all2 (\<lambda>(name, minimum, maximum) f. map_of (vd_files d) name = Some f
         \<and> artifact_ok owner minimum maximum f) arts fs'" by (auto simp: list_all2_Cons1)
  note op = still_open [OF Cons.prems(1-3) fs(2,3)]
  let ?u = "(opened dir name s)\<lparr>h_descriptors := h_descriptors s @ [h_next s]\<rparr>"
  have at: "file_at ?u (h_next s) = f" using op(2) by (subst file_at_cong [of _ "opened dir name s"]) simp_all
  have "hash_descriptor H (h_next s) maximum ?u = (Inr (hashed H f), ?u)"
    using still_hash [of ?u "h_next s" maximum H] Cons.prems(1) at fs(3) by (simp add: content_at_def artifact_ok_def)
  moreover have "\<exists>t. open_artifacts H dir owner arts (identity_of f # ids) ?u
      = (Inr (zip (map fst arts) (map (hashed H) fs')), t) \<and> h_events t = []"
    by (rule Cons.IH [OF _ _ Cons.prems(3) fs(4)]) (use Cons.prems fs(1) in auto)
  moreover have "identity_of f \<notin> set ids" using Cons.prems(6) fs(1) by auto
  ultimately show ?case
    using op(1) at
    by (auto simp: a fs(1) bind_io_def modify_def gets_def when_raise_def ret_def identity_of_def)
qed

lemma files_unique:
  "list_all2 (\<lambda>(name, minimum, maximum) f. map_of files name = Some f \<and> artifact_ok owner minimum maximum f) arts fs
     \<Longrightarrow> fs = map (\<lambda>(name, _). the (map_of files name)) arts"
  by (induction rule: list_all2_induct) auto

lemma inspect_complete:
  assumes "h_events s = []" and "h_root s = Some root" and "servable H b manifest_hash owner root fs"
    and "h_descriptors s = []"
  shows "\<exists>prepared t. inspect_bundle H b manifest_hash owner s = (Inr prepared, t)"
proof -
  from assms(3) obtain d where d: "vr_entries root = [(b, d)]" "vd_uid d = owner" "vd_mode d = 320"
    "sort (map fst (vd_files d)) = sort (map fst server_artifacts)"
    "list_all2 (\<lambda>(name, minimum, maximum) f. map_of (vd_files d) name = Some f
         \<and> artifact_ok owner minimum maximum f) server_artifacts fs" "distinct (map identity_of fs)"
    and valid: "server_validate_manifest H (vf_data (hd fs)) b manifest_hash
         (map_of (zip (map fst server_artifacts) (map (hashed H) fs))) = Inr ()" by (auto simp: servable_def)
  have dir: "map_of (vr_entries root) b = Some d" using d(1) by simp
  obtain t where t: "open_artifacts H b owner server_artifacts [] s = (Inr (zip (map fst server_artifacts) (map (hashed H) fs)), t)"
    "h_events t = []"
    using still_artifacts [OF assms(1,2) dir d(5,6), of "[]" H] by auto
  have calm: "calm s" using assms(1) by (simp add: calm_def)
  from open_artifacts_Inr [OF t(1) calm assms(2) dir] obtain fs' fds where
    fs': "list_all2 (\<lambda>(name, minimum, maximum) f. map_of (vd_files d) name = Some f
         \<and> artifact_ok owner minimum maximum f) server_artifacts fs'" "grown s t fds" "map (file_at t) fds = fs'" by blast
  have same: "fs' = fs" using files_unique [OF fs'(1)] files_unique [OF d(5)] by simp
  have "length fs = 5" using d(5) by (auto dest: list_all2_lengthD simp: server_artifacts_def)
  then obtain f0 rest where f0: "fs = f0 # rest" by (cases fs) auto
  have fds: "h_descriptors t = fds" using fs'(2) assms(4) by (simp add: grown_def)
  have "file_at t (hd fds) = f0" using fs'(3) same f0 by (cases fds) auto
  then have manifest: "os_read (hd fds) 0 (fst (hashed H f0) + 1) t = (Inr (vf_data f0), t)"
    using t(2) by (simp add: still_read content_at_def hashed_def)
  have lookup: "the (map_of (zip (map fst server_artifacts) (map (hashed H) fs)) ''manifest'') = hashed H f0"
    by (simp add: f0 server_artifacts_def)
  have "the (map_of (entries s) b) = d" using assms(2) dir by (simp add: entries_def)
  then show ?thesis
    using d(2-4) t(1) fds manifest valid
    by (simp add: inspect_bundle_def bind_io_def gets_def safe_directory_def when_raise_def still_request [OF assms(1)]
        lookup lift_result_def) (simp add: f0 hashed_def gets_def)
qed

lemma prepare_complete:
  assumes "h_events s = []" and "h_root s = Some root" and "servable H b manifest_hash owner root fs"
  shows "\<exists>prepared t. server_prepare_bundle H b manifest_hash owner s = (Inr prepared, t)"
proof -
  let ?s = "(opened b ''.'' s)\<lparr>h_descriptors := []\<rparr>"
  have "sort (map fst (entries s)) = [b]" using assms(2,3) by (auto simp: entries_def servable_def)
  with assms(2,3) have root: "check_root b manifest_hash owner s = (Inr (), s)"
    by (simp add: check_root_def bind_io_def when_raise_def gets_def safe_directory_def refusing_def try_except_def
        still_request [OF assms(1)] servable_def)
  obtain prepared t where t: "inspect_bundle H b manifest_hash owner ?s = (Inr prepared, t)"
    using inspect_complete [of ?s root H b manifest_hash owner fs] assms by auto
  obtain u where u: "close_descriptor (h_next s) t = (Inr (), u)" by (simp add: close_descriptor_def modify_def)
  have "open_descriptor b ''.'' s = (Inr (h_next s), opened b ''.'' s)" by (simp add: open_descriptor_def opened_def)
  then show ?thesis
    using root t u
    by (simp add: server_prepare_bundle_def bind_io_def refusing_def try_except_def still_request [OF assms(1)] modify_def
        try_finally_def release_on_error_def)
qed

subsection \<open>Properties\<close>

text \<open>
  C7. The server's check refines the verdict. Without rewriting in between, whatever else fails or reads
  short: a bundle that \<open>prepare_bundle\<close> returns is servable, which includes the owner and modes of root, directory and
  files, the exact inventory, the size policy, no aliased files and a manifest that matches name, digest
  and artifacts; the descriptors refer to these five files and the sizes are theirs. An undisturbed check
  returns a bundle exactly when the verdict is positive.
\<close>

theorem server_prepare_refines:
  assumes "calm s" and "h_root s = Some root"
  shows "(server_prepare_bundle H b manifest_hash owner s = (Inr prepared, t) \<longrightarrow>
       servable H b manifest_hash owner root (map (file_at t) (descriptors prepared))
       \<and> sizes prepared = map (\<lambda>fd. length (content_at t fd)) (descriptors prepared)
       \<and> prepared_id prepared = b \<and> prepared_hash prepared = manifest_hash)
     \<and> (h_events s = [] \<longrightarrow>
       ((\<exists>p u. server_prepare_bundle H b manifest_hash owner s = (Inr p, u))
          \<longleftrightarrow> (\<exists>fs. servable H b manifest_hash owner root fs)))"
  using prepare_Inr [OF _ assms, of H b manifest_hash owner] prepare_complete [OF _ assms(2), of H b manifest_hash owner]
  by (intro conjI impI iffI) (simp, blast+)

end
