(* ===== verification/Bundle_Handover.thy ===== *)
theory Bundle_Handover
  imports Manifest_Agreement Packager_Run Server_Verdict "HOL-Library.Multiset"
begin

section \<open>From the packager to the server\<close>

text \<open>
  The packager leaves a directory that the server opens later. Here the two are put together: the
  directory a successful run of the packager leaves is one that the server prepares and serves.
\<close>

subsection \<open>The published directory as the server sees it\<close>

definition seen_file :: "nat \<Rightarrow> nat \<times> string \<times> staged_file \<Rightarrow> string \<times> served_file" where
  "seen_file device x =
     (case x of (inode, name, f) \<Rightarrow>
        (name, \<lparr>vf_regular = True, vf_uid = sf_uid f, vf_mode = sf_mode f, vf_nlink = sf_nlink f,
           vf_dev = device, vf_ino = inode, vf_data = sf_data f\<rparr>))"

text \<open>Files of one directory lie on one device and have inodes of their own.\<close>

definition seen_dir :: "nat \<Rightarrow> nat \<Rightarrow> nat list \<Rightarrow> bundle_dir \<Rightarrow> served_dir" where
  "seen_dir owner device inodes d =
     \<lparr>vd_uid = owner, vd_mode = du_mode d, vd_files = map (seen_file device) (zip inodes (du_files d))\<rparr>"

definition seen_root :: "nat \<Rightarrow> nat list \<Rightarrow> bundle_root \<Rightarrow> served_root" where
  "seen_root device inodes r =
     \<lparr>vr_uid = br_uid r, vr_mode = br_mode r, vr_busy = False,
      vr_entries = map (\<lambda>(name, d). (name, seen_dir (br_uid r) device inodes d)) (br_entries r)\<rparr>"

definition packager_digest :: "(bytes \<Rightarrow> bytes) \<Rightarrow> pk_env \<Rightarrow> bool" where
  "packager_digest H env \<longleftrightarrow> pe_sha256 env = (\<lambda>b. to_hex (H b))
     \<and> (\<forall>b. length (H b) = 32 \<and> to_hex (H b) \<noteq> zero_hash)"

lemma digest_valid: "packager_digest H env \<Longrightarrow> server_valid_hash (pe_sha256 env b)"
  by (simp add: packager_digest_def server_valid_hash_def sha256_match_hex)

lemma observed_ok:
  assumes "packager_digest H env" and "length datas = 3"
    and "list_all2 (\<lambda>(_, minimum, maximum) b. minimum \<le> length b \<and> length b \<le> maximum) packager_artifacts datas"
  shows "observed_in_policy (observed_of (observed_files env datas))"
proof -
  from assms(2) obtain a b c where "datas = [a, b, c]" by (auto simp: numeral_3_eq_3 length_Suc_conv)
  with assms(3) digest_valid [OF assms(1)] show ?thesis
    by (simp add: observed_in_policy_def observed_of_def observed_files_def packager_artifacts_def)
qed

lemma validate_manifest_cong:
  assumes "observed ''Image'' = observed' ''Image''" and "observed ''board.dtb'' = observed' ''board.dtb''"
    and "observed ''initramfs.cpio.gz'' = observed' ''initramfs.cpio.gz''"
  shows "server_validate_manifest H m b h observed = server_validate_manifest H m b h observed'"
proof -
  have eq: "fold_result (server_check_binding fields observed) server_bindings ()
      = fold_result (server_check_binding fields observed') server_bindings ()" for fields
    by (rule fold_result_cong) (auto simp: server_bindings_def server_check_binding_def assms)
  show ?thesis unfolding server_validate_manifest_def eq ..
qed

lemma artifact_inventory:
  "sort [''Image'', ''board.dtb'', ''initramfs.cpio.gz'', ''manifest'', ''manifest.sig''] = sort (map fst server_artifacts)"
proof -
  have "mset [''Image'', ''board.dtb'', ''initramfs.cpio.gz'', ''manifest'', ''manifest.sig''] = mset (map fst server_artifacts)"
    by (simp add: server_artifacts_def add_mset_commute)
  then show ?thesis by (metis sorted_list_of_multiset_mset)
qed

lemma bundle_servable:
  assumes digest: "packager_digest H env" and valid: "validate_configuration config = Inr ()"
    and profile: "cfg_profile config = ''stock-charging-recovery-v1'' \<longrightarrow> 900 \<le> read_nat (cfg_rollback_timeout config)"
    and datas: "length datas = 3"
      "list_all2 (\<lambda>(_, minimum, maximum) b. minimum \<le> length b \<and> length b \<le> maximum) packager_artifacts datas"
    and manifest: "manifest_bytes config (observed_of (observed_files env datas)) = Inr manifest"
    and signature: "length signature = 64"
    and root: "br_uid R = pe_euid env" "br_mode R = 448" and inodes: "length inodes = 5" "distinct inodes"
  shows "\<exists>fs. servable H (cfg_bundle config) (pe_sha256 env manifest) (pe_euid env)
     (seen_root device inodes (sole R (cfg_bundle config) (bundle_of env 320 datas manifest signature))) fs
     \<and> map vf_data fs = manifest # signature # datas"
proof -
  let ?obs = "observed_of (observed_files env datas)"
  from datas(1) obtain a b c where abc: "datas = [a, b, c]" by (auto simp: numeral_3_eq_3 length_Suc_conv)
  from inodes(1) obtain i0 i1 i2 i3 i4 where inos: "inodes = [i0, i1, i2, i3, i4]"
    by (auto simp: numeral_eq_Suc length_Suc_conv)
  note policy = observed_ok [OF digest datas]
  have m: "manifest = show_record (manifest_values config ?obs)" using manifest_bytes_eq [OF valid policy] manifest by simp
  have len: "1 \<le> length manifest" "length manifest \<le> 4096"
    using manifest_length [OF valid policy] unfolding m by (simp_all add: manifest_values_def show_record_def)
  let ?file = "\<lambda>inode data. \<lparr>vf_regular = True, vf_uid = pe_euid env, vf_mode = 256, vf_nlink = 1,
           vf_dev = device, vf_ino = inode, vf_data = data\<rparr>"
  let ?fs = "[?file i3 manifest, ?file i4 signature, ?file i0 a, ?file i1 b, ?file i2 c]"
  let ?root = "seen_root device inodes (sole R (cfg_bundle config) (bundle_of env 320 datas manifest signature))"
  let ?d = "seen_dir (pe_euid env) device inodes (bundle_of env 320 datas manifest signature)"
  have hash: "pe_sha256 env = (\<lambda>b. to_hex (H b))" using digest by (simp add: packager_digest_def)
  have names: "map fst packager_artifacts = [''Image'', ''board.dtb'', ''initramfs.cpio.gz'']"
    by (simp add: packager_artifacts_def)
  have files: "vd_files ?d = [(''Image'', ?file i0 a), (''board.dtb'', ?file i1 b), (''initramfs.cpio.gz'', ?file i2 c),
      (''manifest'', ?file i3 manifest), (''manifest.sig'', ?file i4 signature)]"
    by (simp add: seen_dir_def bundle_of_def names abc inos seen_file_def sealed_def)
  have verdict: "server_validate_manifest H manifest (cfg_bundle config) (to_hex (H manifest)) (Some \<circ> ?obs) = Inr ()"
    using server_verdict_on_packaged [OF valid policy, of H] profile by (simp add: m not_less)
  have "server_validate_manifest H manifest (cfg_bundle config) (to_hex (H manifest))
      (map_of (zip (map fst server_artifacts) (map (hashed H) ?fs))) = Inr ()"
    unfolding verdict [symmetric]
    by (rule validate_manifest_cong)
       (simp_all add: observed_of_def observed_files_def names abc server_artifacts_def hashed_def hash)
  moreover have "list_all2 (\<lambda>(name, minimum, maximum) f. map_of (vd_files ?d) name = Some f
      \<and> artifact_ok (pe_euid env) minimum maximum f) server_artifacts ?fs"
    using datas(2) [unfolded abc] len signature unfolding files
    by (simp add: server_artifacts_def artifact_ok_def packager_artifacts_def)
  moreover have "sort (map fst (vd_files ?d)) = sort (map fst server_artifacts)"
  proof -
    have "map fst (vd_files ?d) = [''Image'', ''board.dtb'', ''initramfs.cpio.gz'', ''manifest'', ''manifest.sig'']"
      by (simp add: files)
    then show ?thesis using artifact_inventory by (simp only:)
  qed
  moreover have "distinct (map identity_of ?fs)" using inodes(2) by (auto simp: inos identity_of_def)
  moreover have "vr_entries ?root = [(cfg_bundle config, ?d)]" by (simp add: seen_root_def root(1))
  moreover have "vd_uid ?d = pe_euid env" "vd_mode ?d = 320" by (simp_all add: seen_dir_def bundle_of_def)
  moreover have "server_valid_bundle (cfg_bundle config)"
    using valid by (auto simp: validate_configuration_def packager_valid_bundle_eq split: if_splits)
  ultimately have "servable H (cfg_bundle config) (pe_sha256 env manifest) (pe_euid env) ?root ?fs"
    using digest_valid [OF digest] root by (simp add: servable_def seen_root_def hash)
  then show ?thesis by (intro exI [of _ ?fs]) (simp add: abc)
qed

lemma packaged_directory:
  assumes "prepare_bundle env config s = (Inr (manifest_hash, key_hash), t)"
  shows "validate_configuration config = Inr ()"
    and "\<exists>datas manifest signature. entry (cfg_bundle config) t = Some (bundle_of env 320 datas manifest signature)
       \<and> length datas = 3
       \<and> list_all2 (\<lambda>(_, minimum, maximum) b. minimum \<le> length b \<and> length b \<le> maximum) packager_artifacts datas
       \<and> manifest_bytes config (observed_of (observed_files env datas)) = Inr manifest
       \<and> length signature = 64 \<and> manifest_hash = pe_sha256 env manifest"
proof -
  from prepare_bundle_cases [OF assms] have valid: "validate_configuration config = Inr ()"
    and out: "outcome env config (entry (cfg_bundle config) s) (Inr (manifest_hash, key_hash), t)" by auto
  from valid show "validate_configuration config = Inr ()" .
  from out obtain d manifest where d: "entry (cfg_bundle config) t = Some d" "du_mode d = 320" "complete_bundle env config d"
    "map_of (du_files d) ''manifest'' = Some (sealed env manifest)" "manifest_hash = pe_sha256 env manifest"
    by (auto simp: outcome_def published_def)
  from d(3) obtain datas m signature where files: "length datas = 3"
    "du_files d = zip (map fst packager_artifacts) (map (sealed env) datas)
        @ [(''manifest'', sealed env m), (''manifest.sig'', sealed env signature)]"
    "list_all2 (\<lambda>(_, minimum, maximum) b. minimum \<le> length b \<and> length b \<le> maximum) packager_artifacts datas"
    "manifest_bytes config (observed_of (observed_files env datas)) = Inr m" "length signature = 64"
    by (auto simp: complete_bundle_def observed_files_def)
  have "d = bundle_of env 320 datas m signature" using d(2) files(2) by (cases d) (simp add: bundle_of_def)
  moreover have "m = manifest"
  proof -
    from files(1) obtain a b c where "datas = [a, b, c]" by (auto simp: numeral_3_eq_3 length_Suc_conv)
    with d(4) files(2) show ?thesis by (simp add: packager_artifacts_def sealed_def)
  qed
  ultimately show "\<exists>datas manifest signature. entry (cfg_bundle config) t = Some (bundle_of env 320 datas manifest signature)
       \<and> length datas = 3
       \<and> list_all2 (\<lambda>(_, minimum, maximum) b. minimum \<le> length b \<and> length b \<le> maximum) packager_artifacts datas
       \<and> manifest_bytes config (observed_of (observed_files env datas)) = Inr manifest
       \<and> length signature = 64 \<and> manifest_hash = pe_sha256 env manifest"
    using d(1,5) files by blast
qed


subsection \<open>A handover\<close>

definition demo_digest :: "bytes \<Rightarrow> bytes" where
  "demo_digest b = replicate 32 CHR ''x''"

definition handover_env :: pk_env where
  "handover_env = \<lparr>pe_sha256 = (\<lambda>b. to_hex (demo_digest b)), pe_euid = 7, pe_openssl = True, pe_pkcs8 = (\<lambda>_. 0),
     pe_pubkey = (\<lambda>_. (0, SPKI_PREFIX @ replicate 32 CHR ''k'')), pe_sign = (\<lambda>_ _. (0, replicate 64 CHR ''s'')),
     pe_token = (\<lambda>_. ''t'')\<rparr>"

definition handover_config :: configuration where
  "handover_config = demo_configuration\<lparr>cfg_rollback_timeout := ''900''\<rparr>"

definition input :: "nat \<Rightarrow> nat \<Rightarrow> bytes \<Rightarrow> input_file" where
  "input inode mode data = \<lparr>if_dev = 1, if_ino = inode, if_regular = True, if_uid = 7, if_mode = mode, if_nlink = 1,
     if_stamp = 0, if_data = data\<rparr>"

definition handover_datas :: "bytes list" where
  "handover_datas = [replicate 64 CHR ''i'', replicate 40 CHR ''d'', ''rr'']"

definition empty_root :: bundle_root where
  "empty_root = \<lparr>br_directory = True, br_uid = 7, br_mode = 448, br_busy = False, br_entries = []\<rparr>"

definition handover_host :: pk where
  "handover_host = \<lparr>pk_inputs = [''key'' \<mapsto> input 1 256 ''k'', ''Image'' \<mapsto> input 2 420 (replicate 64 CHR ''i''),
       ''board.dtb'' \<mapsto> input 3 420 (replicate 40 CHR ''d''), ''initramfs.cpio.gz'' \<mapsto> input 4 420 ''rr''],
     pk_root = Some empty_root, pk_created = [], pk_sources = [], pk_root_open = False, pk_staging_open = False,
     pk_staging = None, pk_fds = [], pk_acts = []\<rparr>"

definition handover_manifest :: bytes where
  "handover_manifest = show_record (manifest_values handover_config (observed_of (observed_files handover_env handover_datas)))"

definition handover_bundle :: bundle_dir where
  "handover_bundle = bundle_of handover_env 320 handover_datas handover_manifest (replicate 64 CHR ''s'')"

definition handover_server :: host where
  "handover_server = \<lparr>h_euid = 7, h_root = Some (seen_root 9 [0, 1, 2, 3, 4] (sole empty_root (cfg_bundle handover_config) handover_bundle)),
     h_open = [], h_next = 3, h_descriptors = [], h_events = []\<rparr>"

lemma handover_digest: "packager_digest demo_digest handover_env"
proof -
  have "to_hex (replicate 32 CHR ''x'') \<noteq> zero_hash" by code_simp
  then show ?thesis by (simp add: packager_digest_def handover_env_def demo_digest_def)
qed

lemma handover_valid: "validate_configuration handover_config = Inr ()"
  by code_simp

lemma handover_ready:
  "ready handover_env handover_config handover_host handover_datas (replicate 32 CHR ''k'') handover_manifest (replicate 64 CHR ''s'')"
proof -
  have sizes: "list_all2 (\<lambda>(_, minimum, maximum) b. minimum \<le> length b \<and> length b \<le> maximum) packager_artifacts handover_datas"
    by (simp add: packager_artifacts_def handover_datas_def)
  have "length handover_datas = 3" by (simp add: handover_datas_def)
  note policy = observed_ok [OF handover_digest this sizes]
  have "manifest_bytes handover_config (observed_of (observed_files handover_env handover_datas)) = Inr handover_manifest"
    using manifest_bytes_eq [OF handover_valid policy] by (simp add: handover_manifest_def)
  then show ?thesis
    by (simp add: ready_def handover_valid)
       (simp add: handover_host_def handover_config_def demo_configuration_def input_def handover_env_def handover_datas_def
         packager_artifacts_def empty_root_def)
qed

lemma handover_run:
  "\<exists>t. prepare_bundle handover_env handover_config handover_host
       = (Inr (pe_sha256 handover_env handover_manifest, pe_sha256 handover_env (replicate 32 CHR ''k'')), t)
     \<and> pk_root t = Some (sole empty_root (cfg_bundle handover_config) handover_bundle)"
  using quiet_prepare [OF handover_ready, of empty_root] by (simp add: handover_bundle_def) (simp add: handover_host_def)

theorem packager_publishes_witness:
  "\<exists>t. prepare_bundle handover_env handover_config handover_host
       = (Inr (pe_sha256 handover_env handover_manifest, pe_sha256 handover_env (replicate 32 CHR ''k'')), t)
     \<and> pk_root t = Some (sole empty_root (cfg_bundle handover_config) handover_bundle)"
  using packager_publishes [OF handover_ready, of empty_root]
  by (simp add: handover_bundle_def) (simp add: handover_host_def)

lemma handover_profile:
  "cfg_profile handover_config = ''stock-charging-recovery-v1'' \<longrightarrow> 900 \<le> read_nat (cfg_rollback_timeout handover_config)"
  by (simp add: handover_config_def read_nat_def)

lemma handover_server_fields:
  "h_root handover_server = Some (seen_root 9 [0, 1, 2, 3, 4] (sole empty_root (cfg_bundle handover_config) handover_bundle))"
  "h_events handover_server = []"
  by (simp_all add: handover_server_def)

lemma empty_root_fields: "br_uid empty_root = pe_euid handover_env" "br_mode empty_root = 448"
  by (simp_all add: empty_root_def handover_env_def)


lemma handover_servable:
  "\<exists>fs. servable demo_digest (cfg_bundle handover_config) (pe_sha256 handover_env handover_manifest) 7
     (seen_root 9 [0, 1, 2, 3, 4] (sole empty_root (cfg_bundle handover_config) handover_bundle)) fs"
proof -
  note facts = handover_ready [unfolded ready_def]
  have sizes: "list_all2 (\<lambda>(_, minimum, maximum) b. minimum \<le> length b \<and> length b \<le> maximum) packager_artifacts handover_datas"
    by (simp add: packager_artifacts_def handover_datas_def)
  have "pe_euid handover_env = 7" by (simp add: handover_env_def)
  with bundle_servable [OF handover_digest handover_valid handover_profile _ sizes _ _ empty_root_fields, of handover_manifest
      "replicate 64 CHR ''s''" "[0, 1, 2, 3, 4]" 9] facts
  show ?thesis by (auto simp: handover_bundle_def)
qed

theorem server_prepare_refines_witness:
  "calm handover_server
   \<and> (\<exists>p u. server_prepare_bundle demo_digest (cfg_bundle handover_config) (pe_sha256 handover_env handover_manifest) 7
        handover_server = (Inr p, u))"
proof -
  have calm: "calm handover_server" by (simp add: calm_def handover_server_fields)
  from server_prepare_refines [OF calm handover_server_fields(1), of demo_digest "cfg_bundle handover_config"
      "pe_sha256 handover_env handover_manifest" 7] handover_servable calm handover_server_fields(2)
  show ?thesis by auto
qed

end
