(* ===== verification/Cpu_Cap.thy ===== *)
theory Cpu_Cap
  imports Py_Unicode
begin

section \<open>The CPU frequency cap\<close>

text \<open>
  Models \<^verbatim>\<open>scripts/device/cpu-frequency-cap.py\<close>: the fixed caps, the wait for the kernel, the transaction
  \<open>run\<close> that restores what it entered, the bounded \<open>lease\<close> and the access to \<open>sysfs\<close>. Every read and
  write of an attribute meets the next event of a script: it takes time, other writers change
  attributes, it fails, and a write may reach the kernel without being visible yet, or reach it although it
  reports a failure. An interrupting signal is an \<open>InterruptedError\<close>, which is an \<open>OSError\<close>. What the caller's
  guard says is a script too. \<open>sleep\<close> takes at least a nanosecond. Times are in nanoseconds.
\<close>

subsection \<open>Policies\<close>

record policy =
  cpus :: string
  driver :: string
  governor :: string
  minimum :: nat
  maximum :: nat
  frequencies :: "nat list"

type_synonym policies = "(string \<times> policy) list"

definition CAPS :: "(string \<times> nat) list" where
  "CAPS = [(''policy0'', 1209600), (''policy4'', 1555200), (''policy7'', 1555200)]"

definition CPUS :: "(string \<times> string) list" where
  "CPUS = [(''policy0'', ''0 1 2 3''), (''policy4'', ''4 5 6''), (''policy7'', ''7'')]"

definition cap_of :: "string \<Rightarrow> nat" where
  "cap_of name = the (map_of CAPS name)"

definition SETTLE :: int where
  "SETTLE = 1000000000"

datatype io_fault = NoFault | IOFault | ShortWrite

record cpu_event =
  ev_delay :: nat
  ev_changes :: "(string \<times> string \<times> string) list"
  ev_fault :: io_fault
  ev_reached :: bool
  ev_late :: bool

record policy_dir =
  pd_safe :: bool
  pd_attributes :: "(string \<times> string) list"
  pd_unsafe :: "string list"

record cpu_host =
  ch_now :: int
  ch_listing :: "string list"
  ch_dirs :: "string \<Rightarrow> policy_dir"
  ch_events :: "cpu_event list"
  ch_guards :: "bool list"
  ch_requests :: "(string \<times> nat) list"
  ch_entered :: "string list"
  ch_observed :: "policies list"
  ch_timer :: nat
  ch_handlers :: "(string \<times> string) list"

subsection \<open>Access to sysfs\<close>

definition set_attribute :: "string \<Rightarrow> string \<Rightarrow> string \<Rightarrow> cpu_host \<Rightarrow> cpu_host" where
  "set_attribute name field content s =
     s\<lparr>ch_dirs := (ch_dirs s)(name := (ch_dirs s name)\<lparr>pd_attributes :=
        (field, content) # filter (\<lambda>(f, _). f \<noteq> field) (pd_attributes (ch_dirs s name))\<rparr>)\<rparr>"

definition quiet_event :: cpu_event where
  "quiet_event = \<lparr>ev_delay = 0, ev_changes = [], ev_fault = NoFault, ev_reached = True, ev_late = False\<rparr>"

definition next_cpu_event :: "cpu_host \<Rightarrow> cpu_event \<times> cpu_host" where
  "next_cpu_event s =
     (case ch_events s of
        [] \<Rightarrow> (quiet_event, s)
      | e # es \<Rightarrow> (e, fold (\<lambda>(name, field, content). set_attribute name field content) (ev_changes e)
          (s\<lparr>ch_events := es, ch_now := ch_now s + int (ev_delay e)\<rparr>)))"

definition require_cpu :: "bool \<Rightarrow> string \<Rightarrow> (cpu_host, unit) io" where
  "require_cpu ok why = when_raise (\<not> ok) (ValueError why)"

definition same_policy :: "string \<Rightarrow> (cpu_host, unit) io" where
  "same_policy name =
     bind_io (gets (\<lambda>s. pd_safe (ch_dirs s name))) (\<lambda>safe. require_cpu safe ''CPU policy pathname changed'')"

definition opened_attribute :: "string \<Rightarrow> string \<Rightarrow> (cpu_host, string) io" where
  "opened_attribute name field =
     bind_io (same_policy name) (\<lambda>_.
     bind_io (gets (\<lambda>s. ch_dirs s name)) (\<lambda>d.
     case map_of (pd_attributes d) field of
       None \<Rightarrow> raise FileNotFoundError
     | Some content \<Rightarrow>
         bind_io (require_cpu (field \<notin> set (pd_unsafe d)) ''unsafe CPU attribute'') (\<lambda>_. ret content)))"

definition read_opened :: "cpu_event \<Rightarrow> string \<Rightarrow> string \<Rightarrow> (cpu_host, string) io" where
  "read_opened e name field =
     bind_io (opened_attribute name field) (\<lambda>raw.
     bind_io (when_raise (ev_fault e = IOFault) OSError) (\<lambda>_.
     bind_io (require_cpu (length raw \<le> 65536) ''CPU attribute read bound'') (\<lambda>_.
     bind_io (same_policy name) (\<lambda>_.
     bind_io (when_raise (\<not> list_all is_ascii raw) UnicodeError) (\<lambda>_.
     ret (strip raw))))))"

definition read_attribute :: "string \<Rightarrow> string \<Rightarrow> (cpu_host, string) io" where
  "read_attribute name field s = (case next_cpu_event s of (e, t) \<Rightarrow> read_opened e name field t)"

definition is_number :: "string \<Rightarrow> bool" where
  "is_number value \<longleftrightarrow> value \<noteq> [] \<and> list_all is_digit value"

definition read_integer :: "string \<Rightarrow> string \<Rightarrow> (cpu_host, nat) io" where
  "read_integer name field =
     bind_io (read_attribute name field) (\<lambda>value.
     bind_io (require_cpu (is_number value) ''CPU frequency integer'') (\<lambda>_. ret (read_nat value)))"

text \<open>\<open>str.split()\<close> of ASCII text.\<close>

fun ascii_words :: "string \<Rightarrow> string \<Rightarrow> string list" where
  "ascii_words word [] = (if word = [] then [] else [word])"
| "ascii_words word (c # cs) =
     (if c \<in> set [CHR '' '', CHR 0x09, CHR 0x0A, CHR 0x0B, CHR 0x0C, CHR 0x0D, CHR 0x1C, CHR 0x1D, CHR 0x1E, CHR 0x1F]
      then (if word = [] then ascii_words [] cs else word # ascii_words [] cs)
      else ascii_words (word @ [c]) cs)"

definition policy_names :: "cpu_host \<Rightarrow> string set" where
  "policy_names s = set (filter (prefix ''policy'') (ch_listing s))"

definition read_policy :: "string \<Rightarrow> (cpu_host, policy) io" where
  "read_policy name =
     bind_io (read_attribute name ''stats/time_in_state'') (\<lambda>table.
     let pairs = map (ascii_words []) (splitlines table) in
     bind_io (require_cpu (pairs \<noteq> [] \<and> list_all (\<lambda>p. length p = 2 \<and> list_all is_number p) pairs)
        ''hardware frequency table'') (\<lambda>_.
     bind_io (read_attribute name ''related_cpus'') (\<lambda>related.
     bind_io (read_attribute name ''scaling_driver'') (\<lambda>drv.
     bind_io (read_attribute name ''scaling_governor'') (\<lambda>gov.
     bind_io (read_integer name ''scaling_min_freq'') (\<lambda>least.
     bind_io (read_integer name ''scaling_max_freq'') (\<lambda>most.
     ret \<lparr>cpus = related, driver = drv, governor = gov, minimum = least, maximum = most,
          frequencies = map (\<lambda>p. read_nat (hd p)) pairs\<rparr>)))))))"

fun read_policies :: "string list \<Rightarrow> (cpu_host, policies) io" where
  "read_policies [] = ret []"
| "read_policies (name # names) =
     bind_io (read_policy name) (\<lambda>p. bind_io (read_policies names) (\<lambda>rows. ret ((name, p) # rows)))"

definition cpu_snapshot :: "(cpu_host, policies) io" where
  "cpu_snapshot =
     bind_io (gets policy_names) (\<lambda>names.
     bind_io (require_cpu (names = set (map fst CAPS)) ''CPU policy set changed'') (\<lambda>_.
     read_policies (map fst CAPS)))"

text \<open>The kernel takes a request that arrives, even one that is reported as failed; it may show it later.\<close>

definition take_request :: "cpu_event \<Rightarrow> string \<Rightarrow> nat \<Rightarrow> cpu_host \<Rightarrow> cpu_host" where
  "take_request e name value s =
     (let t = s\<lparr>ch_requests := (name, value) # ch_requests s\<rparr> in
      if ev_fault e \<noteq> NoFault \<and> \<not> ev_reached e then s
      else if ev_late e then t
      else set_attribute name ''scaling_max_freq'' (show_nat value @ [LF]) t)"

definition write_opened :: "cpu_event \<Rightarrow> string \<Rightarrow> nat \<Rightarrow> (cpu_host, unit) io" where
  "write_opened e name value =
     bind_io (opened_attribute name ''scaling_max_freq'') (\<lambda>_.
     bind_io (modify (take_request e name value)) (\<lambda>_.
     bind_io (when_raise (ev_fault e = IOFault) OSError) (\<lambda>_.
     bind_io (require_cpu (ev_fault e \<noteq> ShortWrite) ''short CPU maximum write'') (\<lambda>_.
     same_policy name))))"

definition set_maximum :: "string \<Rightarrow> nat \<Rightarrow> (cpu_host, unit) io" where
  "set_maximum name value s =
     (if name \<notin> set (map fst CAPS) \<or> value = 0 \<or> 3000000 < value
      then (Inl (ValueError ''invalid maximum write''), s)
      else case next_cpu_event s of (e, t) \<Rightarrow> write_opened e name value t)"

subsection \<open>Waiting for the kernel\<close>

definition pause :: "int \<Rightarrow> (cpu_host, unit) io" where
  "pause d = modify (\<lambda>s. s\<lparr>ch_now := ch_now s + max 1 d\<rparr>)"

lemma set_attribute_now [simp]: "ch_now (set_attribute name field content s) = ch_now s"
  by (simp add: set_attribute_def)

lemma fold_changes_now [simp]:
  "ch_now (fold (\<lambda>(name, field, content). set_attribute name field content) changes s) = ch_now s"
  by (induction changes arbitrary: s) auto

lemma next_cpu_event_now: "next_cpu_event s = (e, t) \<Longrightarrow> ch_now s \<le> ch_now t"
  by (auto simp: next_cpu_event_def split: list.splits)

text \<open>Computations during which the clock does not go back.\<close>

definition onward :: "int \<Rightarrow> cpu_host \<Rightarrow> bool" where
  "onward t s \<longleftrightarrow> t \<le> ch_now s"

lemma keeps_cpu_modify: "(\<And>s. I s \<Longrightarrow> I (f s)) \<Longrightarrow> keeps I (modify f)"
  by (simp add: keeps_def modify_def)

lemma keeps_opened [keeps_intros]: "keeps I (opened_attribute name field)"
proof -
  have "keeps I (case map_of (pd_attributes d) field of None \<Rightarrow> raise FileNotFoundError
     | Some content \<Rightarrow> bind_io (require_cpu (field \<notin> set (pd_unsafe d)) ''unsafe CPU attribute'') (\<lambda>_. ret content))" for d
    by (cases "map_of (pd_attributes d) field") (auto simp: require_cpu_def intro!: keeps_intros)
  then show ?thesis unfolding opened_attribute_def same_policy_def require_cpu_def by (intro keeps_intros)
qed

lemma keeps_same [keeps_intros]: "keeps I (same_policy name)" "keeps I (require_cpu ok why)"
  unfolding same_policy_def require_cpu_def by (intro keeps_intros)+

lemma keeps_read_attribute:
  assumes "\<And>s e t. I s \<Longrightarrow> next_cpu_event s = (e, t) \<Longrightarrow> I t"
  shows "keeps I (read_attribute name field)"
proof (rule keepsI)
  fix s r u
  assume s: "I s" and run: "read_attribute name field s = (r, u)"
  obtain e t where e: "next_cpu_event s = (e, t)" by fastforce
  have "keeps I (read_opened e name field)" unfolding read_opened_def by (intro keeps_intros)
  from keepsD [OF this assms [OF s e]] run e show "I u" by (simp add: read_attribute_def)
qed

lemma keeps_snapshot:
  assumes "\<And>s e t. I s \<Longrightarrow> next_cpu_event s = (e, t) \<Longrightarrow> I t"
  shows "keeps I cpu_snapshot"
proof -
  note read = keeps_read_attribute [of I, OF assms]
  have policy: "keeps I (read_policy name)" for name
    unfolding read_policy_def read_integer_def Let_def by (intro keeps_intros read) assumption+
  have "keeps I (read_policies names)" for names
    by (induction names) (auto intro!: keeps_intros policy)
  then show ?thesis unfolding cpu_snapshot_def by (intro keeps_intros)
qed

lemma snapshot_onward: "cpu_snapshot s = (r, t) \<Longrightarrow> ch_now s \<le> ch_now t"
  using keepsD [OF keeps_snapshot [of "onward (ch_now s)"], of s r t]
  by (auto simp: onward_def dest: next_cpu_event_now order_trans)

lemma settle_step_onward:
  "(r, t) = bind_io cpu_snapshot (\<lambda>rows. lift_result (pick rows)) s \<Longrightarrow> ch_now s \<le> ch_now t"
  "bind_io cpu_snapshot (\<lambda>rows. lift_result (pick rows)) s = (r, t) \<Longrightarrow> ch_now s \<le> ch_now t"
  by (auto simp: bind_io_def lift_result_def split: prod.splits sum.splits dest!: snapshot_onward)

function settle_loop :: "(policies \<Rightarrow> 'b result) \<Rightarrow> 'b \<Rightarrow> 'b \<Rightarrow> int \<Rightarrow> (cpu_host, unit) io" where
  "settle_loop pick before after deadline s =
     (case bind_io cpu_snapshot (\<lambda>rows. lift_result (pick rows)) s of
        (Inl e, t) \<Rightarrow> (Inl e, t)
      | (Inr current, t) \<Rightarrow>
          if deadline < ch_now t then (Inl (ValueError ''CPU policy update deadline''), t)
          else if current = after then (Inr (), t)
          else if current \<noteq> before then (Inl (ValueError ''unexpected CPU policy during update''), t)
          else settle_loop pick before after deadline
                 (snd (pause (min 20000000 (max 0 (deadline - ch_now t))) t)))"
  by pat_completeness auto
termination
  by (relation "measure (\<lambda>(_, _, _, deadline, s). nat (deadline + 1 - ch_now s))")
     (auto simp: pause_def modify_def dest!: settle_step_onward)

declare settle_loop.simps [simp del]

definition settled :: "(policies \<Rightarrow> 'b result) \<Rightarrow> 'b \<Rightarrow> 'b \<Rightarrow> (cpu_host, unit) io" where
  "settled pick before after =
     bind_io (gets ch_now) (\<lambda>now. settle_loop pick before after (now + SETTLE))"

subsection \<open>The transaction\<close>

definition policy_identity_ok :: "string \<Rightarrow> policy \<Rightarrow> bool" where
  "policy_identity_ok name p \<longleftrightarrow>
     Some (cpus p) = map_of CPUS name \<and> driver p = ''qcom-cpufreq-hw'' \<and> governor p = ''schedutil''"

definition validate_policy :: "string \<times> policy \<Rightarrow> unit \<Rightarrow> unit result" where
  "validate_policy x _ =
     (case x of (name, p) \<Rightarrow>
        if \<not> policy_identity_ok name p then Inl (ValueError ''policy identity'')
        else if \<not> (0 < minimum p \<and> minimum p \<le> cap_of name \<and> cap_of name \<le> maximum p)
        then Inl (ValueError ''cap must only lower maximum above minimum'')
        else if \<not> (list_all (\<lambda>v. 0 < v) (frequencies p) \<and> cap_of name \<in> set (frequencies p))
        then Inl (ValueError ''cap absent from hardware frequency table'')
        else Inr ())"

definition validate_policies :: "policies \<Rightarrow> unit result" where
  "validate_policies value =
     (if set (map fst value) \<noteq> set (map fst CAPS) then Inl (ValueError ''unexpected CPU policy set'')
      else fold_result validate_policy value ())"

definition cpu_guard :: "(cpu_host, unit) io" where
  "cpu_guard s =
     (case ch_guards s of
        [] \<Rightarrow> (Inr (), s)
      | ok # others \<Rightarrow> (if ok then Inr () else Inl (ValueError ''guard''), s\<lparr>ch_guards := others\<rparr>))"

definition with_caps :: "string list \<Rightarrow> policies \<Rightarrow> policies" where
  "with_caps entered original =
     map (\<lambda>(name, p). (name, if name \<in> set entered then p\<lparr>maximum := cap_of name\<rparr> else p)) original"

definition apply_cap :: "policies \<Rightarrow> string \<Rightarrow> (cpu_host, unit) io" where
  "apply_cap original name =
     bind_io cpu_guard (\<lambda>_.
     bind_io cpu_snapshot (\<lambda>current.
     bind_io (gets ch_entered) (\<lambda>entered.
     bind_io (require_cpu (current = with_caps entered original) ''policy changed before apply'') (\<lambda>_.
     bind_io (modify (\<lambda>s. s\<lparr>ch_entered := ch_entered s @ [name]\<rparr>)) (\<lambda>_.
     bind_io (set_maximum name (cap_of name)) (\<lambda>_.
     settled Inr current (with_caps (entered @ [name]) original)))))))"

definition pick_policy :: "string \<Rightarrow> policies \<Rightarrow> policy result" where
  "pick_policy name rows = option_result (KeyError name) (map_of rows name)"

definition restore_policy :: "policies \<Rightarrow> string \<Rightarrow> (cpu_host, unit) io" where
  "restore_policy original name =
     bind_io cpu_snapshot (\<lambda>rows.
     bind_io (lift_result (pick_policy name rows)) (\<lambda>current.
     bind_io (lift_result (pick_policy name original)) (\<lambda>prior.
     bind_io (require_cpu (current\<lparr>maximum := maximum prior\<rparr> = prior) ''policy identity changed'') (\<lambda>_.
     bind_io (require_cpu (maximum current = cap_of name \<or> maximum current = maximum prior) ''external maximum change'') (\<lambda>_.
     bind_io (set_maximum name (maximum prior)) (\<lambda>_.
     settled (pick_policy name) current prior))))))"

fun restorable_error :: "exn \<Rightarrow> bool" where
  "restorable_error (ValueError _) = True"
| "restorable_error UnicodeError = True"
| "restorable_error (KeyError _) = True"
| "restorable_error TypeError = True"
| "restorable_error OSError = True"
| "restorable_error FileNotFoundError = True"
| "restorable_error _ = False"

fun restore_all :: "policies \<Rightarrow> string list \<Rightarrow> (cpu_host, string list) io" where
  "restore_all original [] = ret []"
| "restore_all original (name # names) =
     bind_io (try_except (bind_io (restore_policy original name) (\<lambda>_. ret []))
        (\<lambda>e. if restorable_error e then ret [name] else raise e)) (\<lambda>failed.
     bind_io (restore_all original names) (\<lambda>others. ret (failed @ others)))"

text \<open>The message names the policies; the text of each error is left out.\<close>

definition restore_entered :: "policies \<Rightarrow> (cpu_host, unit) io" where
  "restore_entered original =
     bind_io (gets ch_entered) (\<lambda>entered.
     bind_io (restore_all original (rev entered)) (\<lambda>errors.
     when_raise (errors \<noteq> []) (ValueError (''restoration incomplete: '' @ join ''; '' errors))))"

record 'a cap_result =
  cr_before :: policies
  cr_during :: policies
  cr_after :: policies
  cr_action :: 'a
  cr_retained :: bool

text \<open>The clean-up of a \<open>finally\<close> block that a successful body has switched off.\<close>

definition on_failure :: "('s, 'a) io \<Rightarrow> ('s, unit) io \<Rightarrow> ('s, 'a) io" where
  "on_failure m f = try_except m (\<lambda>e. bind_io f (\<lambda>_. raise e))"

text \<open>
  The body of the \<open>try\<close>, whose outcome says whether the caps are to be retained, and the whole
  transaction; \<open>entered\<close> is a field of the state because the \<open>finally\<close> block reads it.
\<close>

definition cap_body :: "policies \<Rightarrow> (cpu_host, 'a) io \<Rightarrow> bool \<Rightarrow> (cpu_host, policies \<times> 'a) io" where
  "cap_body original action retain =
     bind_io (for_each (apply_cap original) (map fst CAPS)) (\<lambda>_.
     bind_io cpu_guard (\<lambda>_.
     bind_io cpu_snapshot (\<lambda>during.
     bind_io action (\<lambda>x.
     bind_io (if retain
        then bind_io cpu_guard (\<lambda>_. bind_io cpu_snapshot (\<lambda>now.
           require_cpu (now = during) ''policy changed before retention''))
        else ret ()) (\<lambda>_.
     ret (during, x))))))"

definition run_caps :: "(cpu_host, 'a) io \<Rightarrow> bool \<Rightarrow> (cpu_host, 'a cap_result) io" where
  "run_caps action retain =
     bind_io cpu_guard (\<lambda>_.
     bind_io cpu_snapshot (\<lambda>original.
     bind_io (lift_result (validate_policies original)) (\<lambda>_.
     bind_io (modify (\<lambda>s. s\<lparr>ch_entered := []\<rparr>)) (\<lambda>_.
     bind_io (if retain
        then on_failure (cap_body original action True) (restore_entered original)
        else try_finally (cap_body original action False) (restore_entered original)) (\<lambda>(during, x).
     bind_io cpu_snapshot (\<lambda>after.
     bind_io (require_cpu (after = (if retain then during else original)) ''post-transaction policy changed'') (\<lambda>_.
     ret \<lparr>cr_before = original, cr_during = during, cr_after = after, cr_action = x, cr_retained = retain\<rparr>)))))))"

subsection \<open>The lease\<close>

definition maxima :: "policies \<Rightarrow> (string \<times> nat) list" where
  "maxima rows = map (\<lambda>(name, p). (name, maximum p)) rows"

definition lease_sample :: "(cpu_host, unit) io" where
  "lease_sample =
     bind_io cpu_guard (\<lambda>_.
     bind_io cpu_snapshot (\<lambda>current.
     bind_io (require_cpu (maxima current = CAPS) ''cap changed during lease'') (\<lambda>_.
     modify (\<lambda>s. s\<lparr>ch_observed := ch_observed s @ [current]\<rparr>))))"

lemma cpu_guard_fields: "cpu_guard s = (r, t) \<Longrightarrow> t = s\<lparr>ch_guards := ch_guards t\<rparr>"
  by (auto simp: cpu_guard_def split: list.splits)

lemma cpu_guard_now: "cpu_guard s = (r, t) \<Longrightarrow> ch_now t = ch_now s"
  by (auto simp: cpu_guard_def split: list.splits)

lemma lease_sample_onward:
  "(r, t) = lease_sample s \<Longrightarrow> ch_now s \<le> ch_now t"
  "lease_sample s = (r, t) \<Longrightarrow> ch_now s \<le> ch_now t"
  by (auto simp: lease_sample_def bind_io_def require_cpu_def when_raise_def modify_def
      split: prod.splits sum.splits if_splits dest!: snapshot_onward cpu_guard_now)

function lease_loop :: "int \<Rightarrow> int \<Rightarrow> nat \<Rightarrow> (cpu_host, int \<times> nat) io" where
  "lease_loop start deadline count s =
     (if ch_now s < deadline then
        (case lease_sample s of
           (Inl e, t) \<Rightarrow> (Inl e, t)
         | (Inr _, t) \<Rightarrow> lease_loop start deadline (count + 1)
             (snd (pause (min 1000000000 (max 0 (deadline - ch_now t))) t)))
      else (Inr (ch_now s - start, count), s))"
  by pat_completeness auto
termination
  by (relation "measure (\<lambda>(_, deadline, _, s). nat (deadline - ch_now s))")
     (auto simp: pause_def modify_def dest!: lease_sample_onward)

declare lease_loop.simps [simp del]

definition lease_action :: "nat \<Rightarrow> (cpu_host, int \<times> nat) io" where
  "lease_action seconds =
     bind_io (gets ch_now) (\<lambda>start. lease_loop start (start + int seconds * 1000000000) 0)"

definition SIGNALS :: "string list" where
  "SIGNALS = [''SIGALRM'', ''SIGTERM'', ''SIGHUP'', ''SIGINT'']"

definition set_handlers :: "(string \<times> string) list \<Rightarrow> cpu_host \<Rightarrow> cpu_host" where
  "set_handlers hs s = s\<lparr>ch_handlers := hs @ filter (\<lambda>(n, _). n \<notin> set (map fst hs)) (ch_handlers s)\<rparr>"

definition handler_of :: "cpu_host \<Rightarrow> string \<Rightarrow> string" where
  "handler_of s sig = (case map_of (ch_handlers s) sig of None \<Rightarrow> ''SIG_DFL'' | Some h \<Rightarrow> h)"

definition lease :: "nat \<Rightarrow> (cpu_host, (int \<times> nat) cap_result) io" where
  "lease seconds =
     bind_io (require_cpu (1 \<le> seconds \<and> seconds \<le> 720) ''invalid cap lease duration'') (\<lambda>_.
     bind_io (gets ch_timer) (\<lambda>timer.
     bind_io (require_cpu (timer = 0) ''existing alarm cannot be replaced'') (\<lambda>_.
     bind_io (gets (\<lambda>s. map (\<lambda>sig. (sig, handler_of s sig)) SIGNALS)) (\<lambda>previous.
     try_finally
       (bind_io (modify (set_handlers (map (\<lambda>sig. (sig, ''interrupted'')) SIGNALS))) (\<lambda>_.
        bind_io (modify (\<lambda>s. s\<lparr>ch_timer := seconds + 15\<rparr>)) (\<lambda>_.
        run_caps (lease_action seconds) False)))
       (bind_io (modify (\<lambda>s. s\<lparr>ch_timer := 0\<rparr>)) (\<lambda>_. modify (set_handlers previous)))))))"

end
