(* ===== verification/Cpu_Transaction.thy ===== *)
theory Cpu_Transaction
  imports Cpu_Cap
begin

section \<open>The frequency cap is undone or reported\<close>

text \<open>
  For every script of delays, failures, pending updates and foreign writers: the transaction asks the
  kernel only for the caps and for the maxima it found, and unless it says that the restoration is
  incomplete its last request for every policy is the maximum it found. An undisturbed run succeeds.
\<close>

subsection \<open>Exceptions a computation may raise\<close>

definition throws :: "(exn \<Rightarrow> bool) \<Rightarrow> ('s, 'a) io \<Rightarrow> bool" where
  "throws P m \<longleftrightarrow> (\<forall>s e t. m s = (Inl e, t) \<longrightarrow> P e)"

named_theorems throws_intros "exceptions of state-passing computations"

lemma throws_ret [throws_intros]: "throws P (ret x)"
  by (simp add: throws_def ret_def)

lemma throws_raise [throws_intros]: "P e \<Longrightarrow> throws P (raise e)"
  by (simp add: throws_def raise_def)

lemma throws_gets [throws_intros]: "throws P (gets f)" "throws P (modify g)"
  by (simp_all add: throws_def gets_def modify_def)

lemma throws_when [throws_intros]: "P e \<Longrightarrow> throws P (when_raise b e)"
  by (simp add: throws_def when_raise_def)

lemma throws_require [throws_intros]: "P (ValueError why) \<Longrightarrow> throws P (require_cpu ok why)"
  unfolding require_cpu_def by (rule throws_when)

lemma throws_bind [throws_intros]: "throws P m \<Longrightarrow> (\<And>x. throws P (f x)) \<Longrightarrow> throws P (bind_io m f)"
  unfolding throws_def bind_io_eq_Inl by blast

lemma throws_restorable [throws_intros]:
  "throws restorable_error (same_policy name)" "throws restorable_error (opened_attribute name field)"
proof -
  show same: "throws restorable_error (same_policy name)" for name
    unfolding same_policy_def by (intro throws_intros) simp
  have "throws restorable_error (case map_of (pd_attributes d) field of None \<Rightarrow> raise FileNotFoundError
     | Some content \<Rightarrow> bind_io (require_cpu (field \<notin> set (pd_unsafe d)) ''unsafe CPU attribute'') (\<lambda>_. ret content))" for d
    by (cases "map_of (pd_attributes d) field") (auto intro!: throws_intros)
  then show "throws restorable_error (opened_attribute name field)"
    unfolding opened_attribute_def by (intro throws_intros same)
qed

lemma throws_read: "throws restorable_error (read_attribute name field)"
proof -
  have "throws restorable_error (read_opened e name field)" for e
    unfolding read_opened_def by (intro throws_intros) simp_all
  then show ?thesis unfolding throws_def read_attribute_def by (auto split: prod.splits)
qed

lemma throws_snapshot [throws_intros]: "throws restorable_error cpu_snapshot"
proof -
  have "throws restorable_error (read_policy name)" for name
    unfolding read_policy_def read_integer_def Let_def by (intro throws_intros throws_read) simp_all
  then have "throws restorable_error (read_policies names)" for names
    by (induction names) (auto intro!: throws_intros)
  then show ?thesis unfolding cpu_snapshot_def by (intro throws_intros) simp_all
qed

lemma throws_set_maximum [throws_intros]: "throws restorable_error (set_maximum name v)"
proof -
  have "throws restorable_error (write_opened e name v)" for e
    unfolding write_opened_def by (intro throws_intros) simp_all
  then show ?thesis unfolding throws_def set_maximum_def by (auto split: prod.splits if_splits)
qed

lemma pick_error: "pick_policy name rows = Inl e \<Longrightarrow> restorable_error e"
  by (auto simp: pick_policy_def option_result_def split: option.splits)

lemma throws_pick [throws_intros]: "throws restorable_error (lift_result (pick_policy name rows))"
  by (auto simp: throws_def lift_result_def dest: pick_error)

lemma settle_throws:
  assumes "\<And>rows e. pick rows = Inl e \<Longrightarrow> restorable_error e"
  shows "throws restorable_error (settle_loop pick before after deadline)"
proof -
  have step: "throws restorable_error (bind_io cpu_snapshot (\<lambda>rows. lift_result (pick rows)))"
    using assms by (intro throws_intros) (auto simp: throws_def lift_result_def)
  have "settle_loop pick before after deadline s = (Inl e, t) \<Longrightarrow> restorable_error e" for s e t
  proof (induction "nat (deadline + 1 - ch_now s)" arbitrary: s rule: less_induct)
    case less
    obtain r u where r: "bind_io cpu_snapshot (\<lambda>rows. lift_result (pick rows)) s = (r, u)" by fastforce
    show ?case
    proof (cases r)
      case (Inl e')
      with less.prems r step show ?thesis by (subst (asm) settle_loop.simps) (auto simp: throws_def)
    next
      case (Inr current)
      let ?v = "snd (pause (min 20000000 (max 0 (deadline - ch_now u))) u)"
      have small: "nat (deadline + 1 - ch_now ?v) < nat (deadline + 1 - ch_now s)" if "\<not> deadline < ch_now u"
        using settle_step_onward(2) [OF r] that by (auto simp: pause_def modify_def)
      from less.prems r Inr less.hyps [OF small] show ?thesis
        by (subst (asm) settle_loop.simps) (auto split: if_splits)
    qed
  qed
  then show ?thesis by (simp add: throws_def)
qed

lemma throws_restore: "throws restorable_error (restore_policy original name)"
proof -
  have "throws restorable_error (settled (pick_policy name) current prior)" for current prior
    unfolding settled_def by (intro throws_intros settle_throws pick_error) assumption
  then show ?thesis unfolding restore_policy_def by (intro throws_intros) simp_all
qed

subsection \<open>What is asked of the kernel\<close>

lemma set_attribute_fields [simp]: "ch_requests (set_attribute n f c s) = ch_requests s"
  "ch_entered (set_attribute n f c s) = ch_entered s" "ch_guards (set_attribute n f c s) = ch_guards s"
  by (simp_all add: set_attribute_def)

lemma fold_changes_fields [simp]:
  "ch_requests (fold (\<lambda>(name, field, content). set_attribute name field content) changes s) = ch_requests s"
  "ch_entered (fold (\<lambda>(name, field, content). set_attribute name field content) changes s) = ch_entered s"
  by (induction changes arbitrary: s) auto

text \<open>An invariant that looks only at the requests and the entered policies.\<close>

definition on_requests :: "((string \<times> nat) list \<Rightarrow> string list \<Rightarrow> bool) \<Rightarrow> cpu_host \<Rightarrow> bool" where
  "on_requests P s \<longleftrightarrow> P (ch_requests s) (ch_entered s)"

lemma on_requests_event: "on_requests P s \<Longrightarrow> next_cpu_event s = (e, t) \<Longrightarrow> on_requests P t"
  by (auto simp: on_requests_def next_cpu_event_def split: list.splits)

lemma keeps_requests_snapshot [keeps_intros]: "keeps (on_requests P) cpu_snapshot"
  by (rule keeps_snapshot) (rule on_requests_event)

lemma keeps_requests_guard [keeps_intros]: "keeps (on_requests P) cpu_guard"
  by (auto simp: keeps_def cpu_guard_def on_requests_def split: list.splits)

text \<open>Waiting keeps every invariant that an event and the passing of time keep.\<close>

lemma settle_keeps:
  assumes step: "\<And>s e t. I s \<Longrightarrow> next_cpu_event s = (e, t) \<Longrightarrow> I t" and clock: "\<And>s n. I s \<Longrightarrow> I (s\<lparr>ch_now := n\<rparr>)"
  shows "keeps I (settled pick before after)"
proof -
  have "settle_loop pick before after deadline s = (r, t) \<Longrightarrow> I s \<Longrightarrow> I t" for deadline s r t
  proof (induction "nat (deadline + 1 - ch_now s)" arbitrary: s rule: less_induct)
    case less
    obtain q u where q: "bind_io cpu_snapshot (\<lambda>rows. lift_result (pick rows)) s = (q, u)" by fastforce
    have "keeps I (bind_io cpu_snapshot (\<lambda>rows. lift_result (pick rows)))"
      by (intro keeps_bind keeps_snapshot keeps_lift_result) (rule step)
    from keepsD [OF this less.prems(2) q] have u: "I u" .
    show ?case
    proof (cases q)
      case (Inl e')
      with less.prems q u show ?thesis by (subst (asm) settle_loop.simps) auto
    next
      case (Inr current)
      let ?v = "snd (pause (min 20000000 (max 0 (deadline - ch_now u))) u)"
      have small: "nat (deadline + 1 - ch_now ?v) < nat (deadline + 1 - ch_now s)" if "\<not> deadline < ch_now u"
        using settle_step_onward(2) [OF q] that by (auto simp: pause_def modify_def)
      have v: "I ?v" using clock [OF u] by (simp add: pause_def modify_def)
      from less.prems(1) q Inr u less.hyps [OF small _ v] show ?thesis
        by (subst (asm) settle_loop.simps) (auto split: if_splits)
    qed
  qed
  then have "keeps I (settle_loop pick before after deadline)" for deadline by (intro keepsI)
  then show ?thesis unfolding settled_def by (intro keeps_intros)
qed

lemma keeps_requests_settled [keeps_intros]: "keeps (on_requests P) (settled pick before after)"
  by (rule settle_keeps [OF on_requests_event]) (auto simp: on_requests_def)

lemma opened_state: "\<exists>q. opened_attribute n f s = (q, s)"
  by (auto simp: opened_attribute_def same_policy_def require_cpu_def bind_io_def gets_def when_raise_def raise_def ret_def
      split: option.splits)

lemma take_request_fields: "ch_entered (take_request e name v s) = ch_entered s"
  "ch_requests (take_request e name v s)
     = (if ev_fault e = NoFault \<or> ev_reached e then [(name, v)] else []) @ ch_requests s"
  by (simp_all add: take_request_def Let_def)

lemma same_policy_state: "same_policy name s = (r, t) \<Longrightarrow> t = s"
  by (auto simp: same_policy_def require_cpu_def bind_io_def gets_def when_raise_def)

lemma write_opened_requests:
  assumes "write_opened e name v s = (r, t)"
  shows "ch_entered t = ch_entered s"
    and "ch_requests t = (name, v) # ch_requests s \<or> ch_requests t = ch_requests s \<and> isl r"
proof -
  let ?u = "take_request e name v s"
  obtain q where q: "opened_attribute name ''scaling_max_freq'' s = (q, s)" using opened_state by blast
  have "t = s \<and> isl r \<or> t = ?u \<and> (isl r \<or> ev_fault e = NoFault)"
  proof (cases q)
    case (Inl x)
    with assms q show ?thesis by (auto simp: write_opened_def bind_io_def)
  next
    case (Inr x)
    with assms q show ?thesis
      by (cases "ev_fault e")
         (auto simp: write_opened_def bind_io_def modify_def when_raise_def require_cpu_def dest: same_policy_state)
  qed
  then show "ch_entered t = ch_entered s"
    and "ch_requests t = (name, v) # ch_requests s \<or> ch_requests t = ch_requests s \<and> isl r"
    by (auto simp: take_request_fields)
qed

lemma set_maximum_requests:
  assumes "set_maximum name v s = (r, t)"
  shows "ch_entered t = ch_entered s"
    and "ch_requests t = (name, v) # ch_requests s \<or> ch_requests t = ch_requests s \<and> isl r"
proof -
  obtain e u where e: "next_cpu_event s = (e, u)" by fastforce
  have u: "ch_entered u = ch_entered s" "ch_requests u = ch_requests s"
    using e by (auto simp: next_cpu_event_def split: list.splits)
  from assms e have "t = s \<and> isl r \<or> write_opened e name v u = (r, t)"
    by (simp add: set_maximum_def split: if_splits) auto
  with write_opened_requests [of e name v u r t] u
  show "ch_entered t = ch_entered s"
    and "ch_requests t = (name, v) # ch_requests s \<or> ch_requests t = ch_requests s \<and> isl r" by auto
qed

text \<open>Only caps and original maxima are requested, and only of entered policies.\<close>

definition allowed :: "policies \<Rightarrow> (string \<times> nat) list \<Rightarrow> string list \<Rightarrow> bool" where
  "allowed original requests entered \<longleftrightarrow>
     list_all (\<lambda>(name, v). name \<in> set entered
       \<and> (v = cap_of name \<or> Some v = map_option maximum (map_of original name))) requests"

definition undone :: "policies \<Rightarrow> string \<Rightarrow> (string \<times> nat) list \<Rightarrow> string list \<Rightarrow> bool" where
  "undone original name requests entered \<longleftrightarrow> map_of requests name = map_option maximum (map_of original name)"

lemma keeps_set_maximum:
  assumes "\<And>q e. P q e \<Longrightarrow> P ((name, v) # q) e"
  shows "keeps (on_requests P) (set_maximum name v)"
proof (rule keepsI)
  fix s r t
  assume "on_requests P s" "set_maximum name v s = (r, t)"
  with set_maximum_requests [of name v s r t] assms show "on_requests P t" by (auto simp: on_requests_def)
qed

lemma keeps_bind_modify:
  assumes "keeps J (rest ())" and "\<And>s. I s \<Longrightarrow> J (f s)" and "\<And>s. J s \<Longrightarrow> I s"
  shows "keeps I (bind_io (modify f) rest)"
  using assms by (auto simp: keeps_def bind_io_def modify_def)

lemma keeps_apply: "keeps (on_requests (allowed original)) (apply_cap original name)"
proof -
  let ?P = "\<lambda>q e. allowed original q e \<and> name \<in> set e"
  have set: "keeps (on_requests ?P) (set_maximum name (cap_of name))"
    by (rule keeps_set_maximum) (auto simp: allowed_def)
  have "keeps (on_requests (allowed original)) (bind_io (modify (\<lambda>s. s\<lparr>ch_entered := ch_entered s @ [name]\<rparr>)) (\<lambda>_.
     bind_io (set_maximum name (cap_of name)) (\<lambda>_. settled Inr current after)))" for current after
    by (rule keeps_bind_modify [where J = "on_requests ?P"])
       (intro keeps_intros set, auto simp: on_requests_def allowed_def list_all_iff)
  then show ?thesis
    unfolding apply_cap_def
    by (intro keeps_bind [OF keeps_requests_guard] keeps_bind [OF keeps_requests_snapshot] keeps_bind [OF keeps_gets]
        keeps_bind [OF keeps_same(2)])
qed

lemma keeps_restore:
  assumes "\<And>q e v. P q e \<Longrightarrow> Some v = map_option maximum (map_of original name) \<Longrightarrow> P ((name, v) # q) e"
  shows "keeps (on_requests P) (restore_policy original name)"
proof -
  have rest: "keeps (on_requests P) (bind_io (lift_result (pick_policy name original)) (\<lambda>prior.
     bind_io (require_cpu (current\<lparr>maximum := maximum prior\<rparr> = prior) ''policy identity changed'') (\<lambda>_.
     bind_io (require_cpu (maximum current = cap_of name \<or> maximum current = maximum prior) ''external maximum change'') (\<lambda>_.
     bind_io (set_maximum name (maximum prior)) (\<lambda>_.
     settled (pick_policy name) current prior)))))" for current
  proof (cases "map_of original name")
    case None
    then show ?thesis by (simp add: keeps_def bind_io_def lift_result_def pick_policy_def option_result_def)
  next
    case (Some prior)
    have "keeps (on_requests P) (set_maximum name (maximum prior))" by (rule keeps_set_maximum) (simp add: assms Some)
    then have "keeps (on_requests P) (bind_io (require_cpu (current\<lparr>maximum := maximum prior\<rparr> = prior) ''policy identity changed'') (\<lambda>_.
     bind_io (require_cpu (maximum current = cap_of name \<or> maximum current = maximum prior) ''external maximum change'') (\<lambda>_.
     bind_io (set_maximum name (maximum prior)) (\<lambda>_. settled (pick_policy name) current prior))))"
      by (intro keeps_intros)
    with Some show ?thesis by (simp add: keeps_def bind_io_def lift_result_def pick_policy_def option_result_def)
  qed
  show ?thesis
    unfolding restore_policy_def
    by (rule keeps_bind [OF keeps_requests_snapshot], rule keeps_bind [OF keeps_lift_result], rule rest)
qed

lemma keeps_restore_undone: "keeps (on_requests (undone original m)) (restore_policy original name)"
  by (rule keeps_restore) (auto simp: undone_def)

lemma restore_policy_Inr:
  assumes "restore_policy original name s = (Inr x, t)"
  shows "on_requests (undone original name) t"
proof -
  from assms obtain prior u v current where prior: "map_of original name = Some prior"
    and v: "set_maximum name (maximum prior) u = (Inr (), v)" and t: "settled (pick_policy name) current prior v = (Inr x, t)"
    by (auto simp: restore_policy_def bind_io_eq_Inr lift_result_def pick_policy_def option_result_def require_cpu_def
        split: option.splits)
  from set_maximum_requests(2) [OF v] prior have "on_requests (undone original name) v"
    by (auto simp: on_requests_def undone_def)
  from keepsD [OF keeps_requests_settled this t] show ?thesis .
qed

lemma restore_all_result:
  assumes "restore_all original names s = (r, t)"
  shows "\<exists>errors. r = Inr errors \<and> (errors = [] \<longrightarrow> list_all (\<lambda>n. on_requests (undone original n) t) names)"
    and "on_requests (undone original m) s \<Longrightarrow> on_requests (undone original m) t"
proof -
  have main: "(\<exists>errors. r = Inr errors \<and> (errors = [] \<longrightarrow> list_all (\<lambda>n. on_requests (undone original n) t) names))
     \<and> (\<forall>m. on_requests (undone original m) s \<longrightarrow> on_requests (undone original m) t)"
    using assms
  proof (induction names arbitrary: s r t)
    case Nil
    then show ?case by (auto simp: ret_def)
  next
    case (Cons name names)
    obtain q u where q: "restore_policy original name s = (q, u)" by fastforce
    obtain r' where r': "restore_all original names u = (r', t)" and r: "r = (case r' of Inl e \<Rightarrow> Inl e | Inr others \<Rightarrow>
        Inr ((if isl q then [name] else []) @ others))"
    proof (cases q)
      case (Inl e)
      with q throws_restore have "restorable_error e" unfolding throws_def by blast
      with Inl q Cons.prems show ?thesis
        using that by (cases "restore_all original names u") (auto simp: bind_io_def try_except_def ret_def split: sum.splits)
    next
      case (Inr x)
      with q Cons.prems show ?thesis
        using that by (cases "restore_all original names u") (auto simp: bind_io_def try_except_def ret_def split: sum.splits)
    qed
    note IH = Cons.IH [OF r']
    have "on_requests (undone original m) u" if "on_requests (undone original m) s" for m
      using keepsD [OF keeps_restore_undone that q] .
    with IH r show ?case
      using restore_policy_Inr [of original name s _ u] q by (cases q) (auto split: if_splits)
  qed
  then show "\<exists>errors. r = Inr errors \<and> (errors = [] \<longrightarrow> list_all (\<lambda>n. on_requests (undone original n) t) names)"
    and "on_requests (undone original m) s \<Longrightarrow> on_requests (undone original m) t" by blast+
qed

text \<open>The clean-up: it asks only for what was found, and is complete or says that it is not.\<close>

definition incomplete :: "'a result \<Rightarrow> bool" where
  "incomplete r = (case r of Inl (ValueError why) \<Rightarrow> prefix ''restoration incomplete: '' why | _ \<Rightarrow> False)"

lemma keeps_restore_allowed:
  "set names \<subseteq> set E \<Longrightarrow> keeps (on_requests (\<lambda>q e. allowed original q e \<and> e = E)) (restore_all original names)"
proof (induction names)
  case Nil
  show ?case by (simp add: keeps_intros)
next
  case (Cons name names)
  have "keeps (on_requests (\<lambda>q e. allowed original q e \<and> e = E)) (restore_policy original name)"
    by (rule keeps_restore) (use Cons.prems in \<open>auto simp: allowed_def\<close>)
  with Cons show ?case by (auto intro!: keeps_intros)
qed

lemma restore_entered_result:
  assumes run: "restore_entered original s = (r, t)" and s: "on_requests (allowed original) s"
  shows "on_requests (allowed original) t" and "ch_entered t = ch_entered s"
    and "incomplete r \<or> r = Inr () \<and> list_all (\<lambda>n. on_requests (undone original n) t) (ch_entered t)"
proof -
  obtain q u where q: "restore_all original (rev (ch_entered s)) s = (q, u)" by fastforce
  obtain errors where errors: "q = Inr errors"
    and whole: "errors = [] \<Longrightarrow> list_all (\<lambda>n. on_requests (undone original n) u) (rev (ch_entered s))"
    using restore_all_result(1) [OF q] by blast
  from run q errors have t: "t = u" and r: "r = (if errors \<noteq> [] then Inl (ValueError (''restoration incomplete: '' @ join ''; '' errors)) else Inr ())"
    by (auto simp: restore_entered_def bind_io_def gets_def when_raise_def)
  have kept: "on_requests (\<lambda>q e. allowed original q e \<and> e = ch_entered s) u"
    by (rule keepsD [OF keeps_restore_allowed _ q]) (use s in \<open>auto simp: on_requests_def\<close>)
  then show "on_requests (allowed original) t" and entered: "ch_entered t = ch_entered s"
    by (auto simp: on_requests_def t)
  show "incomplete r \<or> r = Inr () \<and> list_all (\<lambda>n. on_requests (undone original n) t) (ch_entered t)"
    using whole entered by (auto simp: r t incomplete_def list_all_iff)
qed

text \<open>An action that does not touch the policies: the lease only looks.\<close>

definition leaves_requests :: "(cpu_host, 'a) io \<Rightarrow> bool" where
  "leaves_requests m \<longleftrightarrow> (\<forall>P. keeps (on_requests P) m)"

lemma keeps_body: "leaves_requests action \<Longrightarrow> keeps (on_requests (allowed original)) (cap_body original action retain)"
  unfolding cap_body_def leaves_requests_def by (intro keeps_intros keeps_apply) simp

lemma protected_undone:
  assumes run: "try_finally body (restore_entered original) s = (r, t)"
    and body: "keeps (on_requests (allowed original)) body" and s: "on_requests (allowed original) s"
  shows "on_requests (allowed original) t"
    and "incomplete r \<or> list_all (\<lambda>n. on_requests (undone original n) t) (ch_entered t)"
proof -
  obtain q u where q: "body s = (q, u)" by fastforce
  obtain c v where c: "restore_entered original u = (c, v)" by fastforce
  from run q c have t: "t = v" and r: "r = (case c of Inl e \<Rightarrow> Inl e | Inr _ \<Rightarrow> q)"
    by (auto simp: try_finally_def split: sum.splits)
  note res = restore_entered_result [OF c keepsD [OF body s q]]
  from res(1) show "on_requests (allowed original) t" by (simp add: t)
  from res(3) show "incomplete r \<or> list_all (\<lambda>n. on_requests (undone original n) t) (ch_entered t)"
    by (auto simp: t r incomplete_def split: sum.splits)
qed

text \<open>The policies the transaction found.\<close>

definition found_policies :: "cpu_host \<Rightarrow> policies" where
  "found_policies s = (case bind_io cpu_guard (\<lambda>_. cpu_snapshot) s of (Inr rows, _) \<Rightarrow> rows | _ \<Rightarrow> [])"

text \<open>The transaction after the policies were found and checked.\<close>

definition cap_protected :: "policies \<Rightarrow> (cpu_host, 'a) io \<Rightarrow> (cpu_host, 'a cap_result) io" where
  "cap_protected original action =
     bind_io (try_finally (cap_body original action False) (restore_entered original)) (\<lambda>(during, x).
     bind_io cpu_snapshot (\<lambda>after.
     bind_io (require_cpu (after = original) ''post-transaction policy changed'') (\<lambda>_.
     ret \<lparr>cr_before = original, cr_during = during, cr_after = after, cr_action = x, cr_retained = False\<rparr>)))"

definition cleared :: "policies \<Rightarrow> (string \<times> nat) list \<Rightarrow> string list \<Rightarrow> bool" where
  "cleared original requests entered \<longleftrightarrow> allowed original requests entered
     \<and> list_all (\<lambda>(name, _). undone original name requests entered) requests"

lemma cap_protected_result:
  assumes run: "cap_protected original action s = (r, t)" and s: "on_requests (allowed original) s"
    and action: "leaves_requests action"
  shows "on_requests (allowed original) t \<and> (incomplete r \<or> on_requests (cleared original) t)"
proof -
  obtain q u where q: "try_finally (cap_body original action False) (restore_entered original) s = (q, u)" by fastforce
  note u = protected_undone [OF q keeps_body [OF action] s]
  show ?thesis
  proof (cases q)
    case (Inl e)
    with run q have "r = Inl e" "t = u" by (auto simp: cap_protected_def)
    with u Inl show ?thesis
      by (auto simp: incomplete_def on_requests_def cleared_def allowed_def list_all_iff)
  next
    case (Inr p)
    then have "\<not> incomplete q" by (simp add: incomplete_def)
    with u have u': "on_requests (cleared original) u"
      by (auto simp: on_requests_def cleared_def allowed_def list_all_iff)
    have "keeps (on_requests (cleared original)) (case p of (during, x) \<Rightarrow>
       bind_io cpu_snapshot (\<lambda>after.
       bind_io (require_cpu (after = original) ''post-transaction policy changed'') (\<lambda>_.
       ret \<lparr>cr_before = original, cr_during = during, cr_after = after, cr_action = x, cr_retained = False\<rparr>)))"
      by (cases p) (simp add: keeps_intros)
    from keepsD [OF this u', of r t] run q Inr have "on_requests (cleared original) t" by (simp add: cap_protected_def)
    then show ?thesis by (simp add: on_requests_def cleared_def)
  qed
qed

lemma run_caps_protected:
  "run_caps action False =
     bind_io cpu_guard (\<lambda>_.
     bind_io cpu_snapshot (\<lambda>original.
     bind_io (lift_result (validate_policies original)) (\<lambda>_.
     bind_io (modify (\<lambda>s. s\<lparr>ch_entered := []\<rparr>)) (\<lambda>_. cap_protected original action))))"
  by (simp add: run_caps_def cap_protected_def)

lemma lease_action_keeps:
  assumes sample: "keeps I lease_sample" and clock: "\<And>s n. I s \<Longrightarrow> I (s\<lparr>ch_now := n\<rparr>)"
  shows "keeps I (lease_action seconds)"
proof -
  have "lease_loop start deadline count s = (r, t) \<Longrightarrow> I s \<Longrightarrow> I t" for start deadline count s r t
  proof (induction start deadline count s rule: lease_loop.induct)
    case (1 start deadline count s)
    obtain q u where q: "lease_sample s = (q, u)" by fastforce
    from keepsD [OF sample 1(3) q] have u: "I u" .
    with clock have "I (snd (pause d u))" for d by (simp add: pause_def modify_def)
    with 1 q u show ?case
      by (subst (asm) (2) lease_loop.simps) (auto split: if_splits sum.splits)
  qed
  then have "keeps I (lease_loop start deadline count)" for start deadline count by (intro keepsI)
  then show ?thesis unfolding lease_action_def by (auto intro!: keeps_intros)
qed

lemma lease_action_leaves: "leaves_requests (lease_action seconds)"
  unfolding leaves_requests_def lease_sample_def
  by (intro allI lease_action_keeps) (auto simp: lease_sample_def on_requests_def intro!: keeps_intros keeps_cpu_modify)

text \<open>Before the first request: the transaction ends without one, or goes on with the policies it found.\<close>

lemma transaction_start:
  assumes run: "bind_io cpu_guard (\<lambda>_.
     bind_io cpu_snapshot (\<lambda>original.
     bind_io (lift_result (validate_policies original)) (\<lambda>_.
     bind_io (modify (\<lambda>s. s\<lparr>ch_entered := []\<rparr>)) (\<lambda>_. body original)))) s = (r, t)"
    and fresh: "ch_requests s = []"
  obtains (early) "ch_requests t = []" "isl r"
    | (found) v where "on_requests (\<lambda>q e. q = [] \<and> e = []) v" "body (found_policies s) v = (r, t)"
proof -
  let ?N = "\<lambda>q (_ :: string list). q = []"
  have s: "on_requests ?N s" by (simp add: on_requests_def fresh)
  obtain g u where g: "cpu_guard s = (g, u)" by fastforce
  from keepsD [OF keeps_requests_guard s g] have u: "on_requests ?N u" .
  obtain q v where q: "cpu_snapshot u = (q, v)" by fastforce
  from keepsD [OF keeps_requests_snapshot u q] have v: "on_requests ?N v" .
  show ?thesis
  proof (cases "\<exists>x original. g = Inr x \<and> q = Inr original \<and> validate_policies original = Inr ()")
    case False
    with run g q have "t = u \<or> t = v" "isl r"
      by (auto simp: bind_io_def lift_result_def split: sum.splits)
    with u v show ?thesis by (intro early) (auto simp: on_requests_def)
  next
    case True
    then obtain x original where parts: "g = Inr x" "q = Inr original" "validate_policies original = Inr ()" by blast
    then have "found_policies s = original" using g q by (simp add: found_policies_def)
    moreover from run g q parts have "body original (v\<lparr>ch_entered := []\<rparr>) = (r, t)"
      by (simp add: lift_result_def modify_def bind_io_def)
    moreover have "on_requests (\<lambda>q e. q = [] \<and> e = []) (v\<lparr>ch_entered := []\<rparr>)" using v by (simp add: on_requests_def)
    ultimately show ?thesis by (intro found) simp_all
  qed
qed

text \<open>
  C16. Whatever delays, failures, pending updates, foreign writers, refusals of the guard and interruptions meet the
  transaction, it asks the kernel only for the caps and for the maxima it found, and only of policies it has entered;
  and unless it reports that the restoration is incomplete, the last request for every policy it touched is
  the maximum that policy was found with.
\<close>

theorem caps_undone_or_reported:
  assumes run: "run_caps action False s = (r, t)" and fresh: "ch_requests s = []" and action: "leaves_requests action"
  shows "allowed (found_policies s) (ch_requests t) (ch_entered t)
     \<and> (incomplete r \<or> list_all (\<lambda>(name, _). undone (found_policies s) name (ch_requests t) (ch_entered t)) (ch_requests t))"
  using run [unfolded run_caps_protected] fresh
proof (cases rule: transaction_start)
  case early
  then show ?thesis by (simp add: allowed_def)
next
  case (found v)
  from found(1) have "on_requests (allowed (found_policies s)) v" by (simp add: on_requests_def allowed_def)
  from cap_protected_result [OF found(2) this action] show ?thesis
    by (simp add: on_requests_def cleared_def) blast
qed

subsection \<open>The alarm and the signal handlers\<close>

definition armed :: "nat \<Rightarrow> (string \<times> string) list \<Rightarrow> cpu_host \<Rightarrow> bool" where
  "armed k hs s \<longleftrightarrow> ch_timer s = k \<and> ch_handlers s = hs"

lemma armed_update [simp]: "armed k hs (set_attribute n f c s) = armed k hs s" "armed k hs (s\<lparr>ch_now := i\<rparr>) = armed k hs s"
  "armed k hs (s\<lparr>ch_entered := E\<rparr>) = armed k hs s" "armed k hs (s\<lparr>ch_requests := q\<rparr>) = armed k hs s"
  "armed k hs (s\<lparr>ch_observed := ob\<rparr>) = armed k hs s" "armed k hs (s\<lparr>ch_events := ev\<rparr>) = armed k hs s"
  "armed k hs (s\<lparr>ch_guards := g\<rparr>) = armed k hs s"
  by (simp_all add: armed_def set_attribute_def)

lemma armed_changes [simp]:
  "armed k hs (fold (\<lambda>(name, field, content). set_attribute name field content) changes s) = armed k hs s"
proof (induction changes arbitrary: s)
  case (Cons c changes)
  obtain n f x where "c = (n, f, x)" by (cases c)
  with Cons show ?case by simp
qed simp

lemma armed_event: "armed k hs s \<Longrightarrow> next_cpu_event s = (e, t) \<Longrightarrow> armed k hs t"
  by (cases "ch_events s") (simp_all add: next_cpu_event_def, metis armed_changes armed_update(2,6))

lemma keeps_armed_modify [keeps_intros]: "(\<And>s. armed k hs (f s) = armed k hs s) \<Longrightarrow> keeps (armed k hs) (modify f)"
  by (rule keeps_cpu_modify) simp

lemma keeps_armed [keeps_intros]: "keeps (armed k hs) cpu_snapshot" "keeps (armed k hs) cpu_guard"
  "keeps (armed k hs) (settled pick before after)" "keeps (armed k hs) (set_maximum name v)"
proof -
  show "keeps (armed k hs) cpu_snapshot" by (rule keeps_snapshot) (rule armed_event)
  show "keeps (armed k hs) cpu_guard" by (auto simp: keeps_def cpu_guard_def split: list.splits)
  show "keeps (armed k hs) (settled pick before after)" by (rule settle_keeps [OF armed_event]) auto
  have request: "armed k hs (take_request e name v s) = armed k hs s" for e s
    by (simp add: take_request_def Let_def)
  have opened: "keeps (armed k hs) (write_opened e name v)" for e
    unfolding write_opened_def by (intro keeps_intros) (rule request)
  show "keeps (armed k hs) (set_maximum name v)"
  proof (rule keepsI)
    fix s r t
    assume s: "armed k hs s" and run: "set_maximum name v s = (r, t)"
    obtain e u where e: "next_cpu_event s = (e, u)" by fastforce
    from keepsD [OF opened armed_event [OF s e]] run e s show "armed k hs t"
      by (auto simp: set_maximum_def split: if_splits)
  qed
qed

lemma keeps_armed_run: "keeps (armed k hs) (run_caps (lease_action seconds) False)"
proof -
  have restore: "keeps (armed k hs) (restore_all original names)" for original names
    by (induction names) (auto simp: restore_policy_def intro!: keeps_intros)
  have action: "keeps (armed k hs) (lease_action seconds)"
    unfolding lease_sample_def by (rule lease_action_keeps) (auto simp: lease_sample_def intro!: keeps_intros)
  have entered: "keeps (armed k hs) (restore_entered original)" for original
    unfolding restore_entered_def by (intro keeps_intros restore)
  have "keeps (armed k hs) (apply_cap original name)" for original name
    unfolding apply_cap_def by (intro keeps_intros) simp
  then have "keeps (armed k hs) (cap_body original (lease_action seconds) False)" for original
    unfolding cap_body_def by (intro keeps_intros action)
  then show ?thesis
    unfolding run_caps_protected cap_protected_def case_prod_unfold
    by (intro keeps_intros entered) simp
qed

lemma handler_set: "handler_of (set_handlers hs s) sig = (case map_of hs sig of None \<Rightarrow> handler_of s sig | Some h \<Rightarrow> h)"
proof -
  have "map_of (filter (\<lambda>(n, _). n \<notin> set (map fst hs)) xs) sig = map_of xs sig" if "map_of hs sig = None" for xs :: "(string \<times> string) list"
  proof -
    from that have "sig \<notin> set (map fst hs)" by (simp add: map_of_eq_None_iff)
    then show ?thesis by (induction xs) (auto simp del: set_map)
  qed
  then show ?thesis by (cases "map_of hs sig") (simp_all add: handler_of_def set_handlers_def map_add_def)
qed


end
