(* ===== verification/Cpu_Quiet.thy ===== *)
theory Cpu_Quiet
  imports Cpu_Transaction
begin

section \<open>The undisturbed frequency cap\<close>

text \<open>
  With no delay, no failure and no other writer a snapshot is what the directories hold, a request is
  visible at once, and the transaction succeeds: the action sees the three caps and the original
  maxima are back. The bound of a write makes an original maximum above 3 GHz the exception.
\<close>

subsection \<open>Numbers in attributes\<close>

lemma space_forms_digits:
  "w \<in> set space_forms \<Longrightarrow> w \<noteq> [] \<and> \<not> is_digit (hd w) \<and> \<not> is_digit (last w) \<and> (last w = LF \<longrightarrow> w = [LF])"
  by (auto simp: space_forms_def is_digit_def)

lemma lstrip_digits: "s \<noteq> [] \<Longrightarrow> is_digit (hd s) \<Longrightarrow> lstrip s = s"
proof -
  assume s: "s \<noteq> []" "is_digit (hd s)"
  have "find (\<lambda>w. prefix w s) space_forms = None"
  proof (subst find_None_iff, safe)
    fix w
    assume w: "w \<in> set space_forms" "prefix w s"
    then have "hd w = hd s" using space_forms_digits by (fastforce elim!: prefixE)
    with w s space_forms_digits show False by metis
  qed
  then show ?thesis by (simp add: lstrip.simps leading_space_def)
qed

lemma rstrip_digits: "s \<noteq> [] \<Longrightarrow> is_digit (last s) \<Longrightarrow> rstrip s = s"
proof -
  assume s: "s \<noteq> []" "is_digit (last s)"
  have "find (\<lambda>w. suffix w s) space_forms = None"
  proof (subst find_None_iff, safe)
    fix w
    assume w: "w \<in> set space_forms" "suffix w s"
    then have "last w = last s" using space_forms_digits by (fastforce elim!: suffixE)
    with w s space_forms_digits show False by metis
  qed
  then show ?thesis by (simp add: rstrip.simps trailing_space_def)
qed

lemma trailing_newline: "trailing_space (s @ [LF]) = 1"
proof -
  have "find (\<lambda>w. suffix w (s @ [LF])) space_forms \<noteq> None"
  proof (subst find_None_iff, simp only: not_not, rule exI, rule conjI)
    show "[LF] \<in> set space_forms" by (simp add: space_forms_def)
    show "suffix [LF] (s @ [LF])" by (simp add: suffix_def)
  qed
  then obtain w where w: "find (\<lambda>w. suffix w (s @ [LF])) space_forms = Some w" by auto
  then have set: "w \<in> set space_forms" and suffix: "suffix w (s @ [LF])"
    unfolding find_Some_iff by (metis nth_mem)+
  then have "last w = LF" using space_forms_digits by (metis last_appendR last_snoc suffixE)
  with set have "w = [LF]" using space_forms_digits by blast
  with w show ?thesis by (simp add: trailing_space_def)
qed

lemma strip_line:
  assumes "s \<noteq> []" "list_all is_digit s"
  shows "strip (s @ [LF]) = s"
proof -
  have "is_digit (hd s)" "is_digit (last s)" using assms by (auto simp: list_all_iff)
  then have "lstrip (s @ [LF]) = s @ [LF]" "rstrip s = s"
    using assms by (auto intro!: lstrip_digits rstrip_digits)
  then show ?thesis by (simp add: strip_def rstrip.simps [of "s @ [LF]"] trailing_newline)
qed

lemma strip_show_nat: "strip (show_nat n @ [LF]) = show_nat n"
  by (rule strip_line) (auto simp: list_all_iff show_nat_digits)

subsection \<open>What the directories hold\<close>

definition attribute_of :: "policy_dir \<Rightarrow> string \<Rightarrow> string result" where
  "attribute_of d field =
     (if \<not> pd_safe d then Inl (ValueError ''CPU policy pathname changed'')
      else case map_of (pd_attributes d) field of
        None \<Rightarrow> Inl FileNotFoundError
      | Some raw \<Rightarrow>
          if field \<in> set (pd_unsafe d) then Inl (ValueError ''unsafe CPU attribute'')
          else if 65536 < length raw then Inl (ValueError ''CPU attribute read bound'')
          else if \<not> list_all is_ascii raw then Inl UnicodeError
          else Inr (strip raw))"

definition integer_of :: "policy_dir \<Rightarrow> string \<Rightarrow> nat result" where
  "integer_of d field =
     bind_result (attribute_of d field) (\<lambda>value.
     if is_number value then Inr (read_nat value) else Inl (ValueError ''CPU frequency integer''))"

definition table_of :: "policy_dir \<Rightarrow> nat list result" where
  "table_of d =
     bind_result (attribute_of d ''stats/time_in_state'') (\<lambda>table.
     let pairs = map (ascii_words []) (splitlines table) in
     if pairs \<noteq> [] \<and> list_all (\<lambda>p. length p = 2 \<and> list_all is_number p) pairs
     then Inr (map (\<lambda>p. read_nat (hd p)) pairs) else Inl (ValueError ''hardware frequency table''))"

definition policy_of :: "policy_dir \<Rightarrow> policy result" where
  "policy_of d =
     bind_result (table_of d) (\<lambda>freqs.
     bind_result (attribute_of d ''related_cpus'') (\<lambda>related.
     bind_result (attribute_of d ''scaling_driver'') (\<lambda>drv.
     bind_result (attribute_of d ''scaling_governor'') (\<lambda>gov.
     bind_result (integer_of d ''scaling_min_freq'') (\<lambda>least.
     bind_result (integer_of d ''scaling_max_freq'') (\<lambda>most.
     Inr \<lparr>cpus = related, driver = drv, governor = gov, minimum = least, maximum = most, frequencies = freqs\<rparr>))))))"

lemma quiet_read:
  "ch_events s = [] \<Longrightarrow> read_attribute name field s = (attribute_of (ch_dirs s name) field, s)"
  by (auto simp: read_attribute_def next_cpu_event_def quiet_event_def read_opened_def opened_attribute_def same_policy_def
      require_cpu_def attribute_of_def bind_io_def run_simps split: option.splits)

lemma bind_stays: "m s = (r, s) \<Longrightarrow> (\<And>x. f x s = (g x, s)) \<Longrightarrow> bind_io m f s = (bind_result r g, s)"
  by (cases r) auto

lemma quiet_integer:
  "ch_events s = [] \<Longrightarrow> read_integer name field s = (integer_of (ch_dirs s name) field, s)"
  unfolding read_integer_def integer_of_def
  by (rule bind_stays [OF quiet_read]) (auto simp: bind_io_def require_cpu_def run_simps)

lemma quiet_read_policy:
  assumes "ch_events s = []"
  shows "read_policy name s = (policy_of (ch_dirs s name), s)"
proof -
  have later: "bind_io (read_attribute name ''related_cpus'') (\<lambda>related.
     bind_io (read_attribute name ''scaling_driver'') (\<lambda>drv.
     bind_io (read_attribute name ''scaling_governor'') (\<lambda>gov.
     bind_io (read_integer name ''scaling_min_freq'') (\<lambda>least.
     bind_io (read_integer name ''scaling_max_freq'') (\<lambda>most.
     ret \<lparr>cpus = related, driver = drv, governor = gov, minimum = least, maximum = most,
          frequencies = freqs\<rparr>))))) s
    = (bind_result (attribute_of (ch_dirs s name) ''related_cpus'') (\<lambda>related.
     bind_result (attribute_of (ch_dirs s name) ''scaling_driver'') (\<lambda>drv.
     bind_result (attribute_of (ch_dirs s name) ''scaling_governor'') (\<lambda>gov.
     bind_result (integer_of (ch_dirs s name) ''scaling_min_freq'') (\<lambda>least.
     bind_result (integer_of (ch_dirs s name) ''scaling_max_freq'') (\<lambda>most.
     Inr \<lparr>cpus = related, driver = drv, governor = gov, minimum = least, maximum = most, frequencies = freqs\<rparr>))))), s)" for freqs
    by (intro bind_stays quiet_read quiet_integer assms) (simp add: ret_def)
  show ?thesis
    unfolding read_policy_def policy_of_def table_of_def Let_def
    by (cases "attribute_of (ch_dirs s name) ''stats/time_in_state''")
       (auto simp: quiet_read [OF assms] require_cpu_def run_simps later bind_io_def [of "when_raise _ _"])
qed

text \<open>An undisturbed host that shows the given policies.\<close>

definition visible :: "cpu_host \<Rightarrow> policies \<Rightarrow> bool" where
  "visible s rows \<longleftrightarrow> ch_events s = [] \<and> ch_guards s = [] \<and> policy_names s = set (map fst CAPS)
     \<and> map fst rows = map fst CAPS \<and> list_all (\<lambda>(name, p). policy_of (ch_dirs s name) = Inr p) rows"

lemma quiet_snapshot:
  assumes "visible s rows"
  shows "cpu_snapshot s = (Inr rows, s)"
proof -
  have "list_all (\<lambda>(name, p). policy_of (ch_dirs s name) = Inr p) xs \<Longrightarrow> read_policies (map fst xs) s = (Inr xs, s)" for xs
    using assms by (induction xs) (auto simp: visible_def quiet_read_policy ret_def)
  from this [of rows] assms show ?thesis
    by (simp add: cpu_snapshot_def visible_def bind_io_def require_cpu_def run_simps)
qed

lemma quiet_guard: "visible s rows \<Longrightarrow> cpu_guard s = (Inr (), s)"
  by (simp add: visible_def cpu_guard_def)

subsection \<open>A request is visible at once\<close>

definition set_rows :: "string \<Rightarrow> nat \<Rightarrow> policies \<Rightarrow> policies" where
  "set_rows name v rows = map (\<lambda>(n, p). (n, if n = name then p\<lparr>maximum := v\<rparr> else p)) rows"

lemma map_fst_set_rows [simp]: "map fst (set_rows name v rows) = map fst rows"
  by (auto simp: set_rows_def)

definition set_dir :: "nat \<Rightarrow> policy_dir \<Rightarrow> policy_dir" where
  "set_dir v d = d\<lparr>pd_attributes := (''scaling_max_freq'', show_nat v @ [LF])
     # filter (\<lambda>(f, _). f \<noteq> ''scaling_max_freq'') (pd_attributes d)\<rparr>"

lemma attribute_set_other: "field \<noteq> ''scaling_max_freq'' \<Longrightarrow> attribute_of (set_dir v d) field = attribute_of d field"
  by (auto simp: attribute_of_def set_dir_def map_of_filter_key split: option.splits)

lemma is_number_show: "is_number (show_nat v)"
  by (auto simp: is_number_def list_all_iff show_nat_digits)

lemma integer_set:
  assumes d: "attribute_of d ''scaling_max_freq'' = Inr x" and v: "v < 10 ^ 9"
  shows "integer_of (set_dir v d) ''scaling_max_freq'' = Inr v"
proof -
  have "length (show_nat v) \<le> 9" by (rule length_show_nat) (use v in simp_all)
  moreover have "list_all is_ascii (show_nat v)"
    by (auto simp: list_all_iff is_ascii_def is_digit_def dest!: show_nat_digits)
  ultimately have "attribute_of (set_dir v d) ''scaling_max_freq'' = Inr (show_nat v)"
    using d by (auto simp: attribute_of_def set_dir_def strip_show_nat is_ascii_def split: option.splits if_splits)
  then show ?thesis by (simp add: integer_of_def is_number_show)
qed

lemma policy_set:
  assumes "policy_of d = Inr p" and "v < 10 ^ 9"
  shows "policy_of (set_dir v d) = Inr (p\<lparr>maximum := v\<rparr>)"
proof -
  from assms(1) obtain x where x: "attribute_of d ''scaling_max_freq'' = Inr x"
    by (auto simp: policy_of_def integer_of_def bind_result_eq_Inr)
  have "table_of (set_dir v d) = table_of d" "integer_of (set_dir v d) ''scaling_min_freq'' = integer_of d ''scaling_min_freq''"
    by (simp_all add: table_of_def integer_of_def attribute_set_other)
  with assms(1) show ?thesis
    by (auto simp: policy_of_def attribute_set_other integer_set [OF x assms(2)] bind_result_eq_Inr)
qed

lemma quiet_set_maximum:
  assumes s: "visible s rows" and name: "name \<in> set (map fst CAPS)" and v: "0 < v" "v \<le> 3000000"
  shows "\<exists>t. set_maximum name v s = (Inr (), t) \<and> visible t (set_rows name v rows)
     \<and> ch_now t = ch_now s \<and> ch_entered t = ch_entered s \<and> ch_observed t = ch_observed s"
proof -
  let ?t = "take_request quiet_event name v s"
  have t: "?t = s\<lparr>ch_requests := (name, v) # ch_requests s, ch_dirs := (ch_dirs s)(name := set_dir v (ch_dirs s name))\<rparr>"
    by (simp add: take_request_def quiet_event_def set_attribute_def set_dir_def Let_def)
  from s name have "name \<in> set (map fst rows)" by (simp add: visible_def)
  then obtain p where "(name, p) \<in> set rows" by auto
  with s have p: "policy_of (ch_dirs s name) = Inr p" by (auto simp: visible_def list_all_iff)
  then obtain x where x: "attribute_of (ch_dirs s name) ''scaling_max_freq'' = Inr x"
    by (auto simp: policy_of_def integer_of_def bind_result_eq_Inr)
  from s have quiet: "next_cpu_event s = (quiet_event, s)" by (simp add: visible_def next_cpu_event_def)
  have fault: "ev_fault quiet_event = NoFault" by (simp add: quiet_event_def)
  have "write_opened quiet_event name v s = (Inr (), ?t)"
    using x by (auto simp: write_opened_def opened_attribute_def same_policy_def require_cpu_def attribute_of_def bind_io_def
        run_simps t set_dir_def fault split: option.splits if_splits)
  then have "set_maximum name v s = (Inr (), ?t)"
    using name v quiet by (simp add: set_maximum_def)
  moreover have "visible ?t (set_rows name v rows)"
    unfolding visible_def
  proof (intro conjI)
    show "list_all (\<lambda>(n, p). policy_of (ch_dirs ?t n) = Inr p) (set_rows name v rows)"
      using s v by (auto simp: visible_def list_all_iff set_rows_def t intro!: policy_set)
  qed (use s in \<open>auto simp: t visible_def policy_names_def\<close>)
  ultimately show ?thesis by (intro exI [of _ ?t]) (simp add: t)
qed

lemma quiet_settled:
  assumes "visible s rows" and "pick rows = Inr after"
  shows "settled pick before after s = (Inr (), s)"
  using assms quiet_snapshot [OF assms(1)]
  by (simp add: settled_def settle_loop.simps bind_io_def run_simps SETTLE_def)

subsection \<open>Applying and restoring\<close>

lemma with_caps_step: "set_rows name (cap_of name) (with_caps E original) = with_caps (E @ [name]) original"
  by (auto simp: set_rows_def with_caps_def)

lemma cap_bounds: "name \<in> set (map fst CAPS) \<Longrightarrow> 0 < cap_of name \<and> cap_of name \<le> 3000000"
  by (auto simp: CAPS_def cap_of_def)

lemma visible_entered [simp]: "visible (s\<lparr>ch_entered := E\<rparr>) rows = visible s rows"
  by (simp add: visible_def policy_names_def)

lemma quiet_apply:
  assumes s: "visible s (with_caps (ch_entered s) original)" and name: "name \<in> set (map fst CAPS)"
  shows "\<exists>t. apply_cap original name s = (Inr (), t) \<and> visible t (with_caps (ch_entered t) original)
     \<and> ch_entered t = ch_entered s @ [name] \<and> ch_now t = ch_now s \<and> ch_observed t = ch_observed s"
proof -
  let ?E = "ch_entered s @ [name]" and ?u = "s\<lparr>ch_entered := ch_entered s @ [name]\<rparr>"
  have "visible ?u (with_caps (ch_entered s) original)" using s by simp
  from quiet_set_maximum [OF this name, of "cap_of name"] cap_bounds [OF name]
  obtain t where t: "set_maximum name (cap_of name) ?u = (Inr (), t)" "visible t (with_caps ?E original)"
    "ch_now t = ch_now s" "ch_entered t = ?E" "ch_observed t = ch_observed s"
    by (auto simp: with_caps_step)
  have "apply_cap original name s = (Inr (), t)"
    using quiet_settled [OF t(2), of Inr] t(1) quiet_guard [OF s] quiet_snapshot [OF s]
    by (simp add: apply_cap_def bind_io_def require_cpu_def run_simps)
  with t show ?thesis by (intro exI [of _ t]) simp
qed

lemma quiet_apply_all:
  assumes "visible s (with_caps (ch_entered s) original)" and "set names \<subseteq> set (map fst CAPS)"
  shows "\<exists>t. for_each (apply_cap original) names s = (Inr (), t) \<and> visible t (with_caps (ch_entered t) original)
     \<and> ch_entered t = ch_entered s @ names \<and> ch_now t = ch_now s \<and> ch_observed t = ch_observed s"
  using assms
proof (induction names arbitrary: s)
  case Nil
  then show ?case by (simp add: ret_def)
next
  case (Cons name names)
  from Cons.prems quiet_apply [of s original name] obtain u where
    u: "apply_cap original name s = (Inr (), u)" "visible u (with_caps (ch_entered u) original)"
      "ch_entered u = ch_entered s @ [name]" "ch_now u = ch_now s" "ch_observed u = ch_observed s" by auto
  from Cons.IH [OF u(2)] Cons.prems obtain t where
    t: "for_each (apply_cap original) names u = (Inr (), t)" "visible t (with_caps (ch_entered t) original)"
      "ch_entered t = ch_entered u @ names" "ch_now t = ch_now u" "ch_observed t = ch_observed u" by auto
  from t u show ?case by (intro exI [of _ t]) simp
qed

text \<open>A maximum the transaction finds but refuses to write back.\<close>

definition stuck :: "policies \<Rightarrow> string \<Rightarrow> bool" where
  "stuck original name = (case map_of original name of None \<Rightarrow> False | Some p \<Rightarrow> 3000000 < maximum p)"

lemma with_caps_undo:
  assumes "distinct (map fst original)" and "map_of original name = Some prior"
  shows "set_rows name (maximum prior) (with_caps E original) = with_caps (filter (\<lambda>n. n \<noteq> name) E) original"
proof -
  have same: "p = prior" if "(name, p) \<in> set original" for p
    using that assms by (metis map_of_is_SomeI option.inject)
  show ?thesis
    unfolding set_rows_def with_caps_def map_map
  proof (rule map_cong [OF refl])
    fix x
    assume x: "x \<in> set original"
    obtain n p where p: "x = (n, p)" by (cases x)
    have "p\<lparr>maximum := maximum prior\<rparr> = p" if "n = name"
      using same [of p] x p that by simp
    then show "((\<lambda>(n, p). (n, if n = name then p\<lparr>maximum := maximum prior\<rparr> else p))
        \<circ> (\<lambda>(name, p). (name, if name \<in> set E then p\<lparr>maximum := cap_of name\<rparr> else p))) x
      = (case x of (m, p) \<Rightarrow> (m, if m \<in> set (filter (\<lambda>n. n \<noteq> name) E) then p\<lparr>maximum := cap_of m\<rparr> else p))"
      unfolding p by (cases "n = name") simp_all
  qed
qed

lemma with_caps_row:
  "map_of (with_caps E original) name = map_option (\<lambda>p. if name \<in> set E then p\<lparr>maximum := cap_of name\<rparr> else p) (map_of original name)"
  by (induction original) (auto simp: with_caps_def)

lemma map_fst_with_caps [simp]: "map fst (with_caps E original) = map fst original"
  by (auto simp: with_caps_def)

lemma quiet_restore:
  assumes s: "visible s (with_caps E original)" and prior: "map_of original name = Some prior" and pos: "0 < maximum prior"
  obtains (restored) t where "\<not> stuck original name" "restore_policy original name s = (Inr (), t)"
      "visible t (with_caps (filter (\<lambda>n. n \<noteq> name) E) original)" "ch_entered t = ch_entered s" "ch_observed t = ch_observed s"
  | (refused) "stuck original name" "restore_policy original name s = (Inl (ValueError ''invalid maximum write''), s)"
proof -
  let ?current = "if name \<in> set E then prior\<lparr>maximum := cap_of name\<rparr> else prior"
  have row: "map_of (with_caps E original) name = Some ?current" by (simp add: with_caps_row prior)
  have run: "restore_policy original name s = bind_io (set_maximum name (maximum prior)) (\<lambda>_. settled (pick_policy name) ?current prior) s"
    using quiet_snapshot [OF s]
    by (simp add: restore_policy_def pick_policy_def option_result_def row prior bind_io_def require_cpu_def run_simps)
  from s have keys: "map fst original = map fst CAPS" by (simp add: visible_def)
  then have distinct: "distinct (map fst original)" by (simp add: CAPS_def)
  from prior have "name \<in> fst ` set original" by (metis domI dom_map_of_conv_image_fst)
  then have name: "name \<in> set (map fst CAPS)" by (simp add: keys [symmetric])
  show ?thesis
  proof (cases "stuck original name")
    case True
    then have "restore_policy original name s = (Inl (ValueError ''invalid maximum write''), s)"
      unfolding run by (simp add: stuck_def prior bind_io_def set_maximum_def)
    with True show ?thesis by (rule refused)
  next
    case False
    then have "maximum prior \<le> 3000000" by (simp add: stuck_def prior)
    from quiet_set_maximum [OF s name pos this, unfolded with_caps_undo [OF distinct prior]] obtain t where
      t: "set_maximum name (maximum prior) s = (Inr (), t)" "ch_entered t = ch_entered s" "ch_observed t = ch_observed s"
        and v: "visible t (with_caps (filter (\<lambda>n. n \<noteq> name) E) original)"
      by blast
    have "pick_policy name (with_caps (filter (\<lambda>n. n \<noteq> name) E) original) = Inr prior"
      by (simp add: pick_policy_def option_result_def with_caps_row prior)
    from quiet_settled [of t _ "pick_policy name", OF v this] t run have "restore_policy original name s = (Inr (), t)" by simp
    with False v t show ?thesis by (intro restored)
  qed
qed

lemma quiet_restore_all:
  assumes "visible s (with_caps E original)" and "set names \<subseteq> set (map fst original)"
    and "list_all (\<lambda>(_, p). 0 < maximum p) original"
  shows "\<exists>t. restore_all original names s = (Inr (filter (stuck original) names), t)
     \<and> visible t (with_caps (filter (\<lambda>n. n \<in> set names \<longrightarrow> stuck original n) E) original)
     \<and> ch_entered t = ch_entered s \<and> ch_observed t = ch_observed s"
  using assms
proof (induction names arbitrary: s E)
  case Nil
  then show ?case by (simp add: ret_def)
next
  case (Cons name names)
  from Cons.prems(2) obtain prior where prior: "map_of original name = Some prior" by (auto simp: map_of_eq_None_iff dest: map_of_SomeD)
      (metis domD dom_map_of_conv_image_fst fst_conv imageI)
  with Cons.prems(3) have "0 < maximum prior" by (auto simp: list_all_iff dest!: map_of_SomeD)
  show ?case
  proof (cases rule: quiet_restore [OF Cons.prems(1) prior \<open>0 < maximum prior\<close>, case_names restored refused])
    case (restored u)
    from Cons.IH [OF restored(3)] Cons.prems obtain t where
      t: "restore_all original names u = (Inr (filter (stuck original) names), t)"
        "visible t (with_caps (filter (\<lambda>n. n \<in> set names \<longrightarrow> stuck original n) (filter (\<lambda>n. n \<noteq> name) E)) original)"
        "ch_entered t = ch_entered u" "ch_observed t = ch_observed u" by auto
    have eq: "filter (\<lambda>n. n \<in> set names \<longrightarrow> stuck original n) (filter (\<lambda>n. n \<noteq> name) E)
       = filter (\<lambda>n. n \<in> set (name # names) \<longrightarrow> stuck original n) E"
      unfolding filter_filter by (rule filter_cong [OF refl]) (use restored(1) in auto)
    have "restore_all original (name # names) s = (Inr (filter (stuck original) (name # names)), t)"
      using t(1) restored(1,2) by (simp add: bind_io_def try_except_def run_simps)
    with t(2) [unfolded eq] t(3,4) restored(4,5) show ?thesis by auto
  next
    case refused
    from Cons.IH [OF Cons.prems(1)] Cons.prems obtain t where
      t: "restore_all original names s = (Inr (filter (stuck original) names), t)"
        "visible t (with_caps (filter (\<lambda>n. n \<in> set names \<longrightarrow> stuck original n) E) original)"
        "ch_entered t = ch_entered s" "ch_observed t = ch_observed s" by auto
    have eq: "filter (\<lambda>n. n \<in> set names \<longrightarrow> stuck original n) E = filter (\<lambda>n. n \<in> set (name # names) \<longrightarrow> stuck original n) E"
      by (rule filter_cong [OF refl]) (use refused(1) in auto)
    have "restore_all original (name # names) s = (Inr (filter (stuck original) (name # names)), t)"
      using t(1) refused by (simp add: bind_io_def try_except_def run_simps)
    with t(2) [unfolded eq] t(3,4) show ?thesis by blast
  qed
qed

subsection \<open>The lease\<close>

lemma visible_clock [simp]: "visible (s\<lparr>ch_now := n\<rparr>) rows = visible s rows" "visible (s\<lparr>ch_observed := o'\<rparr>) rows = visible s rows"
  "visible (s\<lparr>ch_timer := k\<rparr>) rows = visible s rows" "visible (set_handlers hs s) rows = visible s rows"
  by (simp_all add: visible_def policy_names_def set_handlers_def)

lemma quiet_sample:
  assumes "visible s rows" and "maxima rows = CAPS"
  shows "lease_sample s = (Inr (), s\<lparr>ch_observed := ch_observed s @ [rows]\<rparr>)"
  using quiet_guard [OF assms(1)] quiet_snapshot [OF assms(1)] assms(2)
  by (simp add: lease_sample_def bind_io_def require_cpu_def run_simps)

lemma quiet_lease_loop:
  assumes "visible s rows" and "maxima rows = CAPS" and "deadline = ch_now s + int k * 1000000000"
  shows "lease_loop start deadline count s
     = (Inr (deadline - start, count + k), s\<lparr>ch_now := deadline, ch_observed := ch_observed s @ replicate k rows\<rparr>)"
  using assms
proof (induction k arbitrary: s count)
  case 0
  then show ?case by (simp add: lease_loop.simps)
next
  case (Suc k)
  let ?u = "s\<lparr>ch_observed := ch_observed s @ [rows], ch_now := ch_now s + 1000000000\<rparr>"
  have "lease_loop start deadline count s = lease_loop start deadline (count + 1) ?u"
    using Suc.prems by (subst lease_loop.simps) (simp add: quiet_sample [OF Suc.prems(1,2)] pause_def modify_def algebra_simps)
  also have "\<dots> = (Inr (deadline - start, count + 1 + k), ?u\<lparr>ch_now := deadline, ch_observed := ch_observed ?u @ replicate k rows\<rparr>)"
    using Suc.prems by (intro Suc.IH) (simp_all add: algebra_simps)
  finally show ?case by simp
qed

lemma quiet_lease_action:
  assumes "visible s rows" and "maxima rows = CAPS"
  shows "lease_action k s = (Inr (int k * 1000000000, k),
     s\<lparr>ch_now := ch_now s + int k * 1000000000, ch_observed := ch_observed s @ replicate k rows\<rparr>)"
  using quiet_lease_loop [OF assms refl, of "ch_now s" k 0] by (simp add: lease_action_def bind_io_def run_simps)

lemma with_caps_none: "with_caps [] original = original"
  by (induction original) (auto simp: with_caps_def)

lemma maxima_caps:
  assumes "map fst original = map fst CAPS"
  shows "maxima (with_caps (map fst CAPS) original) = CAPS"
proof -
  have known: "fst x \<in> set (map fst CAPS)" if "x \<in> set original" for x
    using that by (simp add: assms [symmetric])
  have "maxima (with_caps (map fst CAPS) original) = map (\<lambda>n. (n, cap_of n)) (map fst original)"
    unfolding maxima_def with_caps_def map_map
    by (rule map_cong [OF refl]) (use known in \<open>auto simp: case_prod_beta simp del: set_map\<close>)
  then show ?thesis by (simp add: assms CAPS_def cap_of_def)
qed

lemma validate_positive: "validate_policies original = Inr () \<Longrightarrow> list_all (\<lambda>(_, p). 0 < maximum p) original"
proof -
  have "fold_result validate_policy rows () = Inr () \<Longrightarrow> list_all (\<lambda>(_, p). 0 < maximum p) rows" for rows
    by (induction rows) (auto simp: validate_policy_def bind_result_eq_Inr split: if_splits)
  then show "validate_policies original = Inr () \<Longrightarrow> ?thesis" by (simp add: validate_policies_def split: if_splits)
qed

definition unrestored :: "policies \<Rightarrow> string list" where
  "unrestored original = filter (stuck original) (rev (map fst CAPS))"

lemma quiet_protected:
  assumes s: "visible s original" and entered: "ch_entered s = []" and valid: "validate_policies original = Inr ()"
  shows "\<exists>t. cap_protected original (lease_action k) s
       = (if unrestored original = []
          then Inr \<lparr>cr_before = original, cr_during = with_caps (map fst CAPS) original, cr_after = original,
                 cr_action = (int k * 1000000000, k), cr_retained = False\<rparr>
          else Inl (ValueError (''restoration incomplete: '' @ join ''; '' (unrestored original))), t)
     \<and> visible t (with_caps (filter (stuck original) (map fst CAPS)) original)
     \<and> ch_observed t = ch_observed s @ replicate k (with_caps (map fst CAPS) original)"
proof -
  let ?C = "map fst CAPS" and ?D = "with_caps (map fst CAPS) original"
  from s have keys: "map fst original = ?C" by (simp add: visible_def)
  from quiet_apply_all [of s original ?C] s entered obtain t1 where
    t1: "for_each (apply_cap original) ?C s = (Inr (), t1)" "visible t1 ?D" "ch_entered t1 = ?C" "ch_observed t1 = ch_observed s"
    by (auto simp: with_caps_none)
  define t2 where "t2 = t1\<lparr>ch_now := ch_now t1 + int k * 1000000000, ch_observed := ch_observed t1 @ replicate k ?D\<rparr>"
  have body: "cap_body original (lease_action k) False s = (Inr (?D, int k * 1000000000, k), t2)"
    using t1(1) quiet_guard [OF t1(2)] quiet_snapshot [OF t1(2)] quiet_lease_action [OF t1(2) maxima_caps [OF keys], of k]
    by (simp add: cap_body_def bind_io_def run_simps t2_def)
  have v2: "visible t2 ?D" and e2: "ch_entered t2 = ?C" using t1 by (simp_all add: t2_def)
  from quiet_restore_all [OF v2, of "rev ?C"] validate_positive [OF valid] keys obtain t where
    t: "restore_all original (rev ?C) t2 = (Inr (unrestored original), t)"
      "visible t (with_caps (filter (\<lambda>n. n \<in> set (rev ?C) \<longrightarrow> stuck original n) ?C) original)" "ch_observed t = ch_observed t2"
    by (auto simp: unrestored_def)
  have eq: "filter (\<lambda>n. n \<in> set (rev ?C) \<longrightarrow> stuck original n) ?C = filter (stuck original) ?C"
    by (rule filter_cong) simp_all
  note v = t(2) [unfolded eq]
  have seen: "ch_observed t = ch_observed s @ replicate k ?D" using t(3) t1 by (simp add: t2_def)
  have undo: "restore_entered original t2 = (if unrestored original = [] then Inr ()
      else Inl (ValueError (''restoration incomplete: '' @ join ''; '' (unrestored original))), t)"
    using t(1) e2 by (simp add: restore_entered_def bind_io_def run_simps)
  show ?thesis
  proof (cases "unrestored original = []")
    case True
    then have "filter (stuck original) ?C = []" by (simp add: unrestored_def filter_empty_conv)
    with v have "visible t original" by (simp add: with_caps_none)
    from quiet_snapshot [OF this] body undo True v seen show ?thesis
      by (intro exI [of _ t]) (simp add: cap_protected_def try_finally_def bind_io_def require_cpu_def run_simps)
  next
    case False
    with body undo v seen show ?thesis
      by (intro exI [of _ t]) (simp add: cap_protected_def try_finally_def bind_io_def)
  qed
qed

lemma quiet_run:
  assumes s: "visible s original" and valid: "validate_policies original = Inr ()"
  shows "run_caps action False s = cap_protected original action (s\<lparr>ch_entered := []\<rparr>)"
  using quiet_guard [OF s] quiet_snapshot [OF s] valid
  by (simp add: run_caps_protected bind_io_def run_simps)

lemma quiet_lease:
  assumes s: "visible s original" and valid: "validate_policies original = Inr ()"
    and k: "1 \<le> k" "k \<le> 720" and timer: "ch_timer s = 0"
  shows "\<exists>t. lease k s
       = (if unrestored original = []
          then Inr \<lparr>cr_before = original, cr_during = with_caps (map fst CAPS) original, cr_after = original,
                 cr_action = (int k * 1000000000, k), cr_retained = False\<rparr>
          else Inl (ValueError (''restoration incomplete: '' @ join ''; '' (unrestored original))), t)
     \<and> visible t (with_caps (filter (stuck original) (map fst CAPS)) original)
     \<and> ch_observed t = ch_observed s @ replicate k (with_caps (map fst CAPS) original)"
proof -
  let ?in = "(set_handlers (map (\<lambda>sig. (sig, ''interrupted'')) SIGNALS) s)\<lparr>ch_timer := k + 15\<rparr>"
  let ?previous = "map (\<lambda>sig. (sig, handler_of s sig)) SIGNALS"
  have vis: "visible ?in original" using s by simp
  have "visible (?in\<lparr>ch_entered := []\<rparr>) original" using vis by (simp only: visible_entered)
  from quiet_protected [OF this _ valid, of k] obtain t where
    t: "cap_protected original (lease_action k) (?in\<lparr>ch_entered := []\<rparr>)
       = (if unrestored original = []
          then Inr \<lparr>cr_before = original, cr_during = with_caps (map fst CAPS) original, cr_after = original,
                 cr_action = (int k * 1000000000, k), cr_retained = False\<rparr>
          else Inl (ValueError (''restoration incomplete: '' @ join ''; '' (unrestored original))), t)"
      "visible t (with_caps (filter (stuck original) (map fst CAPS)) original)"
      "ch_observed t = ch_observed s @ replicate k (with_caps (map fst CAPS) original)"
    by (auto simp: set_handlers_def)
  have run: "lease k s = (fst (run_caps (lease_action k) False ?in), set_handlers ?previous ((snd (run_caps (lease_action k) False ?in))\<lparr>ch_timer := 0\<rparr>))"
    using k timer by (simp add: lease_def bind_io_def require_cpu_def run_simps try_finally_def split: prod.splits)
  let ?t = "set_handlers ?previous (t\<lparr>ch_timer := 0\<rparr>)"
  have "visible ?t (with_caps (filter (stuck original) (map fst CAPS)) original)" using t(2) by simp
  moreover have "ch_observed ?t = ch_observed s @ replicate k (with_caps (map fst CAPS) original)"
    using t(3) by (simp add: set_handlers_def)
  ultimately show ?thesis unfolding run quiet_run [OF vis valid] t(1) by auto
qed

text \<open>
  C34. With no delay, failure or other writer, on policies that pass the check and whose maxima are at most 3 GHz, a lease of
  1 to 720 seconds succeeds: it takes one sample a second and each shows exactly the three caps, its report has the original
  policies before and after, and the original policies are what the kernel shows when it ends.
\<close>

theorem undisturbed_lease:
  assumes "visible s original" and "validate_policies original = Inr ()" and "1 \<le> k" "k \<le> 720" and "ch_timer s = 0"
    and "list_all (\<lambda>(_, p). maximum p \<le> 3000000) original"
  shows "\<exists>t. lease k s = (Inr \<lparr>cr_before = original, cr_during = with_caps (map fst CAPS) original, cr_after = original,
       cr_action = (int k * 1000000000, k), cr_retained = False\<rparr>, t)
     \<and> visible t original \<and> ch_observed t = ch_observed s @ replicate k (with_caps (map fst CAPS) original)
     \<and> maxima (with_caps (map fst CAPS) original) = CAPS"
proof -
  have none: "\<not> stuck original n" for n
    using assms(6) by (auto simp: stuck_def list_all_iff not_less split: option.splits dest!: map_of_SomeD)
  then have "unrestored original = []" "filter (stuck original) (map fst CAPS) = []"
    by (simp_all add: unrestored_def)
  moreover have "map fst original = map fst CAPS" using assms(1) by (simp add: visible_def)
  ultimately show ?thesis
    using quiet_lease [OF assms(1-5)] maxima_caps by (auto simp: with_caps_none)
qed

text \<open>
  A maximum above 3 GHz passes the check of the found policies, but the bound on a write keeps the transaction from
  putting it back: with no disturbance at all the lease reports an incomplete restoration, and the cap of that policy stays.
\<close>

theorem high_maximum_not_restored:
  assumes "visible s original" and "validate_policies original = Inr ()" and "1 \<le> k" "k \<le> 720" and "ch_timer s = 0"
    and "map_of original name = Some prior" and "3000000 < maximum prior"
  shows "\<exists>why t rows. lease k s = (Inl (ValueError (''restoration incomplete: '' @ why)), t)
     \<and> visible t rows \<and> map_of rows name = Some (prior\<lparr>maximum := cap_of name\<rparr>)"
proof -
  from assms(1) have keys: "map fst original = map fst CAPS" by (simp add: visible_def)
  from assms(6) have "name \<in> set (map fst original)" by (metis domI dom_map_of_conv_image_fst set_map)
  then have name: "name \<in> set (map fst CAPS)" by (simp only: keys)
  have stuck: "stuck original name" using assms(6,7) by (simp add: stuck_def)
  with name have "unrestored original \<noteq> []" by (auto simp: unrestored_def filter_empty_conv)
  moreover have "map_of (with_caps (filter (stuck original) (map fst CAPS)) original) name = Some (prior\<lparr>maximum := cap_of name\<rparr>)"
    using name stuck assms(6) by (simp add: with_caps_row)
  ultimately show ?thesis using quiet_lease [OF assms(1-5)] by auto
qed

subsection \<open>An example\<close>

definition sample_dir :: "string \<Rightarrow> string \<Rightarrow> string \<Rightarrow> policy_dir" where
  "sample_dir related table most =
     \<lparr>pd_safe = True, pd_attributes = [(''related_cpus'', related), (''scaling_driver'', ''qcom-cpufreq-hw''),
        (''scaling_governor'', ''schedutil''), (''scaling_min_freq'', ''300000''), (''scaling_max_freq'', most),
        (''stats/time_in_state'', table)], pd_unsafe = []\<rparr>"

definition sample_host :: "string \<Rightarrow> cpu_host" where
  "sample_host most =
     \<lparr>ch_now = 0, ch_listing = [''boost'', ''policy0'', ''policy4'', ''policy7''],
      ch_dirs = (\<lambda>n. if n = ''policy0'' then sample_dir ''0 1 2 3'' ''1209600 5'' ''1804800''
        else if n = ''policy4'' then sample_dir ''4 5 6'' ''1555200 5'' ''2419200'' else sample_dir ''7'' ''1555200 5'' most),
      ch_events = [], ch_guards = [], ch_requests = [], ch_entered = [], ch_observed = [], ch_timer = 0, ch_handlers = []\<rparr>"

definition sample_policies :: "nat \<Rightarrow> policies" where
  "sample_policies most =
     (let p = \<lparr>cpus = ''7'', driver = ''qcom-cpufreq-hw'', governor = ''schedutil'', minimum = 300000, maximum = most,
        frequencies = [1555200]\<rparr> in
      [(''policy0'', p\<lparr>cpus := ''0 1 2 3'', maximum := 1804800, frequencies := [1209600]\<rparr>),
       (''policy4'', p\<lparr>cpus := ''4 5 6'', maximum := 2419200\<rparr>), (''policy7'', p)])"

lemma sample_strips:
  "strip ''0 1 2 3'' = ''0 1 2 3''" "strip ''4 5 6'' = ''4 5 6''" "strip ''7'' = ''7''"
  "strip ''qcom-cpufreq-hw'' = ''qcom-cpufreq-hw''" "strip ''schedutil'' = ''schedutil''"
  "strip ''1209600 5'' = ''1209600 5''" "strip ''1555200 5'' = ''1555200 5''" "strip ''300000'' = ''300000''"
  "strip ''1804800'' = ''1804800''" "strip ''2419200'' = ''2419200''" "strip ''2841600'' = ''2841600''"
  "strip ''3187200'' = ''3187200''"
  by code_simp+

lemma sample_lines: "splitlines ''1209600 5'' = [''1209600 5'']" "splitlines ''1555200 5'' = [''1555200 5'']"
  by code_simp+

lemma sample_dir_policy:
  assumes "related = ''0 1 2 3'' \<or> related = ''4 5 6'' \<or> related = ''7''"
    and "table = ''1209600 5'' \<and> freq = 1209600 \<or> table = ''1555200 5'' \<and> freq = 1555200"
    and "(most, n) \<in> set [(''1804800'', 1804800), (''2419200'', 2419200), (''2841600'', 2841600), (''3187200'', 3187200)]"
  shows "policy_of (sample_dir related table most) = Inr \<lparr>cpus = related, driver = ''qcom-cpufreq-hw'', governor = ''schedutil'',
     minimum = 300000, maximum = n, frequencies = [freq]\<rparr>"
proof -
  let ?d = "sample_dir related table most"
  have "attribute_of ?d ''related_cpus'' = Inr related" "table_of ?d = Inr [freq]"
    "attribute_of ?d ''scaling_driver'' = Inr ''qcom-cpufreq-hw''" "attribute_of ?d ''scaling_governor'' = Inr ''schedutil''"
    "integer_of ?d ''scaling_min_freq'' = Inr 300000" "integer_of ?d ''scaling_max_freq'' = Inr n"
    using assms
    by (auto simp: attribute_of_def integer_of_def table_of_def sample_dir_def sample_strips sample_lines is_number_def is_ascii_def
        read_nat_def is_digit_def Let_def)
  then show ?thesis by (simp add: policy_of_def)
qed

lemma sample_visible:
  "visible (sample_host ''2841600'') (sample_policies 2841600)" "visible (sample_host ''3187200'') (sample_policies 3187200)"
  by (simp_all add: visible_def sample_host_def sample_policies_def policy_names_def CAPS_def sample_dir_policy Let_def)

lemma sample_valid: "validate_policies (sample_policies 2841600) = Inr ()" "validate_policies (sample_policies 3187200) = Inr ()"
  by (simp_all add: validate_policies_def sample_policies_def validate_policy_def policy_identity_ok_def CAPS_def CPUS_def cap_of_def Let_def)

theorem undisturbed_lease_witness:
  "\<exists>t. lease 60 (sample_host ''2841600'')
     = (Inr \<lparr>cr_before = sample_policies 2841600, cr_during = with_caps (map fst CAPS) (sample_policies 2841600),
          cr_after = sample_policies 2841600, cr_action = (60000000000, 60), cr_retained = False\<rparr>, t)"
proof -
  have "list_all (\<lambda>(_, p). maximum p \<le> 3000000) (sample_policies 2841600)" by (simp add: sample_policies_def Let_def)
  from undisturbed_lease [OF sample_visible(1) sample_valid(1) _ _ _ this, of 60] show ?thesis by (auto simp: sample_host_def)
qed

theorem high_maximum_not_restored_witness:
  "\<exists>why t rows. lease 60 (sample_host ''3187200'') = (Inl (ValueError (''restoration incomplete: '' @ why)), t) \<and> visible t rows
     \<and> map_option maximum (map_of rows ''policy7'') = Some 1555200"
proof -
  have "map_of (sample_policies 3187200) ''policy7'' = Some (snd (sample_policies 3187200 ! 2))"
    "3000000 < maximum (snd (sample_policies 3187200 ! 2))" by (simp_all add: sample_policies_def Let_def)
  from high_maximum_not_restored [OF sample_visible(2) sample_valid(2) _ _ _ this, of 60] show ?thesis
    by (fastforce simp: sample_host_def cap_of_def CAPS_def)
qed

theorem caps_undone_or_reported_witness:
  "case run_caps (lease_action 5) False (sample_host ''2841600'') of (r, t) \<Rightarrow>
     allowed (sample_policies 2841600) (ch_requests t) (ch_entered t)
     \<and> (incomplete r \<or> list_all (\<lambda>(name, _). undone (sample_policies 2841600) name (ch_requests t) (ch_entered t)) (ch_requests t))"
proof -
  have "found_policies (sample_host ''2841600'') = sample_policies 2841600"
    using quiet_guard [OF sample_visible(1)] quiet_snapshot [OF sample_visible(1)] by (simp add: found_policies_def)
  moreover have "ch_requests (sample_host ''2841600'') = []" by (simp add: sample_host_def)
  ultimately show ?thesis
    using caps_undone_or_reported [OF surjective_pairing _ lease_action_leaves, of "sample_host ''2841600''" 5]
    by (simp add: case_prod_unfold)
qed

end
