(* ===== verification/Cpu_Policy.thy ===== *)
theory Cpu_Policy
  imports Cpu_Quiet "HOL-Library.Word" Py_Json
begin

section \<open>The boot policy of a headless phone\<close>

text \<open>
  Models \<^verbatim>\<open>scripts/device/headless-cpu-policy.py\<close>: the checks of the running system, the transaction
  that keeps the caps on success, and the program. Everything the checks read is one view of the system; the
  program looks at it first and last, and what its checks say during the transaction is the script of
  verdicts of the host. Shown is that the policies are never left half capped without a report.
\<close>

subsection \<open>The checks\<close>

record p2_file =
  pf_regular :: bool
  pf_uid :: nat
  pf_gid :: nat
  pf_mode :: nat
  pf_links :: nat
  pf_content :: bytes

record boot_view =
  bv_euid :: nat
  bv_compatible :: "bytes result"
  bv_boot_id :: "bytes result"
  bv_record :: "p2_file result"
  bv_release :: string
  bv_health :: "bytes result"
  bv_temp :: "bytes result"
  bv_voltage :: "bytes result"
  bv_online :: "bytes result"
  bv_zones :: "(string \<times> bytes result) list"
  bv_blocks :: "(string \<times> bytes result) list"

definition p2_field :: "string \<Rightarrow> (string \<times> string) list \<Rightarrow> (string \<times> string) list result" where
  "p2_field line sofar =
     (case partition_at (CHR ''='') line of (k, sep, v) \<Rightarrow>
        if sep = [] \<or> k \<in> set (map fst sofar) then Inl (ValueError ''P2 record fields'') else Inr (sofar @ [(k, v)]))"

definition p2_record :: "p2_file result \<Rightarrow> (string \<times> string) list result" where
  "p2_record opened =
     bind_result opened (\<lambda>f.
     if \<not> (pf_regular f \<and> pf_uid f = 0 \<and> pf_gid f = 0 \<and> pf_mode f = 0x124 \<and> pf_links f = 1)
     then Inl (ValueError ''P2 record metadata'')
     else let raw = take 4097 (pf_content f) in
       if \<not> (0 < length raw \<and> length raw \<le> 4096) then Inl (ValueError ''P2 record bound'')
       else if \<not> list_all is_ascii raw then Inl UnicodeError
       else fold_result p2_field (splitlines raw) [])"

definition decoded :: "bytes result \<Rightarrow> string result" where
  "decoded opened = bind_result opened (\<lambda>raw. if utf8_ok raw then Inr (universal_newlines raw) else Inl UnicodeError)"

definition read_stripped :: "bytes result \<Rightarrow> string result" where
  "read_stripped opened = bind_result (decoded opened) (\<lambda>content. Inr (strip content))"

definition read_number :: "string result \<Rightarrow> int result" where
  "read_number opened =
     bind_result opened (\<lambda>content. option_result (ValueError ''invalid literal for int() with base 10'') (read_int content))"

definition boot_id_ok :: "string \<Rightarrow> bool" where
  "boot_id_ok boot \<longleftrightarrow> length boot = 36 \<and> list_all (\<lambda>c. is_hex c \<or> c = CHR ''-'') boot"

definition battery_ok :: "boot_view \<Rightarrow> unit result" where
  "battery_ok v =
     bind_result (read_stripped (bv_health v)) (\<lambda>health.
     if health \<noteq> ''Good'' then Inl (ValueError ''unsafe battery'')
     else bind_result (read_number (read_stripped (bv_temp v))) (\<lambda>temp.
       if \<not> (0 \<le> temp \<and> temp < 400) then Inl (ValueError ''unsafe battery'')
       else bind_result (read_number (read_stripped (bv_voltage v))) (\<lambda>voltage.
         need (7500000 \<le> voltage \<and> voltage \<le> 8800000) (ValueError ''unsafe battery''))))"

definition zone_ok :: "string \<times> bytes result \<Rightarrow> unit \<Rightarrow> unit result" where
  "zone_ok z _ =
     (case z of (name, opened) \<Rightarrow>
        (case read_number (decoded opened) of
           Inl e \<Rightarrow> Inl (ValueError (name @ '' read error''))
         | Inr temperature \<Rightarrow>
             need (temperature < 60000) (ValueError (name @ ''='' @ show_int temperature @ '' mC; required <60000 mC''))))"

definition block_flag :: "string \<times> bytes result \<Rightarrow> (string \<times> string) result" where
  "block_flag b = (case b of (name, opened) \<Rightarrow> bind_result (read_stripped opened) (\<lambda>v. Inr (name, v)))"

definition write_scope_ok :: "(string \<times> string) list \<Rightarrow> bool" where
  "write_scope_ok blocks \<longleftrightarrow> length blocks = 117 \<and> list_all (\<lambda>(_, v). v \<in> {''0'', ''1''}) blocks
     \<and> list_all (\<lambda>(k, v). v = ''0'' \<longrightarrow> k \<in> {''sda'', ''sda23''}) blocks"

definition device_tree :: bytes where
  "device_tree = ''asus,rog-phone5'' @ [CHR 0x00] @ ''qcom,sm8350'' @ [CHR 0x00]"

definition boot_guard :: "boot_view \<Rightarrow> string result" where
  "boot_guard v =
     bind_result (need (bv_euid v = 0) (ValueError ''root required'')) (\<lambda>_.
     bind_result (bv_compatible v) (\<lambda>compatible.
     bind_result (need (compatible = device_tree) (ValueError ''wrong device tree'')) (\<lambda>_.
     bind_result (read_stripped (bv_boot_id v)) (\<lambda>boot.
     bind_result (need (boot_id_ok boot) (ValueError ''boot identity'')) (\<lambda>_.
     bind_result (p2_record (bv_record v)) (\<lambda>p2.
     bind_result (need (map_of p2 ''status'' = Some ''PASS'' \<and> map_of p2 ''attested_boot_id'' = Some boot
        \<and> map_of p2 ''kernel'' = Some (bv_release v)) (ValueError ''current P2 required'')) (\<lambda>_.
     bind_result (need (map_of p2 ''physical_blocks'' = Some ''117'' \<and> map_of p2 ''root_mount'' = Some ''native-root-ro-noload'')
        (ValueError ''native root attestation'')) (\<lambda>_.
     bind_result (battery_ok v) (\<lambda>_.
     bind_result (read_stripped (bv_online v)) (\<lambda>online.
     bind_result (need (online = ''1'') (ValueError ''input power absent'')) (\<lambda>_.
     bind_result (need (bv_zones v \<noteq> []) (ValueError ''unavailable thermal state: no thermal zones'')) (\<lambda>_.
     bind_result (fold_result zone_ok (bv_zones v) ()) (\<lambda>_.
     bind_result (map_result block_flag (bv_blocks v)) (\<lambda>blocks.
     bind_result (need (write_scope_ok blocks) (ValueError ''storage write scope'')) (\<lambda>_.
     Inr boot)))))))))))))))"

subsection \<open>Applying the policy\<close>

definition apply_policy :: "(cpu_host, unit cap_result) io" where
  "apply_policy =
     bind_io (gets ch_timer) (\<lambda>timer.
     bind_io (require_cpu (timer = 0) ''existing timer'') (\<lambda>_.
     bind_io (gets (\<lambda>s. map (\<lambda>sig. (sig, handler_of s sig)) SIGNALS)) (\<lambda>previous.
     try_finally
       (bind_io (modify (set_handlers (map (\<lambda>sig. (sig, ''interrupted'')) SIGNALS))) (\<lambda>_.
        bind_io (modify (\<lambda>s. s\<lparr>ch_timer := 10\<rparr>)) (\<lambda>_.
        run_caps (ret ()) True)))
       (bind_io (modify (\<lambda>s. s\<lparr>ch_timer := 0\<rparr>)) (\<lambda>_. modify (set_handlers previous))))))"

definition open_policies :: "(cpu_host, unit) io" where
  "open_policies =
     bind_io (gets policy_names) (\<lambda>names.
     bind_io (require_cpu (names = set (map fst CAPS)) ''sysfs policy set'') (\<lambda>_.
     for_each same_policy (map fst CAPS)))"

definition core_metadata_ok :: "p2_file \<Rightarrow> bool" where
  "core_metadata_ok f \<longleftrightarrow> pf_regular f \<and> pf_uid f = 0 \<and> pf_gid f = 0 \<and> pf_links f = 1 \<and> pf_mode f = 0x1A4"

definition policy_main :: "boot_view \<Rightarrow> p2_file result \<Rightarrow> boot_view \<Rightarrow> (cpu_host, string \<times> unit cap_result) io" where
  "policy_main first core final =
     bind_io (lift_result (boot_guard first)) (\<lambda>_.
     bind_io (lift_result core) (\<lambda>f.
     bind_io (require_cpu (core_metadata_ok f) ''core metadata'') (\<lambda>_.
     bind_io open_policies (\<lambda>_.
     bind_io apply_policy (\<lambda>result.
     bind_io (lift_result (boot_guard final)) (\<lambda>boot.
     ret (boot, result)))))))"

subsection \<open>Never half capped\<close>

definition capped :: "(string \<times> nat) list \<Rightarrow> string list \<Rightarrow> bool" where
  "capped requests entered \<longleftrightarrow> list_all (\<lambda>n. map_of requests n = Some (cap_of n)) entered"

lemma apply_cap_capped:
  assumes run: "apply_cap original name s = (Inr (), t)" and s: "on_requests capped s"
  shows "on_requests capped t \<and> ch_entered t = ch_entered s @ [name]"
proof -
  from run obtain u current v w where
    u: "cpu_guard s = (Inr (), u)" and v: "cpu_snapshot u = (Inr current, v)"
    and w: "set_maximum name (cap_of name) (v\<lparr>ch_entered := ch_entered v @ [name]\<rparr>) = (Inr (), w)"
    and t: "settled Inr current (with_caps (ch_entered v @ [name]) original) w = (Inr (), t)"
    by (auto simp: apply_cap_def bind_io_eq_Inr gets_def modify_def require_cpu_def when_raise_def split: if_splits)
  let ?P = "\<lambda>q e. capped q e \<and> e = ch_entered s"
  have "on_requests ?P s" using s by (simp add: on_requests_def)
  from keepsD [OF keeps_requests_guard this u] have "on_requests ?P u" .
  from keepsD [OF keeps_requests_snapshot this v] have v': "on_requests ?P v" .
  let ?Q = "\<lambda>q e. capped q e \<and> e = ch_entered s @ [name]"
  have "on_requests ?Q w"
    using set_maximum_requests [OF w] v' by (auto simp: on_requests_def capped_def list_all_iff)
  from keepsD [OF keeps_requests_settled this t] show ?thesis by (auto simp: on_requests_def)
qed

lemma apply_all_capped:
  "for_each (apply_cap original) names s = (Inr (), t) \<Longrightarrow> on_requests capped s
     \<Longrightarrow> on_requests capped t \<and> ch_entered t = ch_entered s @ names"
proof (induction names arbitrary: s)
  case (Cons name names)
  from Cons.prems(1) obtain u where u: "apply_cap original name s = (Inr (), u)"
    and t: "for_each (apply_cap original) names u = (Inr (), t)" by (auto simp: bind_io_eq_Inr)
  from apply_cap_capped [OF u Cons.prems(2)] Cons.IH [OF t] show ?case by simp
qed (simp add: ret_def)

lemma body_capped:
  assumes run: "cap_body original (ret ()) True s = (Inr x, t)" and s: "on_requests capped s" "ch_entered s = []"
  shows "on_requests (\<lambda>q e. capped q (map fst CAPS)) t"
proof -
  let ?rest = "bind_io cpu_guard (\<lambda>_. bind_io cpu_snapshot (\<lambda>during. bind_io (ret ()) (\<lambda>x.
       bind_io (bind_io cpu_guard (\<lambda>_. bind_io cpu_snapshot (\<lambda>now. require_cpu (now = during) ''policy changed before retention'')))
         (\<lambda>_. ret (during, x)))))"
  from run obtain u where u: "for_each (apply_cap original) (map fst CAPS) s = (Inr (), u)" and t: "?rest u = (Inr x, t)"
    unfolding cap_body_def by (auto simp: bind_io_eq_Inr)
  from apply_all_capped [OF u s(1)] s(2) have u': "on_requests (\<lambda>q e. capped q (map fst CAPS)) u"
    by (auto simp: on_requests_def)
  have "keeps (on_requests (\<lambda>q e. capped q (map fst CAPS))) ?rest" by (intro keeps_intros)
  then show ?thesis using u' t by (rule keepsD)
qed

definition whole_or_undone :: "policies \<Rightarrow> (string \<times> nat) list \<Rightarrow> string list \<Rightarrow> bool" where
  "whole_or_undone original requests entered \<longleftrightarrow> cleared original requests entered \<or> capped requests (map fst CAPS)"

definition cap_retained :: "policies \<Rightarrow> (cpu_host, unit cap_result) io" where
  "cap_retained original =
     bind_io (on_failure (cap_body original (ret ()) True) (restore_entered original)) (\<lambda>(during, x).
     bind_io cpu_snapshot (\<lambda>after.
     bind_io (require_cpu (after = during) ''post-transaction policy changed'') (\<lambda>_.
     ret \<lparr>cr_before = original, cr_during = during, cr_after = after, cr_action = x, cr_retained = True\<rparr>)))"

lemma run_caps_retained:
  "run_caps (ret ()) True =
     bind_io cpu_guard (\<lambda>_.
     bind_io cpu_snapshot (\<lambda>original.
     bind_io (lift_result (validate_policies original)) (\<lambda>_.
     bind_io (modify (\<lambda>s. s\<lparr>ch_entered := []\<rparr>)) (\<lambda>_. cap_retained original))))"
  by (simp add: run_caps_def cap_retained_def)

lemma ret_leaves: "leaves_requests (ret x)"
  by (simp add: leaves_requests_def keeps_ret)

lemma retained_result:
  assumes run: "cap_retained original s = (r, t)" and s: "on_requests (\<lambda>q e. q = [] \<and> e = []) s"
  shows "on_requests (allowed original) t"
    and "incomplete r \<or> on_requests (whole_or_undone original) t"
    and "r = Inr x \<Longrightarrow> on_requests (\<lambda>q e. capped q (map fst CAPS)) t"
proof -
  have allowed: "on_requests (allowed original) s" and fresh: "on_requests capped s" "ch_entered s = []"
    using s by (simp_all add: on_requests_def allowed_def capped_def)
  obtain b u where b: "cap_body original (ret ()) True s = (b, u)" by fastforce
  have u: "on_requests (allowed original) u" by (rule keepsD [OF keeps_body [OF ret_leaves] allowed b])
  have all: "on_requests (allowed original) t \<and> (incomplete r \<or> on_requests (whole_or_undone original) t)
     \<and> (\<forall>x. r = Inr x \<longrightarrow> on_requests (\<lambda>q e. capped q (map fst CAPS)) t)"
  proof (cases b)
    case (Inl e)
    obtain c v where c: "restore_entered original u = (c, v)" by fastforce
    from run b c Inl have t: "t = v" and r: "r = (case c of Inl e' \<Rightarrow> Inl e' | Inr _ \<Rightarrow> Inl e)"
      by (auto simp: cap_retained_def on_failure_def try_except_def bind_io_def raise_def split: sum.splits)
    from restore_entered_result [OF c u] show ?thesis
      by (auto simp: t r incomplete_def on_requests_def whole_or_undone_def cleared_def allowed_def list_all_iff split: sum.splits)
  next
    case (Inr p)
    from body_capped [of original s p u] b Inr fresh have "on_requests (\<lambda>q e. capped q (map fst CAPS)) u" by simp
    with u have both: "on_requests (\<lambda>q e. allowed original q e \<and> capped q (map fst CAPS)) u" by (simp add: on_requests_def)
    have "keeps (on_requests (\<lambda>q e. allowed original q e \<and> capped q (map fst CAPS))) (bind_io cpu_snapshot (\<lambda>after.
       bind_io (require_cpu (after = fst p) ''post-transaction policy changed'') (\<lambda>_.
       ret \<lparr>cr_before = original, cr_during = fst p, cr_after = after, cr_action = snd p, cr_retained = True\<rparr>)))"
      by (intro keeps_intros)
    moreover have "on_failure (cap_body original (ret ()) True) (restore_entered original) s = (Inr p, u)"
      by (simp add: on_failure_def try_except_def b Inr)
    ultimately have "on_requests (\<lambda>q e. allowed original q e \<and> capped q (map fst CAPS)) t"
      using run both by (auto simp: cap_retained_def case_prod_unfold dest: keepsD)
    then show ?thesis by (simp add: on_requests_def whole_or_undone_def)
  qed
  then show "on_requests (allowed original) t" "incomplete r \<or> on_requests (whole_or_undone original) t"
    "r = Inr x \<Longrightarrow> on_requests (\<lambda>q e. capped q (map fst CAPS)) t" by blast+
qed

text \<open>What a computation returns does not depend on the alarm and the handlers.\<close>

definition commutes :: "('s \<Rightarrow> 's) \<Rightarrow> ('s, 'a) io \<Rightarrow> bool" where
  "commutes f m \<longleftrightarrow> (\<forall>s. m (f s) = (fst (m s), f (snd (m s))))"

named_theorems commutes_intros "computations that commute with a change of the state"

lemma commutes_basic [commutes_intros]: "commutes f (ret x)" "commutes f (raise e)" "commutes f (when_raise b e)" "commutes f (require_cpu b why)"
  by (simp_all add: commutes_def run_simps require_cpu_def)

lemma commutes_gets [commutes_intros]: "(\<And>s. g (f s) = g s) \<Longrightarrow> commutes f (gets g)"
  by (simp add: commutes_def gets_def)

lemma commutes_bind [commutes_intros]:
  assumes "commutes f m" and "\<And>x. commutes f (g x)"
  shows "commutes f (bind_io m g)"
  unfolding commutes_def
proof
  fix s
  obtain r t where r: "m s = (r, t)" by fastforce
  with assms(1) have "m (f s) = (r, f t)" by (simp add: commutes_def)
  with r assms(2) show "bind_io m g (f s) = (fst (bind_io m g s), f (snd (bind_io m g s)))"
    by (cases r) (auto simp: commutes_def)
qed

definition arm :: "nat \<Rightarrow> (string \<times> string) list \<Rightarrow> cpu_host \<Rightarrow> cpu_host" where
  "arm k hs s = (set_handlers hs s)\<lparr>ch_timer := k\<rparr>"

lemma arm_fields [simp]: "ch_dirs (arm k hs s) = ch_dirs s" "ch_listing (arm k hs s) = ch_listing s" "ch_requests (arm k hs s) = ch_requests s"
  "ch_events (arm k hs s) = ch_events s" "ch_guards (arm k hs s) = ch_guards s" "ch_entered (arm k hs s) = ch_entered s"
  by (simp_all add: arm_def set_handlers_def)

lemma arm_changes: "fold (\<lambda>(name, field, content). set_attribute name field content) changes (arm k hs s)
    = arm k hs (fold (\<lambda>(name, field, content). set_attribute name field content) changes s)"
proof (induction changes arbitrary: s)
  case (Cons c changes)
  obtain n f x where c: "c = (n, f, x)" by (cases c)
  have "set_attribute n f x (arm k hs s) = arm k hs (set_attribute n f x s)"
    by (simp add: set_attribute_def arm_def set_handlers_def)
  with Cons c show ?case by simp
qed simp

lemma commutes_read: "commutes (arm k hs) (read_attribute name field)"
  unfolding commutes_def
proof
  fix s
  obtain e t where e: "next_cpu_event s = (e, t)" by fastforce
  have later: "(arm k hs s)\<lparr>ch_events := es, ch_now := ch_now (arm k hs s) + d\<rparr> = arm k hs (s\<lparr>ch_events := es, ch_now := ch_now s + d\<rparr>)" for es d
    by (simp add: arm_def set_handlers_def)
  from e have armed: "next_cpu_event (arm k hs s) = (e, arm k hs t)"
    by (cases "ch_events s") (auto simp: next_cpu_event_def later arm_changes)
  have "commutes (arm k hs) (case map_of (pd_attributes d) field of None \<Rightarrow> raise FileNotFoundError
     | Some content \<Rightarrow> bind_io (require_cpu (field \<notin> set (pd_unsafe d)) ''unsafe CPU attribute'') (\<lambda>_. ret content))" for d
    by (cases "map_of (pd_attributes d) field") (auto intro!: commutes_intros)
  then have "commutes (arm k hs) (read_opened e name field)"
    unfolding read_opened_def opened_attribute_def same_policy_def by (intro commutes_intros) simp_all
  with e armed show "read_attribute name field (arm k hs s)
      = (fst (read_attribute name field s), arm k hs (snd (read_attribute name field s)))"
    by (simp add: read_attribute_def commutes_def)
qed

lemma commutes_snapshot: "commutes (arm k hs) cpu_snapshot"
proof -
  have policy: "commutes (arm k hs) (read_policy name)" for name
    unfolding read_policy_def read_integer_def Let_def by (intro commutes_intros commutes_read)
  have "commutes (arm k hs) (read_policies names)" for names
    by (induction names) (auto intro!: commutes_intros policy)
  then show ?thesis
    unfolding cpu_snapshot_def by (intro commutes_intros) (simp_all add: policy_names_def)
qed

lemma found_policies_arm: "found_policies (arm k hs s) = found_policies s"
proof -
  have "commutes (arm k hs) cpu_guard"
    unfolding commutes_def cpu_guard_def by (auto simp: arm_def set_handlers_def split: list.splits)
  then have "commutes (arm k hs) (bind_io cpu_guard (\<lambda>_. cpu_snapshot))" by (intro commutes_bind commutes_snapshot)
  then show ?thesis by (simp add: found_policies_def commutes_def split: prod.splits)
qed

lemma apply_policy_inside:
  "apply_policy s = (r, t) \<Longrightarrow> ch_timer s \<noteq> 0 \<Longrightarrow> t = s \<and> isl r"
  "apply_policy s = (r, t) \<Longrightarrow> ch_timer s = 0 \<Longrightarrow>
     \<exists>u. run_caps (ret ()) True (arm 10 (map (\<lambda>sig. (sig, ''interrupted'')) SIGNALS) s) = (r, u)
       \<and> ch_requests t = ch_requests u \<and> ch_entered t = ch_entered u"
proof -
  show "apply_policy s = (r, t) \<Longrightarrow> ch_timer s \<noteq> 0 \<Longrightarrow> t = s \<and> isl r"
    by (auto simp: apply_policy_def bind_io_def run_simps require_cpu_def)
  assume run: "apply_policy s = (r, t)" and timer: "ch_timer s = 0"
  obtain q u where u: "run_caps (ret ()) True (arm 10 (map (\<lambda>sig. (sig, ''interrupted'')) SIGNALS) s) = (q, u)" by fastforce
  from run timer u have "r = q \<and> t = set_handlers (map (\<lambda>sig. (sig, handler_of s sig)) SIGNALS) (u\<lparr>ch_timer := 0\<rparr>)"
    by (simp add: apply_policy_def bind_io_def run_simps require_cpu_def try_finally_def arm_def split: sum.splits)
  with u show "\<exists>u. run_caps (ret ()) True (arm 10 (map (\<lambda>sig. (sig, ''interrupted'')) SIGNALS) s) = (r, u)
       \<and> ch_requests t = ch_requests u \<and> ch_entered t = ch_entered u" by (simp add: set_handlers_def)
qed


subsection \<open>The undisturbed policy\<close>

lemma quiet_policy:
  assumes s: "visible s original" and valid: "validate_policies original = Inr ()" and timer: "ch_timer s = 0"
  defines "caps \<equiv> with_caps (map fst CAPS) original"
  shows "\<exists>t. apply_policy s = (Inr \<lparr>cr_before = original, cr_during = caps, cr_after = caps, cr_action = (), cr_retained = True\<rparr>, t)
     \<and> visible t caps"
proof -
  let ?in = "arm 10 (map (\<lambda>sig. (sig, ''interrupted'')) SIGNALS) s"
  let ?s = "?in\<lparr>ch_entered := []\<rparr>"
  have inside: "visible ?in original" using s by (simp add: arm_def)
  have "visible ?s (with_caps (ch_entered ?s) original)" using inside by (simp add: with_caps_none)
  from quiet_apply_all [OF this, of "map fst CAPS"] obtain u where
    u: "for_each (apply_cap original) (map fst CAPS) ?s = (Inr (), u)" "visible u caps" by (auto simp: caps_def)
  note look = quiet_guard [OF u(2)] quiet_snapshot [OF u(2)]
  have body: "cap_body original (ret ()) True ?s = (Inr (caps, ()), u)"
    using u(1) look by (simp add: cap_body_def bind_io_def run_simps require_cpu_def)
  have "run_caps (ret ()) True ?in
      = (Inr \<lparr>cr_before = original, cr_during = caps, cr_after = caps, cr_action = (), cr_retained = True\<rparr>, u)"
    using quiet_guard [OF inside] quiet_snapshot [OF inside] valid body look
    by (simp add: run_caps_retained cap_retained_def on_failure_def try_except_def bind_io_def run_simps require_cpu_def)
  then have "apply_policy s = (Inr \<lparr>cr_before = original, cr_during = caps, cr_after = caps, cr_action = (), cr_retained = True\<rparr>,
      set_handlers (map (\<lambda>sig. (sig, handler_of s sig)) SIGNALS) (u\<lparr>ch_timer := 0\<rparr>))"
    using timer by (simp add: apply_policy_def bind_io_def run_simps require_cpu_def try_finally_def arm_def)
  with u(2) show ?thesis by auto
qed

lemma quiet_open: "visible s rows \<Longrightarrow> open_policies s = (Inr (), s)"
proof -
  assume s: "visible s rows"
  have "for_each same_policy names s = (Inr (), s)" if "set names \<subseteq> set (map fst rows)" for names
    using that
  proof (induction names)
    case (Cons name names)
    then obtain p where "(name, p) \<in> set rows" by auto
    with s have "policy_of (ch_dirs s name) = Inr p" by (auto simp: visible_def list_all_iff)
    then have "pd_safe (ch_dirs s name)"
      by (auto simp: policy_of_def table_of_def attribute_of_def bind_result_eq_Inr split: if_splits)
    with Cons show ?case by (simp add: same_policy_def bind_io_def run_simps require_cpu_def)
  qed (simp add: ret_def)
  with s show ?thesis by (simp add: open_policies_def visible_def bind_io_def run_simps require_cpu_def)
qed

text \<open>
  When the last look at the system fails, the program fails with the caps in force, although
  a failure is documented to restore them.
\<close>

lemma last_check_keeps_caps:
  assumes s: "visible s original" "validate_policies original = Inr ()" "ch_timer s = 0"
    and checks: "boot_guard first = Inr boot" "core = Inr f" "core_metadata_ok f" and bad: "boot_guard final = Inl e"
  shows "\<exists>t. policy_main first core final s = (Inl e, t) \<and> visible t (with_caps (map fst CAPS) original)"
  using quiet_policy [OF s] quiet_open [OF s(1)] checks bad
  by (auto simp: policy_main_def bind_io_def run_simps require_cpu_def)


end
