(* ===== verification/Test_Tier.thy ===== *)
theory Test_Tier
  imports Py_Unicode "HOL-Library.List_Lexorder" "HOL-Library.Char_ord"
begin

section \<open>The selection of a test tier\<close>

text \<open>
  Models \<^verbatim>\<open>scripts/host/select-repository-test-tier.py\<close>: which changed paths need which tests. \<^verbatim>\<open>git\<close> is a
  parameter, a function from its arguments to what it prints or how it fails; so is the digest of the
  script itself. Paths are the bytes \<^verbatim>\<open>git\<close> prints, ordered as bytes. Shown is that the one narrow
  tier is chosen exactly for known changes to prose, and that a failure always broadens.
\<close>

subsection \<open>Paths\<close>

definition NARRATIVE_REPORT :: string where
  "NARRATIVE_REPORT = ''test-results/2026-09-05-headless-acceptance.md''"

definition PROBE_ONLY :: "string list" where
  "PROBE_ONLY = []"

definition PROBE_QEMU :: "string option" where
  "PROBE_QEMU = None"

definition DEVELOPMENT_LEAVES :: "(string \<times> string \<times> string) list" where
  "DEVELOPMENT_LEAVES =
     [(''scripts/host/source-teardown-observation.py'', ''read-only-observer'', ''scripts/host/test-source-teardown-observation.py''),
      (''scripts/device/rog5-healthd.py'', ''isolated-userspace'', ''scripts/device/test-rog5-healthd.py'')]"

definition documentation :: "string \<Rightarrow> bool" where
  "documentation path \<longleftrightarrow>
     path \<in> set [''README.md'', ''ROADMAP.md'', ''AGENTS.md'', ''CLAUDE.md'']
     \<or> list_ex (\<lambda>p. prefix p path) [''docs/'', ''.agents/skills/'', ''.claude/skills/''] \<and> suffix ''.md'' path"

definition narrative :: "string \<Rightarrow> bool" where
  "narrative path \<longleftrightarrow> documentation path \<or> path = NARRATIVE_REPORT"

definition impact_category :: "string \<Rightarrow> string" where
  "impact_category path =
     (if documentation path \<or> path = NARRATIVE_REPORT then ''documentation''
      else case map_of DEVELOPMENT_LEAVES path of
        Some (impact, _) \<Rightarrow> impact
      | None \<Rightarrow>
          if list_ex (\<lambda>w. contains w path) [''admission'', ''signing'', ''claim'', ''registry''] then ''trust-admission''
          else if prefix ''initramfs/'' path then ''initramfs''
          else if prefix ''dts/'' path \<or> list_ex (\<lambda>w. suffix w path) [''.dts'', ''.dtso'', ''.dtb''] then ''device-tree''
          else if list_ex (\<lambda>w. contains w path) [''charging'', ''shutdown'', ''watchdog'', ''storage'', ''recovery'',
             ''cpu-frequency-cap'', ''headless-cpu-policy'', ''power-profile''] then ''critical-runtime''
          else if contains ''/module'' path \<or> suffix ''.ko'' path then ''kernel-module''
          else if list_ex (\<lambda>p. prefix p path) [''patches/'', ''configs/kernel/''] \<or> contains ''kernel'' path then ''kernel-or-ABI''
          else ''unknown-dependency'')"

definition impact_categories :: "string list \<Rightarrow> string list" where
  "impact_categories paths = sort (remdups (map impact_category paths))"

subsection \<open>The development decision\<close>

record decision =
  changed :: "string list"
  impact :: string
  categories :: "string list"
  eligible :: bool
  tier :: string
  focused_tests :: "string list"
  remote_ci_before_experiment :: bool
  exact_target_required :: bool
  service_experiment_required :: bool
  final_composition_required :: bool
  module_closure_required :: bool
  admission_consumers_required :: bool
  experiment_scope :: string
  reason :: string
  revisions :: "(string \<times> string \<times> string \<times> string) option"

text \<open>
  The fields of the result that never vary (its format, \<open>NOT RUN\<close>, the statement that it is no admission, the list of
  evidence) are left out, and \<open>optimized_tests\<close> is \<open>focused_tests\<close>.
  The leaves by source and by test, each with its impact and its test; a later entry replaces an earlier one.\<close>

definition leaves :: "(string \<times> string \<times> string) list" where
  "leaves = rev (concat (map (\<lambda>(source, v). [(source, v), (snd v, v)]) DEVELOPMENT_LEAVES))"

definition development_decision :: "string list \<Rightarrow> decision" where
  "development_decision paths =
     (let changes = sort (remdups paths);
          runtime = filter (\<lambda>p. \<not> narrative p) changes;
          covered = (changes \<noteq> [] \<and> list_all (\<lambda>p. map_of leaves p \<noteq> None) runtime);
          found = List.map_filter (map_of leaves) runtime;
          service = list_ex (\<lambda>(i, _). i = ''isolated-userspace'') found;
          cats = impact_categories changes;
          admission = ''trust-admission'' \<in> set cats;
          focused = sort (remdups (map snd found));
          focused = (if admission
            then sort (remdups (focused @ [''scripts/host/test-production-ram-trial.py'', ''scripts/host/test-install-default-kernel.py'']))
            else focused)
      in \<lparr>changed = changes,
          impact = (if \<not> covered then ''critical-or-unknown-dependency''
             else if runtime = [] then ''documentation'' else if service then ''isolated-userspace'' else ''read-only-observer''),
          categories = cats, eligible = covered, tier = (if covered then ''active'' else ''ci''),
          focused_tests = focused, remote_ci_before_experiment = (\<not> covered), exact_target_required = (runtime \<noteq> []),
          service_experiment_required = service, final_composition_required = (runtime \<noteq> []),
          module_closure_required = (''kernel-module'' \<in> set cats \<or> ''kernel-or-ABI'' \<in> set cats),
          admission_consumers_required = admission,
          experiment_scope = (if \<not> covered then ''none'' else
             ''dedicated /run/rog5-dev-experiments directory; no accepted service/config replacement; ''
             @ ''read-only observation or isolated loopback service only; no boot/power/storage/recovery changes''),
          reason = (if covered then ''reviewed leaves only; all other changed dependencies fail broad'' else ''empty changes or dependency outside demonstrated isolated coverage''),
          revisions = None\<rparr>)"

subsection \<open>The tier\<close>

definition classify :: "string list \<Rightarrow> string \<times> string" where
  "classify paths =
     (let normalized = sort (remdups (filter (\<lambda>p. p \<noteq> []) paths));
          runtime = filter (\<lambda>p. \<not> narrative p) normalized
      in if normalized = [] then (''ci'', ''yes'')
         else if runtime = [] then (''active'', ''no'')
         else if PROBE_ONLY \<noteq> [] \<and> list_all (\<lambda>p. p \<in> set PROBE_ONLY) runtime
         then (''probe'', if PROBE_QEMU \<in> set (map Some runtime) then ''yes'' else ''no'')
         else (''ci'', ''yes''))"

type_synonym git = "string list \<Rightarrow> bytes result"

definition decode_strip :: "bytes \<Rightarrow> string result" where
  "decode_strip raw = (if utf8_ok raw then Inr (strip raw) else Inl UnicodeError)"

definition commit_of :: "git \<Rightarrow> string \<Rightarrow> string result" where
  "commit_of git revision =
     (if list_all (\<lambda>c. c = CHR ''0'') revision then Inl (ValueError ''missing or zero revision'')
      else bind_result (git [''rev-parse'', ''--verify'', ''--end-of-options'', revision @ ''^{commit}'']) decode_strip)"

definition merge_base_of :: "git \<Rightarrow> string \<Rightarrow> string \<Rightarrow> string result" where
  "merge_base_of git base head =
     bind_result (git [''merge-base'', ''--all'', base, head]) (\<lambda>raw.
     if \<not> utf8_ok raw then Inl UnicodeError
     else case text_lines raw of [b] \<Rightarrow> Inr b | _ \<Rightarrow> Inl (ValueError ''no unique merge base''))"

definition changed_paths :: "git \<Rightarrow> string \<Rightarrow> string \<Rightarrow> bool \<Rightarrow> string list result" where
  "changed_paths git base head merge_base =
     bind_result (commit_of git base) (\<lambda>base.
     bind_result (commit_of git head) (\<lambda>head.
     bind_result (if merge_base then merge_base_of git base head else Inr base) (\<lambda>base.
     bind_result (git [''diff'', ''--no-ext-diff'', ''--no-textconv'', ''--no-renames'', ''--name-only'', ''-z'', base, head, ''--'']) (\<lambda>raw.
     Inr (filter (\<lambda>p. p \<noteq> []) (split_on (CHR 0x00) raw))))))"

fun selection_error :: "exn \<Rightarrow> bool" where
  "selection_error (ValueError _) = True"
| "selection_error UnicodeError = True"
| "selection_error SubprocessError = True"
| "selection_error OSError = True"
| "selection_error FileNotFoundError = True"
| "selection_error FileExistsError = True"
| "selection_error _ = False"

definition compared_events :: "string list" where
  "compared_events = [''push'', ''pull_request'', ''merge'']"

definition select :: "git \<Rightarrow> string \<Rightarrow> string \<Rightarrow> string \<Rightarrow> (string \<times> string) result" where
  "select git base head event =
     (if event \<in> set [''schedule'', ''workflow_dispatch''] then Inr (''nightly'', ''yes'')
      else if event \<notin> set compared_events then Inr (''ci'', ''yes'')
      else case changed_paths git base head (event = ''pull_request'') of
        Inr paths \<Rightarrow> Inr (classify paths)
      | Inl e \<Rightarrow> if selection_error e then Inr (''ci'', ''yes'') else Inl e)"

text \<open>\<open>git rev-parse\<close> of the development mode, which does not refuse a zero revision again.\<close>

definition resolve :: "git \<Rightarrow> string list \<Rightarrow> string result" where
  "resolve git arguments = bind_result (git (''rev-parse'' # arguments)) decode_strip"

definition decide :: "git \<Rightarrow> string result \<Rightarrow> string \<Rightarrow> string \<Rightarrow> string \<Rightarrow> decision result" where
  "decide git selector base head event =
     bind_result (changed_paths git base head (event = ''pull_request'')) (\<lambda>paths.
     bind_result (resolve git [''--verify'', ''--end-of-options'', base @ ''^{commit}'']) (\<lambda>from.
     bind_result (resolve git [''--verify'', ''--end-of-options'', head @ ''^{commit}'']) (\<lambda>to.
     bind_result (resolve git [to @ ''^{tree}'']) (\<lambda>tree.
     bind_result selector (\<lambda>digest.
     let d = (development_decision paths)\<lparr>revisions := Some (from, to, tree, digest)\<rparr> in
     Inr (if event \<in> set compared_events then d
          else d\<lparr>eligible := False, tier := ''ci'', remote_ci_before_experiment := True, experiment_scope := ''none'',
                 reason := ''unsupported development event''\<rparr>))))))"

fun error_name :: "exn \<Rightarrow> string" where
  "error_name (ValueError _) = ''ValueError''"
| "error_name UnicodeError = ''UnicodeDecodeError''"
| "error_name SubprocessError = ''CalledProcessError''"
| "error_name FileNotFoundError = ''FileNotFoundError''"
| "error_name FileExistsError = ''FileExistsError''"
| "error_name _ = ''OSError''"

definition develop :: "git \<Rightarrow> string result \<Rightarrow> string \<Rightarrow> string \<Rightarrow> string \<Rightarrow> decision result" where
  "develop git selector base head event =
     (case decide git selector base head event of
        Inr d \<Rightarrow> Inr d
      | Inl e \<Rightarrow> if selection_error e then Inr ((development_decision [])\<lparr>reason := ''revision resolution failed: '' @ error_name e\<rparr>) else Inl e)"

definition tier_main :: "git \<Rightarrow> string result \<Rightarrow> string \<Rightarrow> string \<Rightarrow> string \<Rightarrow> bool \<Rightarrow> (decision + string list) result" where
  "tier_main git selector base head event development =
     (if development then bind_result (develop git selector base head event) (\<lambda>d. Inr (Inl d))
      else bind_result (select git base head event) (\<lambda>(tier, qemu). Inr (Inr [''tier='' @ tier, ''qemu='' @ qemu])))"

subsection \<open>Narrow only for prose\<close>

definition clean_git :: "git \<Rightarrow> bool" where
  "clean_git git \<longleftrightarrow> (\<forall>arguments e. git arguments = Inl e \<longrightarrow> selection_error e)"

lemma clean_git_error: "clean_git git \<Longrightarrow> git arguments = Inl e \<Longrightarrow> selection_error e"
  by (simp add: clean_git_def)

lemma decode_strip_error: "decode_strip raw = Inl e \<Longrightarrow> selection_error e"
  by (auto simp: decode_strip_def split: if_splits)

lemma commit_of_error: "clean_git git \<Longrightarrow> commit_of git revision = Inl e \<Longrightarrow> selection_error e"
  by (auto simp: commit_of_def bind_result_eq_Inl split: if_splits dest: decode_strip_error clean_git_error)

lemma merge_base_error:
  assumes git: "clean_git git" and failed: "merge_base_of git base head = Inl e"
  shows "selection_error e"
proof (cases "git [''merge-base'', ''--all'', base, head]")
  case (Inl e')
  with failed clean_git_error [OF git Inl] show ?thesis by (simp add: merge_base_of_def)
next
  case (Inr raw)
  with failed show ?thesis by (cases "text_lines raw" rule: remdups_adj.cases) (auto simp: merge_base_of_def split: if_splits)
qed

lemma changed_paths_error:
  assumes git: "clean_git git" and failed: "changed_paths git base head m = Inl e"
  shows "selection_error e"
  using failed commit_of_error [OF git] clean_git_error [OF git] merge_base_error [OF git]
  by (auto simp: changed_paths_def bind_result_eq_Inl split: if_splits)

lemma changed_paths_nonempty: "changed_paths git base head m = Inr paths \<Longrightarrow> list_all (\<lambda>p. p \<noteq> []) paths"
  by (auto simp: changed_paths_def bind_result_eq_Inr list_all_iff)

lemma classify_exact:
  assumes "list_all (\<lambda>p. p \<noteq> []) paths"
  shows "classify paths = (if paths \<noteq> [] \<and> list_all narrative paths then (''active'', ''no'') else (''ci'', ''yes''))"
proof -
  have "filter (\<lambda>p. p \<noteq> []) paths = paths" using assms by (simp add: filter_id_conv list_all_iff)
  moreover have "sort (remdups paths) = [] \<longleftrightarrow> paths = []" by (metis remdups_eq_nil_iff set_empty set_sort)
  moreover have "filter (\<lambda>p. \<not> narrative p) (sort (remdups paths)) = [] \<longleftrightarrow> list_all narrative paths"
    by (simp add: filter_empty_conv list_all_iff)
  ultimately show ?thesis by (simp add: classify_def PROBE_ONLY_def Let_def)
qed

text \<open>
  C37. The selector always returns a tier. Scheduled and manual runs get the nightly one; every other run gets full CI with QEMU, unless
  the event is a push, a pull request or a merge, both revisions resolve and their difference is known,
  not empty and touches nothing but prose - then, and only then, the active tier without QEMU.
\<close>

theorem select_exact:
  assumes "clean_git git"
  shows "select git base head event = Inr
    (if event \<in> set [''schedule'', ''workflow_dispatch''] then (''nightly'', ''yes'')
     else if event \<in> set compared_events
       \<and> (\<exists>paths. changed_paths git base head (event = ''pull_request'') = Inr paths \<and> paths \<noteq> [] \<and> list_all narrative paths)
     then (''active'', ''no'') else (''ci'', ''yes''))"
proof (cases "changed_paths git base head (event = ''pull_request'')")
  case (Inl e)
  with changed_paths_error [OF assms Inl] show ?thesis by (simp add: select_def)
next
  case (Inr paths)
  with classify_exact [OF changed_paths_nonempty [OF Inr]] show ?thesis by (simp add: select_def)
qed

subsection \<open>Eligible only for reviewed leaves\<close>

definition reviewed :: "string \<Rightarrow> bool" where
  "reviewed path \<longleftrightarrow> narrative path \<or> list_ex (\<lambda>(source, _, test). path = source \<or> path = test) DEVELOPMENT_LEAVES"

lemma leaves_reviewed: "map_of leaves path \<noteq> None \<or> narrative path \<longleftrightarrow> reviewed path"
  by (auto simp: reviewed_def leaves_def DEVELOPMENT_LEAVES_def)

lemma development_eligible: "eligible (development_decision paths) \<longleftrightarrow> paths \<noteq> [] \<and> list_all reviewed paths"
proof -
  have "sort (remdups paths) = [] \<longleftrightarrow> paths = []" by (metis remdups_eq_nil_iff set_empty set_sort)
  moreover have "list_all (\<lambda>p. map_of leaves p \<noteq> None) (filter (\<lambda>p. \<not> narrative p) (sort (remdups paths))) \<longleftrightarrow> list_all reviewed paths"
    unfolding list_all_iff set_filter set_sort set_remdups using leaves_reviewed by blast
  ultimately show ?thesis by (simp add: development_decision_def Let_def)
qed

definition broad :: "decision \<Rightarrow> bool" where
  "broad d \<longleftrightarrow> tier d = ''ci'' \<and> remote_ci_before_experiment d \<and> experiment_scope d = ''none''"

lemma development_broad: "eligible (development_decision paths) \<or> broad (development_decision paths)"
  by (simp add: development_decision_def broad_def Let_def)

lemma decide_error:
  assumes git: "clean_git git" and selector: "\<And>e. selector = Inl e \<Longrightarrow> selection_error e"
    and failed: "decide git selector base head event = Inl e"
  shows "selection_error e"
proof -
  have resolve: "selection_error e'" if "resolve git arguments = Inl e'" for arguments e'
    using that by (auto simp: resolve_def bind_result_eq_Inl dest: decode_strip_error clean_git_error [OF git])
  show ?thesis
    using failed selector resolve changed_paths_error [OF git]
    by (auto simp: decide_def bind_result_eq_Inl Let_def)
qed

text \<open>
  The development mode always answers, and calls a change eligible for a narrow experiment exactly when the
  event compares two revisions, every revision it reports resolves, and the known, non-empty difference touches only prose, reviewed
  leaves and their tests; otherwise it asks for full CI before any experiment and allows none.
\<close>

theorem development_exact:
  assumes "clean_git git" and "\<And>e. selector = Inl e \<Longrightarrow> selection_error e"
  shows "\<exists>d. develop git selector base head event = Inr d
     \<and> (eligible d \<longleftrightarrow> event \<in> set compared_events \<and> revisions d \<noteq> None
          \<and> (\<exists>paths. changed_paths git base head (event = ''pull_request'') = Inr paths \<and> paths \<noteq> [] \<and> list_all reviewed paths))
     \<and> (eligible d \<or> broad d)"
proof (cases "decide git selector base head event")
  case (Inl e)
  have "\<not> eligible (development_decision [])" "revisions (development_decision []) = None"
    by (simp_all add: development_eligible) (simp add: development_decision_def Let_def)
  with decide_error [OF assms Inl] development_broad [of "[]"] Inl show ?thesis
    by (simp add: develop_def broad_def)
next
  case (Inr d)
  then obtain paths marks where paths: "changed_paths git base head (event = ''pull_request'') = Inr paths"
    and d: "d = (if event \<in> set compared_events then (development_decision paths)\<lparr>revisions := Some marks\<rparr>
       else (development_decision paths)\<lparr>revisions := Some marks, eligible := False, tier := ''ci'',
          remote_ci_before_experiment := True, experiment_scope := ''none'', reason := ''unsupported development event''\<rparr>)"
    by (auto simp: decide_def bind_result_eq_Inr Let_def)
  with development_broad [of paths] show ?thesis
    by (cases marks) (simp add: develop_def Inr paths broad_def development_eligible)
qed

subsection \<open>An example\<close>

definition sample_git :: "bytes \<Rightarrow> git" where
  "sample_git difference arguments =
     (case arguments of
        [] \<Rightarrow> Inl SubprocessError
      | command # _ \<Rightarrow>
          if command = ''diff'' then Inr difference
          else if command \<in> set [''rev-parse'', ''merge-base''] then Inr (''c0ffee'' @ [LF]) else Inl SubprocessError)"

definition sample_prose :: bytes where
  "sample_prose = ''README.md'' @ [CHR 0x00] @ ''docs/current-state.md'' @ [CHR 0x00]"

definition sample_service :: bytes where
  "sample_service = ''scripts/device/rog5-healthd.py'' @ [CHR 0x00]"

lemma sample_git_clean: "clean_git (sample_git difference)"
  by (auto simp: clean_git_def sample_git_def split: list.splits if_splits)

lemma sample_prose_changes:
  "(case changed_paths (sample_git sample_prose) ''main'' ''topic'' True of Inr paths \<Rightarrow> paths \<noteq> [] \<and> list_all narrative paths | _ \<Rightarrow> False)"
  by code_simp

theorem select_exact_witness: "select (sample_git sample_prose) ''main'' ''topic'' ''pull_request'' = Inr (''active'', ''no'')"
  using select_exact [OF sample_git_clean, of sample_prose "''main''" "''topic''" "''pull_request''"] sample_prose_changes
  by (auto simp: compared_events_def split: sum.splits)

theorem development_exact_witness:
  "\<exists>d. develop (sample_git sample_service) (Inr ''digest'') ''main'' ''topic'' ''push'' = Inr d \<and> eligible d
     \<and> impact d = ''isolated-userspace''"
proof -
  have d: "case develop (sample_git sample_service) (Inr ''digest'') ''main'' ''topic'' ''push'' of
      Inr d \<Rightarrow> revisions d \<noteq> None \<and> impact d = ''isolated-userspace'' | _ \<Rightarrow> False" by code_simp
  have paths: "case changed_paths (sample_git sample_service) ''main'' ''topic'' False of
      Inr paths \<Rightarrow> paths \<noteq> [] \<and> list_all reviewed paths | _ \<Rightarrow> False" by code_simp
  from development_exact [OF sample_git_clean, of "Inr ''digest''" sample_service "''main''" "''topic''" "''push''"] d paths
  show ?thesis by (auto simp: compared_events_def split: sum.splits)
qed

text \<open>A leaf's own test is reviewed, but its category is that of an unknown dependency.\<close>

lemma leaf_test_category:
  "eligible (development_decision [''scripts/device/test-rog5-healthd.py''])
     \<and> categories (development_decision [''scripts/device/test-rog5-healthd.py'']) = [''unknown-dependency'']"
  by code_simp

end
