(* ===== verification/Persistent_Root.thy ===== *)
theory Persistent_Root
  imports Py_Unicode "HOL-Library.List_Lexorder" "HOL-Library.Char_ord"
begin

section \<open>The seal of a persistent root\<close>

text \<open>
  Models \<^verbatim>\<open>scripts/host/persistent-root-tool.py\<close>: the inspection of an archive, the walk over a tree, the
  stream that is hashed into its seal, reading a seal and verifying a tree against it. The walk sees one state of the tree; what opening
  a file, reading a link and listing attributes finds later are functions of the path, so that the tree may change in between. The digest is
  the argument \<open>H\<close>. An archive is its list of members, with whether reading it fails after them.
\<close>

subsection \<open>Archive paths\<close>

definition SEAL_NAME :: string where
  "SEAL_NAME = ''.rog5-persistent-seal''"

definition UNSEALED :: "string list" where
  "UNSEALED = [SEAL_NAME, ''boot/rog5-linux'']"

definition TREE_KEYS :: "string list" where
  "TREE_KEYS = [''tree_format'', ''tree_entries'', ''tree_regular_files'', ''tree_directories'', ''tree_symlinks'', ''tree_bytes'',
     ''tree_xattrs'', ''tree_sha256'']"

definition SEAL_KEYS :: "string list" where
  "SEAL_KEYS = [''seal_format'', ''generation'', ''source_archive_size'', ''source_archive_sha256'', ''promotion_state''] @ TREE_KEYS"

fun drop_dot_slash :: "string \<Rightarrow> string" where
  "drop_dot_slash (c # d # s) = (if c = CHR ''.'' \<and> d = CHR ''/'' then drop_dot_slash s else c # d # s)"
| "drop_dot_slash s = s"

definition clean_archive_path :: "string \<Rightarrow> string result" where
  "clean_archive_path given =
     (let name = drop_dot_slash given in
      if name = [] \<or> name = ''.'' then Inr ''.''
      else if CHR 0x00 \<in> set name \<or> prefix ''/'' name then Inl (ContractError (''unsafe archive path: '' @ py_repr name))
      else let parts = posix_parts name in
        if list_ex (\<lambda>p. p \<in> set ['''', ''.'', ''..'']) parts then Inl (ContractError (''unsafe archive path: '' @ py_repr name))
        else Inr (if parts = [] then ''.'' else join ''/'' parts))"

definition has_embedded_credential :: "string \<Rightarrow> bool" where
  "has_embedded_credential path \<longleftrightarrow>
     prefix ''etc/ssh/ssh_host_'' path
     \<or> path = ''etc/wireguard/wg0.conf''
     \<or> prefix ''etc/NetworkManager/system-connections/'' path
     \<or> path = ''home/rog5/.config/krdpserverrc''
     \<or> prefix ''home/rog5/.local/share/kwalletd/'' path
     \<or> prefix ''var/lib/rog5-agent/private/'' path
     \<or> prefix ''etc/pacman.d/gnupg/'' path"

subsection \<open>Inspecting an archive\<close>

datatype member_kind = TarFile | TarDir | TarSym | TarLink | TarDev | TarOther

record tar_member =
  mb_name :: string
  mb_kind :: member_kind
  mb_link :: string
  mb_sparse :: bool

record archive_file =
  ar_regular :: bool
  ar_members :: "tar_member list"
  ar_broken :: bool

record archive_counts =
  archive_entries :: nat
  archive_regular_files :: nat
  archive_directories :: nat
  archive_symlinks :: nat
  archive_hardlinks :: nat

text \<open>\<open>os.path.normpath\<close> of a relative path, as its components.\<close>

definition norm_step :: "string list \<Rightarrow> string \<Rightarrow> string list" where
  "norm_step stack p =
     (if p \<noteq> ''..'' then stack @ [p]
      else if stack \<noteq> [] \<and> last stack \<noteq> ''..'' then butlast stack
      else stack @ [p])"

definition norm_parts :: "string list \<Rightarrow> string list" where
  "norm_parts parts = foldl norm_step [] parts"

definition link_escapes :: "string \<Rightarrow> string \<Rightarrow> bool" where
  "link_escapes name target \<longleftrightarrow>
     (let resolved = butlast (posix_parts name) @ posix_parts target in
      ''..'' \<in> set resolved \<and> (case norm_parts resolved of [] \<Rightarrow> False | p # _ \<Rightarrow> p = ''..''))"

definition inspect_symlink :: "string \<Rightarrow> string \<Rightarrow> unit result" where
  "inspect_symlink name target =
     (if target = [] then Inl (ContractError (''empty symbolic-link target: '' @ name))
      else if \<not> prefix ''/'' target \<and> link_escapes name target
      then Inl (ContractError (''symbolic link escapes the root: '' @ name))
      else Inr ())"

definition inspect_hardlink :: "string \<Rightarrow> string \<Rightarrow> unit result" where
  "inspect_hardlink name link =
     bind_result (clean_archive_path link) (\<lambda>target.
     need (target \<noteq> ''.'') (ContractError (''invalid hard-link target: '' @ name)))"

definition count_member :: "string \<Rightarrow> tar_member \<Rightarrow> archive_counts \<Rightarrow> archive_counts result" where
  "count_member name m c =
     (let c = c\<lparr>archive_entries := archive_entries c + 1\<rparr> in
      case mb_kind m of
        TarFile \<Rightarrow> Inr (c\<lparr>archive_regular_files := archive_regular_files c + 1\<rparr>)
      | TarDir \<Rightarrow> Inr (c\<lparr>archive_directories := archive_directories c + 1\<rparr>)
      | TarSym \<Rightarrow> bind_result (inspect_symlink name (mb_link m)) (\<lambda>_. Inr (c\<lparr>archive_symlinks := archive_symlinks c + 1\<rparr>))
      | TarLink \<Rightarrow> bind_result (inspect_hardlink name (mb_link m)) (\<lambda>_. Inr (c\<lparr>archive_hardlinks := archive_hardlinks c + 1\<rparr>))
      | TarDev \<Rightarrow> Inl (ContractError (''archive contains a device or FIFO: '' @ name))
      | TarOther \<Rightarrow> Inl (ContractError (''archive contains an unsupported entry: '' @ name)))"

definition inspect_member :: "tar_member \<Rightarrow> string list \<times> archive_counts \<Rightarrow> (string list \<times> archive_counts) result" where
  "inspect_member m acc =
     (case acc of (names, c) \<Rightarrow>
        bind_result (clean_archive_path (mb_name m)) (\<lambda>name.
        if name \<in> set names then Inl (ContractError (''duplicate archive path: '' @ name))
        else if name = SEAL_NAME then Inl (ContractError ''archive contains the reserved persistent seal path'')
        else if has_embedded_credential name then Inl (ContractError (''archive embeds a deployment credential: '' @ name))
        else if mb_sparse m then Inl (ContractError (''sparse archive member is unsupported: '' @ name))
        else bind_result (count_member name m c) (\<lambda>c. Inr (name # names, c))))"

definition no_counts :: archive_counts where
  "no_counts = \<lparr>archive_entries = 0, archive_regular_files = 0, archive_directories = 0, archive_symlinks = 0, archive_hardlinks = 0\<rparr>"

definition inspect_archive :: "archive_file \<Rightarrow> archive_counts result" where
  "inspect_archive a =
     (if \<not> ar_regular a then Inl (ContractError ''archive is not a regular, non-linked file'')
      else bind_result (fold_result inspect_member (ar_members a) ([], no_counts)) (\<lambda>(_, c).
        if ar_broken a then Inl (ContractError ''cannot inspect archive'')
        else if archive_entries c = 0 then Inl (ContractError ''archive is empty'')
        else Inr c))"

definition archive_fields :: "archive_counts \<Rightarrow> (string \<times> string) list" where
  "archive_fields c =
     [(''archive_entries'', show_nat (archive_entries c)), (''archive_regular_files'', show_nat (archive_regular_files c)),
      (''archive_directories'', show_nat (archive_directories c)), (''archive_symlinks'', show_nat (archive_symlinks c)),
      (''archive_hardlinks'', show_nat (archive_hardlinks c))]"

subsection \<open>Walking and sealing a tree\<close>

datatype entry_kind = Regular | Directory | Symlink | OtherKind

record entry_stat =
  es_dev :: nat
  es_ino :: nat
  es_kind :: entry_kind
  es_mode :: nat
  es_uid :: nat
  es_gid :: nat
  es_size :: nat
  es_mtime_ns :: int
  es_nlink :: nat

datatype fs_tree = Entry entry_stat "(string \<times> fs_tree) list"

text \<open>What the later calls on a path find; a walk that meets an unreadable entry fails.\<close>

datatype xattr_answer = Xattrs "(bytes \<times> bytes) list" | XattrsUnsupported | XattrsFail

record sealed_world =
  sw_real_directory :: bool
  sw_walkable :: bool
  sw_tree :: fs_tree
  sw_open :: "string \<Rightarrow> (entry_stat \<times> bytes) result"
  sw_readlink :: "string \<Rightarrow> bytes result"
  sw_xattrs :: "string \<Rightarrow> xattr_answer"

definition child_relative :: "string \<Rightarrow> string \<Rightarrow> string" where
  "child_relative relative name = (if relative = ''.'' then name else relative @ ''/'' @ name)"

fun walk_tree :: "string \<Rightarrow> fs_tree \<Rightarrow> (string \<times> entry_stat) list" where
  "walk_tree relative (Entry st children) =
     (relative, st) #
     (if es_kind st \<noteq> Directory then []
      else concat (map (\<lambda>(name, t).
          if child_relative relative name \<in> set UNSEALED then [] else walk_tree (child_relative relative name) t)
        (sort_key fst children)))"

definition put_field :: "bytes \<Rightarrow> bytes" where
  "put_field x = nat_be 8 (length x) @ x"

definition same_entry :: "entry_stat \<Rightarrow> entry_stat \<Rightarrow> bool" where
  "same_entry a b \<longleftrightarrow> es_dev a = es_dev b \<and> es_ino a = es_ino b \<and> es_kind a = es_kind b \<and> es_mode a = es_mode b \<and> es_size a = es_size b"

definition file_digest :: "(bytes \<Rightarrow> bytes) \<Rightarrow> sealed_world \<Rightarrow> string \<Rightarrow> entry_stat \<Rightarrow> bytes result" where
  "file_digest H w relative expected =
     bind_result (sw_open w relative) (\<lambda>(actual, content).
     if \<not> same_entry actual expected then Inl (ContractError ''tree entry changed while it was being sealed'')
     else Inr (H content))"

definition entry_xattrs :: "sealed_world \<Rightarrow> string \<Rightarrow> (bytes \<times> bytes) list result" where
  "entry_xattrs w relative =
     (case sw_xattrs w relative of
        Xattrs attributes \<Rightarrow> Inr (sort_key fst attributes)
      | XattrsUnsupported \<Rightarrow> Inl (ContractError ''the staging filesystem does not support xattrs'')
      | XattrsFail \<Rightarrow> Inl OSError)"

text \<open>A row of the seal: what is hashed of one entry.\<close>

record seal_row =
  sr_relative :: bytes
  sr_stat :: entry_stat
  sr_hash :: bytes
  sr_link :: bytes
  sr_xattrs :: "(bytes \<times> bytes) list"

definition kind_text :: "entry_kind \<Rightarrow> string" where
  "kind_text k = (case k of Regular \<Rightarrow> ''file'' | Directory \<Rightarrow> ''directory'' | Symlink \<Rightarrow> ''symlink'' | OtherKind \<Rightarrow> '''')"

definition seal_entry :: "(bytes \<Rightarrow> bytes) \<Rightarrow> sealed_world \<Rightarrow> nat \<Rightarrow> string \<times> entry_stat \<Rightarrow> seal_row result" where
  "seal_entry H w device x =
     (case x of (relative, st) \<Rightarrow>
        bind_result (need (es_dev st = device) (ContractError (''tree crosses a filesystem boundary: '' @ relative))) (\<lambda>_.
        bind_result (case es_kind st of
            Regular \<Rightarrow> bind_result (file_digest H w relative st) (\<lambda>h. Inr (h, []))
          | Directory \<Rightarrow> Inr ([], [])
          | Symlink \<Rightarrow> bind_result (sw_readlink w relative) (\<lambda>target. Inr ([], target))
          | OtherKind \<Rightarrow> Inl (ContractError (''tree contains an unsupported entry: '' @ relative))) (\<lambda>(h, target).
        bind_result (entry_xattrs w relative) (\<lambda>attributes.
        Inr \<lparr>sr_relative = relative, sr_stat = st, sr_hash = h, sr_link = target, sr_xattrs = attributes\<rparr>))))"

definition row_fields :: "seal_row \<Rightarrow> bytes list" where
  "row_fields r =
     (let st = sr_stat r in
      [sr_relative r, kind_text (es_kind st), show_nat (es_mode st), show_nat (es_uid st), show_nat (es_gid st), show_nat (es_size st),
       show_int (es_mtime_ns st), show_nat (es_nlink st), sr_hash r, sr_link r, show_nat (length (sr_xattrs r))]
      @ concat (map (\<lambda>(name, x). [name, x]) (sr_xattrs r)))"

definition row_stream :: "seal_row \<Rightarrow> bytes" where
  "row_stream r = concat (map put_field (row_fields r))"

definition tree_stream :: "seal_row list \<Rightarrow> bytes" where
  "tree_stream rows = ''rog5-persistent-tree-v1'' @ [CHR 0x00] @ concat (map row_stream rows)"

definition count_kind :: "entry_kind \<Rightarrow> seal_row list \<Rightarrow> nat" where
  "count_kind k rows = length (filter (\<lambda>r. es_kind (sr_stat r) = k) rows)"

definition tree_fields :: "(bytes \<Rightarrow> bytes) \<Rightarrow> seal_row list \<Rightarrow> (string \<times> string) list" where
  "tree_fields H rows =
     [(''tree_format'', ''rog5-persistent-tree-v1''), (''tree_entries'', show_nat (length rows)),
      (''tree_regular_files'', show_nat (count_kind Regular rows)), (''tree_directories'', show_nat (count_kind Directory rows)),
      (''tree_symlinks'', show_nat (count_kind Symlink rows)),
      (''tree_bytes'', show_nat (sum_list (map (\<lambda>r. es_size (sr_stat r)) (filter (\<lambda>r. es_kind (sr_stat r) = Regular) rows)))),
      (''tree_xattrs'', show_nat (sum_list (map (\<lambda>r. length (sr_xattrs r)) rows))),
      (''tree_sha256'', to_hex (H (tree_stream rows)))]"

definition root_stat :: "fs_tree \<Rightarrow> entry_stat" where
  "root_stat t = (case t of Entry st _ \<Rightarrow> st)"

definition seal_rows :: "(bytes \<Rightarrow> bytes) \<Rightarrow> sealed_world \<Rightarrow> seal_row list result" where
  "seal_rows H w =
     (if \<not> sw_walkable w then Inl OSError
      else map_result (seal_entry H w (es_dev (root_stat (sw_tree w)))) (walk_tree ''.'' (sw_tree w)))"

definition seal_tree :: "(bytes \<Rightarrow> bytes) \<Rightarrow> sealed_world \<Rightarrow> (string \<times> string) list result" where
  "seal_tree H w =
     (if \<not> sw_real_directory w then Inl (ContractError ''tree root is not a real directory'')
      else bind_result (seal_rows H w) (\<lambda>rows. Inr (tree_fields H rows)))"

subsection \<open>Reading a seal and verifying\<close>

record seal_file =
  sl_regular :: bool
  sl_mode :: nat
  sl_content :: "bytes result"

definition seal_line :: "string \<Rightarrow> (string \<times> string) list \<Rightarrow> (string \<times> string) list result" where
  "seal_line line sofar =
     (case partition_at (CHR ''='') line of (key, sep, x) \<Rightarrow>
        if sep = [] then Inl (ContractError ''seal contains a malformed record'')
        else if key = [] \<or> x = [] \<or> key \<in> set (map fst sofar) then Inl (ContractError ''seal contains an empty or duplicate record'')
        else Inr (sofar @ [(key, x)]))"

definition field_of :: "(string \<times> string) list \<Rightarrow> string \<Rightarrow> string" where
  "field_of rows key = the (map_of rows key)"

definition seal_text :: "seal_file \<Rightarrow> string result" where
  "seal_text f =
     (case sl_content f of
        Inl e \<Rightarrow> Inl (ContractError ''cannot read seal'')
      | Inr raw \<Rightarrow> if list_all is_ascii raw then Inr (universal_newlines raw) else Inl (ContractError ''cannot read seal''))"

definition check_seal :: "(string \<times> string) list \<Rightarrow> unit result" where
  "check_seal rows =
     (if map fst rows \<noteq> SEAL_KEYS then Inl (ContractError ''seal fields or ordering changed'')
      else if field_of rows ''seal_format'' \<noteq> ''rog5-persistent-root-v1'' then Inl (ContractError ''seal format changed'')
      else if field_of rows ''generation'' \<noteq> ''arch-a'' then Inl (ContractError ''seal generation changed'')
      else if field_of rows ''promotion_state'' \<noteq> ''UNBOOTED'' then Inl (ContractError ''staged root is not explicitly unbooted'')
      else let size = field_of rows ''source_archive_size''; digest = field_of rows ''source_archive_sha256'' in
        if \<not> (size \<noteq> [] \<and> list_all is_digit size) \<or> read_nat size = 0 \<or> length digest \<noteq> 64 \<or> \<not> list_all is_hex digest
        then Inl (ContractError ''seal archive identity is malformed'')
        else Inr ())"

definition read_seal :: "seal_file result \<Rightarrow> (string \<times> string) list result" where
  "read_seal opened =
     bind_result opened (\<lambda>f.
     if \<not> sl_regular f then Inl (ContractError ''seal is not a regular, non-linked file'')
     else if sl_mode f \<noteq> 0x124 then Inl (ContractError ''seal mode changed'')
     else bind_result (seal_text f) (\<lambda>content.
       bind_result (fold_result seal_line (splitlines content) []) (\<lambda>rows.
       bind_result (check_seal rows) (\<lambda>_. Inr rows))))"

definition same_key :: "(string \<times> string) list \<Rightarrow> (string \<times> string) list \<Rightarrow> string \<Rightarrow> unit \<Rightarrow> unit result" where
  "same_key actual expected key _ =
     need (field_of actual key = field_of expected key) (ContractError (''sealed tree changed: '' @ key))"

definition verify_tree :: "(bytes \<Rightarrow> bytes) \<Rightarrow> sealed_world \<Rightarrow> seal_file result \<Rightarrow> unit result" where
  "verify_tree H w seal =
     bind_result (read_seal seal) (\<lambda>expected.
     bind_result (seal_tree H w) (\<lambda>actual.
     fold_result (same_key actual expected) TREE_KEYS ()))"

definition print_fields :: "(string \<times> string) list \<Rightarrow> string" where
  "print_fields rows = concat (map (\<lambda>(key, x). key @ ''='' @ x @ [LF]) rows)"

datatype root_command = Archive archive_file | Seal sealed_world | Verify sealed_world "seal_file result"

definition root_command_run :: "(bytes \<Rightarrow> bytes) \<Rightarrow> root_command \<Rightarrow> string result" where
  "root_command_run H c =
     (case c of
        Archive a \<Rightarrow> bind_result (inspect_archive a) (\<lambda>counts. Inr (print_fields (archive_fields counts)))
      | Seal w \<Rightarrow> bind_result (seal_tree H w) (\<lambda>rows. Inr (print_fields rows))
      | Verify w seal \<Rightarrow> bind_result (verify_tree H w seal) (\<lambda>_. Inr (''PASS persistent root tree matches its complete seal'' @ [LF])))"

fun root_caught :: "exn \<Rightarrow> bool" where
  "root_caught (ContractError _) = True"
| "root_caught OSError = True"
| "root_caught FileNotFoundError = True"
| "root_caught FileExistsError = True"
| "root_caught _ = False"

definition root_main :: "(bytes \<Rightarrow> bytes) \<Rightarrow> root_command \<Rightarrow> (nat \<times> string) result" where
  "root_main H c =
     (case root_command_run H c of
        Inr printed \<Rightarrow> Inr (0, printed)
      | Inl e \<Rightarrow> if root_caught e then Inr (1, []) else Inl e)"

end

