(* ===== verification/Persistent_Seal.thy ===== *)
theory Persistent_Seal
  imports Persistent_Root
begin

section \<open>What a seal and an inspection guarantee\<close>

text \<open>
  The hashed stream of a seal determines the sealed entries: two trees with the same stream agree in every
  name, kind, mode, owner, size, time, link count, content digest, link target and attribute. So a tree verifies against a seal exactly when
  it is the sealed one, as long as the digest does not collide. An archive is accepted exactly when its members
  are safe, and then no relative symbolic link leads out of the root.
\<close>

subsection \<open>The stream determines the rows\<close>

lemma put_field_cancel:
  assumes "put_field a @ x = put_field b @ y" and "length a < 2 ^ 64" "length b < 2 ^ 64"
  shows "a = b \<and> x = y"
proof -
  have "nat_be 8 (length a) = nat_be 8 (length b)" and rest: "a @ x = b @ y"
    using assms(1) by (simp_all add: put_field_def)
  then have "be_nat (nat_be 8 (length a)) = be_nat (nat_be 8 (length b))" by simp
  then have "length a = length b" using assms(2,3) by simp
  with rest show ?thesis by simp
qed

lemma fields_cancel:
  assumes "concat (map put_field fs) @ x = concat (map put_field gs) @ y" and "length fs = length gs"
    and "list_all (\<lambda>f. length f < 2 ^ 64) fs" "list_all (\<lambda>f. length f < 2 ^ 64) gs"
  shows "fs = gs \<and> x = y"
  using assms
proof (induction fs arbitrary: gs)
  case (Cons f fs)
  then obtain g gs' where gs: "gs = g # gs'" by (cases gs) auto
  with Cons.prems have "put_field f @ (concat (map put_field fs) @ x) = put_field g @ (concat (map put_field gs') @ y)" by simp
  from put_field_cancel [OF this] Cons.prems gs have "f = g" "concat (map put_field fs) @ x = concat (map put_field gs') @ y" by auto
  with Cons.IH [of gs'] Cons.prems gs show ?case by simp
qed simp

lemma show_int_inj [simp]: "show_int i = show_int j \<longleftrightarrow> i = j"
proof -
  have "hd (show_nat n) \<noteq> CHR ''-''" for n
    using show_nat_digits [of "hd (show_nat n)" n] by (auto simp: is_digit_def)
  then have "show_nat n \<noteq> CHR ''-'' # s" "CHR ''-'' # s \<noteq> show_nat n" for n s by (metis list.sel(1))+
  then show ?thesis by (auto simp: show_int_def)
qed

text \<open>What the seal does not hash: the device and the inode.\<close>

definition row_view :: "seal_row \<Rightarrow> seal_row" where
  "row_view r = r\<lparr>sr_stat := (sr_stat r)\<lparr>es_dev := 0, es_ino := 0\<rparr>\<rparr>"

definition row_fits :: "seal_row \<Rightarrow> bool" where
  "row_fits r \<longleftrightarrow> es_kind (sr_stat r) \<noteq> OtherKind \<and> list_all (\<lambda>f. length f < 2 ^ 64) (row_fields r)"

definition fixed_fields :: "seal_row \<Rightarrow> bytes list" where
  "fixed_fields r = take 11 (row_fields r)"

definition pair_fields :: "(bytes \<times> bytes) list \<Rightarrow> bytes list" where
  "pair_fields xs = concat (map (\<lambda>(name, x). [name, x]) xs)"

lemma row_fields_split: "row_fields r = fixed_fields r @ pair_fields (sr_xattrs r)" "length (fixed_fields r) = 11"
  by (simp_all add: fixed_fields_def row_fields_def pair_fields_def Let_def)

lemma pair_fields_length: "length (pair_fields xs) = 2 * length xs"
  by (induction xs) (auto simp: pair_fields_def)

lemma pair_fields_inj: "pair_fields xs = pair_fields ys \<longleftrightarrow> xs = ys"
proof
  show "pair_fields xs = pair_fields ys \<Longrightarrow> xs = ys"
  proof (induction xs arbitrary: ys)
    case Nil
    then show ?case by (cases ys) (auto simp: pair_fields_def)
  next
    case (Cons x xs)
    then show ?case by (cases x; cases ys) (auto simp: pair_fields_def)
  qed
qed simp

lemma kind_text_inj: "k \<noteq> OtherKind \<Longrightarrow> l \<noteq> OtherKind \<Longrightarrow> kind_text k = kind_text l \<longleftrightarrow> k = l"
  by (cases k; cases l) (auto simp: kind_text_def)

lemma fixed_fields_view:
  assumes "fixed_fields r = fixed_fields q" and "sr_xattrs r = sr_xattrs q"
    and "es_kind (sr_stat r) \<noteq> OtherKind" "es_kind (sr_stat q) \<noteq> OtherKind"
  shows "row_view r = row_view q"
proof -
  from assms(1) have "sr_relative r = sr_relative q" "es_kind (sr_stat r) = es_kind (sr_stat q)" "es_mode (sr_stat r) = es_mode (sr_stat q)"
    "es_uid (sr_stat r) = es_uid (sr_stat q)" "es_gid (sr_stat r) = es_gid (sr_stat q)" "es_size (sr_stat r) = es_size (sr_stat q)"
    "es_mtime_ns (sr_stat r) = es_mtime_ns (sr_stat q)" "es_nlink (sr_stat r) = es_nlink (sr_stat q)"
    "sr_hash r = sr_hash q" "sr_link r = sr_link q"
    using kind_text_inj [OF assms(3,4)] by (auto simp: fixed_fields_def row_fields_def Let_def)
  with assms(2) show ?thesis by (cases r; cases q; cases "sr_stat r"; cases "sr_stat q") (simp add: row_view_def)
qed

lemma row_cancel:
  assumes eq: "row_stream r @ x = row_stream q @ y"
    and fits: "row_fits r" "row_fits q"
  shows "row_view r = row_view q \<and> x = y"
proof -
  let ?r = "pair_fields (sr_xattrs r)" and ?q = "pair_fields (sr_xattrs q)"
  have bounds: "list_all (\<lambda>f. length f < 2 ^ 64) (fixed_fields r)" "list_all (\<lambda>f. length f < 2 ^ 64) (fixed_fields q)"
    "list_all (\<lambda>f. length f < 2 ^ 64) ?r" "list_all (\<lambda>f. length f < 2 ^ 64) ?q"
    using fits by (simp_all add: row_fits_def row_fields_split)
  from eq have "concat (map put_field (fixed_fields r)) @ (concat (map put_field ?r) @ x)
      = concat (map put_field (fixed_fields q)) @ (concat (map put_field ?q) @ y)"
    by (simp add: row_stream_def row_fields_split)
  from fields_cancel [OF this] bounds row_fields_split(2) have fixed: "fixed_fields r = fixed_fields q"
    and rest: "concat (map put_field ?r) @ x = concat (map put_field ?q) @ y" by auto
  from fixed have "length (sr_xattrs r) = length (sr_xattrs q)" by (simp add: fixed_fields_def row_fields_def Let_def)
  with fields_cancel [OF rest] bounds have "?r = ?q" "x = y" by (auto simp: pair_fields_length)
  with fixed_fields_view [OF fixed] fits show ?thesis by (simp add: pair_fields_inj row_fits_def)
qed

lemma stream_determines_rows:
  assumes "tree_stream rows = tree_stream rows'" and "list_all row_fits rows" "list_all row_fits rows'"
  shows "map row_view rows = map row_view rows'"
proof -
  have ne: "row_stream r \<noteq> []" for r
    by (simp add: row_stream_def row_fields_def put_field_def Let_def)
  have main: "concat (map row_stream xs) = concat (map row_stream ys) \<Longrightarrow> list_all row_fits xs \<Longrightarrow> list_all row_fits ys
      \<Longrightarrow> map row_view xs = map row_view ys" for xs ys
  proof (induction xs arbitrary: ys)
    case Nil
    then show ?case using ne by (cases ys) auto
  next
    case (Cons x xs)
    then obtain y ys' where ys: "ys = y # ys'" using ne by (cases ys) auto
    with Cons.prems(1) have "row_stream x @ concat (map row_stream xs) = row_stream y @ concat (map row_stream ys')" by simp
    from row_cancel [OF this] Cons ys show ?case by simp
  qed
  have "concat (map row_stream rows) = concat (map row_stream rows')" using assms(1) by (simp add: tree_stream_def)
  from this assms(2,3) show ?thesis by (rule main)
qed

subsection \<open>A written seal reads back\<close>

definition plain :: "string \<Rightarrow> bool" where
  "plain s \<longleftrightarrow> s \<noteq> [] \<and> list_all is_graphic s"

lemma plain_values: "plain (show_nat n)" "bs \<noteq> [] \<Longrightarrow> plain (to_hex bs)"
  using show_nat_graphic to_hex_is_hex graphic_classes(4)
  by (auto simp: plain_def list_all_iff to_hex_def hex_of_byte_def neq_Nil_conv)

lemma fold_seal_line:
  assumes "distinct (map fst (acc @ rows))" and "list_all (\<lambda>(k, x). k \<noteq> [] \<and> x \<noteq> [] \<and> CHR ''='' \<notin> set k) rows"
  shows "fold_result seal_line (map (\<lambda>(k, x). k @ ''='' @ x) rows) acc = Inr (acc @ rows)"
  using assms
proof (induction rows arbitrary: acc)
  case (Cons row rows)
  obtain k x where row: "row = (k, x)" by (cases row)
  from Cons.prems row have "seal_line (k @ ''='' @ x) acc = Inr (acc @ [(k, x)])"
    by (simp add: seal_line_def partition_at_append)
  with Cons.IH [of "acc @ [(k, x)]"] Cons.prems row show ?case by simp
qed simp

lemma universal_newlines_id: "CHR 0x0D \<notin> set s \<Longrightarrow> universal_newlines s = s"
  by (induction s rule: universal_newlines.induct) auto

definition written_seal :: "(string \<times> string) list \<Rightarrow> seal_file" where
  "written_seal rows = \<lparr>sl_regular = True, sl_mode = 0x124, sl_content = Inr (print_fields rows)\<rparr>"

lemma SEAL_KEYS_plain: "list_all (\<lambda>k. plain k \<and> CHR ''='' \<notin> set k) SEAL_KEYS" "distinct SEAL_KEYS"
  by code_simp+

lemma read_written_seal:
  assumes keys: "map fst rows = SEAL_KEYS" and rows: "list_all (\<lambda>(k, x). plain x) rows" and checked: "check_seal rows = Inr ()"
  shows "read_seal (Inr (written_seal rows)) = Inr rows"
proof -
  let ?lines = "map (\<lambda>(k, x). k @ ''='' @ x) rows"
  have key: "plain k \<and> CHR ''='' \<notin> set k" if "(k, x) \<in> set rows" for k x
  proof -
    from that have "k \<in> set (map fst rows)" by force
    with SEAL_KEYS_plain(1) show ?thesis by (simp add: keys list_all_iff)
  qed
  have content: "print_fields rows = concat (map (\<lambda>l. l @ [LF]) ?lines)"
    by (simp add: print_fields_def comp_def case_prod_unfold)
  have graphic: "is_graphic c" if "l \<in> set ?lines" "c \<in> set l" for l c
  proof -
    from that obtain k x where "(k, x) \<in> set rows" "c \<in> set (k @ ''='' @ x)" by auto
    with key [of k x] rows show ?thesis by (auto simp: list_all_iff plain_def is_graphic_def)
  qed
  then have lines: "splitlines (print_fields rows) = ?lines"
    unfolding content by (intro splitlines_unlines graphic_not_break)
  have chars: "is_graphic c \<or> c = LF" if "c \<in> set (print_fields rows)" for c
  proof -
    from that obtain l where "l \<in> set ?lines" "c \<in> set (l @ [LF])" unfolding content set_concat set_map by blast
    with graphic [of l c] show ?thesis by auto
  qed
  have "is_ascii c \<and> c \<noteq> CHR 0x0D" if "c \<in> set (print_fields rows)" for c
    using chars [OF that] by (auto simp: is_graphic_def is_ascii_def)
  then have "list_all is_ascii (print_fields rows)" "CHR 0x0D \<notin> set (print_fields rows)"
    by (auto simp: list_all_iff)
  then have "seal_text (written_seal rows) = Inr (print_fields rows)"
    by (simp add: seal_text_def written_seal_def universal_newlines_id)
  moreover have "fold_result seal_line ?lines [] = Inr rows"
  proof -
    have "distinct (map fst ([] @ rows))" using keys SEAL_KEYS_plain(2) by simp
    moreover have "list_all (\<lambda>(k, x). k \<noteq> [] \<and> x \<noteq> [] \<and> CHR ''='' \<notin> set k) rows"
      unfolding list_all_iff
    proof (rule ballI)
      fix row
      assume "row \<in> set rows"
      then show "case row of (k, x) \<Rightarrow> k \<noteq> [] \<and> x \<noteq> [] \<and> CHR ''='' \<notin> set k"
        using key [of "fst row" "snd row"] rows by (cases row) (auto simp: plain_def list_all_iff)
    qed
    ultimately show ?thesis using fold_seal_line [of "[]" rows] by simp
  qed
  ultimately show ?thesis using checked by (simp add: read_seal_def written_seal_def lines)
qed

definition seal_head :: "nat \<Rightarrow> string \<Rightarrow> (string \<times> string) list" where
  "seal_head bytes_n digest =
     [(''seal_format'', ''rog5-persistent-root-v1''), (''generation'', ''arch-a''), (''source_archive_size'', show_nat bytes_n),
      (''source_archive_sha256'', digest), (''promotion_state'', ''UNBOOTED'')]"

lemma read_fresh_seal:
  assumes "0 < bytes_n" and "length digest = 64" "list_all is_hex digest" and "H (tree_stream rows) \<noteq> []"
  shows "read_seal (Inr (written_seal (seal_head bytes_n digest @ tree_fields H rows))) = Inr (seal_head bytes_n digest @ tree_fields H rows)"
proof (rule read_written_seal)
  show "map fst (seal_head bytes_n digest @ tree_fields H rows) = SEAL_KEYS"
    by (simp add: seal_head_def tree_fields_def SEAL_KEYS_def TREE_KEYS_def)
  have "plain digest" using assms(2,3) graphic_classes(4) by (auto simp: plain_def list_all_iff)
  then show "list_all (\<lambda>(k, x). plain x) (seal_head bytes_n digest @ tree_fields H rows)"
    using plain_values assms(4) by (simp add: seal_head_def tree_fields_def) (simp add: plain_def is_graphic_def)
  show "check_seal (seal_head bytes_n digest @ tree_fields H rows) = Inr ()"
    using assms show_nat_digits
    by (auto simp: check_seal_def field_of_def seal_head_def tree_fields_def SEAL_KEYS_def TREE_KEYS_def Let_def list_all_iff)
qed

subsection \<open>Verification is identity\<close>

lemma row_fields_view: "row_fields (row_view r) = row_fields r"
  by (simp add: row_fields_def row_view_def Let_def)

lemma tree_fields_view: "tree_fields H (map row_view rows) = tree_fields H rows"
proof -
  have "row_stream \<circ> row_view = row_stream" by (rule ext) (simp add: row_stream_def row_fields_view)
  then have stream: "tree_stream (map row_view rows) = tree_stream rows" by (simp add: tree_stream_def)
  have kinds: "filter (\<lambda>r. es_kind (sr_stat r) = k) (map row_view xs) = map row_view (filter (\<lambda>r. es_kind (sr_stat r) = k) xs)" for k xs
    by (induction xs) (auto simp: row_view_def)
  have facts: "es_size (sr_stat (row_view r)) = es_size (sr_stat r)" "sr_xattrs (row_view r) = sr_xattrs r" for r
    by (simp_all add: row_view_def)
  show ?thesis by (simp add: tree_fields_def count_kind_def stream kinds comp_def facts)
qed

lemma same_keys: "fold_result (same_key actual expected) keys () = Inr () \<longleftrightarrow> list_all (\<lambda>k. field_of actual k = field_of expected k) keys"
proof -
  have "same_key actual expected = (\<lambda>k u. need (field_of actual k = field_of expected k) (ContractError (''sealed tree changed: '' @ k)))"
    by (intro ext) (simp add: same_key_def)
  then show ?thesis by (simp add: fold_result_check list_all_iff)
qed

lemma tree_fields_same:
  "list_all (\<lambda>k. field_of (tree_fields H rows') k = field_of (seal_head n digest @ tree_fields H rows) k) TREE_KEYS
     \<longleftrightarrow> tree_fields H rows' = tree_fields H rows"
  by (auto simp: TREE_KEYS_def field_of_def seal_head_def tree_fields_def)

lemma tree_fields_digest: "tree_fields H rows' = tree_fields H rows \<Longrightarrow> H (tree_stream rows') = H (tree_stream rows)"
  by (auto simp: tree_fields_def dest: to_hex_inj)

text \<open>
  C27. A seal written for a tree verifies another state of that tree exactly when that state can be walked and read and is, entry for entry,
  the sealed one in its path, kind, mode, owners, size, modification time, link count, content digest, link
  target and extended attributes - provided that the digest does not collide on the two hashed streams.
\<close>

theorem verify_tree_exact:
  assumes sealed: "seal_rows H w = Inr rows" "list_all row_fits rows"
    and seal: "0 < n" "length digest = 64" "list_all is_hex digest" "H (tree_stream rows) \<noteq> []"
    and other: "\<And>rows'. seal_rows H w' = Inr rows' \<Longrightarrow> list_all row_fits rows'
       \<and> (H (tree_stream rows') = H (tree_stream rows) \<longrightarrow> tree_stream rows' = tree_stream rows)"
  shows "verify_tree H w' (Inr (written_seal (seal_head n digest @ tree_fields H rows))) = Inr ()
     \<longleftrightarrow> sw_real_directory w' \<and> (\<exists>rows'. seal_rows H w' = Inr rows' \<and> map row_view rows' = map row_view rows)"
proof -
  have read: "read_seal (Inr (written_seal (seal_head n digest @ tree_fields H rows))) = Inr (seal_head n digest @ tree_fields H rows)"
    using seal by (rule read_fresh_seal)
  show ?thesis
  proof (cases "seal_rows H w'")
    case (Inl e)
    then show ?thesis by (simp add: verify_tree_def read seal_tree_def)
  next
    case (Inr rows')
    have "tree_fields H rows' = tree_fields H rows \<longleftrightarrow> map row_view rows' = map row_view rows"
    proof
      assume "tree_fields H rows' = tree_fields H rows"
      with other [OF Inr] have "tree_stream rows' = tree_stream rows" by (blast dest: tree_fields_digest)
      with other [OF Inr] sealed(2) show "map row_view rows' = map row_view rows" by (blast intro: stream_determines_rows)
    next
      assume "map row_view rows' = map row_view rows"
      then show "tree_fields H rows' = tree_fields H rows" by (metis tree_fields_view)
    qed
    with Inr show ?thesis
      by (simp add: verify_tree_def read seal_tree_def same_keys tree_fields_same)
  qed
qed

subsection \<open>Accepted archives\<close>

text \<open>Going through the components never leaves the directory it starts \<open>d\<close> levels below.\<close>

fun stays_inside :: "nat \<Rightarrow> string list \<Rightarrow> bool" where
  "stays_inside d [] = True"
| "stays_inside d (p # ps) = (if p = ''..'' then 0 < d \<and> stays_inside (d - 1) ps else stays_inside (d + 1) ps)"

lemma norm_outside: "stack \<noteq> [] \<Longrightarrow> hd stack = ''..'' \<Longrightarrow> foldl norm_step stack parts \<noteq> [] \<and> hd (foldl norm_step stack parts) = ''..''"
proof (induction parts arbitrary: stack)
  case (Cons p parts)
  have "norm_step stack p \<noteq> [] \<and> hd (norm_step stack p) = ''..''"
    using Cons.prems by (cases stack rule: rev_cases) (auto simp: norm_step_def hd_append)
  with Cons.IH [of "norm_step stack p"] show ?case by simp
qed simp

lemma norm_inside:
  "''..'' \<notin> set stack \<Longrightarrow> (case foldl norm_step stack parts of [] \<Rightarrow> False | p # _ \<Rightarrow> p = ''..'') \<longleftrightarrow> \<not> stays_inside (length stack) parts"
proof (induction parts arbitrary: stack)
  case Nil
  then show ?case by (auto split: list.splits)
next
  case (Cons p parts)
  consider (down) "p \<noteq> ''..''" | (up) "p = ''..''" "stack \<noteq> []" | (out) "p = ''..''" "stack = []" by blast
  then show ?case
  proof cases
    case down
    with Cons.IH [of "stack @ [p]"] Cons.prems show ?thesis by (simp add: norm_step_def)
  next
    case up
    then have "last stack \<noteq> ''..''" using Cons.prems by (metis last_in_set)
    with up Cons.IH [of "butlast stack"] Cons.prems show ?thesis by (auto simp: norm_step_def dest: in_set_butlastD)
  next
    case out
    have "norm_step [] ''..'' = [''..'']" by (simp add: norm_step_def)
    with out norm_outside [of "[''..'']" parts] show ?thesis by (auto simp: neq_Nil_conv)
  qed
qed

lemma stays_inside_down: "''..'' \<notin> set parts \<Longrightarrow> stays_inside d parts"
  by (induction parts arbitrary: d) auto

lemma link_escapes_exact: "link_escapes name target \<longleftrightarrow> \<not> stays_inside 0 (butlast (posix_parts name) @ posix_parts target)"
proof -
  let ?parts = "butlast (posix_parts name) @ posix_parts target"
  have "''..'' \<in> set ?parts" if "\<not> stays_inside 0 ?parts" using that stays_inside_down by blast
  with norm_inside [of "[]" ?parts] show ?thesis unfolding link_escapes_def norm_parts_def Let_def by auto
qed

definition safe_path :: "string \<Rightarrow> bool" where
  "safe_path path \<longleftrightarrow> path = ''.''
     \<or> CHR 0x00 \<notin> set path \<and> list_all (\<lambda>p. p \<notin> set ['''', ''.'', ''..'']) (split_on (CHR ''/'') path)"

lemma set_join: "set (join sep ws) \<subseteq> set sep \<union> (\<Union>w\<in>set ws. set w)"
  by (induction sep ws rule: join.induct) auto

lemma clean_path_safe:
  assumes "clean_archive_path given = Inr path"
  shows "safe_path path"
proof -
  let ?name = "drop_dot_slash given"
  let ?parts = "posix_parts ?name"
  consider "path = ''.''" | (rel) "CHR 0x00 \<notin> set ?name" "path = (if ?parts = [] then ''.'' else join ''/'' ?parts)" "''..'' \<notin> set ?parts"
    using assms by (auto simp: clean_archive_path_def Let_def list_ex_iff split: if_splits)
  then show ?thesis
  proof cases
    case rel
    have parts: "CHR ''/'' \<notin> set p \<and> p \<noteq> '''' \<and> p \<noteq> ''.'' \<and> p \<noteq> ''..'' \<and> CHR 0x00 \<notin> set p" if "p \<in> set ?parts" for p
      using that rel(1,3) split_on_words [of p "CHR ''/''" ?name] by (auto simp: posix_parts_def)
    show ?thesis
    proof (cases "?parts = []")
      case True
      with rel(2) show ?thesis by (simp add: safe_path_def)
    next
      case False
      have "split_on (CHR ''/'') path = ?parts" using False parts rel(2) by (simp add: split_on_join)
      moreover have "CHR 0x00 \<notin> set path"
      proof
        assume "CHR 0x00 \<in> set path"
        with False rel(2) have "CHR 0x00 \<in> set (join ''/'' ?parts)" by simp
        with set_join [of "''/''" ?parts] obtain p where "p \<in> set ?parts" "CHR 0x00 \<in> set p" by auto
        with parts show False by blast
      qed
      ultimately show ?thesis using parts by (simp add: safe_path_def list_all_iff)
    qed
  qed (simp add: safe_path_def)
qed

definition member_ok :: "string \<Rightarrow> tar_member \<Rightarrow> bool" where
  "member_ok name m \<longleftrightarrow> name \<noteq> SEAL_NAME \<and> \<not> has_embedded_credential name \<and> \<not> mb_sparse m
     \<and> (case mb_kind m of
          TarFile \<Rightarrow> True | TarDir \<Rightarrow> True
        | TarSym \<Rightarrow> mb_link m \<noteq> [] \<and> (prefix ''/'' (mb_link m) \<or> stays_inside 0 (butlast (posix_parts name) @ posix_parts (mb_link m)))
        | TarLink \<Rightarrow> (case clean_archive_path (mb_link m) of Inr target \<Rightarrow> target \<noteq> ''.'' | Inl _ \<Rightarrow> False)
        | TarDev \<Rightarrow> False | TarOther \<Rightarrow> False)"

definition add_counts :: "tar_member list \<Rightarrow> archive_counts \<Rightarrow> archive_counts" where
  "add_counts ms c =
     (let n = (\<lambda>k. length (filter (\<lambda>m. mb_kind m = k) ms)) in
      \<lparr>archive_entries = archive_entries c + length ms, archive_regular_files = archive_regular_files c + n TarFile,
       archive_directories = archive_directories c + n TarDir, archive_symlinks = archive_symlinks c + n TarSym,
       archive_hardlinks = archive_hardlinks c + n TarLink\<rparr>)"

lemma inspect_member_exact:
  assumes clean: "clean_archive_path (mb_name m) = Inr name"
  shows "inspect_member m (names, c) = Inr acc \<longleftrightarrow> name \<notin> set names \<and> member_ok name m \<and> acc = (name # names, add_counts [m] c)"
  using clean
  by (cases "mb_kind m")
     (auto simp: inspect_member_def member_ok_def count_member_def inspect_symlink_def inspect_hardlink_def link_escapes_exact
        bind_result_eq_Inr need_def add_counts_def Let_def split: if_splits sum.splits)

lemma add_counts_append: "add_counts (m # ms) c = add_counts ms (add_counts [m] c)"
  by (auto simp: add_counts_def Let_def)

lemma inspect_members_exact:
  "fold_result inspect_member ms (seen, c) = Inr (seen', c') \<longleftrightarrow>
     (\<exists>names. map_result (\<lambda>m. clean_archive_path (mb_name m)) ms = Inr names \<and> distinct names \<and> set names \<inter> set seen = {}
        \<and> list_all2 member_ok names ms \<and> seen' = rev names @ seen \<and> c' = add_counts ms c)"
proof (induction ms arbitrary: seen c)
  case Nil
  show ?case by (auto simp: add_counts_def)
next
  case (Cons m ms)
  show ?case
  proof (cases "clean_archive_path (mb_name m)")
    case (Inl e)
    then show ?thesis by (simp add: inspect_member_def)
  next
    case (Inr name)
    have "fold_result inspect_member (m # ms) (seen, c) = Inr (seen', c')
       \<longleftrightarrow> name \<notin> set seen \<and> member_ok name m \<and> fold_result inspect_member ms (name # seen, add_counts [m] c) = Inr (seen', c')"
      unfolding fold_result.simps bind_result_eq_Inr inspect_member_exact [OF Inr] by blast
    also have "\<dots> \<longleftrightarrow> (\<exists>names. map_result (\<lambda>m. clean_archive_path (mb_name m)) (m # ms) = Inr names \<and> distinct names \<and> set names \<inter> set seen = {}
        \<and> list_all2 member_ok names (m # ms) \<and> seen' = rev names @ seen \<and> c' = add_counts (m # ms) c)"
      unfolding Cons.IH by (simp add: Inr bind_result_eq_Inr add_counts_append [of m ms c]) auto
    finally show ?thesis .
  qed
qed

text \<open>
  C29. An archive is accepted exactly when it is a readable regular file with at least one member, and its members have distinct, safe
  relative paths, none of them the seal or a credential, none sparse or a device, with hard links to safe
  paths and symbolic links that are absolute or never climb out of the root at any component; the
  counts reported are the numbers of members of each kind.
\<close>

theorem inspect_archive_exact:
  "inspect_archive a = Inr c \<longleftrightarrow>
     ar_regular a \<and> \<not> ar_broken a \<and> ar_members a \<noteq> []
     \<and> (\<exists>names. map_result (\<lambda>m. clean_archive_path (mb_name m)) (ar_members a) = Inr names \<and> list_all safe_path names
          \<and> distinct names \<and> list_all2 member_ok names (ar_members a))
     \<and> c = add_counts (ar_members a) no_counts"
proof -
  have safe: "list_all safe_path names" if "map_result (\<lambda>m. clean_archive_path (mb_name m)) ms = Inr names" for ms names
    using that unfolding map_result_eq_Inr by (induction ms names rule: list_all2_induct) (auto dest: clean_path_safe)
  have entries: "archive_entries (add_counts ms no_counts) = length ms" for ms by (simp add: add_counts_def no_counts_def Let_def)
  have "inspect_archive a = Inr c \<longleftrightarrow> ar_regular a \<and> \<not> ar_broken a
     \<and> (\<exists>seen. fold_result inspect_member (ar_members a) ([], no_counts) = Inr (seen, c)) \<and> archive_entries c \<noteq> 0"
    by (auto simp: inspect_archive_def bind_result_eq_Inr split: if_splits)
  then show ?thesis unfolding inspect_members_exact using safe entries by auto
qed

subsection \<open>An example\<close>

definition sample_stat :: "entry_kind \<Rightarrow> nat \<Rightarrow> entry_stat" where
  "sample_stat kind n = \<lparr>es_dev = 7, es_ino = n, es_kind = kind, es_mode = 420, es_uid = 0, es_gid = 0, es_size = n,
     es_mtime_ns = 5, es_nlink = 1\<rparr>"

definition sample_world :: sealed_world where
  "sample_world =
     \<lparr>sw_real_directory = True, sw_walkable = True,
      sw_tree = Entry (sample_stat Directory 2)
        [(''lib'', Entry (sample_stat Symlink 3) []), (SEAL_NAME, Entry (sample_stat Regular 9) []), (''init'', Entry (sample_stat Regular 4) [])],
      sw_open = (\<lambda>p. if p = ''init'' then Inr (sample_stat Regular 4, ''boot'') else Inl FileNotFoundError),
      sw_readlink = (\<lambda>p. if p = ''lib'' then Inr ''usr'' else Inl OSError),
      sw_xattrs = (\<lambda>p. Xattrs (if p = ''init'' then [(''user.a'', ''1'')] else []))\<rparr>"

definition sample_rows :: "seal_row list" where
  "sample_rows =
     [\<lparr>sr_relative = ''.'', sr_stat = sample_stat Directory 2, sr_hash = [], sr_link = [], sr_xattrs = []\<rparr>,
      \<lparr>sr_relative = ''init'', sr_stat = sample_stat Regular 4, sr_hash = ''boot'', sr_link = [], sr_xattrs = [(''user.a'', ''1'')]\<rparr>,
      \<lparr>sr_relative = ''lib'', sr_stat = sample_stat Symlink 3, sr_hash = [], sr_link = ''usr'', sr_xattrs = []\<rparr>]"

lemma sample_seal_rows: "seal_rows (\<lambda>x. x) sample_world = Inr sample_rows"
proof -
  have "sort_key fst (case sw_tree sample_world of Entry _ children \<Rightarrow> children)
      = [(SEAL_NAME, Entry (sample_stat Regular 9) []), (''init'', Entry (sample_stat Regular 4) []), (''lib'', Entry (sample_stat Symlink 3) [])]"
    by code_simp
  then show ?thesis
    by (simp add: seal_rows_def sample_world_def sample_rows_def sample_stat_def child_relative_def UNSEALED_def SEAL_NAME_def root_stat_def
        seal_entry_def need_def file_digest_def same_entry_def entry_xattrs_def)
qed

lemma sample_rows_fit: "list_all row_fits sample_rows"
  by (simp add: sample_rows_def row_fits_def row_fields_def sample_stat_def kind_text_def show_nat.simps show_int_def)

theorem verify_tree_exact_witness:
  "verify_tree (\<lambda>x. x) sample_world
     (Inr (written_seal (seal_head 1 (replicate 64 CHR ''a'') @ tree_fields (\<lambda>x. x) sample_rows))) = Inr ()"
proof -
  have "tree_stream sample_rows \<noteq> []" by (simp add: tree_stream_def)
  moreover have "list_all is_hex (replicate 64 CHR ''a'')" by (simp add: list_all_iff is_hex_def)
  moreover have "sw_real_directory sample_world" by (simp add: sample_world_def)
  ultimately show ?thesis
    using verify_tree_exact [OF sample_seal_rows sample_rows_fit, of 1 "replicate 64 CHR ''a''" sample_world]
    by (simp add: sample_seal_rows sample_rows_fit)
qed

end
