(* ===== verification/Py_Hex.thy ===== *)
theory Py_Hex
  imports Py_Unicode
begin

section \<open>Hexadecimal numbers\<close>

text \<open>
  \<open>int(text, 16)\<close> of a text without surrounding white space, \<open>bytes.strip\<close> for the case of bytes, and the format \<open>08x\<close>, with the
  round trip of the two.
\<close>

definition hex_value :: "char \<Rightarrow> nat option" where
  "hex_value c =
     (if is_digit c then Some (code c - 48)
      else if 97 \<le> code c \<and> code c \<le> 102 then Some (code c - 87)
      else if 65 \<le> code c \<and> code c \<le> 70 then Some (code c - 55) else None)"

text \<open>Digits with single underscores between them.\<close>

fun read_hex_digits :: "int \<Rightarrow> string \<Rightarrow> int option" where
  "read_hex_digits n [] = None"
| "read_hex_digits n [c] = map_option (\<lambda>d. 16 * n + int d) (hex_value c)"
| "read_hex_digits n (c # d # s) =
     (case hex_value c of
        None \<Rightarrow> None
      | Some x \<Rightarrow> read_hex_digits (16 * n + int x) (if d = CHR ''_'' then s else d # s))"

text \<open>The prefix may be followed by one underscore.\<close>

definition read_int16 :: "string \<Rightarrow> int option" where
  "read_int16 s =
     (let sign = (case s of [] \<Rightarrow> [] | c # _ \<Rightarrow> if c = CHR ''-'' \<or> c = CHR ''+'' then [c] else []);
          body = drop (length sign) s;
          prefixed = prefix ''0x'' body \<or> prefix ''0X'' body;
          digits = (if prefixed then (if prefix ''_'' (drop 2 body) then drop 3 body else drop 2 body) else body)
      in map_option (\<lambda>n. (if sign = ''-'' then -1 else 1) * n) (read_hex_digits 0 digits))"

definition ascii_space :: "char \<Rightarrow> bool" where
  "ascii_space c \<longleftrightarrow> c = CHR '' '' \<or> (9 \<le> code c \<and> code c \<le> 13)"

definition ascii_strip :: "bytes \<Rightarrow> bytes" where
  "ascii_strip s = rev (dropWhile ascii_space (rev (dropWhile ascii_space s)))"

text \<open>\<open>f'{n:08x}'\<close>.\<close>

fun show_hex :: "nat \<Rightarrow> string" where
  "show_hex n = (if n < 16 then [hex_digit n] else show_hex (n div 16) @ [hex_digit (n mod 16)])"

declare show_hex.simps [simp del]

definition zero_padded :: "nat \<Rightarrow> string \<Rightarrow> string" where
  "zero_padded k s = replicate (k - length s) (CHR ''0'') @ s"

definition hex8 :: "int \<Rightarrow> string" where
  "hex8 v = (if v < 0 then ''-'' @ zero_padded 7 (show_hex (nat (- v))) else zero_padded 8 (show_hex (nat v)))"

subsection \<open>The round trip\<close>

lemma code_hex_digit: "d < 16 \<Longrightarrow> code (hex_digit d) = (if d < 10 then 48 + d else 87 + d)"
  by (simp add: hex_digit_def code_char_of)

lemma hex_value_digit [simp]: "d < 16 \<Longrightarrow> hex_value (hex_digit d) = Some d"
  by (auto simp: hex_value_def is_digit_def code_hex_digit)

definition hex_sum :: "string \<Rightarrow> int" where
  "hex_sum s = foldl (\<lambda>n c. 16 * n + int (the (hex_value c))) 0 s"

lemma not_hex: "\<not> is_hex (CHR ''_'')" "\<not> is_hex (CHR ''-'')" "\<not> is_hex (CHR ''+'')" "\<not> is_hex (CHR ''x'')" "\<not> is_hex (CHR ''X'')"
  by (simp_all add: is_hex_def is_digit_def)

lemma hex_value_hex: "is_hex c \<Longrightarrow> \<exists>d. hex_value c = Some d"
  by (auto simp: is_hex_def hex_value_def)

lemma hex_not_space: "is_hex c \<Longrightarrow> \<not> ascii_space c"
  by (auto simp: is_hex_def is_digit_def ascii_space_def)

lemma read_plain: "list_all is_hex s \<Longrightarrow> s \<noteq> [] \<Longrightarrow> read_hex_digits n s = Some (foldl (\<lambda>n c. 16 * n + int (the (hex_value c))) n s)"
proof (induction n s rule: read_hex_digits.induct)
  case (3 n c d s)
  then obtain x where x: "hex_value c = Some x" using hex_value_hex by auto
  from 3 have "d \<noteq> CHR ''_''" using not_hex(1) by auto
  with 3 x show ?case by simp
qed (auto dest: hex_value_hex)

lemma hex_digit_zero: "hex_digit 0 = CHR ''0''"
  by code_simp

lemma show_hex_plain: "list_all is_hex (show_hex n)"
proof (induction n rule: show_hex.induct)
  case (1 n)
  then show ?case by (subst show_hex.simps) auto
qed

lemma show_hex_sum: "hex_sum (show_hex n) = int n"
proof (induction n rule: show_hex.induct)
  case (1 n)
  have "16 * int (n div 16) + int (n mod 16) = int n" by (metis mult_div_mod_eq of_nat_add of_nat_mult of_nat_numeral)
  with 1 show ?case by (subst show_hex.simps) (simp add: hex_sum_def)
qed

lemma show_hex_nonempty [simp]: "show_hex n \<noteq> []"
  by (subst show_hex.simps) simp

lemma length_show_hex: "n < 16 ^ k \<Longrightarrow> 0 < k \<Longrightarrow> length (show_hex n) \<le> k"
proof (induction k arbitrary: n)
  case (Suc k)
  show ?case
  proof (cases "n < 16")
    case True
    then show ?thesis by (subst show_hex.simps) simp
  next
    case False
    with Suc.prems have "n div 16 < 16 ^ k" "0 < k" by (auto intro: less_mult_imp_div_less gr0I)
    with Suc.IH [of "n div 16"] False show ?thesis by (subst show_hex.simps) simp
  qed
qed simp

lemma zero_padded_facts:
  assumes "list_all is_hex s"
  shows "list_all is_hex (zero_padded k s)" and "hex_sum (zero_padded k s) = hex_sum s"
proof -
  have "is_hex (CHR ''0'')" by (simp add: is_hex_def is_digit_def)
  then show "list_all is_hex (zero_padded k s)" using assms by (auto simp: zero_padded_def list_all_iff)
  have "foldl (\<lambda>n c. 16 * n + int (the (hex_value c))) 0 (replicate m (CHR ''0'')) = 0" for m
    using hex_value_digit [of 0] by (induction m) (simp_all add: hex_digit_zero)
  then show "hex_sum (zero_padded k s) = hex_sum s" by (simp add: hex_sum_def zero_padded_def)
qed

lemma read_int16_plain:
  assumes hex: "list_all is_hex s" and "s \<noteq> []"
  shows "read_int16 s = Some (hex_sum s)"
proof -
  obtain c t where s: "s = c # t" using assms(2) by (cases s) auto
  with hex have "c \<noteq> CHR ''-''" "c \<noteq> CHR ''+''" using not_hex by auto
  moreover have "\<not> prefix ''0x'' s" "\<not> prefix ''0X'' s"
    using hex not_hex by (auto simp: prefix_def)
  moreover from calculation have "(case s of [] \<Rightarrow> [] | c # _ \<Rightarrow> if c = CHR ''-'' \<or> c = CHR ''+'' then [c] else []) = []"
    by (simp add: s)
  ultimately show ?thesis
    using read_plain [OF assms, of 0] by (simp add: read_int16_def hex_sum_def Let_def)
qed

lemma ascii_strip_plain: "list_all is_hex s \<Longrightarrow> ascii_strip s = s"
proof -
  assume "list_all is_hex s"
  then have hex: "\<And>c. c \<in> set s \<Longrightarrow> \<not> ascii_space c" using hex_not_space by (simp add: list_all_iff)
  have "dropWhile ascii_space s = s" using hex by (cases s) simp_all
  moreover have "dropWhile ascii_space (rev s) = rev s"
    using hex by (metis dropWhile_eq_self_iff hd_in_set set_rev)
  ultimately show ?thesis by (simp add: ascii_strip_def)
qed

lemma hex8_roundtrip:
  assumes "0 \<le> v" and "v < 2 ^ 32"
  shows "read_int16 (ascii_strip (hex8 v)) = Some v" and "length (hex8 v) = 8"
proof -
  have shown: "hex8 v = zero_padded 8 (show_hex (nat v))" using assms by (simp add: hex8_def)
  note plain = zero_padded_facts [OF show_hex_plain, of 8 "nat v"]
  have "hex8 v \<noteq> []" by (simp add: shown zero_padded_def)
  with plain read_int16_plain [of "hex8 v"] assms show "read_int16 (ascii_strip (hex8 v)) = Some v"
    by (simp add: shown ascii_strip_plain show_hex_sum)
  have "nat v < 16 ^ 8" using assms by simp
  from length_show_hex [OF this] show "length (hex8 v) = 8" by (simp add: shown zero_padded_def)
qed

subsection \<open>Bounds\<close>

lemma hex_value_bound: "hex_value c = Some d \<Longrightarrow> d < 16"
  by (auto simp: hex_value_def is_digit_def split: if_splits)

lemma read_hex_digits_bound: "read_hex_digits n s = Some v \<Longrightarrow> 0 \<le> n \<Longrightarrow> v < (n + 1) * 16 ^ length s"
proof (induction n s arbitrary: v rule: read_hex_digits.induct)
  case (3 n c d s)
  then obtain x where x: "hex_value c = Some x" by (auto split: option.splits)
  define t where "t = (if d = CHR ''_'' then s else d # s)"
  from 3 x have "v < (16 * n + int x + 1) * 16 ^ length t" by (simp add: t_def)
  also have "\<dots> \<le> (16 * (n + 1)) * 16 ^ length t"
    using hex_value_bound [OF x] by (intro mult_right_mono) simp_all
  also have "\<dots> \<le> (16 * (n + 1)) * 16 ^ length (d # s)"
    using 3 by (intro mult_left_mono power_increasing) (simp_all add: t_def)
  finally show ?case by (simp add: algebra_simps)
qed (auto dest: hex_value_bound)

lemma read_hex_digits_nonneg: "read_hex_digits n s = Some v \<Longrightarrow> 0 \<le> n \<Longrightarrow> 0 \<le> v"
  by (induction n s arbitrary: v rule: read_hex_digits.induct) (auto split: option.splits if_splits)

lemma read_int16_bound:
  assumes "read_int16 s = Some v" and "length s \<le> 8"
  shows "v < 2 ^ 32"
proof -
  define sign where "sign = (case s of [] \<Rightarrow> [] | c # _ \<Rightarrow> if c = CHR ''-'' \<or> c = CHR ''+'' then [c] else [])"
  from assms(1) obtain digits n where n: "read_hex_digits 0 digits = Some n" "v = (if sign = ''-'' then -1 else 1) * n"
    and short: "length digits \<le> length s"
    unfolding read_int16_def Let_def sign_def [symmetric] by (auto split: if_splits)
  have "(16 :: int) ^ length digits \<le> 16 ^ 8" using short assms(2) by (intro power_increasing) simp_all
  with read_hex_digits_bound [OF n(1)] have "n < 2 ^ 32" by simp
  moreover have "0 \<le> n" using n(1) by (rule read_hex_digits_nonneg) simp
  ultimately show ?thesis using n(2) by (auto split: if_splits)
qed

lemma length_ascii_strip: "length (ascii_strip s) \<le> length s"
  using length_dropWhile_le [of ascii_space "rev (dropWhile ascii_space s)"] length_dropWhile_le [of ascii_space s]
  by (simp add: ascii_strip_def)

end
