(* ===== verification/Ram_Trial.thy ===== *)
theory Ram_Trial
  imports Py_Hex "HOL-Library.Word" Py_Json
begin

section \<open>The RAM trial of a production wrapper\<close>

text \<open>
  Models \<^verbatim>\<open>scripts/host/production-ram-trial.py\<close>: the classification of the USB port, the fastboot identity, the sealed snapshot of
  the wrapper, the one-use claim, the boot, the waits and the observation. Each file-system call takes the next act of a
  script: it goes on, fails, writes less, or is where the process dies or the host loses power. Losing power keeps what was
  synced and an arbitrary part of the rest. External programs answer with the next reply, and each look at the port
  with the next view. The JSON text of a claim is an argument; that of the evidence files, the variable ends of messages and stopping
  the kernel log are left out. The claim directory lies \<open>ts_depth\<close> levels below a directory that is always there; each level remembers
  whether its entry is synced, and \<open>ts_real\<close> says that the last one is a directory and no link. The health report keeps a list of
  values for each key also when it has one. The digest is the argument \<open>H\<close>. Times are in nanoseconds.
\<close>

subsection \<open>The port\<close>

record usb_view =
  uv_exists :: bool
  uv_resolved :: "string result"
  uv_vendor :: "bytes result"
  uv_product_id :: "bytes result"
  uv_serial :: "bytes result"
  uv_product :: "bytes result"
  uv_interface :: bool
  uv_interface_parent :: "string result"

record trial_config =
  tc_serial :: string
  tc_anchor :: string
  tc_allowed :: bool
  tc_fastboot_safe :: "bool result"
  tc_credentials_safe :: "bool result"

definition IMAGE_SIZE :: int where
  "IMAGE_SIZE = 134217728"

definition sysfs_text :: "bytes result \<Rightarrow> string result" where
  "sysfs_text opened =
     bind_result opened (\<lambda>raw. if utf8_ok raw then Inr (strip (universal_newlines raw)) else Inl UnicodeError)"

definition classify_port :: "trial_config \<Rightarrow> usb_view \<Rightarrow> string result" where
  "classify_port cfg v =
     (if \<not> uv_exists v then Inr ''absent''
      else bind_result (uv_resolved v) (\<lambda>path.
        if path \<noteq> tc_anchor cfg then Inr ''mismatch''
        else bind_result (sysfs_text (uv_vendor v)) (\<lambda>vendor. bind_result (sysfs_text (uv_product_id v)) (\<lambda>ident.
          if (vendor, ident) = (''0b05'', ''4daf'')
          then bind_result (sysfs_text (uv_serial v)) (\<lambda>serial. Inr (if serial = tc_serial cfg then ''fastboot'' else ''mismatch''))
          else if (vendor, ident) = (''05c6'', ''900e'') then Inr ''crashdump''
          else if (vendor, ident) \<noteq> (''1d6b'', ''0104'') then Inr ''mismatch''
          else bind_result (sysfs_text (uv_product v)) (\<lambda>product.
            if product = ''ROG5 recovery'' then Inr ''recovery''
            else if product \<noteq> ''ROG5 persistent root'' then Inr ''mismatch''
            else if \<not> uv_interface v then Inr ''enumerating''
            else bind_result (uv_interface_parent v) (\<lambda>parent. Inr (if parent \<noteq> path then ''mismatch'' else ''target'')))))))"

fun os_error :: "exn \<Rightarrow> bool" where
  "os_error OSError = True"
| "os_error FileNotFoundError = True"
| "os_error FileExistsError = True"
| "os_error _ = False"

definition port_state :: "trial_config \<Rightarrow> usb_view \<Rightarrow> string result" where
  "port_state cfg v = (case classify_port cfg v of Inl e \<Rightarrow> if os_error e then Inr ''transition'' else Inl e | Inr st \<Rightarrow> Inr st)"

subsection \<open>The host\<close>

datatype trial_act = TGo | TFail | TShort nat | TDie | TPower nat "string list"

datatype trial_reply = Reply nat int bytes bytes | NoReply nat

datatype trial_event = Transition string | Prompt string

record trial_host =
  ts_now :: int
  ts_acts :: "trial_act list"
  ts_views :: "usb_view list"
  ts_replies :: "trial_reply list"
  ts_polls :: "bool list"
  ts_depth :: nat
  ts_real :: bool
  ts_dirs :: "bool list"
  ts_claims :: "(string \<times> bool) list"
  ts_snapshot :: bytes
  ts_sent :: "(string \<times> bytes) list"
  ts_files :: "string list"
  ts_log :: "trial_event list"
  ts_health :: "(string \<times> string list) list"

text \<open>
  Losing power: the synced levels of the directory survive, and of the others at most the first \<open>level\<close>; with all of them the
  synced claims survive, and of the others those in \<open>kept\<close>.
\<close>

definition lose_power :: "nat \<Rightarrow> string list \<Rightarrow> trial_host \<Rightarrow> trial_host" where
  "lose_power level kept s =
     (let n = max (length (takeWhile id (ts_dirs s))) (min level (length (ts_dirs s))) in
      s\<lparr>ts_dirs := replicate n True,
        ts_claims := (if n < length (ts_dirs s) then []
          else map (\<lambda>(h, _). (h, True)) (filter (\<lambda>(h, synced). synced \<or> h \<in> set kept) (ts_claims s)))\<rparr>)"

definition act :: "(trial_host, nat option) io" where
  "act s =
     (case ts_acts s of
        [] \<Rightarrow> (Inr None, s)
      | a # acts \<Rightarrow>
          let t = s\<lparr>ts_acts := acts\<rparr> in
          (case a of
             TGo \<Rightarrow> (Inr None, t)
           | TFail \<Rightarrow> (Inl OSError, t)
           | TShort k \<Rightarrow> (Inr (Some k), t)
           | TDie \<Rightarrow> (Inl Killed, t)
           | TPower level kept \<Rightarrow> (Inl Killed, lose_power level kept t)))"

definition look :: "trial_config \<Rightarrow> (trial_host, string) io" where
  "look cfg s =
     (case ts_views s of
        [] \<Rightarrow> (Inr ''absent'', s)
      | v # views \<Rightarrow> (port_state cfg v, s\<lparr>ts_views := views\<rparr>))"

definition run_program :: "(trial_host, int \<times> bytes \<times> bytes) io" where
  "run_program s =
     (case ts_replies s of
        [] \<Rightarrow> (Inl SubprocessError, s)
      | NoReply d # replies \<Rightarrow> (Inl SubprocessError, s\<lparr>ts_replies := replies, ts_now := ts_now s + int d\<rparr>)
      | Reply d rc out err # replies \<Rightarrow> (Inr (rc, out, err), s\<lparr>ts_replies := replies, ts_now := ts_now s + int d\<rparr>))"

definition need_trial :: "bool \<Rightarrow> string \<Rightarrow> (trial_host, unit) io" where
  "need_trial ok why = when_raise (\<not> ok) (ValueError why)"

subsection \<open>The fastboot identity\<close>

definition fastboot :: "trial_config \<Rightarrow> (trial_host, int \<times> bytes \<times> bytes) io" where
  "fastboot cfg =
     bind_io (lift_result (tc_fastboot_safe cfg)) (\<lambda>safe.
     bind_io (need_trial safe ''fastboot executable is unsafe'') (\<lambda>_. run_program))"

text \<open>
  \<open>re.findall\<close> of \<^verbatim>\<open>^(?:\(bootloader\) )?name:\s*(\S+)\s*$\<close> with \<open>re.M\<close>: white space may
  cross lines, the word is maximal, and the white space after it has to reach the end of a line.
\<close>

definition match_var :: "string \<Rightarrow> string \<Rightarrow> (string \<times> string \<times> bool) option" where
  "match_var name line =
     (if \<not> prefix (name @ '':'') line then None
      else let rest = lstrip (drop (length name + 1) line);
               word = first_word rest;
               tail = drop (length word) rest;
               later = lstrip tail;
               run = take (length tail - length later) tail
           in if word = [] then None
              else if later = [] then Some (word, [], False)
              else if LF \<notin> set run then None
              else let k = length run - 1 - length (takeWhile (\<lambda>c. c \<noteq> LF) (rev run))
                   in Some (word, drop k tail, 0 < k \<and> run ! (k - 1) = LF))"

lemma lstrip_shorter: "length (lstrip s) \<le> length s"
proof (induction s rule: lstrip.induct)
  case (1 s)
  then show ?case by (subst lstrip.simps) auto
qed

lemma length_first_word: "length (first_word s) \<le> length s"
  by (induction s) auto

lemma match_var_shorter: "match_var name line = Some (word, rest, start) \<Longrightarrow> length rest < length line"
  using lstrip_shorter [of "drop (length name + 1) line"] prefix_length_le [of "name @ '':''" line]
  by (auto simp: match_var_def Let_def split: if_splits)

definition match_line :: "string \<Rightarrow> string \<Rightarrow> (string \<times> string \<times> bool) option" where
  "match_line name line =
     (case (if prefix ''(bootloader) '' line then match_var name (drop 13 line) else None) of
        Some m \<Rightarrow> Some m
      | None \<Rightarrow> match_var name line)"

lemma match_line_shorter:
  assumes "match_line name line = Some (word, rest, start)"
  shows "length rest < length line"
proof -
  from assms have "match_var name (drop 13 line) = Some (word, rest, start) \<or> match_var name line = Some (word, rest, start)"
    by (auto simp: match_line_def split: option.splits if_splits)
  with match_var_shorter [of name "drop 13 line"] match_var_shorter [of name line] show ?thesis by fastforce
qed

function find_vars :: "string \<Rightarrow> bool \<Rightarrow> string \<Rightarrow> string list" where
  "find_vars name start [] = []"
| "find_vars name start (c # s) =
     (case (if start then match_line name (c # s) else None) of
        Some (word, rest, again) \<Rightarrow> word # find_vars name again rest
      | None \<Rightarrow> find_vars name (c = LF) s)"
  by pat_completeness auto
termination
  by (relation "measure (\<lambda>(_, _, s). length s)")
     (auto split: if_splits dest!: match_line_shorter)

definition getvar :: "trial_config \<Rightarrow> string \<Rightarrow> (trial_host, string) io" where
  "getvar cfg name =
     bind_io (fastboot cfg) (\<lambda>(rc, out, err).
     bind_io (need_trial (rc = 0) (''fastboot getvar failed: '' @ name)) (\<lambda>_.
     case find_vars name True (utf8_replace (out @ err)) of
       [x] \<Rightarrow> ret x
     | _ \<Rightarrow> raise (ValueError (''ambiguous fastboot getvar: '' @ name))))"

text \<open>The word of a variable has no white space around it.\<close>

definition download_size :: "string \<Rightarrow> int result" where
  "download_size s =
     option_result (ValueError ''invalid literal for int()'')
       (if prefix ''0x'' s then read_int16 s else read_int s)"

record identity =
  id_product :: string
  id_slot :: string
  id_unlocked :: string
  id_size :: string

definition fastboot_identity :: "trial_config \<Rightarrow> (trial_host, identity) io" where
  "fastboot_identity cfg =
     bind_io (look cfg) (\<lambda>state.
     bind_io (need_trial (state = ''fastboot'') ''phone is not in fastboot on the approved port'') (\<lambda>_.
     bind_io (getvar cfg ''product'') (\<lambda>product.
     bind_io (getvar cfg ''current-slot'') (\<lambda>slot.
     bind_io (getvar cfg ''unlocked'') (\<lambda>unlocked.
     bind_io (getvar cfg ''max-download-size'') (\<lambda>size'.
     bind_io (need_trial (product = ''lahaina'') ''wrong fastboot product'') (\<lambda>_.
     bind_io (need_trial (slot \<in> set [''b'', ''_b'']) ''current slot is not b'') (\<lambda>_.
     bind_io (need_trial (unlocked = ''yes'') ''bootloader is not unlocked'') (\<lambda>_.
     bind_io (lift_result (download_size size')) (\<lambda>capacity.
     bind_io (need_trial (IMAGE_SIZE \<le> capacity) ''download capacity below 128 MiB'') (\<lambda>_.
     ret \<lparr>id_product = product, id_slot = slot, id_unlocked = unlocked, id_size = size'\<rparr>)))))))))))"

subsection \<open>The snapshot of the wrapper\<close>

record wrapper_file =
  wf_opened :: "unit result"
  wf_safe :: bool
  wf_size :: int
  wf_blocks :: "bytes list"
  wf_read_fails :: bool
  wf_sealable :: bool

text \<open>A write to a file or a memory file takes at least a byte.\<close>

function write_whole :: "(bytes \<Rightarrow> trial_host \<Rightarrow> trial_host) \<Rightarrow> bytes \<Rightarrow> (trial_host, unit) io" where
  "write_whole put data s =
     (if data = [] then (Inr (), s)
      else case act s of
        (Inl e, t) \<Rightarrow> (Inl e, t)
      | (Inr r, t) \<Rightarrow>
          let k = (case r of None \<Rightarrow> length data | Some n \<Rightarrow> max 1 (min n (length data)))
          in write_whole put (drop k data) (put (take k data) t))"
  by pat_completeness auto
termination
  by (relation "measure (\<lambda>(_, data, _). length data)") (auto split: option.splits)

declare write_whole.simps [simp del]

definition to_snapshot :: "bytes \<Rightarrow> trial_host \<Rightarrow> trial_host" where
  "to_snapshot part s = s\<lparr>ts_snapshot := ts_snapshot s @ part\<rparr>"

fun copy_blocks :: "bytes list \<Rightarrow> (trial_host, unit) io" where
  "copy_blocks [] = ret ()"
| "copy_blocks (block # blocks) = bind_io (write_whole to_snapshot block) (\<lambda>_. copy_blocks blocks)"

definition sealed_snapshot :: "(bytes \<Rightarrow> bytes) \<Rightarrow> wrapper_file \<Rightarrow> string \<Rightarrow> (trial_host, bytes) io" where
  "sealed_snapshot H f expected =
     bind_io (lift_result (wf_opened f)) (\<lambda>_.
     bind_io (need_trial (wf_safe f \<and> wf_size f = IMAGE_SIZE) ''wrapper metadata is unsafe'') (\<lambda>_.
     bind_io act (\<lambda>_.
     bind_io (modify (\<lambda>s. s\<lparr>ts_snapshot := []\<rparr>)) (\<lambda>_.
     bind_io (copy_blocks (wf_blocks f)) (\<lambda>_.
     bind_io (when_raise (wf_read_fails f) OSError) (\<lambda>_.
     bind_io (need_trial (to_hex (H (concat (wf_blocks f))) = expected) ''wrapper hash does not match the pin'') (\<lambda>_.
     bind_io act (\<lambda>_.
     bind_io act (\<lambda>_.
     bind_io (need_trial (wf_sealable f) ''snapshot not sealed'') (\<lambda>_.
     gets ts_snapshot))))))))))"

subsection \<open>The claim\<close>

text \<open>\<open>fsync\<close> of the directory that holds the level \<open>i\<close>.\<close>

definition sync_level :: "nat \<Rightarrow> (trial_host, unit) io" where
  "sync_level i = bind_io act (\<lambda>_. modify (\<lambda>s. s\<lparr>ts_dirs := (ts_dirs s)[i := True]\<rparr>))"

definition make_level :: "(trial_host, unit) io" where
  "make_level =
     bind_io act (\<lambda>_.
     bind_io (gets (\<lambda>s. length (ts_dirs s))) (\<lambda>i.
     bind_io (modify (\<lambda>s. s\<lparr>ts_dirs := ts_dirs s @ [False]\<rparr>)) (\<lambda>_.
     sync_level i)))"

fun make_levels :: "nat \<Rightarrow> (trial_host, unit) io" where
  "make_levels 0 = ret ()"
| "make_levels (Suc n) = bind_io make_level (\<lambda>_. make_levels n)"

definition durable_mkdir :: "(trial_host, unit) io" where
  "durable_mkdir =
     bind_io (gets (\<lambda>s. ts_depth s - length (ts_dirs s))) (\<lambda>missing.
     bind_io (make_levels missing) (\<lambda>_.
     bind_io (gets ts_real) (\<lambda>real.
     bind_io (need_trial real ''claim directory is not a real directory'') (\<lambda>_.
     bind_io (gets ts_depth) (\<lambda>depth. sync_level (depth - 1))))))"

definition claim_entered :: "string \<Rightarrow> bytes \<Rightarrow> (trial_host, unit) io" where
  "claim_entered expected content =
     bind_io durable_mkdir (\<lambda>_.
     bind_io act (\<lambda>_.
     bind_io (gets (\<lambda>s. expected \<in> set (map fst (ts_claims s)))) (\<lambda>there.
     bind_io (when_raise there FileExistsError) (\<lambda>_.
     bind_io (modify (\<lambda>s. s\<lparr>ts_claims := (expected, False) # ts_claims s\<rparr>)) (\<lambda>_.
     bind_io (write_whole (\<lambda>_ s. s) content) (\<lambda>_.
     bind_io act (\<lambda>_.
     bind_io act (\<lambda>_.
     modify (\<lambda>s. s\<lparr>ts_claims := map (\<lambda>(h, _). (h, True)) (ts_claims s)\<rparr>)))))))))"

subsection \<open>The boot\<close>

definition write_evidence :: "string \<Rightarrow> (trial_host, unit) io" where
  "write_evidence name = bind_io act (\<lambda>_. modify (\<lambda>s. s\<lparr>ts_files := name # ts_files s\<rparr>))"

definition send_snapshot :: "string \<Rightarrow> bytes \<Rightarrow> (trial_host, int \<times> bytes \<times> bytes) io" where
  "send_snapshot expected snapshot =
     bind_io act (\<lambda>_.
     bind_io (modify (\<lambda>s. s\<lparr>ts_sent := (expected, snapshot) # ts_sent s\<rparr>)) (\<lambda>_.
     run_program))"

definition boot_trial :: "(bytes \<Rightarrow> bytes) \<Rightarrow> trial_config \<Rightarrow> wrapper_file \<Rightarrow> string \<Rightarrow> bytes \<Rightarrow> (trial_host, unit) io" where
  "boot_trial H cfg wrapper expected claim =
     bind_io (need_trial (tc_allowed cfg) ''set ROG5_ALLOW_RAM_TRIAL=1 for one RAM-only boot'') (\<lambda>_.
     bind_io (need_trial (length expected = 64 \<and> list_all is_hex expected) ''wrapper pin framing'') (\<lambda>_.
     bind_io (fastboot_identity cfg) (\<lambda>_.
     bind_io (sealed_snapshot H wrapper expected) (\<lambda>snapshot.
     bind_io (claim_entered expected claim) (\<lambda>_.
     bind_io (send_snapshot expected snapshot) (\<lambda>(rc, out, err).
     bind_io (write_evidence ''boot.json'') (\<lambda>_.
     need_trial (rc = 0) ''fastboot boot failed; claim stays consumed'')))))))"

subsection \<open>Talking to the target\<close>

definition sleep :: "int \<Rightarrow> (trial_host, unit) io" where
  "sleep d = modify (\<lambda>s. s\<lparr>ts_now := ts_now s + max 1 d\<rparr>)"

definition PROFILES :: "(string \<times> string) list" where
  "PROFILES = [(''10.77.0.2'', ''rog5-standalone-shared''), (''169.254.77.2'', ''rog5-fallback-usb-ssh'')]"

definition decode_text :: "bytes \<Rightarrow> (trial_host, string) io" where
  "decode_text raw = bind_io (when_raise (\<not> utf8_ok raw) UnicodeError) (\<lambda>_. ret raw)"

definition ssh :: "trial_config \<Rightarrow> (trial_host, int \<times> bytes \<times> bytes) io" where
  "ssh cfg =
     bind_io (lift_result (tc_credentials_safe cfg)) (\<lambda>safe.
     bind_io (need_trial safe ''unsafe SSH credential file'') (\<lambda>_. run_program))"

definition use_address :: "string \<Rightarrow> (trial_host, bool) io" where
  "use_address address =
     bind_io (lift_result (option_result (ValueError ''unknown target address'') (map_of PROFILES address))) (\<lambda>profile.
     bind_io run_program (\<lambda>(rc, out, _).
     bind_io (if rc = 0 then bind_io (decode_text out) (\<lambda>shown. ret (strip shown = profile)) else ret False) (\<lambda>current.
     if current then ret False
     else bind_io run_program (\<lambda>(rc, _, _).
       bind_io (need_trial (rc = 0) (''cannot activate host profile '' @ profile)) (\<lambda>_. ret True)))))"

definition add_health :: "string \<Rightarrow> (string \<times> string list) list \<Rightarrow> (string \<times> string list) list" where
  "add_health line rows =
     (case partition_at (CHR ''='') line of (key, _, x) \<Rightarrow>
        if key \<in> set (map fst rows) then map (\<lambda>(k, xs). (k, if k = key then xs @ [x] else xs)) rows else rows @ [(key, [x])])"

definition probe :: "trial_config \<Rightarrow> string \<Rightarrow> (trial_host, (string \<times> string list) list) io" where
  "probe cfg address =
     bind_io (look cfg) (\<lambda>state.
     bind_io (need_trial (state = ''target'') ''phone is not a running target on the approved port'') (\<lambda>_.
     bind_io (use_address address) (\<lambda>_.
     bind_io (ssh cfg) (\<lambda>(rc, out, err).
     bind_io (need_trial (rc = 0) ''SSH probe failed'') (\<lambda>_.
     ret (fold add_health (text_lines (utf8_replace out)) []))))))"

subsection \<open>The observation\<close>

record observation =
  ob_prompted :: "string list"
  ob_changed :: int
  ob_seen_boot :: bool
  ob_last :: "string option"
  ob_logged :: bool
  ob_stream :: bool

definition note_event :: "trial_event \<Rightarrow> (trial_host, unit) io" where
  "note_event e = bind_io act (\<lambda>_. modify (\<lambda>s. s\<lparr>ts_log := e # ts_log s\<rparr>))"

definition note_state :: "string \<Rightarrow> observation \<Rightarrow> (trial_host, observation) io" where
  "note_state state ob =
     (if ob_last ob = Some state then ret ob
      else bind_io (note_event (Transition state)) (\<lambda>_.
        bind_io (gets ts_now) (\<lambda>now. ret (ob\<lparr>ob_last := Some state, ob_changed := now\<rparr>))))"

definition rescue_of :: "string \<Rightarrow> int \<Rightarrow> string option" where
  "rescue_of state waited_beyond =
     (if state = ''crashdump'' then Some ''R2''
      else if state \<in> set [''absent'', ''transition'', ''mismatch''] \<and> 0 < waited_beyond then Some ''R1'' else None)"

definition prompt_rescue :: "string option \<Rightarrow> observation \<Rightarrow> (trial_host, observation) io" where
  "prompt_rescue rescue ob =
     (case rescue of
        None \<Rightarrow> ret ob
      | Some r \<Rightarrow>
          if r \<in> set (ob_prompted ob) then ret ob
          else bind_io (note_event (Prompt r)) (\<lambda>_. ret (ob\<lparr>ob_prompted := r # ob_prompted ob\<rparr>)))"

fun observe_caught :: "exn \<Rightarrow> bool" where
  "observe_caught (ValueError _) = True"
| "observe_caught UnicodeError = True"
| "observe_caught SubprocessError = True"
| "observe_caught OSError = True"
| "observe_caught FileNotFoundError = True"
| "observe_caught FileExistsError = True"
| "observe_caught _ = False"

text \<open>
  The health read. After a success of \<open>probe\<close> and of writing the report the reading counts as done, whatever
  follows; an exception of the listed kinds is printed and the reading is tried again later.
\<close>

definition start_stream :: "trial_config \<Rightarrow> observation \<Rightarrow> (trial_host, observation) io" where
  "start_stream cfg ob =
     try_except
       (bind_io act (\<lambda>_. bind_io act (\<lambda>_. bind_io (modify (\<lambda>s. s\<lparr>ts_files := ''kmsg.log'' # ts_files s\<rparr>)) (\<lambda>_.
          try_except (bind_io (ssh cfg) (\<lambda>_. bind_io (write_evidence ''dmesg-at-health.txt'') (\<lambda>_. ret (ob\<lparr>ob_stream := True\<rparr>))))
            (\<lambda>e. if observe_caught e then ret (ob\<lparr>ob_stream := True\<rparr>) else raise e)))))
       (\<lambda>e. if observe_caught e then ret ob else raise e)"

definition read_health :: "trial_config \<Rightarrow> string \<Rightarrow> observation \<Rightarrow> (trial_host, observation) io" where
  "read_health cfg address ob =
     try_except
       (bind_io (probe cfg address) (\<lambda>health.
        bind_io (write_evidence ''health.json'') (\<lambda>_.
        bind_io (modify (\<lambda>s. s\<lparr>ts_health := health\<rparr>)) (\<lambda>_.
        start_stream cfg (ob\<lparr>ob_logged := True\<rparr>)))))
       (\<lambda>e. if observe_caught e then ret ob else raise e)"

definition stream_ended :: "(trial_host, bool) io" where
  "stream_ended s = (case ts_polls s of [] \<Rightarrow> (Inr False, s) | b # bs \<Rightarrow> (Inr b, s\<lparr>ts_polls := bs\<rparr>))"

definition drop_stream :: "string \<Rightarrow> observation \<Rightarrow> (trial_host, observation) io" where
  "drop_stream state ob =
     (if \<not> ob_stream ob then ret ob
      else bind_io stream_ended (\<lambda>ended. ret (ob\<lparr>ob_stream := \<not> (ended \<and> state \<noteq> ''target'')\<rparr>)))"

text \<open>One round; the flag says that the observation is over.\<close>

definition observe_round :: "trial_config \<Rightarrow> string \<Rightarrow> int \<Rightarrow> observation \<Rightarrow> (trial_host, bool \<times> observation) io" where
  "observe_round cfg address hang ob =
     bind_io (look cfg) (\<lambda>state.
     bind_io (note_state state ob) (\<lambda>ob.
     let ob = ob\<lparr>ob_seen_boot := ob_seen_boot ob \<or> state \<in> set [''recovery'', ''enumerating'', ''target'']\<rparr> in
     if state = ''fastboot'' \<and> ob_seen_boot ob
     then bind_io (sleep 3000000000) (\<lambda>_. ret (True, ob))
     else bind_io (gets ts_now) (\<lambda>now.
       bind_io (prompt_rescue (rescue_of state (now - ob_changed ob - hang)) ob) (\<lambda>ob.
       bind_io (if state = ''target'' \<and> \<not> ob_logged ob then read_health cfg address ob else ret ob) (\<lambda>ob.
       bind_io (drop_stream state ob) (\<lambda>ob. ret (False, ob)))))))"

text \<open>Computations during which the clock does not go back.\<close>

definition later :: "int \<Rightarrow> trial_host \<Rightarrow> bool" where
  "later n s \<longleftrightarrow> n \<le> ts_now s"

lemma keeps_trial_modify: "(\<And>s. I s \<Longrightarrow> I (f s)) \<Longrightarrow> keeps I (modify f)"
  by (simp add: keeps_def modify_def)

lemma keeps_need_trial [keeps_intros]: "keeps I (need_trial ok why)" "keeps I (decode_text raw)"
  unfolding need_trial_def decode_text_def by (intro keeps_intros)+

lemma keeps_trial_option: "keeps I m \<Longrightarrow> (\<And>x. keeps I (f x)) \<Longrightarrow> keeps I (case r of None \<Rightarrow> m | Some x \<Rightarrow> f x)"
  by (cases r) simp_all

lemma later_act [keeps_intros]: "keeps (later n) act"
  by (auto simp: keeps_def act_def later_def lose_power_def Let_def split: list.splits trial_act.splits)

lemma later_look [keeps_intros]: "keeps (later n) (look cfg)"
  by (auto simp: keeps_def look_def later_def split: list.splits)

lemma later_program [keeps_intros]: "keeps (later n) run_program"
  by (auto simp: keeps_def run_program_def later_def split: list.splits trial_reply.splits)

lemma later_sleep [keeps_intros]: "keeps (later n) (sleep d)"
  unfolding sleep_def by (rule keeps_trial_modify) (simp add: later_def)

lemma later_modify [keeps_intros]: "(\<And>s. ts_now (f s) = ts_now s) \<Longrightarrow> keeps (later n) (modify f)"
  by (rule keeps_trial_modify) (simp add: later_def)

lemma later_stream [keeps_intros]: "keeps (later n) stream_ended"
  by (auto simp: keeps_def stream_ended_def later_def split: list.splits)

lemma later_probe [keeps_intros]: "keeps (later n) (ssh cfg)" "keeps (later n) (probe cfg address)" "keeps (later n) (write_evidence name)"
proof -
  show ssh: "keeps (later n) (ssh cfg)" unfolding ssh_def by (intro keeps_intros)
  have "keeps (later n) (use_address address)"
    unfolding use_address_def case_prod_unfold by (intro keeps_intros)
  then show "keeps (later n) (probe cfg address)"
    unfolding probe_def case_prod_unfold by (intro keeps_intros ssh)
  show "keeps (later n) (write_evidence name)" unfolding write_evidence_def by (intro keeps_intros) simp
qed

lemma later_round: "keeps (later n) (observe_round cfg address hang ob)"
proof -
  have "keeps (later n) (note_event e)" for e unfolding note_event_def by (intro keeps_intros) simp
  note note_event = this
  have note_state: "keeps (later n) (note_state state ob)" for state ob
    unfolding note_state_def by (intro keeps_intros note_event)
  have prompt: "keeps (later n) (prompt_rescue r ob)" for r ob
    unfolding prompt_rescue_def by (intro keeps_trial_option keeps_intros note_event)
  have stream: "keeps (later n) (start_stream cfg ob)" for ob
    unfolding start_stream_def by (intro keeps_intros) simp
  have health: "keeps (later n) (read_health cfg address ob)" for ob
    unfolding read_health_def by (intro keeps_intros stream) simp
  have ended: "keeps (later n) (drop_stream state ob)" for state ob
    unfolding drop_stream_def by (intro keeps_intros)
  show ?thesis
    unfolding observe_round_def Let_def by (intro keeps_intros note_state prompt health ended)
qed

lemma round_onward: "observe_round cfg address hang ob s = (r, t) \<Longrightarrow> ts_now s \<le> ts_now t"
  using keepsD [OF later_round [where n = "ts_now s"], where s = s and t = t] by (auto simp: later_def)

function observe_loop :: "trial_config \<Rightarrow> string \<Rightarrow> int \<Rightarrow> int \<Rightarrow> int \<Rightarrow> observation \<Rightarrow> (trial_host, observation) io" where
  "observe_loop cfg address hang interval deadline ob s =
     (if ts_now s < deadline then
        (case observe_round cfg address hang ob s of
           (Inl e, t) \<Rightarrow> (Inl e, t)
         | (Inr (over, ob), t) \<Rightarrow>
             if over then (Inr ob, t)
             else observe_loop cfg address hang interval deadline ob (snd (sleep interval t)))
      else (Inr ob, s))"
  by pat_completeness auto
termination
  by (relation "measure (\<lambda>(_, _, _, _, deadline, _, s). nat (deadline - ts_now s))")
     (auto simp: sleep_def modify_def dest!: round_onward [OF sym])

declare observe_loop.simps [simp del]

record summary =
  sm_final_state :: "string option"
  sm_ssh_health :: bool
  sm_rescue_prompts :: "string list"

definition observe :: "trial_config \<Rightarrow> string \<Rightarrow> int \<Rightarrow> int \<Rightarrow> int \<Rightarrow> (trial_host, summary) io" where
  "observe cfg address seconds interval hang =
     bind_io (gets ts_now) (\<lambda>started.
     bind_io act (\<lambda>_.
     bind_io (observe_loop cfg address hang interval (started + seconds)
        \<lparr>ob_prompted = [], ob_changed = started, ob_seen_boot = False, ob_last = None, ob_logged = False, ob_stream = False\<rparr>) (\<lambda>ob.
     ret \<lparr>sm_final_state = ob_last ob, sm_ssh_health = ob_logged ob,
          sm_rescue_prompts = filter (\<lambda>r. r \<in> set (ob_prompted ob)) [''R1'', ''R2'']\<rparr>)))"

subsection \<open>The program\<close>

text \<open>\<open>str.split()\<close>.\<close>

function text_words :: "string \<Rightarrow> string list" where
  "text_words s = (let t = lstrip s; w = first_word t in if w = [] then [] else w # text_words (drop (length w) t))"
  by pat_completeness auto
termination
proof (relation "measure length", goal_cases)
  case (2 s t w)
  then have "0 < length w" "length w \<le> length t" "length t \<le> length s" using lstrip_shorter [of s] length_first_word [of t] by auto
  then show ?case unfolding in_measure length_drop by linarith
qed simp

declare text_words.simps [simp del]

definition host_run :: "string \<Rightarrow> (trial_host, bytes) io" where
  "host_run why =
     bind_io run_program (\<lambda>(rc, out, _).
     bind_io (need_trial (rc = 0) why) (\<lambda>_. ret out))"

definition STAGE_SHOWN :: "string list" where
  "STAGE_SHOWN = [''yes'', ''nm-shared'', ''169.254.77.1/30'']"

definition stage_path_on :: "(trial_host, unit) io" where
  "stage_path_on =
     bind_io (host_run ''stage profile'') (\<lambda>_.
     bind_io (host_run ''stage profile readback'') (\<lambda>out.
     bind_io (decode_text out) (\<lambda>shown.
     bind_io (need_trial (text_words shown = STAGE_SHOWN) ''stage profile did not take effect'') (\<lambda>_.
     bind_io (host_run ''stage firewall rule'') (\<lambda>_. ret ())))))"

definition stage_path_off :: "(trial_host, unit) io" where
  "stage_path_off = bind_io run_program (\<lambda>_. bind_io run_program (\<lambda>_. ret ()))"

text \<open>Waiting for the port to show one of some states, looking every \<open>pause\<close>.\<close>

lemma look_onward: "look cfg s = (r, t) \<Longrightarrow> ts_now s \<le> ts_now t"
  by (auto simp: look_def split: list.splits)

function await_port :: "trial_config \<Rightarrow> string list \<Rightarrow> int \<Rightarrow> int \<Rightarrow> (trial_host, string option) io" where
  "await_port cfg wanted pause deadline s =
     (if ts_now s < deadline then
        (case look cfg s of
           (Inl e, t) \<Rightarrow> (Inl e, t)
         | (Inr state, t) \<Rightarrow>
             if state \<in> set wanted then (Inr (Some state), t)
             else await_port cfg wanted pause deadline (snd (sleep pause t)))
      else (Inr None, s))"
  by pat_completeness auto
termination
  by (relation "measure (\<lambda>(_, _, _, deadline, s). nat (deadline - ts_now s))")
     (auto simp: sleep_def modify_def dest!: look_onward [OF sym])

declare await_port.simps [simp del]

definition fastboot_reboot :: "trial_config \<Rightarrow> int \<Rightarrow> (trial_host, string) io" where
  "fastboot_reboot cfg wait =
     bind_io (fastboot_identity cfg) (\<lambda>_.
     bind_io (fastboot cfg) (\<lambda>(rc, _, _).
     bind_io (need_trial (rc = 0) ''fastboot reboot failed'') (\<lambda>_.
     bind_io (gets ts_now) (\<lambda>now.
     bind_io (await_port cfg [''recovery'', ''enumerating'', ''target''] 500000000 (now + wait)) (\<lambda>found.
     case found of
       Some state \<Rightarrow> ret state
     | None \<Rightarrow> bind_io (look cfg) (\<lambda>state.
         raise (ValueError (''phone did not leave fastboot for the installed chain; last state '' @ state))))))))"

definition to_fastboot :: "trial_config \<Rightarrow> string \<Rightarrow> int \<Rightarrow> (trial_host, identity) io" where
  "to_fastboot cfg address wait =
     bind_io (look cfg) (\<lambda>state.
     bind_io (need_trial (state = ''target'') ''phone is not a running target on the approved port'') (\<lambda>_.
     bind_io (use_address address) (\<lambda>_.
     bind_io (ssh cfg) (\<lambda>(rc, _, _).
     bind_io (need_trial (rc \<in> {0, 255}) ''target refused the reboot request'') (\<lambda>_.
     bind_io (gets ts_now) (\<lambda>now.
     bind_io (await_port cfg [''fastboot''] 1000000000 (now + wait)) (\<lambda>found.
     case found of
       Some _ \<Rightarrow> fastboot_identity cfg
     | None \<Rightarrow> bind_io (look cfg) (\<lambda>state.
         raise (ValueError (''phone did not reach fastboot within the wait; last state '' @ state))))))))))"

text \<open>A killed process cleans up nothing.\<close>

definition cleaned :: "(trial_host, 'a) io \<Rightarrow> (trial_host, unit) io \<Rightarrow> (trial_host, 'a) io" where
  "cleaned m f s = (if fst (m s) = Inl Killed then m s else try_finally m f s)"

lemma keeps_cleaned [keeps_intros]: "keeps I m \<Longrightarrow> keeps I f \<Longrightarrow> keeps I (cleaned m f)"
  using keeps_try_finally [of I m f] by (simp add: keeps_def cleaned_def)

text \<open>
  The commands with an evidence directory: \<open>fresh\<close> says that it is absolute and new, \<open>wrapped\<close> the wrapper to boot
  with its pin and the text of its claim, or that nothing is to be booted.
\<close>

definition staged_trial :: "(bytes \<Rightarrow> bytes) \<Rightarrow> trial_config \<Rightarrow> (wrapper_file \<times> string \<times> bytes) option \<Rightarrow> string \<Rightarrow> int
    \<Rightarrow> (trial_host, summary) io" where
  "staged_trial H cfg wrapped address seconds =
     bind_io (case wrapped of None \<Rightarrow> ret () | Some (wrapper, expected, claim) \<Rightarrow> boot_trial H cfg wrapper expected claim) (\<lambda>_.
     observe cfg address seconds 1000000000 240000000000)"

definition evidence_trial :: "(bytes \<Rightarrow> bytes) \<Rightarrow> trial_config \<Rightarrow> bool \<Rightarrow> (wrapper_file \<times> string \<times> bytes) option \<Rightarrow> bool \<Rightarrow> int
    \<Rightarrow> (trial_host, summary) io" where
  "evidence_trial H cfg fresh wrapped staged seconds =
     bind_io (need_trial fresh ''evidence must be a new absolute directory'') (\<lambda>_.
     bind_io act (\<lambda>_.
     bind_io (if staged
        then bind_io act (\<lambda>_.
          cleaned (bind_io stage_path_on (\<lambda>_. staged_trial H cfg wrapped ''169.254.77.2'' seconds)) stage_path_off)
        else staged_trial H cfg wrapped ''10.77.0.2'' seconds) (\<lambda>summary.
     bind_io (write_evidence ''summary.json'') (\<lambda>_. ret summary))))"

datatype trial_command =
    Status
  | ProbeTarget string
  | FastbootReboot int
  | ToFastboot string int
  | Trial bool "(wrapper_file \<times> string \<times> bytes) option" bool int

definition trial_command_run :: "(bytes \<Rightarrow> bytes) \<Rightarrow> trial_config \<Rightarrow> trial_command \<Rightarrow> (trial_host, unit) io" where
  "trial_command_run H cfg c =
     (case c of
        Status \<Rightarrow> bind_io (look cfg) (\<lambda>_. ret ())
      | ProbeTarget address \<Rightarrow> bind_io (probe cfg address) (\<lambda>_. ret ())
      | FastbootReboot wait \<Rightarrow> bind_io (fastboot_reboot cfg wait) (\<lambda>_. ret ())
      | ToFastboot address wait \<Rightarrow> bind_io (to_fastboot cfg address wait) (\<lambda>_. ret ())
      | Trial fresh wrapped staged seconds \<Rightarrow> bind_io (evidence_trial H cfg fresh wrapped staged seconds) (\<lambda>_. ret ()))"

definition trial_main :: "(bytes \<Rightarrow> bytes) \<Rightarrow> trial_config \<Rightarrow> trial_command \<Rightarrow> (trial_host, nat) io" where
  "trial_main H cfg c =
     try_except (bind_io (trial_command_run H cfg c) (\<lambda>_. ret 0)) (\<lambda>e. if observe_caught e then ret 1 else raise e)"

end
