(* ===== verification/Trial_Claim.thy ===== *)
theory Trial_Claim
  imports Ram_Trial
begin

section \<open>A wrapper is sent once\<close>

text \<open>
  The claim directory, its claims and what was sent to the phone: over any sequence of runs, with processes killed and power lost at any
  point, no wrapper hash is sent twice and what is sent has the pinned digest - as long as the directory above the claim
  directory is safely on disk. Without that a killed run can make the claim worthless.
\<close>

subsection \<open>What a successful call leaves alone\<close>

type_synonym claim_core = "nat \<times> bool list \<times> (string \<times> bool) list \<times> (string \<times> bytes) list"

definition core :: "trial_host \<Rightarrow> claim_core" where
  "core s = (ts_depth s, ts_dirs s, ts_claims s, ts_sent s)"

definition steady :: "(trial_host, 'a) io \<Rightarrow> bool" where
  "steady m \<longleftrightarrow> (\<forall>s x t. m s = (Inr x, t) \<longrightarrow> core t = core s)"

named_theorems steady_intros "computations whose success leaves the claims alone"

lemma steadyD: "steady m \<Longrightarrow> m s = (Inr x, t) \<Longrightarrow> core t = core s"
  by (simp add: steady_def)

lemma steady_basic [steady_intros]: "steady (ret x)" "steady (raise e)" "steady (when_raise b e)" "steady (need_trial b why)" "steady (gets f)"
  "steady (lift_result r)"
  by (simp_all add: steady_def run_simps need_trial_def)

lemma steady_modify [steady_intros]: "(\<And>s. core (f s) = core s) \<Longrightarrow> steady (modify f)"
  by (auto simp: steady_def modify_def)

lemma steady_bind [steady_intros]: "steady m \<Longrightarrow> (\<And>x. steady (f x)) \<Longrightarrow> steady (bind_io m f)"
  unfolding steady_def bind_io_eq_Inr by metis

lemma steady_act [steady_intros]: "steady act"
  by (auto simp: steady_def act_def core_def Let_def split: list.splits trial_act.splits)

lemma steady_look [steady_intros]: "steady (look cfg)"
  by (auto simp: steady_def look_def core_def split: list.splits)

lemma steady_program [steady_intros]: "steady run_program"
  by (auto simp: steady_def run_program_def core_def split: list.splits trial_reply.splits)

lemma steady_identity [steady_intros]: "steady (fastboot_identity cfg)"
proof -
  have fastboot: "steady (fastboot cfg)" unfolding fastboot_def by (intro steady_intros)
  have "steady (case find_vars name True printed of [x] \<Rightarrow> ret x | _ \<Rightarrow> raise e)" for name printed e
    by (auto split: list.splits intro: steady_intros)
  then have "steady (getvar cfg name)" for name
    unfolding getvar_def case_prod_unfold by (intro steady_intros fastboot)
  then show ?thesis unfolding fastboot_identity_def by (intro steady_intros)
qed

lemma write_whole_induct:
  assumes run: "write_whole put data s = (Inr (), t)" and start: "P [] s"
    and step: "\<And>a b s r u. P a s \<Longrightarrow> act s = (Inr r, u) \<Longrightarrow> P (a @ b) (put b u)"
  shows "P data t"
proof -
  have "write_whole put rest s = (Inr (), t) \<Longrightarrow> P sofar s \<Longrightarrow> P (sofar @ rest) t" for rest sofar s
  proof (induction "length rest" arbitrary: rest sofar s rule: less_induct)
    case less
    show ?case
    proof (cases "rest = []")
      case True
      with less.prems show ?thesis by (simp add: write_whole.simps)
    next
      case False
      from less.prems(1) False obtain r u where r: "act s = (Inr r, u)"
        by (subst (asm) write_whole.simps) (auto split: prod.splits sum.splits)
      define k where "k = (case r of None \<Rightarrow> length rest | Some n \<Rightarrow> max 1 (min n (length rest)))"
      from less.prems(1) False r have more': "write_whole put (drop k rest) (put (take k rest) u) = (Inr (), t)"
        by (subst (asm) write_whole.simps) (simp add: Let_def k_def)
      have "length (drop k rest) < length rest" using False by (auto simp: k_def split: option.splits)
      from less.hyps [OF this more' step [OF less.prems(2) r]] show ?thesis by simp
    qed
  qed
  from this [OF run, of "[]"] start show ?thesis by simp
qed

lemma steady_write [steady_intros]:
  assumes "\<And>b s. core (put b s) = core s"
  shows "steady (write_whole put data)"
  unfolding steady_def
proof (intro allI impI)
  fix s x t
  assume "write_whole put data s = (Inr x, t)"
  then have "write_whole put data s = (Inr (), t)" by simp
  then show "core t = core s"
    by (rule write_whole_induct [where P = "\<lambda>_ u. core u = core s"]) (auto simp: assms dest: steadyD [OF steady_act])
qed

lemma steady_snapshot: "steady (sealed_snapshot H f expected)"
proof -
  have "steady (copy_blocks blocks)" for blocks
    by (induction blocks) (auto simp: to_snapshot_def core_def intro!: steady_intros)
  then show ?thesis unfolding sealed_snapshot_def by (intro steady_intros) (simp_all add: core_def)
qed

text \<open>A snapshot that is handed out holds exactly the bytes whose digest was compared with the pin.\<close>

lemma act_snapshot: "act s = (Inr r, t) \<Longrightarrow> ts_snapshot t = ts_snapshot s"
  by (auto simp: act_def Let_def split: list.splits trial_act.splits)

lemma write_snapshot: "write_whole to_snapshot data s = (Inr (), t) \<Longrightarrow> ts_snapshot t = ts_snapshot s @ data"
  by (erule write_whole_induct) (auto simp: to_snapshot_def dest: act_snapshot)

lemma copy_blocks_snapshot: "copy_blocks blocks s = (Inr (), t) \<Longrightarrow> ts_snapshot t = ts_snapshot s @ concat blocks"
  by (induction blocks arbitrary: s) (auto simp: run_simps bind_io_eq_Inr dest!: write_snapshot)

lemma sealed_snapshot_pinned:
  assumes "sealed_snapshot H f expected s = (Inr snapshot, t)"
  shows "to_hex (H snapshot) = expected"
proof -
  from assms obtain u v w x where
    u: "copy_blocks (wf_blocks f) u = (Inr (), v)" "ts_snapshot u = []" and w: "act v = (Inr w, x)"
    and pin: "to_hex (H (concat (wf_blocks f))) = expected" and rest: "bind_io act (\<lambda>_. bind_io (need_trial (wf_sealable f) ''snapshot not sealed'') (\<lambda>_. gets ts_snapshot)) x = (Inr snapshot, t)"
    unfolding sealed_snapshot_def
    by (auto simp: bind_io_eq_Inr run_simps need_trial_def split: if_splits)
  from rest obtain r y where "act x = (Inr r, y)" "snapshot = ts_snapshot y"
    by (auto simp: bind_io_eq_Inr run_simps need_trial_def split: if_splits)
  with act_snapshot w copy_blocks_snapshot [OF u(1)] u(2) have "snapshot = concat (wf_blocks f)" by (metis append_Nil)
  with pin show ?thesis by simp
qed

subsection \<open>The invariant\<close>

text \<open>
  All levels above the claim directory are synced; what was sent was sent once, has its pinned digest and a synced claim,
  and then the claim directory itself is synced too.
\<close>

definition claims_ok :: "(bytes \<Rightarrow> bytes) \<Rightarrow> claim_core \<Rightarrow> bool" where
  "claims_ok H c = (case c of (depth, dirs, claims, sent) \<Rightarrow>
     0 < depth \<and> depth - 1 \<le> length dirs \<and> length dirs \<le> depth \<and> list_all id (take (depth - 1) dirs)
     \<and> distinct (map fst claims) \<and> (claims \<noteq> [] \<longrightarrow> length dirs = depth)
     \<and> distinct (map fst sent) \<and> list_all (\<lambda>(h, image). to_hex (H image) = h \<and> (h, True) \<in> set claims) sent
     \<and> (sent \<noteq> [] \<longrightarrow> length dirs = depth \<and> list_all id dirs))"

definition safe_host :: "(bytes \<Rightarrow> bytes) \<Rightarrow> trial_host \<Rightarrow> bool" where
  "safe_host H s \<longleftrightarrow> claims_ok H (core s)"

lemma safe_same_core: "core t = core s \<Longrightarrow> safe_host H s \<Longrightarrow> safe_host H t"
  by (simp add: safe_host_def)

lemma all_id_iff: "list_all id bs \<longleftrightarrow> bs = replicate (length bs) True"
  by (induction bs) auto

lemma take_while_all: "list_all id (take n bs) \<Longrightarrow> n \<le> length bs \<Longrightarrow> n \<le> length (takeWhile id bs)"
proof (induction bs arbitrary: n)
  case (Cons b bs)
  then show ?case by (cases n) auto
qed simp

lemma take_while_whole: "list_all id bs \<Longrightarrow> takeWhile id bs = bs"
  by (induction bs) auto

lemma lose_power_safe:
  assumes s: "safe_host H s"
  shows "safe_host H (lose_power level kept s)"
proof -
  obtain depth dirs claims sent where core: "core s = (depth, dirs, claims, sent)" by (cases "core s")
  define n where "n = max (length (takeWhile id dirs)) (min level (length dirs))"
  let ?claims = "if n < length dirs then [] else map (\<lambda>(h, _). (h, True)) (filter (\<lambda>(h, synced). synced \<or> h \<in> set kept) claims)"
  have lost: "core (lose_power level kept s) = (depth, replicate n True, ?claims, sent)"
    using core by (auto simp: core_def lose_power_def n_def Let_def)
  have ok: "claims_ok H (depth, dirs, claims, sent)" using s core by (simp add: safe_host_def)
  have n: "depth - 1 \<le> n" "n \<le> length dirs"
    using ok take_while_all [of "depth - 1" dirs] length_takeWhile_le [of id dirs] by (auto simp: claims_ok_def n_def)
  have whole: "n = length dirs" if "sent \<noteq> []"
  proof -
    from ok that have "list_all id dirs" by (simp add: claims_ok_def)
    then have "takeWhile id dirs = dirs" by (rule take_while_whole)
    then show ?thesis unfolding n_def by (metis max.absorb1 min.cobounded2)
  qed
  have names: "map fst (map (\<lambda>(h, _). (h, True)) xs) = map fst xs" for xs :: "(string \<times> bool) list" by (induction xs) auto
  have distinct: "distinct (map fst ?claims)"
    using ok by (auto simp: claims_ok_def names distinct_map_filter simp del: map_map)
  have "list_all (\<lambda>(h, image). to_hex (H image) = h \<and> (h, True) \<in> set ?claims) sent"
    using ok whole by (cases "sent = []") (force simp: claims_ok_def list_all_iff)+
  with ok n whole distinct show ?thesis
    unfolding safe_host_def lost claims_ok_def by (auto simp: all_id_iff)
qed

lemma safe_act [keeps_intros]: "keeps (safe_host H) act"
proof (rule keepsI)
  fix s r t
  assume s: "safe_host H s" and run: "act s = (r, t)"
  have same: "core (u\<lparr>ts_acts := acts\<rparr>) = core u" for u acts by (simp add: core_def)
  from run have "core t = core s \<or> (\<exists>level kept acts. t = lose_power level kept (s\<lparr>ts_acts := acts\<rparr>))"
    by (auto simp: act_def Let_def same split: list.splits trial_act.splits)
  with s lose_power_safe [of H] same show "safe_host H t" by (auto simp: safe_host_def)
qed

lemma safe_modify: "(\<And>s. core (f s) = core s) \<Longrightarrow> keeps (safe_host H) (modify f)"
  by (rule keeps_trial_modify) (simp add: safe_host_def)

lemma safe_calls [keeps_intros]: "keeps (safe_host H) (look cfg)" "keeps (safe_host H) run_program" "keeps (safe_host H) stream_ended"
  "keeps (safe_host H) (sleep d)"
  by (auto simp: keeps_def look_def run_program_def stream_ended_def sleep_def modify_def safe_host_def core_def
      split: list.splits trial_reply.splits)

subsection \<open>Claiming and sending\<close>

definition synced :: "trial_host \<Rightarrow> bool" where
  "synced s \<longleftrightarrow> length (ts_dirs s) = ts_depth s \<and> list_all id (ts_dirs s)"

lemma all_update: "list_all id bs \<Longrightarrow> list_all id (bs[i := True])"
  by (induction bs arbitrary: i) (auto split: nat.splits)

lemma claims_ok_sync:
  "claims_ok H (depth, dirs, claims, sent) \<Longrightarrow> claims_ok H (depth, dirs[i := True], claims, sent)"
  by (auto simp: claims_ok_def take_update_swap intro: all_update)

lemma safe_sync: "keeps (safe_host H) (sync_level i)"
  unfolding sync_level_def
  by (intro keeps_bind safe_act keeps_trial_modify) (auto simp: safe_host_def core_def intro: claims_ok_sync)

lemma make_level_safe:
  assumes s: "safe_host H s" and few: "length (ts_dirs s) < ts_depth s" and run: "make_level s = (r, t)"
  shows "safe_host H t" and "r = Inr () \<Longrightarrow> length (ts_dirs t) = length (ts_dirs s) + 1 \<and> ts_depth t = ts_depth s"
proof -
  obtain q u where q: "act s = (q, u)" by fastforce
  have "safe_host H t \<and> (r = Inr () \<longrightarrow> length (ts_dirs t) = length (ts_dirs s) + 1 \<and> ts_depth t = ts_depth s)"
  proof (cases q)
    case (Inl e)
    with run q keepsD [OF safe_act s q] show ?thesis by (auto simp: make_level_def)
  next
    case (Inr x)
    from steadyD [OF steady_act] q Inr have same: "core u = core s" by blast
    let ?v = "u\<lparr>ts_dirs := ts_dirs u @ [False]\<rparr>"
    from run q Inr have v: "sync_level (length (ts_dirs u)) ?v = (r, t)"
      by (simp add: make_level_def bind_io_def run_simps)
    have "safe_host H ?v" using s same few by (auto simp: safe_host_def core_def claims_ok_def)
    from keepsD [OF safe_sync this v] have "safe_host H t" .
    moreover have "r = Inr () \<longrightarrow> length (ts_dirs t) = length (ts_dirs s) + 1 \<and> ts_depth t = ts_depth s"
      using v same by (auto simp: sync_level_def bind_io_eq_Inr run_simps core_def dest!: steadyD [OF steady_act])
    ultimately show ?thesis by blast
  qed
  then show "safe_host H t" and "r = Inr () \<Longrightarrow> length (ts_dirs t) = length (ts_dirs s) + 1 \<and> ts_depth t = ts_depth s" by auto
qed

lemma make_levels_safe:
  "make_levels n s = (r, t) \<Longrightarrow> safe_host H s \<Longrightarrow> length (ts_dirs s) + n = ts_depth s
     \<Longrightarrow> safe_host H t \<and> (r = Inr () \<longrightarrow> length (ts_dirs t) = ts_depth t)"
proof (induction n arbitrary: s)
  case 0
  then show ?case by (simp add: run_simps)
next
  case (Suc n)
  obtain q u where q: "make_level s = (q, u)" by fastforce
  have few: "length (ts_dirs s) < ts_depth s" using Suc.prems by simp
  note level = make_level_safe [OF Suc.prems(2) few q]
  show ?case
  proof (cases q)
    case (Inl e)
    with Suc.prems q level(1) show ?thesis by auto
  next
    case (Inr x)
    with level(2) have "length (ts_dirs u) + n = ts_depth u" using Suc.prems by simp
    moreover from Suc.prems(1) q Inr have "make_levels n u = (r, t)" by simp
    ultimately show ?thesis using Suc.IH level(1) by blast
  qed
qed

lemma durable_mkdir_safe:
  assumes run: "durable_mkdir s = (r, t)" and s: "safe_host H s"
  shows "safe_host H t \<and> (r = Inr () \<longrightarrow> synced t)"
proof -
  have fill: "length (ts_dirs s) + (ts_depth s - length (ts_dirs s)) = ts_depth s"
    using s by (simp add: safe_host_def core_def claims_ok_def)
  obtain q u where q: "make_levels (ts_depth s - length (ts_dirs s)) s = (q, u)" by fastforce
  note u = make_levels_safe [OF q s fill]
  show ?thesis
  proof (cases q)
    case (Inl e)
    with run q u show ?thesis by (auto simp: durable_mkdir_def bind_io_def run_simps)
  next
    case (Inr x)
    show ?thesis
    proof (cases "ts_real u")
      case False
      with run q Inr u show ?thesis by (auto simp: durable_mkdir_def bind_io_def run_simps need_trial_def)
    next
      case True
      with run q Inr have t: "sync_level (ts_depth u - 1) u = (r, t)"
        by (simp add: durable_mkdir_def bind_io_def run_simps need_trial_def)
      from keepsD [OF safe_sync _ t] u have safe: "safe_host H t" by blast
      have "synced t" if "r = Inr ()"
      proof -
        from t that obtain w v where w: "act u = (Inr w, v)" "t = v\<lparr>ts_dirs := (ts_dirs v)[ts_depth u - 1 := True]\<rparr>"
          by (auto simp: sync_level_def bind_io_eq_Inr run_simps)
        with steadyD [OF steady_act w(1)] have dirs: "ts_dirs t = (ts_dirs u)[ts_depth u - 1 := True]" "ts_depth t = ts_depth u"
          by (auto simp: core_def)
        have full: "length (ts_dirs u) = ts_depth u" and above: "list_all id (take (ts_depth u - 1) (ts_dirs u))" and pos: "0 < ts_depth u"
          using u Inr by (auto simp: safe_host_def core_def claims_ok_def)
        have "ts_dirs t = take (ts_depth u - 1) (ts_dirs u) @ [True]"
          using full pos by (simp add: dirs upd_conv_take_nth_drop)
        then have "list_all id (ts_dirs t)" using above by (metis list_all_append list.pred_inject(1) list.pred_inject(2) id_apply)
        with full dirs show ?thesis by (simp add: synced_def)
      qed
      with safe show ?thesis by blast
    qed
  qed
qed

lemma safe_claim_first:
  assumes ok: "claims_ok H (depth, dirs, claims, sent)" and full: "length dirs = depth" and new: "h \<notin> set (map fst claims)"
  shows "claims_ok H (depth, dirs, (h, b) # claims, sent)"
  using assms by (auto simp: claims_ok_def list_all_iff)

lemma safe_claims_sync:
  "claims_ok H (depth, dirs, claims, sent) \<Longrightarrow> claims_ok H (depth, dirs, map (\<lambda>(h, _). (h, True)) claims, sent)"
proof -
  assume ok: "claims_ok H (depth, dirs, claims, sent)"
  have "map fst (map (\<lambda>(h, _). (h, True)) claims) = map fst claims" by (induction claims) auto
  with ok show ?thesis unfolding claims_ok_def by (force simp: list_all_iff simp del: map_map)
qed

lemma safe_write: "(\<And>b s. core (put b s) = core s) \<Longrightarrow> keeps (safe_host H) (write_whole put data)"
proof (rule keepsI)
  fix s r t
  assume put: "\<And>b s. core (put b s) = core s"
  show "safe_host H s \<Longrightarrow> write_whole put data s = (r, t) \<Longrightarrow> safe_host H t"
  proof (induction "length data" arbitrary: data s rule: less_induct)
    case less
    show ?case
    proof (cases "data = []")
      case True
      with less.prems show ?thesis by (simp add: write_whole.simps)
    next
      case False
      obtain q u where q: "act s = (q, u)" by fastforce
      from keepsD [OF safe_act less.prems(1) q] have u: "safe_host H u" .
      show ?thesis
      proof (cases q)
        case (Inl e)
        with less.prems(2) False q u show ?thesis by (subst (asm) write_whole.simps) auto
      next
        case (Inr x)
        define k where "k = (case x of None \<Rightarrow> length data | Some n \<Rightarrow> max 1 (min n (length data)))"
        have "length (drop k data) < length data" using False by (auto simp: k_def split: option.splits)
        moreover have "safe_host H (put (take k data) u)" using u put by (simp add: safe_host_def)
        moreover have "write_whole put (drop k data) (put (take k data) u) = (r, t)"
          using less.prems(2) False q Inr by (subst (asm) write_whole.simps) (simp add: Let_def k_def)
        ultimately show ?thesis by (rule less.hyps)
      qed
    qed
  qed
qed

text \<open>The rest of a claim, after the directory is there.\<close>

definition claim_rest :: "string \<Rightarrow> bytes \<Rightarrow> (trial_host, unit) io" where
  "claim_rest expected content =
     bind_io (write_whole (\<lambda>_ s. s) content) (\<lambda>_.
     bind_io act (\<lambda>_.
     bind_io act (\<lambda>_.
     modify (\<lambda>s. s\<lparr>ts_claims := map (\<lambda>(h, _). (h, True)) (ts_claims s)\<rparr>))))"

lemma claim_rest_safe: "keeps (safe_host H) (claim_rest expected content)"
  unfolding claim_rest_def
  by (intro keeps_bind safe_write safe_act keeps_trial_modify) (auto simp: safe_host_def core_def intro: safe_claims_sync)

lemma claim_rest_Inr:
  assumes "claim_rest expected content s = (Inr x, t)"
  shows "core t = (ts_depth s, ts_dirs s, map (\<lambda>(h, _). (h, True)) (ts_claims s), ts_sent s)"
proof -
  have "steady (bind_io (write_whole (\<lambda>_ s. s) content) (\<lambda>_. bind_io act (\<lambda>_. act)))" by (intro steady_intros) simp
  moreover from assms obtain u r where "bind_io (write_whole (\<lambda>_ s. s) content) (\<lambda>_. bind_io act (\<lambda>_. act)) s = (Inr r, u)"
    "t = u\<lparr>ts_claims := map (\<lambda>(h, _). (h, True)) (ts_claims u)\<rparr>"
    by (auto simp: claim_rest_def bind_io_eq_Inr run_simps)
  ultimately show ?thesis by (auto simp: core_def dest: steadyD)
qed

definition entitled :: "string \<Rightarrow> trial_host \<Rightarrow> bool" where
  "entitled h s \<longleftrightarrow> synced s \<and> (h, True) \<in> set (ts_claims s) \<and> h \<notin> set (map fst (ts_sent s))"

lemma sent_claimed:
  assumes "safe_host H s" and "h \<in> set (map fst (ts_sent s))"
  shows "h \<in> set (map fst (ts_claims s))"
proof -
  from assms(2) obtain image where "(h, image) \<in> set (ts_sent s)" by auto
  with assms(1) have "(h, True) \<in> set (ts_claims s)" by (auto simp: safe_host_def core_def claims_ok_def list_all_iff)
  then show ?thesis by (metis fst_conv image_eqI list.set_map)
qed

lemma claim_entered_safe:
  assumes run: "claim_entered expected content s = (r, t)" and s: "safe_host H s"
  shows "safe_host H t \<and> (r = Inr () \<longrightarrow> entitled expected t)"
proof -
  obtain q u where q: "durable_mkdir s = (q, u)" by fastforce
  note u = durable_mkdir_safe [OF q s]
  obtain a v where a: "act u = (a, v)" by fastforce
  show ?thesis
  proof (cases "q = Inr () \<and> (\<exists>x. a = Inr x) \<and> expected \<notin> set (map fst (ts_claims v))")
    case False
    then have "r \<noteq> Inr () \<and> (t = u \<or> t = v)"
      using run q a by (auto simp: claim_entered_def bind_io_def run_simps split: sum.splits if_splits)
    with u keepsD [OF safe_act _ a] show ?thesis by blast
  next
    case True
    then obtain x where x: "q = Inr ()" "a = Inr x" "expected \<notin> set (map fst (ts_claims v))" by blast
    from steadyD [OF steady_act] a x(2) have same: "core v = core u" by blast
    let ?w = "v\<lparr>ts_claims := (expected, False) # ts_claims v\<rparr>"
    from run q a x have rest: "claim_rest expected content ?w = (r, t)"
      by (simp add: claim_entered_def claim_rest_def bind_io_def run_simps)
    have v: "safe_host H v" "synced v" using u x same by (auto simp: safe_host_def synced_def core_def)
    then have "safe_host H ?w"
      using safe_claim_first x(3) by (auto simp: safe_host_def core_def synced_def)
    from keepsD [OF claim_rest_safe this rest] have "safe_host H t" .
    moreover have "entitled expected t" if "r = Inr ()"
    proof -
      have "expected \<notin> set (map fst (ts_sent v))"
        using sent_claimed [OF v(1)] x(3) by blast
      with claim_rest_Inr [of expected content ?w "()" t] rest that v(2) show ?thesis
        by (auto simp: entitled_def synced_def core_def)
    qed
    ultimately show ?thesis by blast
  qed
qed

lemma send_snapshot_safe:
  assumes run: "send_snapshot expected snapshot s = (r, t)" and s: "safe_host H s" "entitled expected s"
    and pin: "to_hex (H snapshot) = expected"
  shows "safe_host H t"
proof -
  obtain a u where a: "act s = (a, u)" by fastforce
  show ?thesis
  proof (cases a)
    case (Inl e)
    with run a keepsD [OF safe_act s(1) a] show ?thesis by (auto simp: send_snapshot_def)
  next
    case (Inr x)
    from steadyD [OF steady_act] a Inr have same: "core u = core s" by blast
    let ?v = "u\<lparr>ts_sent := (expected, snapshot) # ts_sent u\<rparr>"
    from run a Inr have v: "run_program ?v = (r, t)" by (simp add: send_snapshot_def bind_io_def run_simps)
    have "safe_host H ?v"
      using s same pin by (auto simp: safe_host_def entitled_def synced_def core_def claims_ok_def)
    from keepsD [OF safe_calls(2) this v] show ?thesis .
  qed
qed

subsection \<open>Every command keeps the invariant\<close>

lemma safe_identity [keeps_intros]: "keeps (safe_host H) (fastboot_identity cfg)" "keeps (safe_host H) (fastboot cfg)"
proof -
  show fastboot: "keeps (safe_host H) (fastboot cfg)" unfolding fastboot_def by (intro keeps_intros)
  have "keeps (safe_host H) (case find_vars name True printed of [x] \<Rightarrow> ret x | _ \<Rightarrow> raise e)" for name printed e
    by (auto split: list.splits intro: keeps_intros)
  then have "keeps (safe_host H) (getvar cfg name)" for name
    unfolding getvar_def case_prod_unfold by (intro keeps_intros fastboot)
  then show "keeps (safe_host H) (fastboot_identity cfg)" unfolding fastboot_identity_def by (intro keeps_intros)
qed

lemma safe_evidence_file [keeps_intros]: "keeps (safe_host H) (write_evidence name)"
  unfolding write_evidence_def by (intro keeps_intros safe_modify) (simp add: core_def)

lemma safe_snapshot: "keeps (safe_host H) (sealed_snapshot G f expected)"
proof -
  have "keeps (safe_host H) (copy_blocks blocks)" for blocks
    by (induction blocks) (auto simp: to_snapshot_def core_def intro!: keeps_intros safe_write)
  then show ?thesis unfolding sealed_snapshot_def by (intro keeps_intros safe_modify) (simp_all add: core_def)
qed

lemma boot_trial_safe: "keeps (safe_host H) (boot_trial H cfg wrapper expected claim)"
proof (rule keepsI)
  fix s r t
  assume s: "safe_host H s" and run: "boot_trial H cfg wrapper expected claim s = (r, t)"
  let ?checks = "bind_io (need_trial (tc_allowed cfg) ''set ROG5_ALLOW_RAM_TRIAL=1 for one RAM-only boot'') (\<lambda>_.
     bind_io (need_trial (length expected = 64 \<and> list_all is_hex expected) ''wrapper pin framing'') (\<lambda>_. fastboot_identity cfg))"
  obtain c u where c: "?checks s = (c, u)" by fastforce
  have "keeps (safe_host H) ?checks" by (intro keeps_intros)
  from keepsD [OF this s c] have u: "safe_host H u" .
  obtain i v where i: "sealed_snapshot H wrapper expected u = (i, v)" by fastforce
  from keepsD [OF safe_snapshot u i] have v: "safe_host H v" .
  obtain e w where e: "claim_entered expected claim v = (e, w)" by fastforce
  note w = claim_entered_safe [OF e v]
  have split: "boot_trial H cfg wrapper expected claim s = bind_io ?checks (\<lambda>_.
     bind_io (sealed_snapshot H wrapper expected) (\<lambda>snapshot.
     bind_io (claim_entered expected claim) (\<lambda>_.
     bind_io (send_snapshot expected snapshot) (\<lambda>(rc, out, err).
     bind_io (write_evidence ''boot.json'') (\<lambda>_. need_trial (rc = 0) ''fastboot boot failed; claim stays consumed''))))) s"
    by (simp add: boot_trial_def bind_io_assoc)
  show "safe_host H t"
  proof (cases "(\<exists>x. c = Inr x) \<and> (\<exists>x. i = Inr x) \<and> e = Inr ()")
    case False
    then have "t = u \<or> t = v \<or> t = w"
      using run [unfolded split] c i e by (cases c; cases i; cases e) auto
    with u v w show ?thesis by blast
  next
    case True
    then obtain x snapshot where parts: "c = Inr x" "i = Inr snapshot" "e = Inr ()" by blast
    let ?after = "\<lambda>(rc, out :: bytes, err :: bytes). bind_io (write_evidence ''boot.json'') (\<lambda>_.
       need_trial (rc = (0 :: int)) ''fastboot boot failed; claim stays consumed'')"
    obtain q y where q: "send_snapshot expected snapshot w = (q, y)" by fastforce
    have pin: "to_hex (H snapshot) = expected" using sealed_snapshot_pinned [of H wrapper expected u snapshot v] i parts by simp
    have y: "safe_host H y" using send_snapshot_safe [where H = H, OF q _ _ pin] w parts by blast
    have "keeps (safe_host H) (?after z)" for z by (cases z) (auto intro!: keeps_intros)
    with y run [unfolded split] c i e q parts show ?thesis by (cases q) (auto dest: keepsD)
  qed
qed

lemma safe_await: "keeps (safe_host H) (await_port cfg wanted p deadline)"
proof (rule keepsI)
  fix s r t
  show "safe_host H s \<Longrightarrow> await_port cfg wanted p deadline s = (r, t) \<Longrightarrow> safe_host H t"
  proof (induction cfg wanted p deadline s rule: await_port.induct)
    case (1 cfg wanted p deadline s)
    obtain q u where q: "look cfg s = (q, u)" by fastforce
    from keepsD [OF safe_calls(1) 1(2) q] have u: "safe_host H u" .
    then have "safe_host H (snd (sleep p u))" by (simp add: sleep_def modify_def safe_host_def core_def)
    with 1 q u show ?case by (subst (asm) (2) await_port.simps) (auto split: if_splits sum.splits)
  qed
qed

lemma safe_observe: "keeps (safe_host H) (observe cfg address seconds interval hang)"
proof -
  have note_event: "keeps (safe_host H) (note_event e)" for e
    unfolding note_event_def by (intro keeps_intros safe_modify) (simp add: core_def)
  have note_state: "keeps (safe_host H) (note_state state ob)" for state ob
    unfolding note_state_def by (intro keeps_intros note_event)
  have prompt: "keeps (safe_host H) (prompt_rescue r ob)" for r ob
    unfolding prompt_rescue_def by (intro keeps_trial_option keeps_intros note_event)
  have ssh: "keeps (safe_host H) (ssh cfg)" unfolding ssh_def by (intro keeps_intros)
  have "keeps (safe_host H) (use_address address)" unfolding use_address_def case_prod_unfold by (intro keeps_intros)
  then have probe: "keeps (safe_host H) (probe cfg address)" unfolding probe_def case_prod_unfold by (intro keeps_intros ssh)
  have stream: "keeps (safe_host H) (start_stream cfg ob)" for ob
    unfolding start_stream_def by (intro keeps_intros ssh safe_modify) (simp add: core_def)
  have health: "keeps (safe_host H) (read_health cfg address ob)" for ob
    unfolding read_health_def by (intro keeps_intros probe stream safe_modify) (simp add: core_def)
  have ended: "keeps (safe_host H) (drop_stream state ob)" for state ob
    unfolding drop_stream_def by (intro keeps_intros)
  have round: "keeps (safe_host H) (observe_round cfg address hang ob)" for ob
    unfolding observe_round_def Let_def by (intro keeps_intros note_state prompt health ended)
  have "safe_host H s \<Longrightarrow> observe_loop cfg address hang interval deadline ob s = (r, t) \<Longrightarrow> safe_host H t" for deadline ob s r t
  proof (induction "nat (deadline - ts_now s)" arbitrary: ob s rule: less_induct)
    case less
    obtain q u where q: "observe_round cfg address hang ob s = (q, u)" by fastforce
    from keepsD [OF round less.prems(1) q] have u: "safe_host H u" .
    let ?v = "snd (sleep interval u)"
    have v: "safe_host H ?v" using u by (simp add: sleep_def modify_def safe_host_def core_def)
    have small: "nat (deadline - ts_now ?v) < nat (deadline - ts_now s)" if "ts_now s < deadline"
      using round_onward [OF q] that by (simp add: sleep_def modify_def)
    show ?case
    proof (cases "ts_now s < deadline")
      case True
      from less.hyps [OF small [OF True] v] less.prems(2) q u True show ?thesis
        by (subst (asm) (2) observe_loop.simps) (auto split: if_splits sum.splits prod.splits)
    next
      case False
      with less.prems show ?thesis by (subst (asm) observe_loop.simps) simp
    qed
  qed
  then have "keeps (safe_host H) (observe_loop cfg address hang interval deadline ob)" for deadline ob by (intro keepsI)
  then show ?thesis unfolding observe_def by (intro keeps_intros)
qed

lemma safe_evidence: "keeps (safe_host H) (evidence_trial H cfg fresh wrapped staged seconds)"
proof -
  have host: "keeps (safe_host H) (host_run why)" for why
    unfolding host_run_def case_prod_unfold by (intro keeps_intros)
  have on: "keeps (safe_host H) stage_path_on" unfolding stage_path_on_def by (intro keeps_intros host)
  have off: "keeps (safe_host H) stage_path_off" unfolding stage_path_off_def by (intro keeps_intros)
  have "keeps (safe_host H) (case wrapped of None \<Rightarrow> ret () | Some (wrapper, expected, claim) \<Rightarrow> boot_trial H cfg wrapper expected claim)"
    by (auto split: option.splits intro: keeps_intros boot_trial_safe)
  then have "keeps (safe_host H) (staged_trial H cfg wrapped address seconds)" for address
    unfolding staged_trial_def by (intro keeps_bind safe_observe)
  then show ?thesis unfolding evidence_trial_def by (intro keeps_intros on off)
qed

lemma safe_main: "keeps (safe_host H) (trial_main H cfg c)"
proof -
  have ssh: "keeps (safe_host H) (ssh cfg)" unfolding ssh_def by (intro keeps_intros)
  have address: "keeps (safe_host H) (use_address address)" for address
    unfolding use_address_def case_prod_unfold by (intro keeps_intros)
  have probe: "keeps (safe_host H) (probe cfg address)" for address
    unfolding probe_def case_prod_unfold by (intro keeps_intros ssh address)
  have reboot: "keeps (safe_host H) (fastboot_reboot cfg wait)" for wait
    unfolding fastboot_reboot_def case_prod_unfold by (intro keeps_intros keeps_trial_option safe_await)
  have return: "keeps (safe_host H) (to_fastboot cfg address wait)" for address wait
    unfolding to_fastboot_def case_prod_unfold by (intro keeps_intros keeps_trial_option safe_await ssh address)
  have "keeps (safe_host H) (trial_command_run H cfg c)"
    unfolding trial_command_run_def
    by (cases c) (auto intro!: keeps_intros probe reboot return safe_evidence)
  then show ?thesis unfolding trial_main_def by (intro keeps_intros)
qed

subsection \<open>Over all runs\<close>

text \<open>A history of the host: the tool is run, with whatever meets it, or the power is lost between two runs.\<close>

record run_world =
  rw_acts :: "trial_act list"
  rw_views :: "usb_view list"
  rw_replies :: "trial_reply list"
  rw_polls :: "bool list"

datatype host_step = RunTool trial_config trial_command run_world | LosePower nat "string list"

definition host_step_run :: "(bytes \<Rightarrow> bytes) \<Rightarrow> host_step \<Rightarrow> trial_host \<Rightarrow> trial_host" where
  "host_step_run H st s =
     (case st of
        LosePower level kept \<Rightarrow> lose_power level kept s
      | RunTool cfg c w \<Rightarrow>
          snd (trial_main H cfg c (s\<lparr>ts_acts := rw_acts w, ts_views := rw_views w, ts_replies := rw_replies w, ts_polls := rw_polls w\<rparr>)))"

lemma history_safe: "safe_host H s \<Longrightarrow> safe_host H (fold (host_step_run H) steps s)"
proof (induction steps arbitrary: s)
  case (Cons st steps)
  have "safe_host H (host_step_run H st s)"
  proof (cases st)
    case (LosePower level kept)
    with Cons.prems show ?thesis by (simp add: host_step_run_def lose_power_safe)
  next
    case (RunTool cfg c w)
    let ?s = "s\<lparr>ts_acts := rw_acts w, ts_views := rw_views w, ts_replies := rw_replies w, ts_polls := rw_polls w\<rparr>"
    have "safe_host H ?s" using Cons.prems by (simp add: safe_host_def core_def)
    from keepsD [OF safe_main this surjective_pairing] RunTool show ?thesis by (simp add: host_step_run_def)
  qed
  with Cons.IH show ?case by simp
qed simp

text \<open>
  C11. Start from a host whose directories above the claim directory are on disk. However often the tool is then run, with any
  command, with files, replies and the phone behaving in any way, with runs killed and power lost at any point of a run or
  between runs: no wrapper hash is sent to the phone twice, and every image sent has the digest it was pinned with.
\<close>

theorem wrapper_sent_once:
  assumes "0 < ts_depth s" and "ts_dirs s = replicate (ts_depth s - 1) True" and "ts_claims s = []" "ts_sent s = []"
  shows "distinct (map fst (ts_sent (fold (host_step_run H) steps s)))
     \<and> list_all (\<lambda>(h, image). to_hex (H image) = h) (ts_sent (fold (host_step_run H) steps s))"
proof -
  have "safe_host H s" using assms by (simp add: safe_host_def core_def claims_ok_def all_id_iff)
  from history_safe [OF this, of steps] show ?thesis by (auto simp: safe_host_def core_def claims_ok_def list_all_iff)
qed

text \<open>Two runs with the same wrapper on a port that stays in fastboot, with the power lost between them.\<close>

definition fastboot_view :: usb_view where
  "fastboot_view =
     \<lparr>uv_exists = True, uv_resolved = Inr ''/port'', uv_vendor = Inr ''0b05'', uv_product_id = Inr ''4daf'', uv_serial = Inr ''S1'',
      uv_product = Inr ''ROG'', uv_interface = False, uv_interface_parent = Inr ''''\<rparr>"

definition willing_config :: trial_config where
  "willing_config = \<lparr>tc_serial = ''S1'', tc_anchor = ''/port'', tc_allowed = True, tc_fastboot_safe = Inr True, tc_credentials_safe = Inr True\<rparr>"

definition willing_world :: run_world where
  "willing_world =
     \<lparr>rw_acts = [], rw_views = [fastboot_view],
      rw_replies = [Reply 0 0 ''product: lahaina'' [], Reply 0 0 ''current-slot: b'' [], Reply 0 0 ''unlocked: yes'' [],
        Reply 0 0 ''max-download-size: 0x10000000'' [], Reply 0 0 [] []],
      rw_polls = []\<rparr>"

definition willing_wrapper :: wrapper_file where
  "willing_wrapper = \<lparr>wf_opened = Inr (), wf_safe = True, wf_size = 134217728, wf_blocks = [''AB'', ''C''], wf_read_fails = False, wf_sealable = True\<rparr>"

definition fresh_host :: trial_host where
  "fresh_host =
     \<lparr>ts_now = 0, ts_acts = [], ts_views = [], ts_replies = [], ts_polls = [], ts_depth = 2, ts_real = True, ts_dirs = [True], ts_claims = [],
      ts_snapshot = [], ts_sent = [], ts_files = [], ts_log = [], ts_health = []\<rparr>"

definition two_runs :: "host_step list" where
  "two_runs =
     [RunTool willing_config (Trial True (Some (willing_wrapper, replicate 64 (CHR ''0''), ''{}'')) False 0) willing_world,
      LosePower 0 [],
      RunTool willing_config (Trial True (Some (willing_wrapper, replicate 64 (CHR ''0''), ''{}'')) False 0) willing_world]"

definition zero_digest :: "bytes \<Rightarrow> bytes" where
  "zero_digest data = replicate 32 (char_of (0 :: nat))"

lemma two_runs_sent: "ts_sent (fold (host_step_run zero_digest) two_runs fresh_host) = [(replicate 64 (CHR ''0''), ''ABC'')]"
  by code_simp

theorem wrapper_sent_once_witness:
  "0 < ts_depth fresh_host \<and> ts_dirs fresh_host = replicate (ts_depth fresh_host - 1) True \<and> ts_claims fresh_host = [] \<and> ts_sent fresh_host = []
   \<and> ts_sent (fold (host_step_run zero_digest) two_runs fresh_host) = [(replicate 64 (CHR ''0''), ''ABC'')]
   \<and> distinct (map fst (ts_sent (fold (host_step_run zero_digest) two_runs fresh_host)))
   \<and> list_all (\<lambda>(h, image). to_hex (zero_digest image) = h) (ts_sent (fold (host_step_run zero_digest) two_runs fresh_host))"
proof -
  have start: "0 < ts_depth fresh_host" "ts_dirs fresh_host = replicate (ts_depth fresh_host - 1) True" "ts_claims fresh_host = []"
    "ts_sent fresh_host = []"
    by (simp_all add: fresh_host_def)
  from wrapper_sent_once [OF start, of zero_digest two_runs] start two_runs_sent show ?thesis by blast
qed

subsection \<open>A killed run can void the claim\<close>

definition bare_host :: trial_host where
  "bare_host =
     \<lparr>ts_now = 0, ts_acts = [TGo, TDie], ts_views = [], ts_replies = [], ts_polls = [], ts_depth = 2, ts_real = True, ts_dirs = [], ts_claims = [],
      ts_snapshot = [], ts_sent = [], ts_files = [], ts_log = [], ts_health = []\<rparr>"


end
