(* ===== verification/Trial_Observation.thy ===== *)
theory Trial_Observation
  imports Ram_Trial
begin

section \<open>The observation ends and asks once\<close>

text \<open>
  Whatever the port, the programs and the disk do: the observation ends, after a number of looks at the port that the
  requested time bounds, and asks for each manual rescue step at most once.
\<close>

subsection \<open>Looks at the port\<close>

definition spends :: "nat \<Rightarrow> (trial_host, 'a) io \<Rightarrow> bool" where
  "spends n m \<longleftrightarrow> (\<forall>s r t. m s = (r, t) \<longrightarrow> length (ts_views s) \<le> length (ts_views t) + n)"

lemma spendsD: "spends n m \<Longrightarrow> m s = (r, t) \<Longrightarrow> length (ts_views s) \<le> length (ts_views t) + n"
  by (simp add: spends_def)

lemma spends_more: "spends n m \<Longrightarrow> n \<le> k \<Longrightarrow> spends k m"
  by (fastforce simp: spends_def)

lemma spends_bind: "spends n m \<Longrightarrow> (\<And>x. spends k (f x)) \<Longrightarrow> spends (n + k) (bind_io m f)"
proof -
  assume m: "spends n m" and f: "\<And>x. spends k (f x)"
  have "length (ts_views s) \<le> length (ts_views t) + (n + k)" if "bind_io m f s = (r, t)" for s r t
  proof -
    obtain q u where q: "m s = (q, u)" by fastforce
    show ?thesis
    proof (cases q)
      case (Inl e)
      with that q spendsD [OF m q] show ?thesis by simp
    next
      case (Inr x)
      with that q have "f x u = (r, t)" by simp
      from spendsD [OF f this] spendsD [OF m q] show ?thesis by simp
    qed
  qed
  then show ?thesis by (simp add: spends_def)
qed

lemmas spends_then = spends_bind [where n = 0, simplified]
lemmas spends_last = spends_bind [where k = 0, simplified]

named_theorems idle_intros "computations that do not look at the port"

lemmas idle_bind [idle_intros] = spends_bind [where n = 0 and k = 0, simplified]

lemma idle_basic [idle_intros]: "spends 0 (ret x)" "spends 0 (raise e)" "spends 0 (when_raise b e)" "spends 0 (need_trial b why)"
  "spends 0 (gets g)" "spends 0 (lift_result r)"
  by (simp_all add: spends_def run_simps need_trial_def)

lemma idle_modify [idle_intros]: "(\<And>s. ts_views (f s) = ts_views s) \<Longrightarrow> spends 0 (modify f)"
  by (auto simp: spends_def modify_def)

lemma idle_calls [idle_intros]: "spends 0 act" "spends 0 run_program" "spends 0 stream_ended" "spends 0 (sleep d)"
  by (auto simp: spends_def act_def run_program_def stream_ended_def sleep_def modify_def lose_power_def Let_def
      split: list.splits trial_act.splits trial_reply.splits)

lemma idle_if [idle_intros]: "spends n m \<Longrightarrow> spends n k \<Longrightarrow> spends n (if b then m else k)"
  by simp

lemma spends_try: "spends n m \<Longrightarrow> (\<And>e. spends k (h e)) \<Longrightarrow> spends (n + k) (try_except m h)"
proof -
  assume m: "spends n m" and h: "\<And>e. spends k (h e)"
  have "length (ts_views s) \<le> length (ts_views t) + (n + k)" if "try_except m h s = (r, t)" for s r t
  proof -
    obtain q u where q: "m s = (q, u)" by fastforce
    show ?thesis
    proof (cases q)
      case (Inr x)
      with that q spendsD [OF m q] show ?thesis by (simp add: try_except_def)
    next
      case (Inl e)
      with that q have "h e u = (r, t)" by (simp add: try_except_def)
      from spendsD [OF h this] spendsD [OF m q] show ?thesis by simp
    qed
  qed
  then show ?thesis by (simp add: spends_def)
qed

lemmas idle_try [idle_intros] = spends_try [where n = 0 and k = 0, simplified]

lemma spends_look: "spends 1 (look cfg)"
  by (auto simp: spends_def look_def split: list.splits)

lemma idle_files [idle_intros]: "spends 0 (write_evidence name)" "spends 0 (note_event e)" "spends 0 (ssh cfg)" "spends 0 (decode_text raw)"
  unfolding write_evidence_def note_event_def ssh_def decode_text_def by (intro idle_intros; simp)+

lemma spends_probe: "spends 1 (probe cfg address)"
proof -
  have "spends 0 (use_address address)"
    unfolding use_address_def case_prod_unfold by (intro idle_intros)
  then have rest: "spends 0 (bind_io (need_trial (state = ''target'') ''phone is not a running target on the approved port'') (\<lambda>_.
     bind_io (use_address address) (\<lambda>_.
     bind_io (ssh cfg) (\<lambda>(rc, out, err).
     bind_io (need_trial (rc = 0) ''SSH probe failed'') (\<lambda>_.
     ret (fold add_health (text_lines (utf8_replace out)) []))))))" for state
    unfolding case_prod_unfold by (intro idle_intros)
  show ?thesis unfolding probe_def using spends_bind [OF spends_look rest] by simp
qed

lemma spends_health: "spends 1 (read_health cfg address ob)"
proof -
  have "spends 0 (start_stream cfg ob)" for ob
    unfolding start_stream_def by (intro idle_intros) simp_all
  then have rest: "spends 0 (bind_io (write_evidence ''health.json'') (\<lambda>_.
        bind_io (modify (\<lambda>s. s\<lparr>ts_health := health\<rparr>)) (\<lambda>_.
        start_stream cfg (ob\<lparr>ob_logged := True\<rparr>))))" for health
    by (intro idle_intros) simp
  have caught: "spends 0 (if observe_caught e then ret ob else raise e)" for e by (intro idle_intros)
  show ?thesis
    unfolding read_health_def using spends_try [OF spends_bind [OF spends_probe rest] caught] by simp
qed

lemma spends_round: "spends 2 (observe_round cfg address hang ob)"
proof -
  have note_state: "spends 0 (note_state state ob)" for state ob
    unfolding note_state_def by (intro idle_intros)
  have prompt: "spends 0 (prompt_rescue r ob)" for r ob
    unfolding prompt_rescue_def by (cases r) (auto intro!: idle_intros)
  have ended: "spends 0 (drop_stream state ob)" for state ob
    unfolding drop_stream_def by (intro idle_intros)
  have health: "spends 1 (if state = ''target'' \<and> \<not> ob_logged ob then read_health cfg address ob else ret ob)" for state ob
    using spends_health spends_more [OF idle_basic(1)] by (intro idle_if) auto
  have over: "spends 1 (bind_io (sleep 3000000000) (\<lambda>_. ret (True, ob)))" for ob :: observation
    by (rule spends_more [of 0]) (intro idle_intros, simp)
  have late: "spends 1 (bind_io (gets ts_now) (\<lambda>now. bind_io (prompt_rescue (rescue now) ob) (\<lambda>ob.
     bind_io (if state = ''target'' \<and> \<not> ob_logged ob then read_health cfg address ob else ret ob) (\<lambda>ob.
     bind_io (drop_stream state ob) (\<lambda>ob. ret (False, ob))))))" for rescue ob state
    by (intro spends_then [OF idle_basic(5)] spends_then [OF prompt] spends_last [OF health] idle_bind [OF ended] idle_basic)
  have "spends (1 + 1) (observe_round cfg address hang ob)"
    unfolding observe_round_def Let_def
    by (rule spends_bind [OF spends_look]) (intro spends_then [OF note_state] idle_if over late)
  then show ?thesis by (simp add: numeral_2_eq_2)
qed

subsection \<open>Prompts\<close>

definition prompts :: "string \<Rightarrow> trial_host \<Rightarrow> nat" where
  "prompts r s = count_list (ts_log s) (Prompt r)"

definition open_prompt :: "string \<Rightarrow> observation \<Rightarrow> nat" where
  "open_prompt r ob = (if r \<in> set (ob_prompted ob) then 0 else 1)"

text \<open>A computation that hands on the observation: prompts made and prompts still open do not grow together.\<close>

definition frugal :: "string \<Rightarrow> observation \<Rightarrow> (trial_host, 'a) io \<Rightarrow> ('a \<Rightarrow> observation) \<Rightarrow> bool" where
  "frugal r ob m f \<longleftrightarrow> (\<forall>s q t. m s = (q, t) \<longrightarrow>
     prompts r t \<le> prompts r s + open_prompt r ob
     \<and> (\<forall>x. q = Inr x \<longrightarrow> prompts r t + open_prompt r (f x) \<le> prompts r s + open_prompt r ob))"

lemma frugalD:
  assumes "frugal r ob m f" and "m s = (q, t)"
  shows "prompts r t \<le> prompts r s + open_prompt r ob"
    and "q = Inr x \<Longrightarrow> prompts r t + open_prompt r (f x) \<le> prompts r s + open_prompt r ob"
  using assms by (auto simp: frugal_def)

lemma frugal_bind:
  assumes m: "frugal r ob m f" and k: "\<And>x. frugal r (f x) (k x) g"
  shows "frugal r ob (bind_io m k) g"
  unfolding frugal_def
proof (intro allI impI)
  fix s q t
  assume run: "bind_io m k s = (q, t)"
  obtain p u where p: "m s = (p, u)" by fastforce
  show "prompts r t \<le> prompts r s + open_prompt r ob \<and> (\<forall>x. q = Inr x \<longrightarrow> prompts r t + open_prompt r (g x) \<le> prompts r s + open_prompt r ob)"
  proof (cases p)
    case (Inl e)
    with run p have "q = Inl e" "t = u" by auto
    with m p show ?thesis by (simp add: frugal_def)
  next
    case (Inr x)
    with run p have "k x u = (q, t)" by simp
    note late = frugalD [OF k this]
    have "prompts r u + open_prompt r (f x) \<le> prompts r s + open_prompt r ob" using frugalD(2) [OF m p] Inr by blast
    with late(1) late(2) show ?thesis by fastforce
  qed
qed

text \<open>Computations that do not write the log.\<close>

definition silent :: "(trial_host, 'a) io \<Rightarrow> bool" where
  "silent m \<longleftrightarrow> (\<forall>L. keeps (\<lambda>s. ts_log s = L) m)"

lemma silentD: "silent m \<Longrightarrow> m s = (q, t) \<Longrightarrow> ts_log t = ts_log s"
  by (simp add: silent_def keeps_def) (metis snd_conv)

lemma frugal_silent:
  assumes m: "silent m" and same: "\<And>s x t. m s = (Inr x, t) \<Longrightarrow> ob_prompted (f x) = ob_prompted ob"
  shows "frugal r ob m f"
  unfolding frugal_def
proof (intro allI impI)
  fix s q t
  assume run: "m s = (q, t)"
  from silentD [OF m run] have "prompts r t = prompts r s" by (simp add: prompts_def)
  with run same show "prompts r t \<le> prompts r s + open_prompt r ob
      \<and> (\<forall>x. q = Inr x \<longrightarrow> prompts r t + open_prompt r (f x) \<le> prompts r s + open_prompt r ob)"
    by (auto simp: open_prompt_def)
qed

lemma frugal_ret: "ob_prompted (f x) = ob_prompted ob \<Longrightarrow> frugal r ob (ret x) f"
  by (simp add: frugal_def ret_def prompts_def open_prompt_def)

lemma log_calls [keeps_intros]: "keeps (\<lambda>s. ts_log s = L) act" "keeps (\<lambda>s. ts_log s = L) (look cfg)" "keeps (\<lambda>s. ts_log s = L) run_program"
  "keeps (\<lambda>s. ts_log s = L) stream_ended" "keeps (\<lambda>s. ts_log s = L) (sleep d)"
  by (auto simp: keeps_def act_def look_def run_program_def stream_ended_def sleep_def modify_def lose_power_def Let_def
      split: list.splits trial_act.splits trial_reply.splits)

lemma log_modify: "(\<And>s. ts_log (f s) = ts_log s) \<Longrightarrow> keeps (\<lambda>s. ts_log s = L) (modify f)"
  by (auto simp: keeps_def modify_def)

lemma silent_health: "silent (read_health cfg address ob)"
proof -
  have put: "keeps (\<lambda>s. ts_log s = L) (write_evidence name)" for L name
    unfolding write_evidence_def by (intro keeps_intros log_modify) simp
  have ssh: "keeps (\<lambda>s. ts_log s = L) (ssh cfg)" for L unfolding ssh_def by (intro keeps_intros)
  have address: "keeps (\<lambda>s. ts_log s = L) (use_address address)" for L unfolding use_address_def case_prod_unfold by (intro keeps_intros)
  have probe: "keeps (\<lambda>s. ts_log s = L) (probe cfg address)" for L unfolding probe_def case_prod_unfold by (intro keeps_intros ssh address)
  have stream: "keeps (\<lambda>s. ts_log s = L) (start_stream cfg ob)" for L ob
    unfolding start_stream_def by (intro keeps_intros ssh put log_modify) simp
  show ?thesis unfolding silent_def read_health_def by (intro allI keeps_intros probe put stream log_modify) simp
qed

lemma health_prompted: "read_health cfg address ob s = (Inr x, t) \<Longrightarrow> ob_prompted x = ob_prompted ob"
proof -
  have stream: "start_stream cfg ob' s = (Inr x, t) \<Longrightarrow> ob_prompted x = ob_prompted ob'" for ob' s x t
    by (auto simp: start_stream_def try_except_def bind_io_def run_simps split: sum.splits prod.splits if_splits)
  show "read_health cfg address ob s = (Inr x, t) \<Longrightarrow> ?thesis"
    by (auto simp: read_health_def try_except_def bind_io_def run_simps split: sum.splits prod.splits if_splits dest!: stream)
qed

lemma frugal_note_state: "frugal r ob (note_state state ob) (\<lambda>ob. ob)"
proof -
  have "prompts r t = prompts r s \<and> (\<forall>x. q = Inr x \<longrightarrow> ob_prompted x = ob_prompted ob)" if run: "note_state state ob s = (q, t)" for s q t
  proof (cases "ob_last ob = Some state")
    case True
    with run show ?thesis by (auto simp: note_state_def ret_def)
  next
    case False
    obtain a u where a: "act s = (a, u)" by fastforce
    have "ts_log u = ts_log s" using keepsD [OF log_calls(1) _ a, of "ts_log s"] by simp
    with run False a show ?thesis
      by (cases a) (auto simp: note_state_def note_event_def bind_io_def run_simps prompts_def)
  qed
  note same = this
  show ?thesis
    unfolding frugal_def
  proof (intro allI impI)
    fix s q t
    assume "note_state state ob s = (q, t)"
    from same [OF this] show "prompts r t \<le> prompts r s + open_prompt r ob
        \<and> (\<forall>x. q = Inr x \<longrightarrow> prompts r t + open_prompt r x \<le> prompts r s + open_prompt r ob)"
      by (cases q) (simp_all add: open_prompt_def)
  qed
qed

lemma frugal_prompt: "frugal r ob (prompt_rescue rescue ob) (\<lambda>ob. ob)"
proof (cases "\<exists>x. rescue = Some x \<and> x \<notin> set (ob_prompted ob)")
  case False
  then have "prompt_rescue rescue ob = ret ob" by (auto simp: prompt_rescue_def split: option.splits)
  then show ?thesis using frugal_ret [of "\<lambda>ob. ob" ob ob r] by simp
next
  case True
  then obtain x where x: "rescue = Some x" "x \<notin> set (ob_prompted ob)" by blast
  show ?thesis
    unfolding frugal_def
  proof (intro allI impI)
    fix s q t
    assume run: "prompt_rescue rescue ob s = (q, t)"
    obtain a u where a: "act s = (a, u)" by fastforce
    have "ts_log u = ts_log s" using keepsD [OF log_calls(1) _ a, of "ts_log s"] by simp
    with run x a show "prompts r t \<le> prompts r s + open_prompt r ob
        \<and> (\<forall>x. q = Inr x \<longrightarrow> prompts r t + open_prompt r x \<le> prompts r s + open_prompt r ob)"
      by (cases a) (auto simp: prompt_rescue_def note_event_def bind_io_def run_simps prompts_def open_prompt_def)
  qed
qed

lemma frugal_drop_stream: "frugal r ob (drop_stream state ob) (\<lambda>ob. ob)"
proof (rule frugal_silent)
  show "silent (drop_stream state ob)" unfolding silent_def drop_stream_def by (intro allI keeps_intros)
  show "drop_stream state ob s = (Inr x, t) \<Longrightarrow> ob_prompted x = ob_prompted ob" for s x t
    by (auto simp: drop_stream_def bind_io_def run_simps split: if_splits sum.splits prod.splits)
qed

lemma frugal_same: "ob_prompted ob' = ob_prompted ob \<Longrightarrow> frugal r ob' m f \<Longrightarrow> frugal r ob m f"
  by (simp add: frugal_def open_prompt_def)

lemma frugal_round: "frugal r ob (observe_round cfg address hang ob) snd"
proof -
  have silent: "frugal r ob m (\<lambda>_. ob)" if "silent m" for m :: "(trial_host, 'b) io" and ob
    using that by (rule frugal_silent) simp
  have look: "silent (look cfg)" and now: "silent (gets ts_now)" and nap: "silent (sleep d)" for d
    unfolding silent_def by (intro allI keeps_intros)+
  have health: "frugal r ob (if b then read_health cfg address ob else ret ob) (\<lambda>ob. ob)" for b ob
    using frugal_silent [OF silent_health, where f = "\<lambda>ob. ob"] health_prompted frugal_ret [of "\<lambda>ob. ob" ob ob r] by auto
  have tail: "frugal r ob (bind_io (gets ts_now) (\<lambda>now. bind_io (prompt_rescue (rescue now) ob) (\<lambda>ob.
     bind_io (if state = ''target'' \<and> \<not> ob_logged ob then read_health cfg address ob else ret ob) (\<lambda>ob.
     bind_io (drop_stream state ob) (\<lambda>ob. ret (False, ob)))))) snd" for rescue ob state
    by (rule frugal_bind [OF silent [OF now]] frugal_bind [OF frugal_prompt] frugal_bind [OF health]
        frugal_bind [OF frugal_drop_stream] frugal_ret)+ simp
  have over: "frugal r ob (bind_io (sleep 3000000000) (\<lambda>_. ret (True, ob))) snd" for ob
    by (rule frugal_bind [OF silent [OF nap]] frugal_ret | simp)+
  have body: "frugal r ob (if b then bind_io (sleep 3000000000) (\<lambda>_. ret (True, ob))
     else bind_io (gets ts_now) (\<lambda>now. bind_io (prompt_rescue (rescue now) ob) (\<lambda>ob.
     bind_io (if state = ''target'' \<and> \<not> ob_logged ob then read_health cfg address ob else ret ob) (\<lambda>ob.
     bind_io (drop_stream state ob) (\<lambda>ob. ret (False, ob)))))) snd" for b rescue ob state
    using over tail by simp
  show ?thesis
    unfolding observe_round_def Let_def
    by (rule frugal_bind [OF silent [OF look]], rule frugal_bind [OF frugal_note_state], rule frugal_same [OF _ body]) simp
qed

subsection \<open>The loop\<close>

lemma sleep_keeps: "ts_views (snd (sleep d s)) = ts_views s" "ts_now (snd (sleep d s)) = ts_now s + max 1 d"
  "prompts r (snd (sleep d s)) = prompts r s"
  by (simp_all add: sleep_def modify_def prompts_def)

lemma observe_loop_cases:
  assumes run: "observe_loop cfg address hang interval deadline ob s = (q, t)" and before: "ts_now s < deadline"
    and round: "observe_round cfg address hang ob s = (p, u)"
  shows "t = u \<or> (\<exists>over ob'. p = Inr (over, ob')
    \<and> observe_loop cfg address hang interval deadline ob' (snd (sleep interval u)) = (q, t))"
  using run before round by (subst (asm) observe_loop.simps) (auto split: sum.splits prod.splits if_splits)

text \<open>The arithmetic of one round, on the numbers of looks times the interval.\<close>

lemma one_round:
  fixes a b c i d n n' :: int
  shows "a \<le> b + 2 * i \<Longrightarrow> b \<le> c + 2 * (d - n' + i) \<Longrightarrow> n + i \<le> n' \<Longrightarrow> a \<le> c + 2 * (d - n + i)"
    and "a \<le> b + 2 * i \<Longrightarrow> b \<le> c + 0 \<Longrightarrow> n < d \<Longrightarrow> a \<le> c + 2 * (d - n + i)"
    and "a \<le> b + (if n < n + d then 2 * (n + d - n + i) else 0) \<Longrightarrow> 0 < i \<Longrightarrow> 0 \<le> d \<Longrightarrow> a \<le> b + 2 * (d + i)"
  by (auto split: if_splits)

lemma observe_loop_views:
  assumes "0 < interval" and "observe_loop cfg address hang interval deadline ob s = (q, t)"
  shows "interval * int (length (ts_views s)) \<le> interval * int (length (ts_views t))
    + (if ts_now s < deadline then 2 * (deadline - ts_now s + interval) else 0)"
  using assms(2)
proof (induction "nat (deadline - ts_now s)" arbitrary: ob s rule: less_induct)
  case less
  show ?case
  proof (cases "ts_now s < deadline")
    case False
    with less.prems show ?thesis by (subst (asm) observe_loop.simps) simp
  next
    case True
    obtain p u where p: "observe_round cfg address hang ob s = (p, u)" by fastforce
    have looks: "interval * int (length (ts_views s)) \<le> interval * int (length (ts_views u)) + 2 * interval"
      using spendsD [OF spends_round p] mult_left_mono [of "int (length (ts_views s))" "int (length (ts_views u)) + 2" interval] assms(1)
      by (simp add: algebra_simps)
    from round_onward [OF p] have onward: "ts_now s + interval \<le> ts_now (snd (sleep interval u))" by (simp add: sleep_keeps)
    from observe_loop_cases [OF less.prems True p] show ?thesis
    proof (elim disjE exE conjE)
      assume "t = u"
      with looks True show ?thesis by simp
    next
      fix over ob'
      assume more: "observe_loop cfg address hang interval deadline ob' (snd (sleep interval u)) = (q, t)"
      have "nat (deadline - ts_now (snd (sleep interval u))) < nat (deadline - ts_now s)" using onward True assms(1) by simp
      note rest = less.hyps [OF this more, unfolded sleep_keeps(1)]
      show ?thesis
      proof (cases "ts_now (snd (sleep interval u)) < deadline")
        case in_time: True
        show ?thesis using one_round(1) [OF looks rest [unfolded if_P [OF in_time]] onward] by (simp only: True if_True)
      next
        case late: False
        show ?thesis using one_round(2) [OF looks rest [unfolded if_not_P [OF late]] True] by (simp only: True if_True)
      qed
    qed
  qed
qed

lemma observe_loop_prompts:
  "observe_loop cfg address hang interval deadline ob s = (q, t) \<Longrightarrow> prompts r t \<le> prompts r s + open_prompt r ob"
proof (induction "nat (deadline - ts_now s)" arbitrary: ob s rule: less_induct)
  case less
  show ?case
  proof (cases "ts_now s < deadline")
    case False
    with less.prems show ?thesis by (subst (asm) observe_loop.simps) simp
  next
    case True
    obtain p u where p: "observe_round cfg address hang ob s = (p, u)" by fastforce
    note few = frugalD [where r = r, OF frugal_round p]
    from observe_loop_cases [OF less.prems True p] show ?thesis
    proof (elim disjE exE conjE)
      assume "t = u"
      with few(1) show ?thesis by simp
    next
      fix over ob'
      assume x: "p = Inr (over, ob')" and more: "observe_loop cfg address hang interval deadline ob' (snd (sleep interval u)) = (q, t)"
      have "nat (deadline - ts_now (snd (sleep interval u))) < nat (deadline - ts_now s)"
        using round_onward [OF p] True by (simp add: sleep_keeps)
      from less.hyps [OF this more] few(2) [OF x] show ?thesis by (simp add: sleep_keeps(3))
    qed
  qed
qed

text \<open>
  C28. The observation returns whatever the port shows, the programs answer and the disk does; it looks at the port at most
  twice per interval of the requested time and of one more interval, also when it stops on an error; and it asks for each manual rescue step at
  most once.
\<close>

theorem observe_bounded:
  assumes "0 < interval" and "0 \<le> seconds" and run: "observe cfg address seconds interval hang s = (r, t)"
  shows "interval * int (length (ts_views s)) \<le> interval * int (length (ts_views t)) + 2 * (seconds + interval)
    \<and> count_list (ts_log t) (Prompt rescue) \<le> count_list (ts_log s) (Prompt rescue) + 1"
proof -
  let ?ob = "\<lparr>ob_prompted = [], ob_changed = ts_now s, ob_seen_boot = False, ob_last = None, ob_logged = False, ob_stream = False\<rparr>"
  obtain a u where a: "act s = (a, u)" by fastforce
  have u: "ts_views u = ts_views s" "ts_log u = ts_log s" "ts_now u = ts_now s"
    using a by (auto simp: act_def lose_power_def Let_def split: list.splits trial_act.splits)
  show ?thesis
  proof (cases a)
    case (Inl e)
    with run a have "t = u" by (auto simp: observe_def bind_io_def run_simps)
    with u assms(1,2) show ?thesis by simp
  next
    case (Inr x)
    obtain q v where q: "observe_loop cfg address hang interval (ts_now s + seconds) ?ob u = (q, v)" by fastforce
    with run a Inr have "t = v" by (cases q) (auto simp: observe_def bind_io_def run_simps)
    moreover have "interval * int (length (ts_views s)) \<le> interval * int (length (ts_views v)) + 2 * (seconds + interval)"
      by (rule one_round(3) [OF observe_loop_views [OF assms(1) q, unfolded u] assms(1,2)])
    ultimately show ?thesis using observe_loop_prompts [OF q, of rescue] u by (simp add: prompts_def open_prompt_def)
  qed
qed

text \<open>A phone that shows its crash dump screen throughout.\<close>

definition crashed_view :: usb_view where
  "crashed_view =
     \<lparr>uv_exists = True, uv_resolved = Inr ''/port'', uv_vendor = Inr ''05c6'', uv_product_id = Inr ''900e'', uv_serial = Inr '''',
      uv_product = Inr '''', uv_interface = False, uv_interface_parent = Inr ''''\<rparr>"

definition watching_config :: trial_config where
  "watching_config = \<lparr>tc_serial = ''S1'', tc_anchor = ''/port'', tc_allowed = False, tc_fastboot_safe = Inr True, tc_credentials_safe = Inr True\<rparr>"

definition watching_host :: trial_host where
  "watching_host =
     \<lparr>ts_now = 7, ts_acts = [], ts_views = replicate 9 crashed_view, ts_replies = [], ts_polls = [], ts_depth = 1, ts_real = True, ts_dirs = [], ts_claims = [],
      ts_snapshot = [], ts_sent = [], ts_files = [], ts_log = [], ts_health = []\<rparr>"

definition watched_host :: trial_host where
  "watched_host = snd (observe watching_config ''10.77.0.2'' 5 2 240 watching_host)"

lemma watched: "length (ts_views watched_host) = 6" "ts_log watched_host = [Prompt ''R2'', Transition ''crashdump'']"
  by code_simp+

theorem observe_bounded_witness:
  "length (ts_views watching_host) = 9 \<and> length (ts_views watched_host) = 6 \<and> ts_log watched_host = [Prompt ''R2'', Transition ''crashdump'']
   \<and> (2 :: int) * int (length (ts_views watching_host)) \<le> 2 * int (length (ts_views watched_host)) + 2 * (5 + 2)
   \<and> count_list (ts_log watched_host) (Prompt ''R2'') \<le> count_list (ts_log watching_host) (Prompt ''R2'') + 1"
proof -
  have run: "observe watching_config ''10.77.0.2'' 5 2 240 watching_host
      = (fst (observe watching_config ''10.77.0.2'' 5 2 240 watching_host), watched_host)"
    by (simp add: watched_host_def)
  have "length (ts_views watching_host) = 9" by (simp add: watching_host_def)
  with observe_bounded [OF _ _ run, of "''R2''"] watched show ?thesis by simp
qed

end
