(* ===== verification/Trial_Stages.thy ===== *)
theory Trial_Stages
  imports Ram_Trial "HOL-Library.AList"
begin

section \<open>The receiver of stage records\<close>

text \<open>
  Models the thread \<^verbatim>\<open>StageReceiver\<close> of \<^verbatim>\<open>scripts/host/production-ram-trial.py\<close>. Each round of the thread meets one event: the stop
  flag is set, nobody connects in time, accepting fails, or a peer connects at some time and its data arrive in
  segments until it closes, fails or is silent too long, which all end the reading alike. The log keeps the time and the bytes
  of each record that is written.
\<close>

datatype stage_event = StopSet | NoConnection | AcceptFails | Connection string string "bytes list"

record receiver =
  sr_log :: "(string \<times> bytes) list"
  sr_last :: "bytes option"
  sr_records :: nat
  sr_printed :: "string list"

definition STAGE_LIMIT :: nat where
  "STAGE_LIMIT = 4096"

function receive_stage :: "bytes \<Rightarrow> bytes list \<Rightarrow> bytes" where
  "receive_stage sofar [] = sofar"
| "receive_stage sofar (segment # segments) =
     (let room = STAGE_LIMIT - length sofar; chunk = take room segment in
      if chunk = [] then sofar
      else receive_stage (sofar @ chunk) (if drop room segment = [] then segments else drop room segment # segments))"
  by pat_completeness auto
termination
  by (relation "measure (\<lambda>(_, segments). length (concat segments))") auto

text \<open>\<open>dict\<close> of the lines with an equals sign: a later line replaces an earlier one of its key.\<close>

definition stage_fields :: "bytes \<Rightarrow> (string \<times> string) list" where
  "stage_fields datum =
     fold (\<lambda>line fields. case partition_at (CHR ''='') line of (key, _, x) \<Rightarrow> AList.update key x fields)
       (filter (\<lambda>line. CHR ''='' \<in> set line) (text_lines (utf8_replace datum))) []"

definition stage_field :: "bytes \<Rightarrow> string \<Rightarrow> string \<Rightarrow> string" where
  "stage_field datum key missing = (case map_of (stage_fields datum) key of None \<Rightarrow> missing | Some x \<Rightarrow> x)"

definition stage_line :: "string \<Rightarrow> bytes \<Rightarrow> string" where
  "stage_line time datum =
     time @ '' stage '' @ stage_field datum ''sequence'' ''?'' @ '' '' @ stage_field datum ''stage'' ''?'' @ '' ''
     @ stage_field datum ''state'' ''?'' @ '' '' @ stage_field datum ''detail'' ''''"

definition take_record :: "string \<Rightarrow> bytes \<Rightarrow> receiver \<Rightarrow> receiver" where
  "take_record time datum st =
     (if datum = [] \<or> sr_last st = Some datum then st
      else st\<lparr>sr_log := sr_log st @ [(time, datum)], sr_last := Some datum, sr_records := sr_records st + 1,
              sr_printed := sr_printed st @ [stage_line time datum]\<rparr>)"

fun receiver_run :: "string \<Rightarrow> stage_event list \<Rightarrow> receiver \<Rightarrow> receiver" where
  "receiver_run stage_peer [] st = st"
| "receiver_run stage_peer (StopSet # events) st = st"
| "receiver_run stage_peer (AcceptFails # events) st = st"
| "receiver_run stage_peer (NoConnection # events) st = receiver_run stage_peer events st"
| "receiver_run stage_peer (Connection time peer segments # events) st =
     receiver_run stage_peer events
       (if peer \<noteq> stage_peer then st else take_record time (receive_stage [] segments) st)"

definition new_receiver :: receiver where
  "new_receiver = \<lparr>sr_log = [], sr_last = None, sr_records = 0, sr_printed = []\<rparr>"

definition stage_entry :: "string \<times> bytes \<Rightarrow> bytes" where
  "stage_entry entry = ''--- '' @ fst entry @ [LF] @ snd entry @ [LF]"

definition stages_log :: "receiver \<Rightarrow> bytes" where
  "stages_log st = concat (map stage_entry (sr_log st))"

subsection \<open>What is received\<close>

text \<open>Reading takes the first bytes up to the limit, however the segments fall; a segment is never empty unless the peer has closed.\<close>

lemma receive_stage_limit:
  "length sofar \<le> STAGE_LIMIT \<Longrightarrow> list_all (\<lambda>s. s \<noteq> []) segments
     \<Longrightarrow> receive_stage sofar segments = sofar @ take (STAGE_LIMIT - length sofar) (concat segments)"
proof (induction sofar segments rule: receive_stage.induct)
  case (2 sofar segment segments)
  let ?room = "STAGE_LIMIT - length sofar"
  show ?case
  proof (cases "take ?room segment = []")
    case True
    with "2.prems" have "?room = 0" by simp
    with True show ?thesis by simp
  next
    case False
    then have "0 < ?room" "segment \<noteq> []" by auto
    with 2 False show ?thesis by (auto simp: Let_def min_def)
  qed
qed simp

text \<open>The records that reach the receiver before it ends, in the order of their connections.\<close>

fun stage_records :: "string \<Rightarrow> stage_event list \<Rightarrow> bytes list" where
  "stage_records stage_peer [] = []"
| "stage_records stage_peer (StopSet # events) = []"
| "stage_records stage_peer (AcceptFails # events) = []"
| "stage_records stage_peer (NoConnection # events) = stage_records stage_peer events"
| "stage_records stage_peer (Connection time peer segments # events) =
     (if peer = stage_peer \<and> concat segments \<noteq> [] then [take STAGE_LIMIT (concat segments)] else []) @ stage_records stage_peer events"

fun whole_segments :: "stage_event \<Rightarrow> bool" where
  "whole_segments (Connection time peer segments) = list_all (\<lambda>s. s \<noteq> []) segments"
| "whole_segments _ = True"

definition receiver_ok :: "receiver \<Rightarrow> bool" where
  "receiver_ok st \<longleftrightarrow> sr_records st = length (sr_log st)
     \<and> sr_last st = (if sr_log st = [] then None else Some (snd (List.last (sr_log st))))
     \<and> remdups_adj (map snd (sr_log st)) = map snd (sr_log st)"

lemma remdups_adj_snoc: "remdups_adj (xs @ [x]) = (if xs \<noteq> [] \<and> List.last xs = x then remdups_adj xs else remdups_adj xs @ [x])"
  by (induction xs rule: remdups_adj.induct) auto

lemma remdups_adj_prefix: "remdups_adj (remdups_adj xs @ ys) = remdups_adj (xs @ ys)"
proof (induction xs rule: remdups_adj.induct)
  case (3 x y xs)
  obtain rest where "remdups_adj (y # xs) = y # rest" by (metis remdups_adj_Cons_alt)
  with 3 show ?case by (cases "x = y") simp_all
qed simp_all

lemma take_record_log:
  assumes ok: "receiver_ok st" and some: "datum \<noteq> []"
  shows "receiver_ok (take_record time datum st)"
    and "map snd (sr_log (take_record time datum st)) = remdups_adj (map snd (sr_log st) @ [datum])"
  using ok some by (auto simp: receiver_ok_def take_record_def remdups_adj_snoc last_map split: if_splits)

lemma receiver_run_log:
  "receiver_ok st \<Longrightarrow> list_all whole_segments events
     \<Longrightarrow> receiver_ok (receiver_run stage_peer events st)
       \<and> map snd (sr_log (receiver_run stage_peer events st)) = remdups_adj (map snd (sr_log st) @ stage_records stage_peer events)"
proof (induction stage_peer events st rule: receiver_run.induct)
  case (5 stage_peer time peer segments events st)
  let ?taken = "take STAGE_LIMIT (concat segments)"
  have received: "receive_stage [] segments = ?taken" using "5.prems" by (simp add: receive_stage_limit)
  show ?case
  proof (cases "peer = stage_peer \<and> concat segments \<noteq> []")
    case True
    then have "?taken \<noteq> []" by (simp add: STAGE_LIMIT_def)
    note taken = take_record_log [OF "5.prems"(1) this, of time]
    from 5 received True taken show ?thesis by (simp add: remdups_adj_prefix)
  next
    case False
    then have "(if peer \<noteq> stage_peer then st else take_record time (receive_stage [] segments) st) = st"
      unfolding received by (auto simp: take_record_def)
    with 5 False show ?thesis by auto
  qed
qed (auto simp: receiver_ok_def)

text \<open>
  The stage log of a run holds exactly the records of the target's address, each cut at the limit, without the empty ones and without
  one that repeats the one before it; the number of records is the number of entries.
\<close>

theorem stage_log_exact:
  assumes "list_all whole_segments events"
  shows "map snd (sr_log (receiver_run stage_peer events new_receiver)) = remdups_adj (stage_records stage_peer events)
    \<and> sr_records (receiver_run stage_peer events new_receiver) = length (remdups_adj (stage_records stage_peer events))"
proof -
  have "receiver_ok new_receiver" by (simp add: receiver_ok_def new_receiver_def)
  from receiver_run_log [OF this assms, of stage_peer]
  have ok: "receiver_ok (receiver_run stage_peer events new_receiver)"
    and log: "map snd (sr_log (receiver_run stage_peer events new_receiver)) = remdups_adj (stage_records stage_peer events)"
    by (simp_all add: new_receiver_def)
  from arg_cong [OF log, of length] ok have "sr_records (receiver_run stage_peer events new_receiver) = length (remdups_adj (stage_records stage_peer events))"
    by (simp only: receiver_ok_def length_map)
  with log show ?thesis by blast
qed

lemma stage_log_example:
  "map snd (sr_log (receiver_run ''p''
     [NoConnection, Connection ''t1'' ''p'' [''a='', ''1''], Connection ''t2'' ''q'' [''b''], Connection ''t3'' ''p'' [''a=1''], StopSet] new_receiver)) = [''a=1'']"
  by code_simp

end
