(* ===== verification/Newc_Archive.thy ===== *)
theory Newc_Archive
  imports Py_Hex "HOL-Library.List_Lexorder" "HOL-Library.Char_ord"
begin

section \<open>Archives of the initramfs\<close>

text \<open>
  Models the newc archives of \<^verbatim>\<open>scripts/device/build-native-wifi-boot-initramfs.py\<close> (\<open>entries\<close>, here \<open>newc_entries\<close>, \<open>encode\<close>, \<open>add\<close>, \<open>replace\<close>) and the
  reader \<open>newc_member\<close> of \<^verbatim>\<open>scripts/host/install-default-kernel.py\<close>. A dictionary of members is the list of its items in the
  order of insertion; a member has the 13 numbers of its header and its bytes. Compression is outside: the
  functions see the decompressed bytes.
\<close>

subsection \<open>Slices and alignment\<close>

abbreviation NUL :: char where
  "NUL \<equiv> CHR 0x00"

text \<open>\<open>data[a:b]\<close>, where a negative bound counts from the end, and \<open>(x + 3) & ~3\<close>.\<close>

definition py_bound :: "int \<Rightarrow> 'a list \<Rightarrow> nat" where
  "py_bound i xs = nat (if i < 0 then max 0 (i + int (length xs)) else min i (int (length xs)))"

definition py_slice :: "'a list \<Rightarrow> int \<Rightarrow> int \<Rightarrow> 'a list" where
  "py_slice xs a b = slice (py_bound a xs) (py_bound b xs) xs"

definition align4 :: "int \<Rightarrow> int" where
  "align4 x = (x + 3) div 4 * 4"

definition header_number :: "bytes \<Rightarrow> int result" where
  "header_number raw = option_result (ValueError ''invalid literal for int() with base 16'') (read_int16 (ascii_strip raw))"

subsection \<open>Reading\<close>

type_synonym member = "int list \<times> bytes"
type_synonym members = "(string \<times> member) list"

definition TRAILER :: string where
  "TRAILER = ''TRAILER!!!''"

definition header_fields :: "bytes \<Rightarrow> int list result" where
  "header_fields header = map_result (\<lambda>i. header_number (slice (6 + i * 8) (14 + i * 8) header)) [0..<13]"

definition safe_name :: "string \<Rightarrow> bool" where
  "safe_name name \<longleftrightarrow> \<not> prefix ''/'' name \<and> ''..'' \<notin> set (split_on (CHR ''/'') name)"

text \<open>One round of the loop of \<open>newc_entries\<close>: where the next header is, and the member.\<close>

definition read_entry :: "bytes \<Rightarrow> int \<Rightarrow> string list \<Rightarrow> (int \<times> string \<times> member) result" where
  "read_entry data offset seen =
     (let header = py_slice data offset (offset + 110) in
      if length header \<noteq> 110 \<or> take 6 header \<noteq> ''070701'' then Inl (ValueError ''newc header'')
      else bind_result (header_fields header) (\<lambda>fields.
        let size' = fields ! 6; name_size = fields ! 11;
            raw = py_slice data (offset + 110) (offset + 110 + name_size); name = butlast raw
        in if \<not> (0 < name_size \<and> suffix [NUL] raw \<and> NUL \<notin> set name) then Inl (ValueError ''newc name encoding'')
           else if \<not> utf8_ok name then Inl UnicodeError
           else if name \<in> set seen \<or> \<not> safe_name name then Inl (ValueError ''duplicate or unsafe newc name'')
           else let body = align4 (offset + 110 + name_size); after = align4 (body + size')
                in if int (length data) < after \<or> fields ! 12 \<noteq> 0 then Inl (ValueError ''newc bounds or checksum'')
                   else Inr (after, name, fields, py_slice data body (body + size'))))"

lemma py_slice_sublist: "sublist (py_slice xs a b) xs"
  by (simp add: py_slice_def slice_def) (meson sublist_drop sublist_take sublist_order.order_trans)

lemma read_entry_new:
  assumes "read_entry data offset seen = Inr (after, name, entry)"
  shows "sublist name data \<and> name \<notin> set seen"
proof -
  from assms obtain n where "name = butlast (py_slice data (offset + 110) (offset + 110 + n))" "name \<notin> set seen"
    by (auto simp: read_entry_def Let_def bind_result_eq_Inr split: if_splits)
  moreover have "sublist (butlast xs) ys" if "sublist xs ys" for xs ys :: bytes
    using that by (metis butlast_conv_take sublist_order.order_trans sublist_take)
  ultimately show ?thesis using py_slice_sublist by blast
qed

text \<open>Every round takes a new name out of the data, so the loop ends even where a header leads backwards.\<close>

function entries_from :: "bytes \<Rightarrow> int \<Rightarrow> members \<Rightarrow> members result" where
  "entries_from data offset found =
     (case read_entry data offset (map fst found) of
        Inl e \<Rightarrow> Inl e
      | Inr (after, name, entry) \<Rightarrow>
          if name = TRAILER
          then if list_ex (\<lambda>c. c \<noteq> NUL) (py_slice data after (int (length data))) then Inl (ValueError ''newc trailing data'') else Inr found
          else entries_from data after (found @ [(name, entry)]))"
  by pat_completeness auto
termination
proof (relation "measure (\<lambda>(data, _, found). card (set (sublists data) - set (map fst found)))", goal_cases)
  case (2 data offset found x2 after rest name entry)
  then have "read_entry data offset (map fst found) = Inr (after, name, entry)" by simp
  from read_entry_new [OF this] have "name \<in> set (sublists data) - set (map fst found)" by (simp add: set_sublists_eq)
  then have "set (sublists data) - insert name (set (map fst found)) \<subset> set (sublists data) - set (map fst found)" by blast
  then show ?case by (simp add: psubset_card_mono insert_commute)
qed simp

declare entries_from.simps [simp del]

definition newc_entries :: "bytes \<Rightarrow> members result" where
  "newc_entries data = entries_from data 0 []"

subsection \<open>Writing\<close>

definition zeros :: "nat \<Rightarrow> nat \<Rightarrow> bytes" where
  "zeros k n = replicate ((k - n mod k) mod k) NUL"

definition encode_member :: "bytes \<Rightarrow> string \<times> member \<Rightarrow> bytes" where
  "encode_member sofar m =
     (case m of (name, old, payload) \<Rightarrow>
        let fields = old[6 := int (length payload), 11 := int (length name) + 1];
            named = sofar @ ''070701'' @ concat (map hex8 fields) @ name @ [NUL];
            filled = named @ zeros 4 (length named) @ payload
        in filled @ zeros 4 (length filled))"

definition encode :: "members \<Rightarrow> bytes" where
  "encode members =
     (let out = foldl encode_member [] (sort_key fst members @ [(TRAILER, replicate 13 0, [])])
      in out @ zeros 512 (length out))"

subsection \<open>Editing\<close>

definition EPOCH :: int where
  "EPOCH = 1681862400"

definition is_reg :: "int \<Rightarrow> bool" where
  "is_reg mode \<longleftrightarrow> mode div 4096 mod 16 = 8"

definition is_dir :: "int \<Rightarrow> bool" where
  "is_dir mode \<longleftrightarrow> mode div 4096 mod 16 = 4"

definition set_member :: "string \<Rightarrow> member \<Rightarrow> members \<Rightarrow> members" where
  "set_member name m members =
     (if name \<in> set (map fst members) then map (\<lambda>(n, old). (n, if n = name then m else old)) members else members @ [(name, m)])"

definition new_member :: "members \<Rightarrow> string \<Rightarrow> bytes \<Rightarrow> int \<Rightarrow> member" where
  "new_member members name payload mode =
     (let inode = fold max (map (\<lambda>(_, fields, _). fields ! 0) members) (if members = [] then 0 else fst (snd (hd members)) ! 0) + 1
      in ([inode, mode, 0, 0, if is_dir mode then 2 else 1, EPOCH, int (length payload), 0, 0, 0, 0, int (length name) + 1, 0], payload))"

text \<open>
  The parents from the outermost on. A missing one is added by the same function, which then finds all of its own parents: they
  were visited before.
\<close>

definition parents :: "string \<Rightarrow> string list" where
  "parents name = map (\<lambda>n. join ''/'' (take n (posix_parts name))) [1..<length (posix_parts name)]"

fun add_parents :: "string list \<Rightarrow> members \<Rightarrow> members result" where
  "add_parents [] members = Inr members"
| "add_parents (parent # rest) members =
     (let more = (if parent \<in> set (map fst members) then members
                  else set_member parent (new_member members parent [] 16877) members)
      in if \<not> is_dir (fst (the (map_of more parent)) ! 1) then Inl (ValueError ''non-directory parent'') else add_parents rest more)"

definition add :: "members \<Rightarrow> string \<Rightarrow> bytes \<Rightarrow> int \<Rightarrow> members result" where
  "add members name payload mode =
     (if name \<in> set (map fst members) \<or> \<not> safe_name name then Inl (ValueError ''duplicate or unsafe newc name'')
      else bind_result (add_parents (parents name) members) (\<lambda>more.
        Inr (set_member name (new_member more name payload mode) more)))"

definition replace :: "members \<Rightarrow> string \<Rightarrow> bytes \<Rightarrow> members result" where
  "replace members name payload =
     (case map_of members name of
        None \<Rightarrow> Inl (KeyError name)
      | Some (fields, old) \<Rightarrow>
          if \<not> is_reg (fields ! 1) \<or> fields ! 4 \<noteq> 1 then Inl (ValueError ''replacement requires a single-link regular file'')
          else Inr (set_member name (fields[6 := int (length payload)], payload) members))"

subsection \<open>Looking for one member\<close>

text \<open>
  \<open>newc_member\<close>: one round gives the next offset or the answer. Nothing keeps the next offset behind the
  present one, so the loop need not end.
\<close>

definition newc_step :: "bytes \<Rightarrow> string \<Rightarrow> int \<Rightarrow> (int + bytes option) result" where
  "newc_step data wanted offset =
     (if py_slice data offset (offset + 6) \<notin> set [''070701'', ''070702''] then Inl (ValueError ''initramfs is not newc cpio'')
      else bind_result (map_result (\<lambda>i. header_number (py_slice data (offset + 6 + 8 * int i) (offset + 14 + 8 * int i))) [0..<13]) (\<lambda>fields.
        let mode = fields ! 1; size' = fields ! 6; name_end = offset + 110 + fields ! 11;
            name = utf8_replace (py_slice data (offset + 110) (name_end - 1)); start = align4 name_end
        in if name = TRAILER then Inr (Inr None)
           else if dropWhile (\<lambda>c. c = CHR ''.'' \<or> c = CHR ''/'') name = wanted
           then if is_reg mode then Inr (Inr (Some (py_slice data start (start + size'))))
                else Inl (ValueError (wanted @ '' is not a regular file''))
           else Inr (Inl (align4 (start + size')))))"

partial_function (option) newc_from :: "bytes \<Rightarrow> string \<Rightarrow> int \<Rightarrow> bytes option result option" where
  "newc_from data wanted offset =
     (if offset + 110 \<le> int (length data) then
        (case newc_step data wanted offset of
           Inl e \<Rightarrow> Some (Inl e)
         | Inr (Inr found) \<Rightarrow> Some (Inr found)
         | Inr (Inl after) \<Rightarrow> newc_from data wanted after)
      else Some (Inr None))"

declare newc_from.simps [code]

definition newc_member :: "bytes \<Rightarrow> string \<Rightarrow> bytes option result option" where
  "newc_member data wanted = newc_from data wanted 0"

end
