(* ===== verification/Newc_Roundtrip.thy ===== *)
theory Newc_Roundtrip
  imports Newc_Archive
begin

section \<open>Archives come back as they were written\<close>

text \<open>
  Encoding and reading are inverse on members that are well formed, reading gives such members unless a header has negative
  numbers, and adding and replacing keep them well formed: so an archive that is read, edited and written reads back as what
  was meant.
\<close>

subsection \<open>Slices and alignment\<close>

lemma py_bound_int [simp]: "py_bound (int n) xs = min n (length xs)"
  by (simp add: py_bound_def)

lemma py_slice_int: "py_slice xs (int a) (int b) = slice a b xs"
  by (auto simp: py_slice_def slice_def min_def)

lemma slice_middle: "slice (length pre) (length pre + length xs) (pre @ xs @ post) = xs"
  by (simp add: slice_def)

lemma mod_4_cases:
  fixes n :: nat
  assumes "\<And>q. n = 4 * q \<Longrightarrow> P" "\<And>q. n = 4 * q + 1 \<Longrightarrow> P" "\<And>q. n = 4 * q + 2 \<Longrightarrow> P" "\<And>q. n = 4 * q + 3 \<Longrightarrow> P"
  shows P
proof -
  have "n = 4 * (n div 4) + n mod 4" by simp
  moreover have "n mod 4 = 0 \<or> n mod 4 = 1 \<or> n mod 4 = 2 \<or> n mod 4 = 3" by linarith
  ultimately show P using assms by (metis add.right_neutral)
qed

lemma align4_zeros: "align4 (int n) = int (n + length (zeros 4 n))"
proof -
  have "(n + 3) div 4 * 4 = n + (4 - n mod 4) mod 4" by (rule mod_4_cases [of n]) (simp_all del: add_2_eq_Suc add_2_eq_Suc')
  then have "int ((n + 3) div 4 * 4) = int (n + (4 - n mod 4) mod 4)" by simp
  then show ?thesis by (simp add: align4_def zeros_def zdiv_int)
qed

lemma zeros_mod: "a mod 4 = b mod 4 \<Longrightarrow> zeros 4 a = zeros 4 b"
  by (simp add: zeros_def)

lemma zeros_aligned: "(n + length (zeros 4 n)) mod 4 = 0"
  unfolding zeros_def length_replicate by (rule mod_4_cases [of n]) (simp_all del: add_2_eq_Suc add_2_eq_Suc')

lemma slice_blocks:
  assumes "list_all (\<lambda>x. length (f x) = k) xs" and "i < length xs"
  shows "take k (drop (i * k) (concat (map f xs))) = f (xs ! i)"
  using assms
proof (induction xs arbitrary: i)
  case (Cons x xs)
  then show ?case by (cases i) (auto simp: add.commute)
qed simp

lemma length_blocks: "list_all (\<lambda>x. length (f x) = k) xs \<Longrightarrow> length (concat (map f xs)) = length xs * k"
  by (induction xs) auto

subsection \<open>One member\<close>

definition number_ok :: "int \<Rightarrow> bool" where
  "number_ok v \<longleftrightarrow> 0 \<le> v \<and> v < 2 ^ 32"

definition entry_ok :: "string \<times> member \<Rightarrow> bool" where
  "entry_ok m \<longleftrightarrow> (case m of (name, fields, payload) \<Rightarrow>
     length fields = 13 \<and> list_all number_ok fields \<and> fields ! 6 = int (length payload) \<and> fields ! 11 = int (length name) + 1
     \<and> fields ! 12 = 0 \<and> NUL \<notin> set name \<and> utf8_ok name \<and> safe_name name)"

definition members_ok :: "members \<Rightarrow> bool" where
  "members_ok ms \<longleftrightarrow> distinct (map fst ms) \<and> TRAILER \<notin> set (map fst ms) \<and> list_all entry_ok ms"

definition header_bytes :: "int list \<Rightarrow> bytes" where
  "header_bytes fields = ''070701'' @ concat (map hex8 fields)"

definition entry_bytes :: "string \<times> member \<Rightarrow> bytes" where
  "entry_bytes m = (case m of (name, fields, payload) \<Rightarrow>
     header_bytes fields @ (name @ [NUL]) @ zeros 4 (110 + length name + 1) @ payload @ zeros 4 (length payload))"

lemma hex8_blocks: "list_all number_ok fields \<Longrightarrow> list_all (\<lambda>v. length (hex8 v) = 8) fields"
  by (auto simp: list_all_iff number_ok_def intro: hex8_roundtrip(2))

lemma length_header: "list_all number_ok fields \<Longrightarrow> length fields = 13 \<Longrightarrow> length (header_bytes fields) = 110"
  using length_blocks [OF hex8_blocks] by (simp add: header_bytes_def)

lemma header_fields_bytes:
  assumes ok: "list_all number_ok fields" and n: "length fields = 13"
  shows "header_fields (header_bytes fields) = Inr fields"
proof -
  have "header_number (slice (6 + i * 8) (14 + i * 8) (header_bytes fields)) = Inr (fields ! i)" if "i < 13" for i
  proof -
    have "slice (6 + i * 8) (14 + i * 8) (header_bytes fields) = take 8 (drop (i * 8) (concat (map hex8 fields)))"
      using drop_drop [of "i * 8" 6 "header_bytes fields"] by (simp add: slice_def header_bytes_def add.commute)
    also have "\<dots> = hex8 (fields ! i)" using slice_blocks [OF hex8_blocks [OF ok]] that n by simp
    finally show ?thesis
      using ok n that hex8_roundtrip(1) [of "fields ! i"] by (simp add: header_number_def number_ok_def list_all_length option_result_def)
  qed
  then have "list_all2 (\<lambda>i y. header_number (slice (6 + i * 8) (14 + i * 8) (header_bytes fields)) = Inr y) [0..<13] fields"
    using n by (simp add: list_all2_conv_all_nth)
  then show ?thesis by (simp add: header_fields_def map_result_eq_Inr)
qed

lemma length_entry: "entry_ok (name, fields, payload) \<Longrightarrow>
    length (entry_bytes (name, fields, payload)) =
      110 + length name + 1 + length (zeros 4 (110 + length name + 1)) + length payload + length (zeros 4 (length payload))"
  by (simp add: entry_bytes_def entry_ok_def length_header)

lemma entry_aligned: "entry_ok m \<Longrightarrow> length (entry_bytes m) mod 4 = 0"
proof -
  obtain name fields payload where m: "m = (name, fields, payload)" by (cases m)
  assume "entry_ok m"
  with m length_entry have "length (entry_bytes m) = (110 + length name + 1 + length (zeros 4 (110 + length name + 1)))
      + (length payload + length (zeros 4 (length payload)))" by simp
  with zeros_aligned [of "110 + length name + 1"] zeros_aligned [of "length payload"] show ?thesis by presburger
qed

lemma read_entryI:
  assumes "py_slice data offset (offset + 110) = header" "length header = 110" "take 6 header = ''070701''" "header_fields header = Inr fields"
    and "py_slice data (offset + 110) (offset + 110 + fields ! 11) = name @ [NUL]" "0 < fields ! 11"
    and "NUL \<notin> set name" "utf8_ok name" "name \<notin> set seen" "safe_name name"
    and "align4 (offset + 110 + fields ! 11) = body" "align4 (body + fields ! 6) = after" "after \<le> int (length data)" "fields ! 12 = 0"
    and "py_slice data body (body + fields ! 6) = payload"
  shows "read_entry data offset seen = Inr (after, name, fields, payload)"
  using assms by (simp add: read_entry_def Let_def bind_result_def)

lemma read_entry_bytes:
  assumes ok: "entry_ok (name, fields, payload)" and new: "name \<notin> set seen" and aligned: "length pre mod 4 = 0"
    and data: "data = pre @ entry_bytes (name, fields, payload) @ post"
  shows "read_entry data (int (length pre)) seen = Inr (int (length pre + length (entry_bytes (name, fields, payload))), name, fields, payload)"
proof (rule read_entryI)
  note parts = ok [unfolded entry_ok_def, simplified]
  define z where "z = zeros 4 (110 + length name + 1)"
  define named where "named = pre @ header_bytes fields @ name @ [NUL] @ z"
  have head: "length (header_bytes fields) = 110" using parts by (simp add: length_header)
  have data1: "data = pre @ header_bytes fields @ (name @ [NUL]) @ z @ payload @ zeros 4 (length payload) @ post"
    and data2: "data = (pre @ header_bytes fields) @ (name @ [NUL]) @ z @ payload @ zeros 4 (length payload) @ post"
    and data3: "data = named @ payload @ zeros 4 (length payload) @ post"
    by (simp_all add: data entry_bytes_def z_def named_def)
  have long: "length named = length pre + 110 + length name + 1 + length z" using head by (simp add: named_def)
  show "py_slice data (int (length pre)) (int (length pre) + 110) = header_bytes fields"
    using py_slice_int [of data "length pre" "length pre + 110"] slice_middle [of pre "header_bytes fields"] head data1 by simp
  show "length (header_bytes fields) = 110" by (rule head)
  show "take 6 (header_bytes fields) = ''070701''" by (simp add: header_bytes_def)
  show "header_fields (header_bytes fields) = Inr fields" using parts by (simp add: header_fields_bytes)
  have size': "fields ! 11 = int (length name) + 1" "fields ! 6 = int (length payload)" using parts by simp_all
  have ends: "int (length pre) + 110 + fields ! 11 = int (length pre + 110 + (length name + 1))" "int (length pre) + 110 = int (length pre + 110)"
    by (simp_all add: size')
  show "py_slice data (int (length pre) + 110) (int (length pre) + 110 + fields ! 11) = name @ [NUL]"
  proof (subst ends(1), subst ends(2), subst py_slice_int)
    show "slice (length pre + 110) (length pre + 110 + (length name + 1)) data = name @ [NUL]"
      unfolding data2 using slice_middle [of "pre @ header_bytes fields" "name @ [NUL]" "z @ payload @ zeros 4 (length payload) @ post"] head
      by simp
  qed
  show "0 < fields ! 11" by (simp add: size')
  show "NUL \<notin> set name" "utf8_ok name" "safe_name name" "fields ! 12 = 0" using parts by simp_all
  show "name \<notin> set seen" by (rule new)
  have "zeros 4 (length pre + 110 + (length name + 1)) = z"
    unfolding z_def by (rule zeros_mod) (use aligned in presburger)
  then show "align4 (int (length pre) + 110 + fields ! 11) = int (length named)"
    by (subst ends(1), subst align4_zeros) (simp add: long)
  have "length named mod 4 = 0"
    using zeros_aligned [of "110 + length name + 1"] aligned unfolding long z_def by presburger
  then have "zeros 4 (length named + length payload) = zeros 4 (length payload)"
    by (intro zeros_mod) presburger
  moreover have end1: "int (length named) + fields ! 6 = int (length named + length payload)" by (simp add: size')
  ultimately show "align4 (int (length named) + fields ! 6) = int (length pre + length (entry_bytes (name, fields, payload)))"
    unfolding end1 align4_zeros by (simp add: length_entry [OF ok] long z_def)
  show "int (length pre + length (entry_bytes (name, fields, payload))) \<le> int (length data)" by (simp add: data)
  show "py_slice data (int (length named)) (int (length named) + fields ! 6) = payload"
    unfolding end1 py_slice_int data3 by (rule slice_middle)
qed

subsection \<open>The archive\<close>

lemma encode_member_local:
  assumes "length sofar mod 4 = 0" and ok: "entry_ok (name, old[6 := int (length payload), 11 := int (length name) + 1], payload)"
  shows "encode_member sofar (name, old, payload) = sofar @ entry_bytes (name, old[6 := int (length payload), 11 := int (length name) + 1], payload)"
proof -
  let ?fields = "old[6 := int (length payload), 11 := int (length name) + 1]"
  define named where "named = sofar @ ''070701'' @ concat (map hex8 ?fields) @ name @ [NUL]"
  have "length (header_bytes ?fields) = 110" using ok by (simp add: entry_ok_def length_header)
  then have long: "length named = length sofar + (110 + length name + 1)" by (simp add: named_def header_bytes_def)
  then have one: "zeros 4 (length named) = zeros 4 (110 + length name + 1)" using assms(1) by (intro zeros_mod) presburger
  have "(length named + length (zeros 4 (length named))) mod 4 = 0" by (rule zeros_aligned)
  then have two: "zeros 4 (length (named @ zeros 4 (length named) @ payload)) = zeros 4 (length payload)"
    by (intro zeros_mod) (simp only: length_append, presburger)
  show ?thesis
    unfolding encode_member_def prod.case Let_def named_def [symmetric] two unfolding one
    by (simp add: entry_bytes_def header_bytes_def named_def)
qed

lemma entry_ok_fields: "entry_ok (name, fields, payload) \<Longrightarrow> fields[6 := int (length payload), 11 := int (length name) + 1] = fields"
  by (auto simp: entry_ok_def intro!: nth_equalityI simp: nth_list_update)

lemma encode_members:
  "list_all entry_ok ms \<Longrightarrow> length sofar mod 4 = 0 \<Longrightarrow> foldl encode_member sofar ms = sofar @ concat (map entry_bytes ms)"
proof (induction ms arbitrary: sofar)
  case (Cons m ms)
  obtain name fields payload where m: "m = (name, fields, payload)" by (cases m)
  from Cons.prems m have ok: "entry_ok (name, fields, payload)" by simp
  have step: "encode_member sofar m = sofar @ entry_bytes m"
    using encode_member_local [of sofar name fields payload] Cons.prems ok by (simp add: m entry_ok_fields)
  have "length (sofar @ entry_bytes m) mod 4 = 0" using Cons.prems entry_aligned [of m] by (simp add: mod_add_eq [symmetric])
  from Cons.IH [OF _ this] Cons.prems show ?case by (simp add: step)
qed simp

definition trailer :: "string \<times> member" where
  "trailer = (TRAILER, (replicate 13 0)[11 := 11], [])"

lemma trailer_ok: "entry_ok trailer"
proof -
  have "utf8_ok TRAILER" "safe_name TRAILER" by code_simp+
  then show ?thesis by (auto simp: trailer_def entry_ok_def TRAILER_def number_ok_def list_all_length nth_list_update)
qed

lemma entries_from_bytes:
  "data = pre @ concat (map entry_bytes ms) @ entry_bytes trailer @ post \<Longrightarrow> list_all (\<lambda>c. c = NUL) post
     \<Longrightarrow> list_all entry_ok ms \<Longrightarrow> TRAILER \<notin> set (map fst ms) \<Longrightarrow> TRAILER \<notin> set (map fst found)
     \<Longrightarrow> distinct (map fst (found @ ms)) \<Longrightarrow> length pre mod 4 = 0
     \<Longrightarrow> entries_from data (int (length pre)) found = Inr (found @ ms)"
proof (induction ms arbitrary: pre found)
  case Nil
  have step: "read_entry data (int (length pre)) (map fst found) = Inr (int (length pre + length (entry_bytes trailer)), trailer)"
    using read_entry_bytes [of TRAILER "(replicate 13 0)[11 := 11]" "[]" "map fst found" pre data post] trailer_ok Nil
    by (simp add: trailer_def)
  have "py_slice data (int (length pre + length (entry_bytes trailer))) (int (length data)) = post"
    unfolding py_slice_int using Nil(1) by (simp add: slice_def)
  with step Nil(2) show ?case
    by (subst entries_from.simps) (auto simp: trailer_def list_ex_iff list_all_iff)
next
  case (Cons m ms)
  obtain name fields payload where m: "m = (name, fields, payload)" by (cases m)
  let ?pre = "pre @ entry_bytes m"
  from Cons.prems have ok: "entry_ok m" and new: "name \<notin> set (map fst found)" "name \<noteq> TRAILER" by (auto simp: m)
  have step: "read_entry data (int (length pre)) (map fst found) = Inr (int (length ?pre), m)"
    using read_entry_bytes [of name fields payload "map fst found" pre data "concat (map entry_bytes ms) @ entry_bytes trailer @ post"]
      ok new Cons.prems by (simp add: m)
  have "length ?pre mod 4 = 0" using Cons.prems entry_aligned [OF ok] by (simp add: mod_add_eq [symmetric])
  moreover have "data = ?pre @ concat (map entry_bytes ms) @ entry_bytes trailer @ post" using Cons.prems by simp
  ultimately have "entries_from data (int (length ?pre)) (found @ [m]) = Inr ((found @ [m]) @ ms)"
    using Cons.prems by (intro Cons.IH) (auto simp: m)
  with step new show ?case by (subst entries_from.simps) (simp add: m)
qed

lemma encode_bytes:
  assumes "members_ok ms"
  shows "\<exists>post. list_all (\<lambda>c. c = NUL) post
    \<and> encode ms = concat (map entry_bytes (sort_key fst ms)) @ entry_bytes trailer @ post"
proof -
  let ?sorted = "sort_key fst ms"
  let ?out = "concat (map entry_bytes ?sorted) @ entry_bytes trailer"
  from assms have ok: "list_all entry_ok ?sorted" by (auto simp: members_ok_def list_all_iff)
  have "length (concat (map entry_bytes ms')) mod 4 = 0" if "list_all entry_ok ms'" for ms'
    using that by (induction ms') (auto simp: mod_add_eq [symmetric] entry_aligned)
  moreover have "(replicate 13 0)[6 := int (length []), 11 := int (length TRAILER) + 1] = (replicate 13 0)[11 := 11 :: int]"
    by (simp add: TRAILER_def numeral_eq_Suc)
  ultimately have "encode_member (concat (map entry_bytes ?sorted)) (TRAILER, replicate 13 0, []) = ?out"
    using encode_member_local [of "concat (map entry_bytes ?sorted)" TRAILER "replicate 13 0" "[]"] ok trailer_ok by (simp add: trailer_def)
  then have "encode ms = ?out @ zeros 512 (length ?out)"
    using encode_members [OF ok, of "[]"] by (simp add: encode_def Let_def)
  then show ?thesis by (intro exI [of _ "zeros 512 (length ?out)"]) (simp add: zeros_def list_all_iff)
qed

lemma members_ok_sorted:
  "members_ok ms \<Longrightarrow> list_all entry_ok (sort_key fst ms) \<and> distinct (map fst (sort_key fst ms)) \<and> TRAILER \<notin> set (map fst (sort_key fst ms))"
  by (auto simp: members_ok_def list_all_iff distinct_map)

lemma entries_encode:
  assumes "members_ok ms"
  shows "newc_entries (encode ms) = Inr (sort_key fst ms)"
proof -
  from encode_bytes [OF assms] obtain post where
    "list_all (\<lambda>c. c = NUL) post" "encode ms = [] @ concat (map entry_bytes (sort_key fst ms)) @ entry_bytes trailer @ post" by auto
  with entries_from_bytes [of "encode ms" "[]" "sort_key fst ms" post "[]"] members_ok_sorted [OF assms] show ?thesis
    by (simp add: newc_entries_def)
qed

subsection \<open>The other reader\<close>

lemma utf8_replace_ok: "utf8_ok s \<Longrightarrow> utf8_replace s = s"
proof (induction s rule: utf8_ok.induct)
  case (2 c s)
  then obtain k low high where lead: "utf8_lead c = Some (k, low, high)" by (auto split: option.splits)
  with 2 have k: "k \<le> length s" "list_all continuation (take k s)" "k = 0 \<or> low \<le> code (hd s) \<and> code (hd s) \<le> high"
    and rest: "utf8_replace (drop k s) = drop k s" by auto
  let ?run = "if s = [] \<or> code (hd s) < low \<or> high < code (hd s) then [] else takeWhile continuation (take k s)"
  have "takeWhile continuation (take k s) = take k s" using k(2) by (simp add: list_all_iff)
  with k have "?run = take k s" by (cases "k = 0") auto
  with lead rest k(1) show ?case by (simp add: Let_def)
qed simp

definition same_member :: "string \<Rightarrow> string \<Rightarrow> bool" where
  "same_member wanted name \<longleftrightarrow> dropWhile (\<lambda>c. c = CHR ''.'' \<or> c = CHR ''/'') name = wanted"

definition newc_answer :: "string \<Rightarrow> members \<Rightarrow> bytes option result" where
  "newc_answer wanted ms =
     (case find (\<lambda>(name, _). same_member wanted name) ms of
        None \<Rightarrow> Inr None
      | Some (_, fields, payload) \<Rightarrow> if is_reg (fields ! 1) then Inr (Some payload) else Inl (ValueError (wanted @ '' is not a regular file'')))"

lemma map_result_cong: "(\<And>x. x \<in> set xs \<Longrightarrow> f x = g x) \<Longrightarrow> map_result f xs = map_result g xs"
  by (induction xs) simp_all

lemma newc_step_bytes:
  assumes ok: "entry_ok (name, fields, payload)" and aligned: "length pre mod 4 = 0"
    and data: "data = pre @ entry_bytes (name, fields, payload) @ post"
  shows "newc_step data wanted (int (length pre)) =
     (if name = TRAILER then Inr (Inr None)
      else if same_member wanted name
      then if is_reg (fields ! 1) then Inr (Inr (Some payload)) else Inl (ValueError (wanted @ '' is not a regular file''))
      else Inr (Inl (int (length pre + length (entry_bytes (name, fields, payload))))))"
proof -
  note parts = ok [unfolded entry_ok_def, simplified]
  define seen :: "string list" where "seen = []"
  have "read_entry data (int (length pre)) seen = Inr (int (length pre + length (entry_bytes (name, fields, payload))), name, fields, payload)"
    using read_entry_bytes [OF ok _ aligned data] by (simp add: seen_def)
  then have entry: "py_slice data (int (length pre) + 110) (int (length pre) + 110 + fields ! 11) = name @ [NUL]"
    and after: "align4 (align4 (int (length pre) + 110 + fields ! 11) + fields ! 6) = int (length pre + length (entry_bytes (name, fields, payload)))"
    and load: "py_slice data (align4 (int (length pre) + 110 + fields ! 11)) (align4 (int (length pre) + 110 + fields ! 11) + fields ! 6) = payload"
    by (auto simp: read_entry_def Let_def bind_result_eq_Inr suffix_def split: if_splits)
  have head: "length (header_bytes fields) = 110" using parts by (simp add: length_header)
  have data1: "data = pre @ header_bytes fields @ (name @ [NUL]) @ zeros 4 (110 + length name + 1) @ payload @ zeros 4 (length payload) @ post"
    by (simp add: data entry_bytes_def)
  have inner: "slice (length pre + a) (length pre + b) data = slice a b (header_bytes fields)" if "b \<le> 110" for a b
    using that head by (simp add: data1 slice_def)
  have magic: "py_slice data (int (length pre)) (int (length pre) + 6) = ''070701''"
    using py_slice_int [of data "length pre" "length pre + 6"] inner [of 6 0] by (simp add: slice_def header_bytes_def)
  have "header_number (py_slice data (int (length pre) + 6 + 8 * int i) (int (length pre) + 14 + 8 * int i))
      = header_number (slice (6 + i * 8) (14 + i * 8) (header_bytes fields))" if "i < 13" for i
  proof -
    have "int (length pre) + 6 + 8 * int i = int (length pre + (6 + i * 8))" "int (length pre) + 14 + 8 * int i = int (length pre + (14 + i * 8))" by simp_all
    then show ?thesis using inner [of "14 + i * 8" "6 + i * 8"] that by (simp only: py_slice_int)
  qed
  then have "map_result (\<lambda>i. header_number (py_slice data (int (length pre) + 6 + 8 * int i) (int (length pre) + 14 + 8 * int i))) [0..<13]
      = header_fields (header_bytes fields)"
    unfolding header_fields_def by (intro map_result_cong) simp
  also have "\<dots> = Inr fields" using parts by (simp add: header_fields_bytes)
  finally have numbers: "map_result (\<lambda>i. header_number (py_slice data (int (length pre) + 6 + 8 * int i) (int (length pre) + 14 + 8 * int i))) [0..<13]
      = Inr fields" .
  have name: "utf8_replace (py_slice data (int (length pre) + 110) (int (length pre) + 110 + fields ! 11 - 1)) = name"
  proof -
    have "int (length pre) + 110 = int (length pre + 110)" "int (length pre) + 110 + fields ! 11 - 1 = int (length pre + 110 + length name)"
      using parts by simp_all
    then have "py_slice data (int (length pre) + 110) (int (length pre) + 110 + fields ! 11 - 1) = slice (length pre + 110) (length pre + 110 + length name) data"
      by (simp only: py_slice_int)
    also have "\<dots> = name"
      using slice_middle [of "pre @ header_bytes fields" name "[NUL] @ zeros 4 (110 + length name + 1) @ payload @ zeros 4 (length payload) @ post"] head
      by (simp add: data1)
    finally show ?thesis using parts by (simp add: utf8_replace_ok)
  qed
  show ?thesis
    unfolding newc_step_def magic numbers bind_result_Inr Let_def name after load same_member_def by simp
qed

lemma newc_from_bytes:
  "data = pre @ concat (map entry_bytes ms) @ entry_bytes trailer @ post \<Longrightarrow> list_all entry_ok ms \<Longrightarrow> TRAILER \<notin> set (map fst ms)
     \<Longrightarrow> length pre mod 4 = 0 \<Longrightarrow> newc_from data wanted (int (length pre)) = Some (newc_answer wanted ms)"
proof (induction ms arbitrary: pre)
  case Nil
  have long: "110 \<le> length (entry_bytes trailer)" using length_entry trailer_ok by (simp add: trailer_def)
  have "newc_step data wanted (int (length pre)) = Inr (Inr None)"
    using newc_step_bytes [of TRAILER "(replicate 13 0)[11 := 11]" "[]" pre data post] trailer_ok Nil by (simp add: trailer_def)
  with Nil long show ?case by (subst newc_from.simps) (simp add: newc_answer_def)
next
  case (Cons m ms)
  obtain name fields payload where m: "m = (name, fields, payload)" by (cases m)
  let ?pre = "pre @ entry_bytes m"
  from Cons.prems have ok: "entry_ok m" and name: "name \<noteq> TRAILER" by (auto simp: m)
  have long: "110 \<le> length (entry_bytes m)" using length_entry ok by (simp add: m)
  have step: "newc_step data wanted (int (length pre)) =
     (if same_member wanted name
      then if is_reg (fields ! 1) then Inr (Inr (Some payload)) else Inl (ValueError (wanted @ '' is not a regular file''))
      else Inr (Inl (int (length ?pre))))"
    using newc_step_bytes [of name fields payload pre data "concat (map entry_bytes ms) @ entry_bytes trailer @ post"] ok name Cons.prems
    by (simp add: m)
  have "length ?pre mod 4 = 0" using Cons.prems entry_aligned [OF ok] by (simp add: mod_add_eq [symmetric])
  moreover have "data = ?pre @ concat (map entry_bytes ms) @ entry_bytes trailer @ post" using Cons.prems by simp
  ultimately have "newc_from data wanted (int (length ?pre)) = Some (newc_answer wanted ms)"
    using Cons.prems by (intro Cons.IH) auto
  with step Cons.prems long show ?case by (subst newc_from.simps) (simp add: newc_answer_def m)
qed


lemma newc_member_encode:
  assumes "members_ok ms"
  shows "newc_member (encode ms) wanted = Some (newc_answer wanted (sort_key fst ms))"
proof -
  from encode_bytes [OF assms] obtain post where
    "encode ms = [] @ concat (map entry_bytes (sort_key fst ms)) @ entry_bytes trailer @ post" by auto
  with newc_from_bytes [of "encode ms" "[]" "sort_key fst ms" post] members_ok_sorted [OF assms] show ?thesis
    by (simp add: newc_member_def)
qed

subsection \<open>What is read is well formed\<close>

text \<open>Everything of well-formedness but the encoding of the names and the width of the numbers.\<close>

definition member_shape :: "string \<times> member \<Rightarrow> bool" where
  "member_shape m \<longleftrightarrow> (case m of (name, fields, payload) \<Rightarrow>
     length fields = 13 \<and> fields ! 6 = int (length payload) \<and> fields ! 11 = int (length name) + 1 \<and> fields ! 12 = 0 \<and> safe_name name)"

definition shaped :: "members \<Rightarrow> bool" where
  "shaped ms \<longleftrightarrow> distinct (map fst ms) \<and> list_all member_shape ms"

definition writable :: "members \<Rightarrow> bool" where
  "writable ms \<longleftrightarrow> list_all (\<lambda>(name, fields, _). name \<noteq> TRAILER \<and> NUL \<notin> set name \<and> utf8_ok name \<and> list_all number_ok fields) ms"

lemma shaped_writable_ok: "shaped ms \<Longrightarrow> writable ms \<Longrightarrow> members_ok ms"
  by (fastforce simp: shaped_def writable_def members_ok_def list_all_iff entry_ok_def member_shape_def)

lemma header_fields_facts:
  assumes "header_fields header = Inr fields"
  shows "length fields = 13" and "list_all (\<lambda>v. v < 2 ^ 32) fields"
proof -
  from assms have all: "list_all2 (\<lambda>i y. header_number (slice (6 + i * 8) (14 + i * 8) header) = Inr y) [0..<13] fields"
    by (simp add: header_fields_def map_result_eq_Inr)
  from list_all2_lengthD [OF all] show "length fields = 13" by simp
  have "v < 2 ^ 32" if "header_number raw = Inr v" "length raw \<le> 8" for raw v
    using that read_int16_bound [of "ascii_strip raw" v] length_ascii_strip [of raw]
    by (auto simp: header_number_def option_result_eq_Inr)
  then show "list_all (\<lambda>v. v < 2 ^ 32) fields" using all by (auto simp: list_all_length list_all2_conv_all_nth)
qed

lemma align4_ge: "x \<le> align4 x"
  unfolding align4_def by linarith

lemma length_py_slice: "0 \<le> a \<Longrightarrow> a \<le> b \<Longrightarrow> b \<le> int (length xs) \<Longrightarrow> length (py_slice xs a b) = nat (b - a)"
  by (simp add: py_slice_def py_bound_def nat_diff_distrib)

lemma read_entry_shape:
  assumes run: "read_entry data offset seen = Inr (after, name, fields, payload)" and start: "0 \<le> offset" and signs: "list_all (\<lambda>v. 0 \<le> v) fields"
  shows "member_shape (name, fields, payload) \<and> NUL \<notin> set name \<and> utf8_ok name \<and> list_all number_ok fields \<and> 0 \<le> after"
proof -
  define body where "body = align4 (offset + 110 + fields ! 11)"
  define raw where "raw = py_slice data (offset + 110) (offset + 110 + fields ! 11)"
  from run obtain header where header: "header_fields header = Inr fields"
    and raw': "suffix [NUL] raw" "name = butlast raw" "NUL \<notin> set name" "utf8_ok name" "safe_name name"
    and after: "after = align4 (body + fields ! 6)" "after \<le> int (length data)" "fields ! 12 = 0" "payload = py_slice data body (body + fields ! 6)"
    by (auto simp: read_entry_def Let_def bind_result_eq_Inr body_def raw_def split: if_splits)
  note facts = header_fields_facts [OF header]
  have sizes: "0 \<le> fields ! 6" "0 \<le> fields ! 11" using signs facts(1) by (auto simp: list_all_length)
  have body: "offset + 110 + fields ! 11 \<le> body" unfolding body_def by (rule align4_ge)
  have fits: "body + fields ! 6 \<le> int (length data)" using align4_ge [of "body + fields ! 6"] after by simp
  have "length raw = nat (fields ! 11)"
    unfolding raw_def using length_py_slice [of "offset + 110" "offset + 110 + fields ! 11" data] start sizes body fits by simp
  moreover have "raw = name @ [NUL]" using raw'(1,2) by (auto simp: suffix_def)
  ultimately have "fields ! 11 = int (length name) + 1" using sizes by simp
  moreover have "fields ! 6 = int (length payload)"
    unfolding after(4) using length_py_slice [of body "body + fields ! 6" data] start sizes body fits by simp
  moreover have "0 \<le> after" using align4_ge [of "body + fields ! 6"] after(1) start sizes body by simp
  moreover have "list_all number_ok fields" using signs facts(2) by (auto simp: list_all_length number_ok_def)
  ultimately show ?thesis using raw' after facts(1) by (simp add: member_shape_def)
qed

definition nonnegative_headers :: "members \<Rightarrow> bool" where
  "nonnegative_headers ms \<longleftrightarrow> list_all (\<lambda>(_, fields, _). list_all (\<lambda>v. 0 \<le> v) fields) ms"

lemma entries_from_ok:
  "entries_from data offset found = Inr ms \<Longrightarrow> nonnegative_headers ms \<Longrightarrow> 0 \<le> offset \<Longrightarrow> members_ok found \<Longrightarrow> members_ok ms \<and> prefix found ms"
proof (induction data offset found rule: entries_from.induct)
  case (1 data offset found)
  from "1.prems"(1) obtain after name fields payload where entry: "read_entry data offset (map fst found) = Inr (after, name, fields, payload)"
    by (subst (asm) entries_from.simps) (auto split: sum.splits)
  show ?case
  proof (cases "name = TRAILER")
    case True
    with "1.prems" entry show ?thesis by (subst (asm) entries_from.simps) (auto split: if_splits)
  next
    case False
    let ?found = "found @ [(name, fields, payload)]"
    from "1.prems"(1) entry False have more: "entries_from data after ?found = Inr ms"
      by (subst (asm) entries_from.simps) simp
    have grow: "prefix found ms" if "entries_from data offset found = Inr ms" for offset found
      using that
    proof (induction data offset found rule: entries_from.induct)
      case (1 data offset found)
      from "1.prems" show ?case
        by (subst (asm) entries_from.simps) (force split: sum.splits if_splits dest: "1.IH" append_prefixD)
    qed
    from grow [OF more] have "(name, fields, payload) \<in> set ms" by (auto simp: prefix_def)
    with "1.prems"(2) have "list_all (\<lambda>v. 0 \<le> v) fields" by (fastforce simp: nonnegative_headers_def list_all_iff)
    note shape = read_entry_shape [OF entry "1.prems"(3) this]
    have "members_ok ?found"
      using "1.prems"(4) shape read_entry_new [OF entry] False
      by (auto simp: members_ok_def entry_ok_def member_shape_def)
    with "1.IH" [OF entry refl refl False more "1.prems"(2)] shape grow [OF "1.prems"(1)] show ?thesis by blast
  qed
qed

lemma entries_ok: "newc_entries data = Inr ms \<Longrightarrow> nonnegative_headers ms \<Longrightarrow> members_ok ms"
  using entries_from_ok [of data 0 "[]" ms] by (simp add: newc_entries_def members_ok_def)

subsection \<open>Editing keeps the shape\<close>

lemma set_member_shaped: "shaped ms \<Longrightarrow> member_shape (name, m) \<Longrightarrow> shaped (set_member name m ms)"
proof -
  assume ms: "shaped ms" and m: "member_shape (name, m)"
  have "map fst (map (\<lambda>(n, old). (n, if n = name then m else old)) ms) = map fst ms" by (induction ms) auto
  with ms m show ?thesis
    unfolding shaped_def set_member_def by (auto simp: list_all_iff simp del: map_map)
qed

lemma new_member_shape: "safe_name name \<Longrightarrow> member_shape (name, new_member ms name payload mode)"
  by (simp add: member_shape_def new_member_def Let_def numeral_eq_Suc)

lemma parents_safe:
  assumes "parent \<in> set (parents name)" and safe: "safe_name name"
  shows "safe_name parent"
proof -
  let ?parts = "posix_parts name"
  from assms(1) obtain n where n: "1 \<le> n" "n < length ?parts" "parent = join ''/'' (take n ?parts)" by (auto simp: parents_def)
  have words: "CHR ''/'' \<notin> set w" "w \<noteq> []" "w \<noteq> ''..''" if "w \<in> set (take n ?parts)" for w
    using that in_set_takeD [OF that] split_on_words [of w "CHR ''/''" name] safe by (auto simp: posix_parts_def safe_name_def)
  have "take n ?parts \<noteq> []" using n by auto
  then have split: "split_on (CHR ''/'') parent = take n ?parts"
    using words(1) n(3) by (simp add: split_on_join)
  moreover have "\<not> prefix ''/'' parent"
  proof
    assume "prefix ''/'' parent"
    then obtain rest where "parent = [] @ CHR ''/'' # rest" by (auto simp: prefix_def)
    then have "split_on (CHR ''/'') parent = [] # split_on (CHR ''/'') rest" using split_on_append [of "CHR ''/''" "[]" rest] by simp
    with split words(2) show False by (metis list.set_intros(1))
  qed
  ultimately show ?thesis using words(3) by (auto simp: safe_name_def)
qed

lemma add_parents_shaped:
  "add_parents ps ms = Inr ms' \<Longrightarrow> list_all safe_name ps \<Longrightarrow> shaped ms \<Longrightarrow> shaped ms'"
proof (induction ps arbitrary: ms)
  case (Cons p ps)
  then show ?case
    using set_member_shaped [of ms p] new_member_shape [of p ms "[]" 16877]
    by (auto simp: Let_def split: if_splits)
qed simp

lemma add_shaped: "add ms name payload mode = Inr ms' \<Longrightarrow> shaped ms \<Longrightarrow> shaped ms'"
  using add_parents_shaped [of "parents name"] parents_safe [of _ name]
  by (auto simp: add_def bind_result_eq_Inr list_all_iff split: if_splits intro!: set_member_shaped new_member_shape)

lemma replace_shaped:
  assumes run: "replace ms name payload = Inr ms'" and ms: "shaped ms"
  shows "shaped ms'"
proof -
  from run obtain fields old where "map_of ms name = Some (fields, old)" and ms': "ms' = set_member name (fields[6 := int (length payload)], payload) ms"
    by (auto simp: replace_def split: option.splits if_splits)
  then have "member_shape (name, fields, old)" using ms by (auto simp: shaped_def list_all_iff dest!: map_of_SomeD)
  then have "member_shape (name, fields[6 := int (length payload)], payload)" by (simp add: member_shape_def nth_list_update)
  with ms ms' show ?thesis by (simp add: set_member_shaped)
qed

datatype edit = Add string bytes int | Replace string bytes

definition apply_edit :: "edit \<Rightarrow> members \<Rightarrow> members result" where
  "apply_edit e ms = (case e of Add name payload mode \<Rightarrow> add ms name payload mode | Replace name payload \<Rightarrow> replace ms name payload)"

lemma edits_shaped: "fold_result apply_edit edits ms = Inr ms' \<Longrightarrow> shaped ms \<Longrightarrow> shaped ms'"
proof (induction edits arbitrary: ms)
  case (Cons e edits)
  then show ?case
    by (auto simp: bind_result_eq_Inr apply_edit_def split: edit.splits dest: add_shaped replace_shaped)
qed simp

lemma ok_shaped: "members_ok ms \<Longrightarrow> shaped ms"
  by (auto simp: members_ok_def shaped_def list_all_iff entry_ok_def member_shape_def)

text \<open>
  C24. Read an archive whose headers have no negative number, add and replace members in any order, and write the result: when the
  numbers still fit their eight digits and the names are texts without a zero byte, reading it gives exactly the edited
  members, in the order of their names, so the comparison at the end of \<open>compose\<close> cannot fail; and the reader of
  \<^verbatim>\<open>install-default-kernel.py\<close> returns, finding in it the first member of the wanted name.
\<close>

theorem edited_archive_roundtrip:
  assumes "newc_entries data = Inr ms" and "nonnegative_headers ms" and "fold_result apply_edit edits ms = Inr ms'" and "writable ms'"
  shows "newc_entries (encode ms') = Inr (sort_key fst ms') \<and> newc_member (encode ms') wanted = Some (newc_answer wanted (sort_key fst ms'))"
proof -
  have "members_ok ms'"
    using edits_shaped [OF assms(3) ok_shaped [OF entries_ok [OF assms(1,2)]]] assms(4) by (rule shaped_writable_ok)
  then show ?thesis using entries_encode newc_member_encode by blast
qed

text \<open>An empty archive to which a file in a new directory is added and then replaced.\<close>

definition sample_edits :: "edit list" where
  "sample_edits = [Add ''d/f'' ''xy'' 33188, Replace ''d/f'' ''z'']"

definition sample_members :: members where
  "sample_members =
     [(''d'', [1, 16877, 0, 0, 2, 1681862400, 0, 0, 0, 0, 0, 2, 0], []), (''d/f'', [2, 33188, 0, 0, 1, 1681862400, 1, 0, 0, 0, 0, 4, 0], ''z'')]"

theorem edited_archive_roundtrip_witness:
  "newc_entries (encode []) = Inr [] \<and> fold_result apply_edit sample_edits [] = Inr sample_members
   \<and> newc_entries (encode sample_members) = Inr sample_members \<and> newc_member (encode sample_members) ''d/f'' = Some (Inr (Some ''z''))"
proof -
  have empty: "newc_entries (encode []) = Inr []" using entries_encode [of "[]"] by (simp add: members_ok_def)
  have edits: "fold_result apply_edit sample_edits [] = Inr sample_members" by code_simp
  have "writable sample_members" by code_simp
  moreover have "sort_key fst sample_members = sample_members" "newc_answer ''d/f'' sample_members = Inr (Some ''z'')" by code_simp+
  ultimately show ?thesis
    using edited_archive_roundtrip [OF empty _ edits, of "''d/f''"] empty edits by (simp add: nonnegative_headers_def)
qed

subsection \<open>A header that leads back\<close>

definition looping_archive :: bytes where
  "looping_archive =
     ''070701'' @ concat (replicate 6 ''00000000'') @ ''-0000070'' @ concat (replicate 4 ''00000000'') @ ''00000002'' @ ''00000000'' @ [CHR ''a'', NUL]"

lemma looping_step: "newc_step looping_archive ''b'' 0 = Inr (Inl 0)" "length looping_archive = 112"
  by code_simp+

lemma looping_never: "newc_from data wanted offset = Some r \<Longrightarrow> \<not> (data = looping_archive \<and> wanted = ''b'' \<and> offset = 0)"
  by (erule newc_from.raw_induct [where P = "\<lambda>data wanted offset r. \<not> (data = looping_archive \<and> wanted = ''b'' \<and> offset = 0)", rotated])
    (fastforce simp: looping_step split: if_splits)

text \<open>
  C40. A size with a minus sign is a number to \<open>int\<close>, and leads the reader of \<^verbatim>\<open>install-default-kernel.py\<close> back to the header it
  came from: it never returns. The builder's reader meets the same name again and refuses the archive.
\<close>

theorem newc_member_hangs:
  "newc_member looping_archive ''b'' = None \<and> newc_entries looping_archive = Inl (ValueError ''duplicate or unsafe newc name'')"
proof
  show "newc_member looping_archive ''b'' = None"
    using looping_never by (cases "newc_from looping_archive ''b'' 0") (auto simp: newc_member_def)
  show "newc_entries looping_archive = Inl (ValueError ''duplicate or unsafe newc name'')" by code_simp
qed

end
