(* ===== verification/Boot_Selector.thy ===== *)
theory Boot_Selector
  imports Manifest_Agreement Py_Unicode
begin

section \<open>The selector of the boot loader\<close>

text \<open>
  Models \<^verbatim>\<open>scripts/host/build-persistent-wifi-selector.py\<close> (\<open>manifest\<close>, \<open>generate\<close>), the trial descriptor parser of
  \<^verbatim>\<open>scripts/device/build-native-wifi-boot-initramfs.py\<close>, and what \<^verbatim>\<open>scripts/host/install-default-kernel.py\<close> reads out of a
  descriptor, a selector and the phone's output. The digest is the argument \<open>H\<close>.
\<close>

subsection \<open>Trial descriptors\<close>

definition DESCRIPTOR_FORMAT :: string where
  "DESCRIPTOR_FORMAT = ''format=rog5-persistent-wifi-health-v1''"

record trial_descriptor =
  td_trial_id :: string
  td_primary_bundle :: string

definition refuse :: "string \<Rightarrow> 'a result" where
  "refuse why = Inl (ValueError why)"

fun descriptor_lines :: "string list \<Rightarrow> string list \<Rightarrow> (string \<times> string) list result" where
  "descriptor_lines (line # lines) (name # names) =
     (if \<not> prefix (name @ ''='') line then refuse (''trial descriptor field: '' @ name)
      else bind_result (descriptor_lines lines names) (\<lambda>rest. Inr ((name, drop (length name + 1) line) # rest)))"
| "descriptor_lines _ _ = Inr []"

definition parse_trial_descriptor :: "bytes \<Rightarrow> trial_descriptor result" where
  "parse_trial_descriptor data =
     (if \<not> list_all is_ascii data then Inl UnicodeError
      else if CHR 0x0D \<in> set data \<or> \<not> suffix [LF] data then refuse ''trial descriptor line endings''
      else let lines = splitlines data in
        if length lines \<noteq> 4 \<or> hd lines \<noteq> DESCRIPTOR_FORMAT then refuse ''trial descriptor format''
        else bind_result (descriptor_lines (tl lines) [''trial_id'', ''primary_bundle'', ''mode'']) (\<lambda>fields.
          if \<not> sha256_match (field fields ''trial_id'') then refuse ''trial descriptor trial_id''
          else if \<not> bundle_id_match (field fields ''primary_bundle'') then refuse ''trial descriptor primary_bundle''
          else if contains ''..'' (field fields ''primary_bundle'') then refuse ''trial descriptor primary_bundle traversal''
          else if field fields ''mode'' \<noteq> ''try-once'' then refuse ''trial descriptor mode''
          else Inr \<lparr>td_trial_id = field fields ''trial_id'', td_primary_bundle = field fields ''primary_bundle''\<rparr>))"

definition descriptor_fields :: "bytes \<Rightarrow> (string \<times> string) result" where
  "descriptor_fields data =
     (if \<not> list_all is_ascii data then Inl UnicodeError
      else let rows = split_on LF data in
        if \<not> (length rows = 5 \<and> rows ! 4 = [] \<and> rows ! 0 = DESCRIPTOR_FORMAT \<and> rows ! 3 = ''mode=try-once'')
        then refuse ''trial descriptor format''
        else if \<not> (prefix ''trial_id='' (rows ! 1) \<and> sha256_match (drop 9 (rows ! 1))) then refuse ''trial id''
        else if \<not> (prefix ''primary_bundle='' (rows ! 2) \<and> bundle_id_match (drop 15 (rows ! 2)) \<and> \<not> contains ''..'' (rows ! 2))
        then refuse ''primary bundle name''
        else Inr (drop 9 (rows ! 1), drop 15 (rows ! 2)))"

subsection \<open>Manifests\<close>

definition positive_decimal :: "string \<Rightarrow> bool" where
  "positive_decimal s = (case s of [] \<Rightarrow> False | c # t \<Rightarrow> is_digit c \<and> c \<noteq> CHR ''0'' \<and> list_all is_digit t)"

fun manifest_rows :: "string list \<Rightarrow> (string \<times> string) list \<Rightarrow> (string \<times> string) list result" where
  "manifest_rows [] found = Inr found"
| "manifest_rows (row # rows) found =
     (if count_list row (CHR ''='') \<noteq> 1 then refuse ''manifest field framing''
      else case partition_at (CHR ''='') row of (name, _, x) \<Rightarrow>
        if name \<in> set (map fst found) \<or> name = [] \<or> x = [] then refuse ''duplicate or empty manifest field''
        else manifest_rows rows (found @ [(name, x)]))"

definition check_manifest_field :: "string \<times> string \<Rightarrow> unit result" where
  "check_manifest_field kv =
     (case kv of (key, x) \<Rightarrow>
        if suffix ''_sha256'' key \<and> \<not> sha256_match x then refuse (''invalid manifest hash: '' @ key)
        else if key \<in> set [''kernel_size'', ''dtb_size'', ''initramfs_size''] \<and> \<not> positive_decimal x
        then refuse (''invalid artifact size: '' @ key)
        else Inr ())"

definition selector_manifest :: "bytes \<Rightarrow> (string \<times> string) list result" where
  "selector_manifest data =
     (if \<not> list_all is_ascii data then Inl UnicodeError
      else if \<not> (1 \<le> length data \<and> length data \<le> 4096 \<and> CHR 0x0D \<notin> set data \<and> suffix [LF] data)
      then refuse ''manifest size or line framing''
      else let rows = splitlines data in
        if hd rows \<noteq> ''format=rog5-recovery-bundle-v2'' then refuse ''manifest format''
        else bind_result (manifest_rows rows []) (\<lambda>fields.
          if set (map fst fields) \<noteq> set manifest_fields then refuse ''manifest field inventory''
          else if field fields ''profile'' \<noteq> ''persistent-root-ro-v1'' then refuse ''manifest profile''
          else if field fields ''bundle'' \<noteq> field fields ''target_id'' then refuse ''manifest target identity''
          else if \<not> (field fields ''rollback_timeout'' = ''900'' \<and> field fields ''target_timeout'' = ''600'') then refuse ''manifest timing''
          else bind_result (map_result check_manifest_field fields) (\<lambda>_. Inr fields)))"

subsection \<open>The selector\<close>

definition FALLBACK_BUNDLE :: string where
  "FALLBACK_BUNDLE = ''persistent-native-root-v11''"

definition FALLBACK_MANIFEST_SHA256 :: string where
  "FALLBACK_MANIFEST_SHA256 = ''a684bad14f84251ba342a87bde07da1f7b9aea412275ad124f7000716e94bbe2''"

definition selector_fields :: "string \<Rightarrow> string \<Rightarrow> string \<Rightarrow> string \<Rightarrow> string \<Rightarrow> (string \<times> string) list" where
  "selector_fields trial_id primary primary_hash fallback fallback_hash =
     [(''format'', ''rog5-slotb-selector-v2''), (''trial_id'', trial_id), (''primary_bundle'', primary),
      (''primary_manifest_sha256'', primary_hash), (''fallback_bundle'', fallback), (''fallback_manifest_sha256'', fallback_hash),
      (''mode'', ''try-once'')]"

definition generate :: "(bytes \<Rightarrow> bytes) \<Rightarrow> bytes \<Rightarrow> bytes \<Rightarrow> bytes \<Rightarrow> string option \<Rightarrow> string option \<Rightarrow> bytes result" where
  "generate H descriptor primary_manifest fallback_manifest expected_bundle expected_hash =
     (let expected_bundle = (case expected_bundle of None \<Rightarrow> FALLBACK_BUNDLE | Some b \<Rightarrow> b);
          expected_hash = (case expected_hash of None \<Rightarrow> FALLBACK_MANIFEST_SHA256 | Some h \<Rightarrow> h)
      in bind_result (parse_trial_descriptor descriptor) (\<lambda>trial.
         bind_result (selector_manifest primary_manifest) (\<lambda>primary.
         bind_result (selector_manifest fallback_manifest) (\<lambda>fallback.
           if field primary ''bundle'' \<noteq> td_primary_bundle trial then refuse ''primary/trial mismatch''
           else if field fallback ''bundle'' \<noteq> expected_bundle then refuse ''fallback bundle mismatch''
           else if to_hex (H fallback_manifest) \<noteq> expected_hash then refuse ''fallback hash mismatch''
           else Inr (show_record (selector_fields (td_trial_id trial) (field primary ''bundle'') (to_hex (H primary_manifest))
                       (field fallback ''bundle'') (to_hex (H fallback_manifest))))))))"

text \<open>\<open>dict\<close> of the lines with an equals sign, where the last of a key counts.\<close>

definition line_field :: "bytes \<Rightarrow> string \<Rightarrow> string" where
  "line_field data key =
     (case find (\<lambda>(k, _, _). k = key) (rev (map (partition_at (CHR ''='')) (filter (\<lambda>line. CHR ''='' \<in> set line) (splitlines data)))) of
        None \<Rightarrow> []
      | Some (_, _, x) \<Rightarrow> x)"

definition selector_fallback :: "bytes \<Rightarrow> (string \<times> string) result" where
  "selector_fallback selector =
     (if \<not> list_all is_ascii selector then Inl UnicodeError
      else if line_field selector ''format'' \<noteq> ''rog5-slotb-selector-v2'' then refuse ''current selector format''
      else let name = line_field selector ''fallback_bundle''; digest = line_field selector ''fallback_manifest_sha256'' in
        if bundle_id_match name \<and> \<not> contains ''..'' name \<and> sha256_match digest then Inr (name, digest)
        else refuse ''current selector fallback'')"

definition archive_name :: "string \<Rightarrow> string \<Rightarrow> string" where
  "archive_name b old_sha256 = ''wifi-trial-state.archived-before-'' @ b @ ''-'' @ old_sha256"

definition phone_state :: "bytes \<Rightarrow> string option" where
  "phone_state printed =
     (case rev (filter (prefix ''STATE '') (text_lines (utf8_replace printed))) of [] \<Rightarrow> None | line # _ \<Rightarrow> Some (drop 6 line))"

end
