(* ===== verification/Selector_Agreement.thy ===== *)
theory Selector_Agreement
  imports Boot_Selector
begin

section \<open>Packager, selector and installer agree\<close>

text \<open>
  What the packager writes as a manifest is accepted by the generator of the selector, the installer reads out of the selector what
  the generator put in, and a descriptor the installer accepts means the same to the generator.
\<close>

subsection \<open>Records of plain values\<close>

definition plain :: "string \<Rightarrow> bool" where
  "plain v \<longleftrightarrow> v \<noteq> [] \<and> list_all (\<lambda>c. is_graphic c \<and> c \<noteq> CHR ''='') v"

definition plain_record :: "(string \<times> string) list \<Rightarrow> bool" where
  "plain_record kvs \<longleftrightarrow> list_all (\<lambda>(k, v). plain k \<and> plain v) kvs"

lemma graphic_facts: "is_graphic c \<Longrightarrow> \<not> is_break c" "is_graphic c \<Longrightarrow> is_ascii c" "is_graphic c \<Longrightarrow> c \<noteq> CHR 0x0D" "is_graphic c \<Longrightarrow> c \<noteq> LF"
  by (auto simp: is_graphic_def is_break_def is_ascii_def)

lemma plain_safe: "safe_value v \<Longrightarrow> CHR ''='' \<notin> set v \<Longrightarrow> plain v"
  by (auto simp: plain_def safe_value_def list_all_iff)

lemma selector_line_graphic: "plain k \<Longrightarrow> plain v \<Longrightarrow> list_all is_graphic (record_line (k, v))"
  by (auto simp: record_line_def plain_def list_all_iff is_graphic_def)

lemma graphic_lines:
  assumes graphic: "\<And>w. w \<in> set ws \<Longrightarrow> list_all is_graphic w"
  shows "splitlines (concat (map (\<lambda>w. w @ [LF]) ws)) = ws" and "CHR 0x0D \<notin> set (concat (map (\<lambda>w. w @ [LF]) ws))"
    and "list_all is_ascii (concat (map (\<lambda>w. w @ [LF]) ws))"
proof -
  have chars: "is_graphic c" if "w \<in> set ws" "c \<in> set w" for w c
    using graphic [OF that(1)] that(2) by (simp add: list_all_iff)
  show "splitlines (concat (map (\<lambda>w. w @ [LF]) ws)) = ws"
    by (rule splitlines_unlines) (use chars graphic_facts(1) in blast)
  show "CHR 0x0D \<notin> set (concat (map (\<lambda>w. w @ [LF]) ws))" using chars [of _ "CHR 0x0D"] graphic_facts(3) [of "CHR 0x0D"] by auto
  show "list_all is_ascii (concat (map (\<lambda>w. w @ [LF]) ws))"
    using chars graphic_facts(2) by (fastforce simp: list_all_iff is_ascii_def)
qed

lemma plain_record_text:
  assumes "plain_record kvs"
  shows "splitlines (show_record kvs) = map record_line kvs" and "list_all is_ascii (show_record kvs)" and "CHR 0x0D \<notin> set (show_record kvs)"
    and "kvs \<noteq> [] \<Longrightarrow> suffix [LF] (show_record kvs)"
proof -
  have lines: "show_record kvs = concat (map (\<lambda>w. w @ [LF]) (map record_line kvs))" by (simp add: show_record_def comp_def)
  have graphic: "list_all is_graphic w" if "w \<in> set (map record_line kvs)" for w
    using that assms selector_line_graphic by (fastforce simp: plain_record_def list_all_iff)
  show "splitlines (show_record kvs) = map record_line kvs" "list_all is_ascii (show_record kvs)" "CHR 0x0D \<notin> set (show_record kvs)"
    unfolding lines using graphic_lines [of "map record_line kvs"] graphic by blast+
  show "suffix [LF] (show_record kvs)" if "kvs \<noteq> []"
    using that by (cases kvs rule: rev_cases) (auto simp: show_record_def suffix_def)
qed

lemma record_line_parts:
  assumes "plain k" and "plain v"
  shows "count_list (record_line (k, v)) (CHR ''='') = 1" and "partition_at (CHR ''='') (record_line (k, v)) = (k, ''='', v)"
proof -
  from assms have free: "CHR ''='' \<notin> set k" "CHR ''='' \<notin> set v" by (auto simp: plain_def list_all_iff)
  then show "count_list (record_line (k, v)) (CHR ''='') = 1" by (simp add: record_line_def count_notin)
  show "partition_at (CHR ''='') (record_line (k, v)) = (k, ''='', v)"
    using partition_at_append [OF free(1), of v] by (simp add: record_line_def)
qed

lemma in_record_line: "CHR ''='' \<in> set (record_line kv)"
  by (simp add: record_line_def)

lemma manifest_rows_record:
  "plain_record kvs \<Longrightarrow> distinct (map fst (found @ kvs)) \<Longrightarrow> manifest_rows (map record_line kvs) found = Inr (found @ kvs)"
proof (induction kvs arbitrary: found)
  case (Cons kv kvs)
  obtain k v where kv: "kv = (k, v)" by (cases kv)
  from Cons.prems(1) have "plain k" "plain v" and rest: "plain_record kvs" by (auto simp: plain_record_def kv)
  with Cons.prems(2) Cons.IH [OF rest, of "found @ [kv]"] show ?case by (simp add: record_line_parts kv plain_def)
qed simp

lemma find_pair:
  "distinct (map fst kvs) \<Longrightarrow> (k, v) \<in> set kvs
     \<Longrightarrow> find (\<lambda>(k', _, _). k' = k) (map (\<lambda>(k, v). (k, ''='', v)) kvs) = Some (k, ''='', v)"
  by (induction kvs) (auto simp: image_iff)

lemma line_field_record:
  assumes "plain_record kvs" and "distinct (map fst kvs)" and "(k, v) \<in> set kvs"
  shows "line_field (show_record kvs) k = v"
proof -
  have "map (partition_at (CHR ''='')) (filter (\<lambda>line. CHR ''='' \<in> set line) (map record_line kvs)) = map (\<lambda>(k, v). (k, ''='', v)) kvs"
    using assms(1) by (induction kvs) (auto simp: plain_record_def record_line_parts in_record_line)
  moreover have "find (\<lambda>(k', _, _). k' = k) (rev (map (\<lambda>(k, v). (k, ''='', v)) kvs)) = Some (k, ''='', v)"
  proof -
    have "distinct (map fst (rev kvs))" "(k, v) \<in> set (rev kvs)" using assms by (simp_all add: rev_map [symmetric])
    then have "find (\<lambda>(k', _, _). k' = k) (map (\<lambda>(k, v). (k, ''='', v)) (rev kvs)) = Some (k, ''='', v)"
      by (rule find_pair)
    then show ?thesis by (simp add: rev_map)
  qed
  ultimately show ?thesis using plain_record_text(1) [OF assms(1)] by (simp add: line_field_def)
qed

subsection \<open>The packager's manifests\<close>

lemma plain_classes:
  "sha256_match v \<Longrightarrow> plain v" "server_valid_hash v \<Longrightarrow> plain v" "bundle_id_match v \<Longrightarrow> plain v" "server_valid_bundle v \<Longrightarrow> plain v"
  "server_validate_identity v m \<Longrightarrow> plain v" "plain (show_nat n)"
proof -
  have hex: "is_hex c \<Longrightarrow> c \<noteq> CHR ''=''" and digit: "is_digit c \<Longrightarrow> c \<noteq> CHR ''=''" and part: "bundle_char c \<Longrightarrow> c \<noteq> CHR ''=''"
    and ident: "identity_char c \<Longrightarrow> c \<noteq> CHR ''=''" for c
    by (auto simp: char_class_defs bundle_char_def identity_char_def)
  show sha: "sha256_match v \<Longrightarrow> plain v"
    using safe_value_classes(1) hex by (intro plain_safe) (auto simp: sha256_match_def list_all_iff)
  then show "server_valid_hash v \<Longrightarrow> plain v" by (simp add: server_valid_hash_def)
  show match: "bundle_id_match v \<Longrightarrow> plain v"
  proof -
    assume v: "bundle_id_match v"
    then have "bundle_char c" if "c \<in> set v" for c
      using that by (cases v) (auto simp: bundle_id_match_def bundle_char_def list_all_iff)
    moreover have "v \<noteq> []" using v by (auto simp: bundle_id_match_def)
    ultimately show ?thesis using bundle_id_graphic [OF v] part by (auto simp: plain_def list_all_iff)
  qed
  then show "server_valid_bundle v \<Longrightarrow> plain v" by (simp add: server_valid_bundle_def)
  show "server_validate_identity v m \<Longrightarrow> plain v"
    using safe_value_classes(3) ident by (intro plain_safe) (auto simp: server_validate_identity_def list_all_iff)
  show "plain (show_nat n)"
    using safe_value_classes(4) [of n] show_nat_digits [of _ n] digit by (intro plain_safe) auto
qed

lemma manifest_values_plain:
  assumes "validate_configuration c = Inr ()" and "observed_in_policy obs"
  shows "plain_record (manifest_values c obs)"
proof -
  from assms(1) obtain rollback target where
    "plain (cfg_bundle c)" "cfg_profile c \<in> set server_profiles" "plain (cfg_target_id c)" "plain (cfg_target_release c)"
    "plain (cfg_rollback_timeout c)" "plain (cfg_target_timeout c)" and root: "packager_check_root_identity c = Inr ()"
    by (rule validate_configuration_facts) (auto intro: plain_classes)
  moreover have "plain v" if "v \<in> set (server_profiles @ [''rog5-recovery-bundle-v2'', ''arch-a'', ''none'', ''/''] @ manifest_fields)" for v
    using that by (auto simp: server_profiles_def manifest_fields_def plain_def is_graphic_def)
  moreover have "plain (cfg_a660_command_manifest_sha256 c)" "plain (cfg_root_tree_sha256 c)" "plain (cfg_root_seal_sha256 c)"
    "plain (cfg_root_tree_entries c)"
    using root_identity_values(1,2,3,6) [OF root] by (auto simp: plain_classes)
  moreover have "cfg_root_generation c \<in> {''arch-a'', ''none''}" "cfg_root_subtree c \<in> {''/'', ''none''}"
    using root_identity_values(4,5) [OF root] by simp_all
  ultimately show ?thesis
    using assms(2)
    by (simp add: plain_record_def manifest_values_def observed_in_policy_def packager_artifacts_def plain_classes manifest_fields_def)
       (metis)
qed

definition installable :: "configuration \<Rightarrow> bool" where
  "installable c \<longleftrightarrow> validate_configuration c = Inr () \<and> cfg_profile c = ''persistent-root-ro-v1'' \<and> cfg_target_id c = cfg_bundle c
     \<and> cfg_rollback_timeout c = ''900'' \<and> cfg_target_timeout c = ''600''"

lemma positive_show_nat: "0 < n \<Longrightarrow> positive_decimal (show_nat n)"
  using show_nat_digits [of _ n] hd_show_nat [of n] by (cases "show_nat n") (auto simp: positive_decimal_def list_all_iff)

lemma field_values:
  "field (manifest_values c obs) ''bundle'' = cfg_bundle c" "field (manifest_values c obs) ''profile'' = cfg_profile c"
  "field (manifest_values c obs) ''target_id'' = cfg_target_id c"
  "field (manifest_values c obs) ''rollback_timeout'' = cfg_rollback_timeout c"
  "field (manifest_values c obs) ''target_timeout'' = cfg_target_timeout c"
  by (simp_all add: field_def manifest_values_def)

lemma manifest_values_checked:
  assumes "installable c" and "observed_in_policy obs"
  shows "\<exists>oks. map_result check_manifest_field (manifest_values c obs) = Inr oks"
proof (rule map_result_total)
  fix kv
  assume kv: "kv \<in> set (manifest_values c obs)"
  have root: "packager_check_root_identity c = Inr ()"
    using assms(1) by (auto simp: installable_def elim!: validate_configuration_facts)
  have hash: "sha256_match v" if "server_valid_hash v" for v using that by (simp add: server_valid_hash_def)
  have fine: "check_manifest_field (k, v) = Inr ()" if "sha256_match v" "k \<notin> set [''kernel_size'', ''dtb_size'', ''initramfs_size'']" for k v
    using that by (simp add: check_manifest_field_def)
  have other: "check_manifest_field (k, v) = Inr ()"
    if "\<not> suffix ''_sha256'' k \<and> k \<notin> set [''kernel_size'', ''dtb_size'', ''initramfs_size'']" for k v
    using that by (simp add: check_manifest_field_def)
  have size': "check_manifest_field (k, show_nat n) = Inr ()" if "\<not> suffix ''_sha256'' k" "0 < n" for k n
    using that by (simp add: check_manifest_field_def positive_show_nat)
  have observed: "0 < fst (obs name) \<and> server_valid_hash (snd (obs name))" if "name \<in> set [''Image'', ''board.dtb'', ''initramfs.cpio.gz'']" for name
    using assms(2) that by (auto simp: observed_in_policy_def packager_artifacts_def)
  note hashes = root_identity_values(1,2,3) [OF root] observed [THEN conjunct2, THEN hash]
  from kv show "\<exists>y. check_manifest_field kv = Inr y"
    unfolding manifest_values_def list.set insert_iff empty_iff
    by (elim disjE FalseE; hypsubst; intro exI)
       (rule fine other size'; simp add: hashes observed suffix_to_prefix; fail | code_simp)+
qed

lemma selector_manifest_packaged:
  assumes c: "installable c" and obs: "observed_in_policy obs"
  shows "selector_manifest (show_record (manifest_values c obs)) = Inr (manifest_values c obs)"
proof -
  let ?kvs = "manifest_values c obs"
  have valid: "validate_configuration c = Inr ()" using c by (simp add: installable_def)
  note plain = manifest_values_plain [OF valid obs]
  note lines = plain_record_text [OF plain]
  have fields: "map fst ?kvs = manifest_fields" by (rule manifest_values_fields)
  have "distinct manifest_fields" by (simp add: manifest_fields_def)
  then have rows: "manifest_rows (map record_line ?kvs) [] = Inr ?kvs" using manifest_rows_record [OF plain, of "[]"] fields by simp
  have short: "length (show_record ?kvs) \<le> 4096" using manifest_length [OF valid obs] by simp
  have some: "?kvs \<noteq> []" "hd (map record_line ?kvs) = ''format=rog5-recovery-bundle-v2''"
    by (simp_all add: manifest_values_def record_line_def)
  from lines(4) [OF some(1)] have "show_record ?kvs \<noteq> []" by auto
  then have long: "1 \<le> length (show_record ?kvs)" by (simp add: Suc_le_eq)
  obtain oks where oks: "map_result check_manifest_field ?kvs = Inr oks" using manifest_values_checked [OF c obs] by blast
  show ?thesis
    unfolding selector_manifest_def Let_def lines(1) some(2) rows bind_result_Inr fields oks
    using lines(2,3) lines(4) [OF some(1)] short long c by (simp add: field_values installable_def)
qed

subsection \<open>Descriptors\<close>

lemma descriptor_fields_parse:
  assumes "descriptor_fields data = Inr (ident, b)"
  shows "parse_trial_descriptor data = Inr \<lparr>td_trial_id = ident, td_primary_bundle = b\<rparr>"
    and "sha256_match ident \<and> bundle_id_match b \<and> \<not> contains ''..'' b"
proof -
  define rows where "rows = split_on LF data"
  from assms have ascii: "list_all is_ascii data" and n: "length rows = 5" and rows: "rows ! 4 = []" "rows ! 0 = DESCRIPTOR_FORMAT" "rows ! 3 = ''mode=try-once''"
    "prefix ''trial_id='' (rows ! 1)" "sha256_match (drop 9 (rows ! 1))"
    "prefix ''primary_bundle='' (rows ! 2)" "bundle_id_match (drop 15 (rows ! 2))" "\<not> contains ''..'' (rows ! 2)"
    "ident = drop 9 (rows ! 1)" "b = drop 15 (rows ! 2)"
    by (auto simp: descriptor_fields_def refuse_def Let_def rows_def split: if_splits)
  have parts: "rows ! 1 = ''trial_id='' @ ident" "rows ! 2 = ''primary_bundle='' @ b"
    using rows(4,6,9,10) by (auto simp: prefix_def)
  from n have "rows = [rows ! 0, rows ! 1, rows ! 2, rows ! 3, rows ! 4]"
    by (auto simp: numeral_eq_Suc length_Suc_conv)
  then have list: "rows = [DESCRIPTOR_FORMAT, ''trial_id='' @ ident, ''primary_bundle='' @ b, ''mode=try-once'', []]"
    unfolding parts rows(1,2,3) .
  let ?ws = "[DESCRIPTOR_FORMAT, ''trial_id='' @ ident, ''primary_bundle='' @ b, ''mode=try-once'']"
  have data: "data = concat (map (\<lambda>w. w @ [LF]) ?ws)"
    using join_split_on [of LF data] list by (simp add: rows_def [symmetric])
  have plain: "plain ident" "plain b" using rows by (simp_all add: plain_classes)
  have graphic: "list_all is_graphic w" if "w \<in> set ?ws" for w
  proof -
    have words: "list_all is_graphic DESCRIPTOR_FORMAT" "list_all is_graphic ''trial_id=''" "list_all is_graphic ''primary_bundle=''"
      "list_all is_graphic ''mode=try-once''" by code_simp+
    have "list_all is_graphic ident" "list_all is_graphic b" using plain by (auto simp: plain_def list_all_iff)
    with words that show ?thesis unfolding list.set insert_iff empty_iff by (elim disjE FalseE; hypsubst) (simp_all only: list_all_append simp_thms)
  qed
  have lines: "splitlines data = ?ws"
    unfolding data by (rule graphic_lines(1)) (rule graphic)
  have "CHR 0x0D \<notin> set data" unfolding data by (rule graphic_lines(2)) (rule graphic)
  moreover have "suffix [LF] data" unfolding data by (simp add: suffix_def)
  moreover have free: "\<not> contains ''..'' b" using rows(8) unfolding parts(2) contains_sublist using sublist_append_leftI sublist_order.order_trans by blast
  moreover have "sha256_match ident" "bundle_id_match b" using rows by simp_all
  ultimately show "parse_trial_descriptor data = Inr \<lparr>td_trial_id = ident, td_primary_bundle = b\<rparr>"
    using ascii lines by (simp add: parse_trial_descriptor_def field_def bind_result_def)
  show "sha256_match ident \<and> bundle_id_match b \<and> \<not> contains ''..'' b" using rows free by simp
qed

subsection \<open>The selector\<close>

lemma selector_fields_plain:
  assumes "sha256_match i" "bundle_id_match p" "sha256_match ph" "bundle_id_match f" "sha256_match fh"
  shows "plain_record (selector_fields i p ph f fh)" and "distinct (map fst (selector_fields i p ph f fh))"
proof -
  have "list_all plain [''format'', ''rog5-slotb-selector-v2'', ''trial_id'', ''primary_bundle'', ''primary_manifest_sha256'', ''fallback_bundle'',
      ''fallback_manifest_sha256'', ''mode'', ''try-once'']"
    by code_simp
  with assms show "plain_record (selector_fields i p ph f fh)" by (simp add: plain_record_def selector_fields_def plain_classes)
  show "distinct (map fst (selector_fields i p ph f fh))" by (simp add: selector_fields_def)
qed

lemma selector_fallback_fields:
  assumes "sha256_match i" "bundle_id_match p" "sha256_match ph" "bundle_id_match f" "\<not> contains ''..'' f" "sha256_match fh"
  shows "selector_fallback (show_record (selector_fields i p ph f fh)) = Inr (f, fh)"
proof -
  let ?kvs = "selector_fields i p ph f fh"
  note fine = selector_fields_plain [OF assms(1-4,6)]
  have "line_field (show_record ?kvs) k = v" if "(k, v) \<in> set ?kvs" for k v
    using that by (rule line_field_record [OF fine])
  then have "line_field (show_record ?kvs) ''format'' = ''rog5-slotb-selector-v2''" "line_field (show_record ?kvs) ''fallback_bundle'' = f"
    "line_field (show_record ?kvs) ''fallback_manifest_sha256'' = fh"
    by (simp_all add: selector_fields_def)
  with assms plain_record_text(2) [OF fine(1)] show ?thesis by (simp add: selector_fallback_def)
qed

lemma generate_packaged:
  assumes c: "installable c" "installable c'" and obs: "observed_in_policy obs" "observed_in_policy obs'"
    and m: "manifest_bytes c obs = Inr m" "manifest_bytes c' obs' = Inr m'"
    and d: "descriptor_fields descriptor = Inr (trial_id, cfg_bundle c)" and H: "length (H m) = 32" "length (H m') = 32"
  shows "generate H descriptor m m' (Some (cfg_bundle c')) (Some (to_hex (H m')))
      = Inr (show_record (selector_fields trial_id (cfg_bundle c) (to_hex (H m)) (cfg_bundle c') (to_hex (H m'))))
    \<and> selector_fallback (show_record (selector_fields trial_id (cfg_bundle c) (to_hex (H m)) (cfg_bundle c') (to_hex (H m'))))
      = Inr (cfg_bundle c', to_hex (H m'))"
proof -
  have written: "m = show_record (manifest_values c obs)" "m' = show_record (manifest_values c' obs')"
    using c obs m manifest_bytes_eq by (auto simp: installable_def)
  note trial = descriptor_fields_parse [OF d]
  have "server_valid_bundle (cfg_bundle c')"
    using c(2) by (auto simp: installable_def elim!: validate_configuration_facts)
  then have "bundle_id_match (cfg_bundle c')" "\<not> contains ''..'' (cfg_bundle c')" by (simp_all add: server_valid_bundle_def)
  with trial(2) H have "selector_fallback (show_record (selector_fields trial_id (cfg_bundle c) (to_hex (H m)) (cfg_bundle c') (to_hex (H m'))))
      = Inr (cfg_bundle c', to_hex (H m'))"
    by (intro selector_fallback_fields) (simp_all add: sha256_match_hex)
  moreover have "selector_manifest m = Inr (manifest_values c obs)" "selector_manifest m' = Inr (manifest_values c' obs')"
    unfolding written using c obs by (simp_all add: selector_manifest_packaged)
  ultimately show ?thesis using trial(1) by (simp add: generate_def field_values)
qed


definition phone_configuration :: "string \<Rightarrow> configuration" where
  "phone_configuration name = demo_configuration\<lparr>cfg_bundle := name, cfg_profile := ''persistent-root-ro-v1'', cfg_target_id := name,
     cfg_rollback_timeout := ''900'', cfg_target_timeout := ''600''\<rparr>"

definition phone_descriptor :: bytes where
  "phone_descriptor = DESCRIPTOR_FORMAT @ [LF] @ ''trial_id='' @ replicate 64 (CHR ''b'') @ [LF] @ ''primary_bundle=trial-a'' @ [LF] @ ''mode=try-once'' @ [LF]"


text \<open>
  The generator's parser breaks lines where \<open>splitlines\<close> does: it accepts descriptors whose lines a vertical tab separates, which the
  installer refuses.
\<close>

lemma descriptor_separator:
  "parse_trial_descriptor (DESCRIPTOR_FORMAT @ [CHR 0x0B] @ ''trial_id='' @ replicate 64 (CHR ''b'') @ [LF] @ ''primary_bundle=trial-a'' @ [LF] @ ''mode=try-once'' @ [LF])
     = Inr \<lparr>td_trial_id = replicate 64 (CHR ''b''), td_primary_bundle = ''trial-a''\<rparr>
   \<and> descriptor_fields (DESCRIPTOR_FORMAT @ [CHR 0x0B] @ ''trial_id='' @ replicate 64 (CHR ''b'') @ [LF] @ ''primary_bundle=trial-a'' @ [LF] @ ''mode=try-once'' @ [LF])
     = Inl (ValueError ''trial descriptor format'')"
  by code_simp

end
