(* ===== verification/Default_Install.thy ===== *)
theory Default_Install
  imports Selector_Agreement Newc_Archive Ram_Trial
begin

section \<open>Installing the default kernel\<close>

text \<open>
  Models \<open>main\<close> of \<^verbatim>\<open>scripts/host/install-default-kernel.py\<close>. Each read of a local file, each local program, each command sent to
  the phone and each write of evidence takes the next outcome of its script: reads and programs give bytes, replies or an exception, writes go on,
  fail or are where the process dies. The log keeps what was written, what was verified, and what was asked of the phone with the reply, newest
  first. The digest is the argument \<open>H\<close>, decompression the argument \<open>gunzip\<close>, the script for the phone \<open>ia_script\<close>. A reader that
  does not return counts as a process that is killed. The text of the JSON files and the variable ends of messages are left out.
\<close>

subsection \<open>The host\<close>

type_synonym reply = "int \<times> bytes \<times> bytes"

datatype phone_command =
    Identity
  | ReadSelector
  | ProbeRecord
  | ReadRecord
  | ReadFallback string
  | ProbeFallback
  | Inspect bytes
  | MakeSource
  | MakeFallback
  | Push string bytes
  | Preflight bytes
  | Cleanup
  | Stage bytes

datatype install_event = Wrote string | Verified string bytes | Asked phone_command "reply result"

datatype write_outcome = WriteGoes | WriteFails | WriteDies

record install_host =
  ih_reads :: "bytes result list"
  ih_programs :: "reply result list"
  ih_phone :: "reply result list"
  ih_writes :: "write_outcome list"
  ih_log :: "install_event list"

record install_args =
  ia_evidence_exists :: bool
  ia_bundle_name :: string
  ia_bundle_listing :: "string list result"
  ia_fallback :: "(string \<times> string list result) option"
  ia_trust_sha256 :: string
  ia_stage :: bool
  ia_storage :: "string \<times> string \<times> string"
  ia_script :: "bytes result"

definition log_event :: "install_event \<Rightarrow> (install_host, unit) io" where
  "log_event e = modify (\<lambda>s. s\<lparr>ih_log := e # ih_log s\<rparr>)"

definition regular :: "(install_host, bytes) io" where
  "regular s = (case ih_reads s of [] \<Rightarrow> (Inl FileNotFoundError, s) | r # rs \<Rightarrow> (r, s\<lparr>ih_reads := rs\<rparr>))"

definition program :: "(install_host, reply) io" where
  "program s = (case ih_programs s of [] \<Rightarrow> (Inl SubprocessError, s) | r # rs \<Rightarrow> (r, s\<lparr>ih_programs := rs\<rparr>))"

definition write_new :: "string \<Rightarrow> (install_host, unit) io" where
  "write_new name s =
     (case ih_writes s of
        [] \<Rightarrow> log_event (Wrote name) s
      | w # ws \<Rightarrow>
          (case w of
             WriteGoes \<Rightarrow> log_event (Wrote name) (s\<lparr>ih_writes := ws\<rparr>)
           | WriteFails \<Rightarrow> (Inl OSError, s\<lparr>ih_writes := ws\<rparr>)
           | WriteDies \<Rightarrow> (Inl Killed, s\<lparr>ih_writes := ws\<rparr>)))"

definition need_install :: "bool \<Rightarrow> string \<Rightarrow> (install_host, unit) io" where
  "need_install ok why = when_raise (\<not> ok) (ValueError why)"

definition phone_ask :: "phone_command \<Rightarrow> (install_host, reply) io" where
  "phone_ask c s =
     (case ih_phone s of
        [] \<Rightarrow> (Inl SubprocessError, s\<lparr>ih_log := Asked c (Inl SubprocessError) # ih_log s\<rparr>)
      | r # rs \<Rightarrow> (r, s\<lparr>ih_phone := rs, ih_log := Asked c r # ih_log s\<rparr>))"

definition phone_run :: "phone_command \<Rightarrow> (install_host, bytes) io" where
  "phone_run c =
     bind_io (phone_ask c) (\<lambda>(rc, out, err).
     bind_io (need_install (rc = 0) ''remote command failed'') (\<lambda>_. ret out))"

definition decode_reply :: "bytes \<Rightarrow> (install_host, string) io" where
  "decode_reply raw = bind_io (when_raise (\<not> utf8_ok raw) UnicodeError) (\<lambda>_. ret raw)"

subsection \<open>Pieces\<close>

definition FILES :: "string list" where
  "FILES = [''Image'', ''board.dtb'', ''initramfs.cpio.gz'', ''manifest'', ''manifest.sig'']"

definition DESCRIPTOR_PATH :: string where
  "DESCRIPTOR_PATH = ''rog5-production-trial/trial-descriptor''"

fun read_files :: "string list \<Rightarrow> (install_host, (string \<times> bytes) list) io" where
  "read_files [] = ret []"
| "read_files (name # names) = bind_io regular (\<lambda>data. bind_io (read_files names) (\<lambda>rest. ret ((name, data) # rest)))"

fun fetch_files :: "string list \<Rightarrow> (install_host, (string \<times> bytes) list) io" where
  "fetch_files [] = ret []"
| "fetch_files (name # names) =
     bind_io (phone_run (ReadFallback name)) (\<lambda>data. bind_io (fetch_files names) (\<lambda>rest. ret ((name, data) # rest)))"

definition file_bytes :: "(string \<times> bytes) list \<Rightarrow> string \<Rightarrow> bytes" where
  "file_bytes files name = the (map_of files name)"

definition ramdisk_member :: "(bytes \<Rightarrow> bytes result) \<Rightarrow> bytes \<Rightarrow> (install_host, bytes option) io" where
  "ramdisk_member gunzip archive =
     bind_io (lift_result (gunzip archive)) (\<lambda>data.
     case newc_member data DESCRIPTOR_PATH of
       None \<Rightarrow> raise Killed
     | Some r \<Rightarrow> lift_result r)"

definition verify_bundle :: "string \<Rightarrow> bytes \<Rightarrow> (install_host, unit) io" where
  "verify_bundle b manifest =
     bind_io program (\<lambda>(rc, out, err).
     bind_io (need_install (rc = 0) (b @ '': signature or payload verification failed'')) (\<lambda>_.
     bind_io (decode_reply out) (\<lambda>plan.
     bind_io (need_install (contains (''bundle='' @ b @ [LF]) plan) (b @ '': verified plan identity'')) (\<lambda>_.
     log_event (Verified b manifest)))))"

definition value_char :: "char \<Rightarrow> bool" where
  "value_char c \<longleftrightarrow> is_upper c \<or> is_lower c \<or> is_digit c \<or> c \<in> set ''._/:-''"

definition value_ok :: "string \<Rightarrow> bool" where
  "value_ok v \<longleftrightarrow> 1 \<le> length v \<and> length v \<le> 200 \<and> list_all value_char v"

definition variable_ok :: "string \<Rightarrow> bool" where
  "variable_ok n \<longleftrightarrow> n \<noteq> [] \<and> list_all (\<lambda>c. is_lower c \<or> is_digit c \<or> c = CHR ''_'') n"

definition assignment :: "string \<times> string \<Rightarrow> string result" where
  "assignment kv = (case kv of (name, x) \<Rightarrow>
     if variable_ok name \<and> value_ok x then Inr (name @ ''='' @ [CHR 0x27] @ x @ [CHR 0x27]) else Inl (ValueError (''unsafe value '' @ name)))"

definition render_script :: "(string \<times> string) list \<Rightarrow> bytes result \<Rightarrow> bytes result" where
  "render_script values body =
     bind_result (map_result assignment (sort_key fst values)) (\<lambda>lines.
     bind_result body (\<lambda>script.
     case partition_at LF script of (shebang, newline, rest) \<Rightarrow>
       if newline = [] then Inl (ValueError ''not enough values to unpack'')
       else Inr (shebang @ [LF] @ join [LF] lines @ [LF] @ rest)))"

subsection \<open>Before the phone is asked\<close>

record inputs =
  in_trial_id :: string
  in_bundle :: string
  in_payload :: "(string \<times> bytes) list"
  in_fallback :: "(string \<times> (string \<times> bytes) list) option"

definition load_fallback :: "(bytes \<Rightarrow> bytes result) \<Rightarrow> string \<Rightarrow> (string \<times> string list result) option
    \<Rightarrow> (install_host, (string \<times> (string \<times> bytes) list) option) io" where
  "load_fallback gunzip b given =
     (case given of
        None \<Rightarrow> ret None
      | Some (name, listing) \<Rightarrow>
          bind_io (lift_result listing) (\<lambda>names.
          bind_io (need_install (sort names = sort FILES) ''fallback bundle inventory'') (\<lambda>_.
          bind_io (read_files FILES) (\<lambda>files.
          bind_io (need_install (bundle_id_match name \<and> name \<noteq> b) ''fallback bundle name'') (\<lambda>_.
          bind_io (ramdisk_member gunzip (file_bytes files ''initramfs.cpio.gz'')) (\<lambda>carried.
          bind_io (need_install (carried = None) ''the fallback ramdisk carries a trial descriptor'') (\<lambda>_.
          ret (Some (name, files)))))))))"

definition load_inputs :: "(bytes \<Rightarrow> bytes) \<Rightarrow> (bytes \<Rightarrow> bytes result) \<Rightarrow> install_args \<Rightarrow> (install_host, inputs) io" where
  "load_inputs H gunzip a =
     bind_io (need_install (\<not> ia_evidence_exists a) ''evidence directory exists: inspect it, never retry'') (\<lambda>_.
     bind_io regular (\<lambda>descriptor.
     bind_io (lift_result (descriptor_fields descriptor)) (\<lambda>(trial_id, b).
     bind_io (need_install (ia_bundle_name a = b) ''bundle directory does not match the descriptor'') (\<lambda>_.
     bind_io (load_fallback gunzip b (ia_fallback a)) (\<lambda>fallback.
     bind_io (lift_result (ia_bundle_listing a)) (\<lambda>names.
     bind_io (need_install (sort names = sort FILES) ''bundle inventory'') (\<lambda>_.
     bind_io (read_files FILES) (\<lambda>payload.
     bind_io (need_install (sha256_match (ia_trust_sha256 a)) ''--expected-trust-sha256 must be 64 hex digits'') (\<lambda>_.
     bind_io regular (\<lambda>key.
     bind_io (need_install (to_hex (H key) = ia_trust_sha256 a) ''trust key is not the slot-B loader key'') (\<lambda>_.
     bind_io (ramdisk_member gunzip (file_bytes payload ''initramfs.cpio.gz'')) (\<lambda>carried.
     bind_io regular (\<lambda>again.
     bind_io (need_install (carried = Some again) ''the bundle ramdisk does not carry this trial descriptor'') (\<lambda>_.
     bind_io (if ia_stage a
        then bind_io program (\<lambda>(rc, out, _). need_install (rc = 0 \<and> out = []) ''the repository must be clean to stage'')
        else ret ()) (\<lambda>_.
     ret \<lparr>in_trial_id = trial_id, in_bundle = b, in_payload = payload, in_fallback = fallback\<rparr>)))))))))))))))"

subsection \<open>What the phone runs now\<close>

record current =
  cu_boot_id :: string
  cu_selector :: bytes
  cu_record :: "bytes option"
  cu_fallback :: string
  cu_fallback_sha256 :: string

definition probe_current :: "inputs \<Rightarrow> (install_host, current) io" where
  "probe_current i =
     bind_io (write_new ''evidence'') (\<lambda>_. bind_io (write_new ''install.log'') (\<lambda>_.
     bind_io (phone_run Identity) (\<lambda>out.
     bind_io (decode_reply out) (\<lambda>shown.
     bind_io (need_install (length (text_words shown) = 2) ''running identity'') (\<lambda>_.
     bind_io (write_new ''install.log'') (\<lambda>_.
     bind_io (phone_run ReadSelector) (\<lambda>selector.
     bind_io (phone_run ProbeRecord) (\<lambda>probed.
     bind_io (decode_reply probed) (\<lambda>there.
     bind_io (if strip there = ''present'' then bind_io (phone_run ReadRecord) (\<lambda>x. ret (Some x)) else ret None) (\<lambda>old.
     bind_io (write_new ''selector.before'') (\<lambda>_.
     bind_io (if old = None then ret () else write_new ''wifi-trial-state.before'') (\<lambda>_.
     bind_io (need_install (\<not> contains (''trial_id='' @ in_trial_id i @ [LF]) (selector @ (case old of None \<Rightarrow> [] | Some x \<Rightarrow> x)))
        ''this trial id is already in use: build a fresh descriptor'') (\<lambda>_.
     bind_io (lift_result (selector_fallback selector)) (\<lambda>(name, digest).
     bind_io (need_install (in_bundle i \<noteq> name) ''refusing to replace the fallback bundle'') (\<lambda>_.
     bind_io (write_new ''install.log'') (\<lambda>_.
     ret \<lparr>cu_boot_id = hd (text_words shown), cu_selector = selector, cu_record = old, cu_fallback = name, cu_fallback_sha256 = digest\<rparr>))))))))))))))))"

definition fallback_name :: "inputs \<Rightarrow> current \<Rightarrow> string" where
  "fallback_name i cu = (case in_fallback i of None \<Rightarrow> cu_fallback cu | Some (name, _) \<Rightarrow> name)"

definition verify_both :: "(bytes \<Rightarrow> bytes) \<Rightarrow> inputs \<Rightarrow> current \<Rightarrow> (install_host, (string \<times> bytes) list) io" where
  "verify_both H i cu =
     bind_io program (\<lambda>(rc, _, _).
     bind_io (when_raise (rc \<noteq> 0) SubprocessError) (\<lambda>_.
     bind_io (case in_fallback i of
          None \<Rightarrow> bind_io (fetch_files FILES) (\<lambda>files.
            bind_io (need_install (to_hex (H (file_bytes files ''manifest'')) = cu_fallback_sha256 cu) ''fallback manifest differs from the selector'')
              (\<lambda>_. ret files))
        | Some (_, files) \<Rightarrow> bind_io (phone_run ProbeFallback) (\<lambda>out.
            bind_io (decode_reply out) (\<lambda>there.
            bind_io (need_install (strip there = ''absent'') ''the new fallback bundle already exists on p24'') (\<lambda>_. ret files)))) (\<lambda>fallback.
     bind_io (verify_bundle (fallback_name i cu) (file_bytes fallback ''manifest'')) (\<lambda>_.
     bind_io (write_new ''verified-fallback-plan.txt'') (\<lambda>_.
     bind_io (verify_bundle (in_bundle i) (file_bytes (in_payload i) ''manifest'')) (\<lambda>_.
     bind_io (write_new ''verified-plan.txt'') (\<lambda>_.
     bind_io (write_new ''install.log'') (\<lambda>_. ret fallback))))))))"

definition source_root :: "inputs \<Rightarrow> string" where
  "source_root i = ''/run/rog5-default-kernel-'' @ take 16 (in_trial_id i)"

definition script_values :: "(bytes \<Rightarrow> bytes) \<Rightarrow> install_args \<Rightarrow> inputs \<Rightarrow> current \<Rightarrow> (string \<times> bytes) list \<Rightarrow> bytes \<Rightarrow> (string \<times> string) list" where
  "script_values H a i cu fallback selector =
     (let sha = (\<lambda>data. to_hex (H data)); payload = file_bytes (in_payload i); other = file_bytes fallback in
      [(''boot_id'', cu_boot_id cu), (''bundle'', in_bundle i), (''trial_id'', in_trial_id i),
       (''payload_image'', sha (payload ''Image'')), (''payload_dtb'', sha (payload ''board.dtb'')),
       (''payload_initramfs'', sha (payload ''initramfs.cpio.gz'')), (''payload_manifest'', sha (payload ''manifest'')),
       (''payload_signature'', sha (payload ''manifest.sig'')),
       (''selector_old_sha256'', sha (cu_selector cu)), (''selector_old_size'', show_nat (length (cu_selector cu))),
       (''selector_new_sha256'', sha selector),
       (''record_old_sha256'', case cu_record cu of None \<Rightarrow> ''absent'' | Some x \<Rightarrow> sha x),
       (''record_archive'', archive_name (in_bundle i) (case cu_record cu of None \<Rightarrow> ''none'' | Some x \<Rightarrow> sha x)),
       (''fallback_bundle'', fallback_name i cu), (''fallback_install'', if in_fallback i = None then ''0'' else ''1''),
       (''fallback_image'', sha (other ''Image'')), (''fallback_dtb'', sha (other ''board.dtb'')),
       (''fallback_initramfs'', sha (other ''initramfs.cpio.gz'')), (''fallback_manifest'', sha (other ''manifest'')),
       (''fallback_signature'', sha (other ''manifest.sig'')),
       (''p24_uuid'', fst (ia_storage a)), (''p23_uuid'', fst (snd (ia_storage a))), (''p24_size'', snd (snd (ia_storage a))),
       (''root_mount'', ''/.rog5/root-ro''), (''userdata_mount'', ''/.rog5/userdata-rw''), (''source_root'', source_root i),
       (''sys_block'', ''/sys/class/block''), (''sys_power'', ''/sys/class/power_supply''), (''drop_caches'', ''/proc/sys/vm/drop_caches'')])"

subsection \<open>Preparing the write window\<close>

record plan =
  pl_selector :: bytes
  pl_script :: bytes

definition make_plan :: "(bytes \<Rightarrow> bytes) \<Rightarrow> install_args \<Rightarrow> inputs \<Rightarrow> current \<Rightarrow> (string \<times> bytes) list \<Rightarrow> (install_host, plan) io" where
  "make_plan H a i cu fallback =
     bind_io regular (\<lambda>descriptor.
     bind_io (lift_result (generate H descriptor (file_bytes (in_payload i) ''manifest'') (file_bytes fallback ''manifest'')
        (Some (fallback_name i cu)) (Some (to_hex (H (file_bytes fallback ''manifest'')))))) (\<lambda>selector.
     bind_io (write_new ''selector'') (\<lambda>_.
     bind_io (lift_result (render_script (script_values H a i cu fallback selector) (ia_script a))) (\<lambda>script.
     bind_io (write_new ''install-on-target.sh'') (\<lambda>_.
     bind_io (write_new ''values.json'') (\<lambda>_.
     ret \<lparr>pl_selector = selector, pl_script = script\<rparr>))))))"

definition inspect_phone :: "plan \<Rightarrow> (install_host, unit) io" where
  "inspect_phone p =
     bind_io (phone_ask (Inspect (pl_script p))) (\<lambda>(rc, out, err).
     bind_io (write_new ''inspect.log'') (\<lambda>_.
     bind_io (need_install (rc = 0 \<and> prefix ''PASS default kernel inspection'' out) ''inspection failed'') (\<lambda>_.
     bind_io (decode_reply out) (\<lambda>_. write_new ''install.log''))))"

fun push_all :: "(bytes \<Rightarrow> bytes) \<Rightarrow> (string \<times> bytes) list \<Rightarrow> (install_host, unit) io" where
  "push_all H [] = ret ()"
| "push_all H ((name, data) # rest) =
     bind_io (phone_run (Push name data)) (\<lambda>out.
     bind_io (decode_reply out) (\<lambda>shown.
     bind_io (when_raise (text_words shown = []) IndexError) (\<lambda>_.
     bind_io (need_install (hd (text_words shown) = to_hex (H data)) (''transfer changed '' @ name)) (\<lambda>_. push_all H rest))))"

definition transfers :: "inputs \<Rightarrow> plan \<Rightarrow> (string \<times> bytes) list" where
  "transfers i p =
     in_payload i @ [(''selector'', pl_selector p)]
     @ (case in_fallback i of None \<Rightarrow> [] | Some (_, files) \<Rightarrow> map (\<lambda>(name, data). (''fallback/'' @ name, data)) files)"

definition PREFLIGHT_PASS :: bytes where
  "PREFLIGHT_PASS = ''PASS default kernel payload preflight'' @ [LF]"

definition preflight :: "(bytes \<Rightarrow> bytes) \<Rightarrow> inputs \<Rightarrow> plan \<Rightarrow> (install_host, unit) io" where
  "preflight H i p =
     bind_io (phone_run MakeSource) (\<lambda>_.
     bind_io (if in_fallback i = None then ret [] else phone_run MakeFallback) (\<lambda>_.
     bind_io (push_all H (transfers i p)) (\<lambda>_.
     bind_io (phone_ask (Preflight (pl_script p))) (\<lambda>(rc, out, err).
     bind_io (write_new ''preflight.log'') (\<lambda>_.
     if rc \<noteq> 0 \<or> out \<noteq> PREFLIGHT_PASS
     then bind_io (phone_ask Cleanup) (\<lambda>_. raise (ValueError ''payload preflight failed''))
     else write_new ''install.log'')))))"

subsection \<open>The write window\<close>

definition STAGED :: "string \<Rightarrow> string \<Rightarrow> string \<Rightarrow> bytes" where
  "STAGED b fallback state = ''PASS default kernel '' @ b @ '' installed; fallback '' @ fallback @ '' '' @ state @ ''; p24 relocked; no boot performed'' @ [LF]"

definition stage_body :: "inputs \<Rightarrow> current \<Rightarrow> plan \<Rightarrow> (install_host, unit) io" where
  "stage_body i cu p =
     bind_io (phone_ask (Stage (pl_script p))) (\<lambda>(rc, out, err).
     bind_io (write_new ''stage.log'') (\<lambda>_.
     bind_io (need_install (rc = 0 \<and> suffix (STAGED (in_bundle i) (fallback_name i cu) (if in_fallback i = None then ''preserved'' else ''installed'')) out)
        ''stage failed; inspect the phone, never retry'') (\<lambda>_.
     bind_io (phone_run ReadSelector) (\<lambda>after.
     need_install (after = pl_selector p) ''active selector differs after staging''))))"

text \<open>\<open>except Exception\<close> with the \<open>finally\<close> that writes the report: an interrupt passes through it, a killed process writes nothing.\<close>

definition stage_once :: "inputs \<Rightarrow> current \<Rightarrow> plan \<Rightarrow> (install_host, bool) io" where
  "stage_once i cu p s =
     (case stage_body i cu p s of
        (Inr _, t) \<Rightarrow> bind_io (write_new ''INSTALL-RESULT.json'') (\<lambda>_. ret True) t
      | (Inl e, t) \<Rightarrow>
          if e = Killed then (Inl Killed, t)
          else if e = KeyboardInterrupt then bind_io (write_new ''INSTALL-RESULT.json'') (\<lambda>_. raise e) t
          else bind_io (write_new ''INSTALL-RESULT.json'') (\<lambda>_. ret False) t)"

definition write_window :: "inputs \<Rightarrow> current \<Rightarrow> plan \<Rightarrow> (install_host, unit) io" where
  "write_window i cu p =
     bind_io program (\<lambda>_.
     bind_io (write_new ''INSTALL-ENTERED.json'') (\<lambda>_.
     bind_io (stage_once i cu p) (\<lambda>passed.
     bind_io (phone_ask Cleanup) (\<lambda>_.
     bind_io (write_new ''install.log'') (\<lambda>_.
     need_install passed ''install not proven'')))))"

definition install :: "(bytes \<Rightarrow> bytes) \<Rightarrow> (bytes \<Rightarrow> bytes result) \<Rightarrow> install_args \<Rightarrow> (install_host, unit) io" where
  "install H gunzip a =
     bind_io (load_inputs H gunzip a) (\<lambda>i.
     bind_io (probe_current i) (\<lambda>cu.
     bind_io (verify_both H i cu) (\<lambda>fallback.
     bind_io (make_plan H a i cu fallback) (\<lambda>p.
     bind_io (inspect_phone p) (\<lambda>_.
     bind_io (preflight H i p) (\<lambda>_.
     if \<not> ia_stage a then bind_io (phone_run Cleanup) (\<lambda>_. write_new ''install.log'')
     else write_window i cu p))))))"

definition install_main :: "(bytes \<Rightarrow> bytes) \<Rightarrow> (bytes \<Rightarrow> bytes result) \<Rightarrow> install_args \<Rightarrow> (install_host, nat) io" where
  "install_main H gunzip a =
     try_except (bind_io (install H gunzip a) (\<lambda>_. ret 0)) (\<lambda>e. if observe_caught e then ret 1 else raise e)"

end
