(* ===== verification/Install_Window.thy ===== *)
theory Install_Window
  imports Default_Install
begin

section \<open>The write window\<close>

text \<open>
  Whatever files, programs, phone and disk do: the phone is told to write at most once in a run, only when that was asked for, and only after the
  evidence of entering is on disk, both bundles were verified, and the preflight of exactly this script passed; and a run succeeds
  only when the phone then shows the selector that was generated.
\<close>

subsection \<open>What a computation adds to the log\<close>

definition adds :: "(install_event \<Rightarrow> bool) \<Rightarrow> (install_host, 'a) io \<Rightarrow> bool" where
  "adds P m \<longleftrightarrow> (\<forall>s r t. m s = (r, t) \<longrightarrow> (\<exists>new. ih_log t = new @ ih_log s \<and> list_all P new))"

named_theorems adds_intros "computations and what they log"

lemma addsD: "adds P m \<Longrightarrow> m s = (r, t) \<Longrightarrow> \<exists>new. ih_log t = new @ ih_log s \<and> list_all P new"
  by (simp add: adds_def)

lemma adds_same: "(\<And>s. ih_log (snd (m s)) = ih_log s) \<Longrightarrow> adds P m"
  unfolding adds_def by (metis append_Nil list.pred_inject(1) snd_conv)

lemma adds_basic [adds_intros]: "adds P (ret x)" "adds P (raise e)" "adds P (when_raise b e)" "adds P (need_install b why)" "adds P (lift_result r)"
  "adds P regular" "adds P program" "adds P (decode_reply raw)"
  by (rule adds_same, auto simp: run_simps need_install_def regular_def program_def decode_reply_def bind_io_def split: list.splits)+

lemma adds_bind [adds_intros]: "adds P m \<Longrightarrow> (\<And>x. adds P (f x)) \<Longrightarrow> adds P (bind_io m f)"
proof -
  assume m: "adds P m" and f: "\<And>x. adds P (f x)"
  have "\<exists>new. ih_log t = new @ ih_log s \<and> list_all P new" if "bind_io m f s = (r, t)" for s r t
  proof -
    obtain q u where q: "m s = (q, u)" by fastforce
    from addsD [OF m q] obtain new where new: "ih_log u = new @ ih_log s" "list_all P new" by blast
    show ?thesis
    proof (cases q)
      case (Inl e)
      with that q new show ?thesis by auto
    next
      case (Inr x)
      with that q have "f x u = (r, t)" by simp
      from addsD [OF f this] new show ?thesis by (metis append.assoc list_all_append)
    qed
  qed
  then show ?thesis by (simp add: adds_def)
qed

lemma adds_if [adds_intros]: "adds P m \<Longrightarrow> adds P k \<Longrightarrow> adds P (if b then m else k)"
  by simp

lemma adds_log: "P e \<Longrightarrow> adds P (log_event e)"
  by (auto simp: adds_def log_event_def modify_def)

lemma adds_write: "P (Wrote name) \<Longrightarrow> adds P (write_new name)"
  by (auto simp: adds_def write_new_def log_event_def modify_def split: list.splits write_outcome.splits)

lemma adds_ask: "(\<And>r. P (Asked c r)) \<Longrightarrow> adds P (phone_ask c)"
  by (auto simp: adds_def phone_ask_def split: list.splits)

fun is_stage :: "install_event \<Rightarrow> bool" where
  "is_stage (Asked (Stage script) r) = True"
| "is_stage _ = False"

abbreviation calm :: "(install_host, 'a) io \<Rightarrow> bool" where
  "calm m \<equiv> adds (\<lambda>e. \<not> is_stage e) m"

lemma calm_write [adds_intros]: "calm (write_new name)" "calm (verify_bundle b m)"
proof -
  show "calm (write_new name)" by (rule adds_write) simp
  have "calm (log_event (Verified b m))" by (rule adds_log) simp
  then show "calm (verify_bundle b m)" unfolding verify_bundle_def case_prod_unfold by (intro adds_intros)
qed

lemma calm_ask: "(\<And>script. c \<noteq> Stage script) \<Longrightarrow> calm (phone_ask c)"
  by (rule adds_ask) (cases c; auto)

lemma calm_run: "(\<And>script. c \<noteq> Stage script) \<Longrightarrow> calm (phone_run c)"
  unfolding phone_run_def case_prod_unfold by (intro adds_intros calm_ask)

lemma calm_files [adds_intros]: "calm (read_files names)" "calm (fetch_files names)"
  by (induction names) (auto intro!: adds_intros calm_run)

lemma calm_ramdisk [adds_intros]: "calm (ramdisk_member gunzip archive)"
  unfolding ramdisk_member_def by (auto intro!: adds_intros split: option.splits)

lemma calm_option: "calm m \<Longrightarrow> (\<And>x. calm (f x)) \<Longrightarrow> calm (case r of None \<Rightarrow> m | Some x \<Rightarrow> f x)"
  by (cases r) simp_all

lemma calm_load: "calm (load_inputs H gunzip a)"
proof -
  have "calm (load_fallback gunzip b given)" for b given
    unfolding load_fallback_def case_prod_unfold by (intro calm_option adds_intros)
  then show ?thesis unfolding load_inputs_def case_prod_unfold by (intro adds_intros)
qed

lemma calm_probe: "calm (probe_current i)"
  unfolding probe_current_def case_prod_unfold by (intro adds_intros calm_run) simp_all

lemma calm_verify: "calm (verify_both H i cu)"
  unfolding verify_both_def case_prod_unfold by (intro adds_intros calm_option calm_run) simp_all

lemma calm_plan: "calm (make_plan H a i cu fallback)"
  unfolding make_plan_def by (intro adds_intros)

lemma calm_inspect: "calm (inspect_phone p)"
  unfolding inspect_phone_def case_prod_unfold by (intro adds_intros calm_ask) simp_all

lemma calm_push: "calm (push_all H files)"
  by (induction H files rule: push_all.induct) (auto intro!: adds_intros calm_run)

lemma calm_preflight: "calm (preflight H i p)"
  unfolding preflight_def case_prod_unfold by (intro adds_intros calm_push calm_run calm_ask) simp_all

subsection \<open>What a success has logged\<close>

text \<open>The events a successful computation has certainly logged stay in the log.\<close>

lemma stays: "adds P m \<Longrightarrow> m s = (r, t) \<Longrightarrow> e \<in> set (ih_log s) \<Longrightarrow> e \<in> set (ih_log t)"
  by (auto dest: addsD)

lemma phone_ask_logs: "phone_ask c s = (Inr x, t) \<Longrightarrow> Asked c (Inr x) \<in> set (ih_log t)"
  by (auto simp: phone_ask_def split: list.splits)

lemma phone_run_logs: "phone_run c s = (Inr out, t) \<Longrightarrow> \<exists>err. Asked c (Inr (0, out, err)) \<in> set (ih_log t)"
  by (auto simp: phone_run_def bind_io_eq_Inr run_simps need_install_def split: if_splits dest!: phone_ask_logs)

lemma verify_bundle_logs: "verify_bundle b m s = (Inr x, t) \<Longrightarrow> Verified b m \<in> set (ih_log t)"
  by (auto simp: verify_bundle_def bind_io_eq_Inr log_event_def run_simps)

lemma verify_both_logs:
  assumes "verify_both H i cu s = (Inr fallback, t)"
  shows "Verified (fallback_name i cu) (file_bytes fallback ''manifest'') \<in> set (ih_log t)"
    and "Verified (in_bundle i) (file_bytes (in_payload i) ''manifest'') \<in> set (ih_log t)"
proof -
  from assms obtain s1 s2 s3 s4 x1 x2 x3 x4 where
    one: "verify_bundle (fallback_name i cu) (file_bytes fallback ''manifest'') s1 = (Inr x1, s2)"
    and two: "write_new ''verified-fallback-plan.txt'' s2 = (Inr x2, s3)"
    and three: "verify_bundle (in_bundle i) (file_bytes (in_payload i) ''manifest'') s3 = (Inr x3, s4)"
    and four: "bind_io (write_new ''verified-plan.txt'') (\<lambda>_. write_new ''install.log'') s4 = (Inr x4, t)"
    unfolding verify_both_def case_prod_unfold by (auto simp: bind_io_eq_Inr run_simps)
  have rest: "calm (bind_io (write_new ''verified-plan.txt'') (\<lambda>_. write_new ''install.log''))" by (intro adds_intros)
  show "Verified (fallback_name i cu) (file_bytes fallback ''manifest'') \<in> set (ih_log t)"
    using stays [OF rest four] stays [OF calm_write(2) three] stays [OF calm_write(1) two] verify_bundle_logs [OF one] by blast
  show "Verified (in_bundle i) (file_bytes (in_payload i) ''manifest'') \<in> set (ih_log t)"
    using stays [OF rest four] verify_bundle_logs [OF three] by blast
qed

lemma push_all_logs:
  "push_all H files s = (Inr x, t) \<Longrightarrow> (name, data) \<in> set files \<Longrightarrow> \<exists>r. Asked (Push name data) r \<in> set (ih_log t)"
proof (induction H files arbitrary: s rule: push_all.induct)
  case (2 H name' data' rest)
  from "2.prems"(1) obtain out u v where push: "phone_run (Push name' data') s = (Inr out, u)" and more: "push_all H rest v = (Inr x, t)"
    and same: "ih_log v = ih_log u"
    by (auto simp: bind_io_eq_Inr run_simps decode_reply_def need_install_def split: if_splits)
  from phone_run_logs [OF push] same stays [OF calm_push more] have "\<exists>r. Asked (Push name' data') r \<in> set (ih_log t)" by metis
  with "2.IH" more "2.prems" show ?case by (cases "(name, data) = (name', data')") (auto simp: bind_io_eq_Inr)
qed simp

lemma preflight_logs:
  assumes "preflight H i p s = (Inr x, t)"
  shows "\<exists>err. Asked (Preflight (pl_script p)) (Inr (0, PREFLIGHT_PASS, err)) \<in> set (ih_log t)"
    and "\<exists>r. Asked (Push ''selector'' (pl_selector p)) r \<in> set (ih_log t)"
proof -
  from assms obtain s1 s2 s3 x1 rc out err x2 where push: "push_all H (transfers i p) s1 = (Inr x1, s2)"
    and pre: "phone_ask (Preflight (pl_script p)) s2 = (Inr (rc, out, err), s3)"
    and rest: "bind_io (write_new ''preflight.log'') (\<lambda>_. if rc \<noteq> 0 \<or> out \<noteq> PREFLIGHT_PASS
     then bind_io (phone_ask Cleanup) (\<lambda>_. raise (ValueError ''payload preflight failed'')) else write_new ''install.log'') s3 = (Inr x2, t)"
    unfolding preflight_def by (fastforce simp: bind_io_eq_Inr)
  then have pass: "rc = 0" "out = PREFLIGHT_PASS" by (auto simp: bind_io_eq_Inr run_simps split: if_splits)
  have "calm (bind_io (write_new ''preflight.log'') (\<lambda>_. if rc \<noteq> 0 \<or> out \<noteq> PREFLIGHT_PASS
     then bind_io (phone_ask Cleanup) (\<lambda>_. raise (ValueError ''payload preflight failed'')) else write_new ''install.log''))"
    by (intro adds_intros calm_ask) simp
  note keep = stays [OF this rest]
  show "\<exists>err. Asked (Preflight (pl_script p)) (Inr (0, PREFLIGHT_PASS, err)) \<in> set (ih_log t)"
    using keep phone_ask_logs [OF pre] pass by blast
  have "(''selector'', pl_selector p) \<in> set (transfers i p)" by (simp add: transfers_def)
  from push_all_logs [OF push this] show "\<exists>r. Asked (Push ''selector'' (pl_selector p)) r \<in> set (ih_log t)"
    using keep stays [OF calm_ask pre] by blast
qed

lemma make_plan_selector:
  "make_plan H a i cu fallback s = (Inr p, t) \<Longrightarrow>
     \<exists>d. generate H d (file_bytes (in_payload i) ''manifest'') (file_bytes fallback ''manifest'') (Some (fallback_name i cu))
           (Some (to_hex (H (file_bytes fallback ''manifest'')))) = Inr (pl_selector p)"
  by (auto simp: make_plan_def bind_io_eq_Inr run_simps)

lemma bundles_differ:
  assumes "load_inputs H gunzip a s = (Inr i, t)" and "probe_current i u = (Inr cu, v)"
  shows "in_bundle i \<noteq> fallback_name i cu"
proof -
  have given: "\<exists>name files. fallback = Some (name, files) \<and> name \<noteq> b" if "load_fallback gunzip b given s = (Inr fallback, t)" "fallback \<noteq> None"
    for b given fallback s t
    using that by (auto simp: load_fallback_def bind_io_eq_Inr run_simps need_install_def split: option.splits if_splits)
  from assms(1) have "in_fallback i \<noteq> None \<longrightarrow> (\<exists>name files. in_fallback i = Some (name, files) \<and> name \<noteq> in_bundle i)"
    unfolding load_inputs_def by (auto simp: bind_io_eq_Inr run_simps dest!: given)
  moreover from assms(2) have "in_bundle i \<noteq> cu_fallback cu"
    unfolding probe_current_def by (auto simp: bind_io_eq_Inr run_simps need_install_def split: if_splits)
  ultimately show ?thesis by (auto simp: fallback_name_def split: option.splits)
qed

subsection \<open>The window\<close>

definition told :: "inputs \<Rightarrow> current \<Rightarrow> string" where
  "told i cu = STAGED (in_bundle i) (fallback_name i cu) (if in_fallback i = None then ''preserved'' else ''installed'')"

definition window_log :: "inputs \<Rightarrow> current \<Rightarrow> plan \<Rightarrow> install_event list \<Rightarrow> bool \<Rightarrow> install_event list \<Rightarrow> bool" where
  "window_log i cu p old passed new \<longleftrightarrow> (\<exists>later reply.
     new = later @ Asked (Stage (pl_script p)) reply # old \<and> list_all (\<lambda>e. \<not> is_stage e) later
     \<and> (passed \<longrightarrow> (\<exists>out err err'. reply = Inr (0, out, err) \<and> suffix (told i cu) out \<and> Asked ReadSelector (Inr (0, pl_selector p, err')) \<in> set later)))"

lemma window_log_more:
  assumes old: "window_log i cu p old passed new" and extra: "list_all (\<lambda>e. \<not> is_stage e) extra" and weaker: "passed' \<Longrightarrow> passed"
  shows "window_log i cu p old passed' (extra @ new)"
proof -
  from old obtain later reply where "new = later @ Asked (Stage (pl_script p)) reply # old" "list_all (\<lambda>e. \<not> is_stage e) later"
    "passed \<longrightarrow> (\<exists>out err err'. reply = Inr (0, out, err) \<and> suffix (told i cu) out \<and> Asked ReadSelector (Inr (0, pl_selector p, err')) \<in> set later)"
    unfolding window_log_def by blast
  with extra weaker show ?thesis
    unfolding window_log_def by (intro exI [of _ "extra @ later"] exI [of _ reply]) auto
qed

lemma stage_body_log:
  assumes run: "stage_body i cu p s = (r, t)"
  shows "window_log i cu p (ih_log s) (r = Inr ()) (ih_log t)"
proof -
  obtain q u where q: "phone_ask (Stage (pl_script p)) s = (q, u)" by fastforce
  then have log: "ih_log u = Asked (Stage (pl_script p)) q # ih_log s" by (auto simp: phone_ask_def split: list.splits)
  show ?thesis
  proof (cases q)
    case (Inl e)
    with run q log show ?thesis by (auto simp: stage_body_def window_log_def)
  next
    case (Inr x)
    obtain rc out err where x: "x = (rc, out, err)" by (cases x)
    let ?rest = "bind_io (write_new ''stage.log'') (\<lambda>_.
       bind_io (need_install (rc = 0 \<and> suffix (told i cu) out) ''stage failed; inspect the phone, never retry'') (\<lambda>_.
       bind_io (phone_run ReadSelector) (\<lambda>after. need_install (after = pl_selector p) ''active selector differs after staging'')))"
    from run q Inr x have rest: "?rest u = (r, t)" by (simp add: stage_body_def told_def)
    have "calm ?rest" by (intro adds_intros calm_run) simp
    from addsD [OF this rest] obtain later where later: "ih_log t = later @ ih_log u" "list_all (\<lambda>e. \<not> is_stage e) later" by blast
    have "\<exists>err'. Asked ReadSelector (Inr (0, pl_selector p, err')) \<in> set later \<and> rc = 0 \<and> suffix (told i cu) out" if ok: "r = Inr ()"
    proof -
      from rest ok obtain v w y where read: "phone_run ReadSelector v = (Inr (pl_selector p), t)" and v: "write_new ''stage.log'' u = (Inr y, v)"
        and rc: "rc = 0" "suffix (told i cu) out"
        by (auto simp: bind_io_eq_Inr run_simps need_install_def split: if_splits)
      obtain err' new where new: "ih_log t = Asked ReadSelector (Inr (0, pl_selector p, err')) # ih_log v" "ih_log v = new @ ih_log u"
        using read addsD [OF calm_write(1) v]
        by (auto simp: phone_run_def phone_ask_def bind_io_eq_Inr run_simps need_install_def split: list.splits if_splits)
      then have "later = Asked ReadSelector (Inr (0, pl_selector p, err')) # new" using later by simp
      with rc show ?thesis by auto
    qed
    with later log Inr x show ?thesis unfolding window_log_def by (intro exI [of _ later] exI [of _ q]) auto
  qed
qed

lemma stage_once_log:
  assumes run: "stage_once i cu p s = (r, t)"
  shows "window_log i cu p (ih_log s) (r = Inr True) (ih_log t)"
proof -
  obtain q u where q: "stage_body i cu p s = (q, u)" by fastforce
  note body = stage_body_log [OF q]
  have after: "\<exists>new. ih_log t = new @ ih_log u \<and> list_all (\<lambda>e. \<not> is_stage e) new \<and> (r = Inr True \<longrightarrow> q = Inr ())"
  proof (cases "q = Inl Killed")
    case True
    with run q show ?thesis by (auto simp: stage_once_def)
  next
    case False
    have calm: "calm (bind_io (write_new ''INSTALL-RESULT.json'') (\<lambda>_. ret b))" "calm (bind_io (write_new ''INSTALL-RESULT.json'') (\<lambda>_. raise e))" for b :: bool and e
      by (intro adds_intros)+
    from run q False consider "q = Inr ()" "bind_io (write_new ''INSTALL-RESULT.json'') (\<lambda>_. ret True) u = (r, t)"
      | "bind_io (write_new ''INSTALL-RESULT.json'') (\<lambda>_. raise KeyboardInterrupt) u = (r, t)"
      | "bind_io (write_new ''INSTALL-RESULT.json'') (\<lambda>_. ret False) u = (r, t)"
      by (cases q) (auto simp: stage_once_def split: if_splits)
    then show ?thesis
    proof cases
      case 1
      with addsD [OF calm(1)] show ?thesis by blast
    next
      case 2
      then have "r \<noteq> Inr True" by (auto simp: bind_io_def run_simps split: sum.splits prod.splits)
      with addsD [OF calm(2) 2] show ?thesis by blast
    next
      case 3
      then have "r \<noteq> Inr True" by (auto simp: bind_io_def run_simps split: sum.splits prod.splits)
      with addsD [OF calm(1) 3] show ?thesis by blast
    qed
  qed
  then obtain new where "ih_log t = new @ ih_log u" "list_all (\<lambda>e. \<not> is_stage e) new" "r = Inr True \<longrightarrow> q = Inr ()" by blast
  with window_log_more [OF body, of new "r = Inr True"] show ?thesis by simp
qed

lemma write_window_log:
  assumes run: "write_window i cu p s = (r, t)" and stage: "\<not> list_all (\<lambda>e. \<not> is_stage e) (ih_log t)" and none: "list_all (\<lambda>e. \<not> is_stage e) (ih_log s)"
  shows "window_log i cu p (Wrote ''INSTALL-ENTERED.json'' # ih_log s) (r = Inr ()) (ih_log t)"
proof -
  obtain q u where q: "bind_io program (\<lambda>_. write_new ''INSTALL-ENTERED.json'') s = (q, u)" by fastforce
  have log: "ih_log u = (if q = Inr () then Wrote ''INSTALL-ENTERED.json'' # ih_log s else ih_log s)"
    using q by (auto simp: bind_io_def program_def write_new_def log_event_def run_simps split: list.splits sum.splits write_outcome.splits)
  let ?finish = "\<lambda>passed. bind_io (phone_ask Cleanup) (\<lambda>_. bind_io (write_new ''install.log'') (\<lambda>_. need_install passed ''install not proven''))"
  have window: "write_window i cu p s = bind_io (bind_io program (\<lambda>_. write_new ''INSTALL-ENTERED.json'')) (\<lambda>_. bind_io (stage_once i cu p) ?finish) s"
    by (simp add: write_window_def bind_io_assoc)
  show ?thesis
  proof (cases "q = Inr ()")
    case False
    then have "t = u" using run [unfolded window] q by (cases q) auto
    with False log stage none show ?thesis by simp
  next
    case True
    obtain o' v where o': "stage_once i cu p u = (o', v)" by fastforce
    note once = stage_once_log [OF o', unfolded log if_P [OF True]]
    have calm: "calm (?finish passed)" for passed by (intro adds_intros calm_ask) simp
    have "\<exists>new. ih_log t = new @ ih_log v \<and> list_all (\<lambda>e. \<not> is_stage e) new \<and> (r = Inr () \<longrightarrow> o' = Inr True)"
    proof (cases o')
      case (Inl e)
      with run [unfolded window] q True o' show ?thesis by auto
    next
      case (Inr passed)
      with run [unfolded window] q True o' have "?finish passed v = (r, t)" by simp
      moreover from this have "r = Inr () \<Longrightarrow> passed" by (auto simp: bind_io_eq_Inr need_install_def run_simps split: if_splits)
      ultimately show ?thesis using addsD [OF calm, of passed v r t] Inr by blast
    qed
    then obtain new where "ih_log t = new @ ih_log v" "list_all (\<lambda>e. \<not> is_stage e) new" "r = Inr () \<longrightarrow> o' = Inr True" by blast
    with window_log_more [OF once, of new "r = Inr ()"] show ?thesis by simp
  qed
qed

subsection \<open>The whole run\<close>

definition prepared :: "(bytes \<Rightarrow> bytes) \<Rightarrow> (bytes \<Rightarrow> bytes result) \<Rightarrow> install_args \<Rightarrow> (install_host, inputs \<times> current \<times> (string \<times> bytes) list \<times> plan) io" where
  "prepared H gunzip a =
     bind_io (load_inputs H gunzip a) (\<lambda>i. bind_io (probe_current i) (\<lambda>cu. bind_io (verify_both H i cu) (\<lambda>fallback.
     bind_io (make_plan H a i cu fallback) (\<lambda>p. bind_io (inspect_phone p) (\<lambda>_. bind_io (preflight H i p) (\<lambda>_.
     ret (i, cu, fallback, p)))))))"

lemma install_split:
  "install H gunzip a = bind_io (prepared H gunzip a) (\<lambda>(i, cu, fallback, p).
     if \<not> ia_stage a then bind_io (phone_run Cleanup) (\<lambda>_. write_new ''install.log'') else write_window i cu p)"
  by (simp add: install_def prepared_def bind_io_assoc bind_io_ret_left)

lemma calm_prepared: "calm (prepared H gunzip a)"
  unfolding prepared_def by (intro adds_intros calm_load calm_probe calm_verify calm_plan calm_inspect calm_preflight)

text \<open>The guards that a prepared run has passed, as they show in its log.\<close>

definition guarded :: "(bytes \<Rightarrow> bytes) \<Rightarrow> string \<Rightarrow> string \<Rightarrow> bytes \<Rightarrow> bytes \<Rightarrow> install_event list \<Rightarrow> bool" where
  "guarded H b f selector script log \<longleftrightarrow> b \<noteq> f
     \<and> (\<exists>d m m'. Verified b m \<in> set log \<and> Verified f m' \<in> set log \<and> generate H d m m' (Some f) (Some (to_hex (H m'))) = Inr selector)
     \<and> (\<exists>r. Asked (Push ''selector'' selector) r \<in> set log)
     \<and> (\<exists>err. Asked (Preflight script) (Inr (0, PREFLIGHT_PASS, err)) \<in> set log)"

lemma prepared_guarded:
  assumes "prepared H gunzip a s = (Inr (i, cu, fallback, p), t)"
  shows "guarded H (in_bundle i) (fallback_name i cu) (pl_selector p) (pl_script p) (ih_log t)"
proof -
  from assms obtain s1 s2 s3 s4 s5 x y where load: "load_inputs H gunzip a s = (Inr i, s1)" and probe: "probe_current i s1 = (Inr cu, s2)"
    and verify: "verify_both H i cu s2 = (Inr fallback, s3)" and plan: "make_plan H a i cu fallback s3 = (Inr p, s4)"
    and inspect: "inspect_phone p s4 = (Inr x, s5)" and pre: "preflight H i p s5 = (Inr y, t)"
    unfolding prepared_def by (auto simp: bind_io_eq_Inr run_simps)
  have keep: "e \<in> set (ih_log s3) \<Longrightarrow> e \<in> set (ih_log t)" for e
    using stays [OF calm_preflight pre] stays [OF calm_inspect inspect] stays [OF calm_plan plan] by blast
  from make_plan_selector [OF plan] verify_both_logs [OF verify] keep preflight_logs [OF pre] bundles_differ [OF load probe]
  show ?thesis unfolding guarded_def by blast
qed

text \<open>
  C12. In any run, whatever the files, the programs, the phone and the disk do: if the phone is told to write, then writing was asked for, it is told
  once, right after \<^verbatim>\<open>INSTALL-ENTERED.json\<close> is written, and before that two different bundles were verified with the trust key, the
  selector generated for them was sent, and the preflight of the same script passed. If the run then succeeds, the phone reported that
  it was done and showed the generated selector as the active one.
\<close>

theorem install_window_guarded:
  assumes run: "install H gunzip a s = (r, t)" and fresh: "ih_log s = []" and told: "Asked (Stage script) reply \<in> set (ih_log t)"
  shows "ia_stage a \<and> (\<exists>later earlier b f selector.
     ih_log t = later @ Asked (Stage script) reply # Wrote ''INSTALL-ENTERED.json'' # earlier
     \<and> list_all (\<lambda>e. \<not> is_stage e) (later @ earlier)
     \<and> guarded H b f selector script earlier
     \<and> (r = Inr () \<longrightarrow> (\<exists>state out err err'. reply = Inr (0, out, err) \<and> suffix (STAGED b f state) out
          \<and> Asked ReadSelector (Inr (0, selector, err')) \<in> set later)))"
proof -
  obtain q u where q: "prepared H gunzip a s = (q, u)" by fastforce
  from addsD [OF calm_prepared q] fresh have calm: "list_all (\<lambda>e. \<not> is_stage e) (ih_log u)" by auto
  have stage: "\<not> list_all (\<lambda>e. \<not> is_stage e) (ih_log t)" using told is_stage.simps(1) unfolding list_all_iff by blast
  show ?thesis
  proof (cases q)
    case (Inl e)
    with run q have "t = u" by (auto simp: install_split)
    with calm stage show ?thesis by simp
  next
    case (Inr x)
    obtain i cu fallback p where x: "x = (i, cu, fallback, p)" by (cases x)
    have asked: "ia_stage a"
    proof (rule ccontr)
      assume "\<not> ia_stage a"
      with run q Inr x have "bind_io (phone_run Cleanup) (\<lambda>_. write_new ''install.log'') u = (r, t)" by (simp add: install_split)
      moreover have "calm (bind_io (phone_run Cleanup) (\<lambda>_. write_new ''install.log''))" by (intro adds_intros calm_run) simp
      ultimately show False using calm stage by (auto dest: addsD)
    qed
    with run q Inr x have window: "write_window i cu p u = (r, t)" by (simp add: install_split)
    from write_window_log [OF this stage calm] obtain later reply' where
      log: "ih_log t = later @ Asked (Stage (pl_script p)) reply' # Wrote ''INSTALL-ENTERED.json'' # ih_log u" "list_all (\<lambda>e. \<not> is_stage e) later"
      and finished: "r = Inr () \<longrightarrow> (\<exists>out err err'. reply' = Inr (0, out, err) \<and> suffix (told i cu) out \<and> Asked ReadSelector (Inr (0, pl_selector p, err')) \<in> set later)"
      unfolding window_log_def by blast
    have "Asked (Stage script) reply = Asked (Stage (pl_script p)) reply'"
      using told log calm by (auto simp: list_all_iff)
    with log calm finished asked prepared_guarded [of H gunzip a s i cu fallback p u] q Inr x show ?thesis
      unfolding told_def by (intro conjI exI [of _ later] exI [of _ "ih_log u"] exI [of _ "in_bundle i"] exI [of _ "fallback_name i cu"]
          exI [of _ "pl_selector p"]) auto
  qed
qed

subsection \<open>A run that installs\<close>

definition same_digest :: "bytes \<Rightarrow> bytes" where
  "same_digest data = replicate 32 (CHR ''x'')"

definition digest_text :: string where
  "digest_text = to_hex (replicate 32 (CHR ''x''))"

definition ramdisk :: bytes where
  "ramdisk =
     ''07070100000001000081a40000000000000000000000010000000000000095000000000000000000000000000000000000002700000000''
     @ DESCRIPTOR_PATH @ replicate 4 NUL @ phone_descriptor @ replicate 3 NUL"

definition phone_observed :: "string \<Rightarrow> nat \<times> string" where
  "phone_observed name = (64, replicate 64 (CHR ''a''))"

definition phone_manifest :: "string \<Rightarrow> bytes" where
  "phone_manifest name = show_record (manifest_values (phone_configuration name) phone_observed)"

definition bundle_files :: "string \<Rightarrow> bytes list" where
  "bundle_files name = [''I'', ''D'', ramdisk, phone_manifest name, ''S'']"

definition phone_selector :: "string \<Rightarrow> string \<Rightarrow> bytes" where
  "phone_selector trial_id b = show_record (selector_fields trial_id b digest_text ''base-b'' digest_text)"

definition said :: "bytes \<Rightarrow> reply result" where
  "said out = Inr (0, out, [])"

definition obliging_host :: install_host where
  "obliging_host =
     \<lparr>ih_reads = map Inr ([phone_descriptor] @ bundle_files ''trial-a'' @ [''key'', phone_descriptor, phone_descriptor]),
      ih_programs = map said [[], [], ''bundle=base-b'' @ [LF], ''bundle=trial-a'' @ [LF], ''head''],
      ih_phone = map said ([''id release'', phone_selector (replicate 64 (CHR ''c'')) ''old-a'', ''absent''] @ bundle_files ''base-b''
        @ [''PASS default kernel inspection'', []] @ replicate 6 digest_text
        @ [PREFLIGHT_PASS, STAGED ''trial-a'' ''base-b'' ''preserved'', phone_selector (replicate 64 (CHR ''b'')) ''trial-a'', []]),
      ih_writes = [], ih_log = []\<rparr>"

definition staging_args :: install_args where
  "staging_args =
     \<lparr>ia_evidence_exists = False, ia_bundle_name = ''trial-a'', ia_bundle_listing = Inr FILES, ia_fallback = None,
      ia_trust_sha256 = digest_text, ia_stage = True, ia_storage = (''u24'', ''u23'', ''34359717888''), ia_script = Inr (''#!/bin/sh'' @ [LF] @ ''exit'')\<rparr>"

lemma hex_value_ok: "sha256_match v \<Longrightarrow> value_ok v"
  by (auto simp: sha256_match_def value_ok_def value_char_def list_all_iff char_class_defs)

lemma value_ok_size: "n < 10 ^ 100 \<Longrightarrow> value_ok (show_nat n)"
proof -
  assume "n < 10 ^ 100"
  then have "length (show_nat n) \<le> 100" by (intro length_show_nat) simp_all
  moreover have "list_all value_char (show_nat n)" using show_nat_digits by (auto simp: list_all_iff value_char_def)
  moreover have "1 \<le> length (show_nat n)" using show_nat_nonempty [of n] by (cases "show_nat n") simp_all
  ultimately show ?thesis by (simp add: value_ok_def)
qed

text \<open>The script is made whenever every value is safe to quote.\<close>

lemma render_total:
  assumes "list_all variable_ok (map fst values)" and "list_all value_ok (map snd values)" and "LF \<in> set body"
  shows "\<exists>script. render_script values (Inr body) = Inr script"
proof -
  have "\<exists>y. assignment kv = Inr y" if "kv \<in> set (sort_key fst values)" for kv
  proof -
    obtain name x where kv: "kv = (name, x)" by (cases kv)
    with that assms(1,2) have "variable_ok name" "value_ok x" by (auto simp: list_all_iff)
    then show ?thesis by (simp add: assignment_def kv)
  qed
  then obtain lines where "map_result assignment (sort_key fst values) = Inr lines" using map_result_total by blast
  with assms(3) show ?thesis by (simp add: render_script_def bind_result_def partition_at_def)
qed

definition run_inputs :: inputs where
  "run_inputs = \<lparr>in_trial_id = replicate 64 (CHR ''b''), in_bundle = ''trial-a'',
     in_payload = zip FILES (bundle_files ''trial-a''), in_fallback = None\<rparr>"

definition run_current :: current where
  "run_current = \<lparr>cu_boot_id = ''id'', cu_selector = phone_selector (replicate 64 (CHR ''c'')) ''old-a'', cu_record = None,
     cu_fallback = ''base-b'', cu_fallback_sha256 = digest_text\<rparr>"

abbreviation run_selector :: bytes where
  "run_selector \<equiv> phone_selector (replicate 64 (CHR ''b'')) ''trial-a''"

lemma run_digest: "to_hex (same_digest x) = digest_text" "length (same_digest x) = 32" "sha256_match digest_text"
  by (simp_all add: same_digest_def digest_text_def) code_simp

lemma run_texts:
  "utf8_ok ''id release''" "utf8_ok ''absent''" "utf8_ok digest_text" "utf8_ok ''PASS default kernel inspection''"
  "utf8_ok (''bundle=base-b'' @ [LF])" "utf8_ok (''bundle=trial-a'' @ [LF])"
  "text_words ''id release'' = [''id'', ''release'']" "text_words digest_text = [digest_text]" "strip ''absent'' = ''absent''"
  "contains (''bundle='' @ ''base-b'' @ [LF]) (''bundle=base-b'' @ [LF])" "contains (''bundle='' @ ''trial-a'' @ [LF]) (''bundle=trial-a'' @ [LF])"
  "\<not> contains (''trial_id='' @ replicate 64 (CHR ''b'') @ [LF]) (phone_selector (replicate 64 (CHR ''c'')) ''old-a'' @ [])"
  by code_simp+

lemma run_descriptor: "descriptor_fields phone_descriptor = Inr (replicate 64 (CHR ''b''), ''trial-a'')"
  "newc_member ramdisk DESCRIPTOR_PATH = Some (Inr (Some phone_descriptor))"
  by code_simp+

lemma run_script:
  "\<exists>script. render_script (script_values same_digest staging_args run_inputs run_current fallback run_selector) (ia_script staging_args) = Inr script"
proof -
  let ?assigned = "script_values same_digest staging_args run_inputs run_current fallback run_selector"
  have names: "list_all variable_ok (map fst ?assigned)"
    by (simp add: script_values_def Let_def variable_ok_def char_class_defs)
  have words: "list_all value_ok [''absent'', ''0'', ''/.rog5/root-ro'', ''/.rog5/userdata-rw'', ''/sys/class/block'', ''/sys/class/power_supply'',
      ''/proc/sys/vm/drop_caches'', ''u24'', ''u23'', ''34359717888'', ''trial-a'', ''base-b'', ''id'']"
    by (simp add: value_ok_def value_char_def char_class_defs)
  have paths: "value_ok (archive_name ''trial-a'' ''none'')" "value_ok (source_root run_inputs)" "value_ok (replicate 64 (CHR ''b''))" by code_simp+
  have "length digest_text = 64" by (simp add: digest_text_def)
  then have "length (cu_selector run_current) < 10 ^ 100"
    by (simp add: run_current_def phone_selector_def length_show_record selector_fields_def)
  note size' = value_ok_size [OF this]
  have "list_all value_ok (map snd ?assigned)"
    using words paths size' hex_value_ok [OF run_digest(3)]
    by (simp add: script_values_def Let_def run_digest(1) fallback_name_def) (simp add: run_inputs_def run_current_def staging_args_def hex_value_ok)
  from render_total [OF names this] show ?thesis by (simp add: staging_args_def)
qed

lemma run_observed: "observed_in_policy phone_observed"
proof -
  have "server_valid_hash (replicate 64 CHR ''a'')" by code_simp
  then show ?thesis by (simp add: observed_in_policy_def packager_artifacts_def phone_observed_def)
qed

lemma run_installable: "installable (phone_configuration ''trial-a'')" "installable (phone_configuration ''base-b'')"
proof -
  have "validate_configuration (phone_configuration ''trial-a'') = Inr ()" "validate_configuration (phone_configuration ''base-b'') = Inr ()"
    by code_simp+
  then show "installable (phone_configuration ''trial-a'')" "installable (phone_configuration ''base-b'')"
    by (simp_all add: installable_def phone_configuration_def)
qed

lemma run_generated:
  "generate same_digest phone_descriptor (phone_manifest ''trial-a'') (phone_manifest ''base-b'') (Some ''base-b'') (Some digest_text) = Inr run_selector"
proof -
  have names: "cfg_bundle (phone_configuration name) = name" for name by (simp add: phone_configuration_def)
  have m: "manifest_bytes (phone_configuration name) phone_observed = Inr (phone_manifest name)" if "installable (phone_configuration name)" for name
    using that manifest_bytes_eq [OF _ run_observed] by (simp add: installable_def phone_manifest_def)
  from generate_packaged [OF run_installable run_observed run_observed m [OF run_installable(1)] m [OF run_installable(2)], of phone_descriptor _ same_digest]
    run_descriptor(1) show ?thesis
    by (simp add: names run_digest phone_selector_def)
qed

lemma run_fallback: "selector_fallback (phone_selector (replicate 64 (CHR ''c'')) ''old-a'') = Inr (''base-b'', digest_text)"
proof -
  have "sha256_match (replicate 64 (CHR ''c''))" "bundle_id_match ''old-a''" "bundle_id_match ''base-b''" "\<not> contains ''..'' ''base-b''" by code_simp+
  then show ?thesis unfolding phone_selector_def using run_digest(3) by (intro selector_fallback_fields)
qed

lemmas run_parts = bind_io_def run_simps need_install_def phone_run_def phone_ask_def regular_def program_def decode_reply_def log_event_def write_new_def said_def
  run_digest run_texts [simplified append_Cons append_Nil append_Nil2]

declare utf8_ok.simps [simp del] contains.simps [simp del]

lemma run_load:
  "load_inputs same_digest Inr staging_args obliging_host
     = (Inr run_inputs, obliging_host\<lparr>ih_reads := [Inr phone_descriptor], ih_programs := tl (ih_programs obliging_host)\<rparr>)"
  by (simp add: load_inputs_def load_fallback_def staging_args_def obliging_host_def bundle_files_def FILES_def ramdisk_member_def file_bytes_def
      run_parts run_descriptor run_inputs_def)

text \<open>What is left of the phone's replies and of the programs after each phase, and a script of the phone as the run makes it.\<close>

definition run_replies :: "bytes list" where
  "run_replies = [''PASS default kernel inspection'', []] @ replicate 6 digest_text
     @ [PREFLIGHT_PASS, STAGED ''trial-a'' ''base-b'' ''preserved'', run_selector, []]"

lemma run_probe:
  "ih_phone s = map said ([''id release'', phone_selector (replicate 64 (CHR ''c'')) ''old-a'', ''absent''] @ rest) \<Longrightarrow> ih_writes s = []
     \<Longrightarrow> \<exists>L. probe_current run_inputs s = (Inr run_current, s\<lparr>ih_phone := map said rest, ih_log := L\<rparr>)"
  by (simp add: probe_current_def run_parts run_fallback run_inputs_def run_current_def) (rule exI, rule refl)

lemma run_verify:
  "ih_phone s = map said (bundle_files ''base-b'' @ rest) \<Longrightarrow> ih_writes s = []
     \<Longrightarrow> ih_programs s = map said [[], ''bundle=base-b'' @ [LF], ''bundle=trial-a'' @ [LF], ''head'']
     \<Longrightarrow> \<exists>L. verify_both same_digest run_inputs run_current s
           = (Inr (zip FILES (bundle_files ''base-b'')), s\<lparr>ih_phone := map said rest, ih_programs := [said ''head''], ih_log := L\<rparr>)"
  by (simp add: verify_both_def verify_bundle_def fallback_name_def FILES_def file_bytes_def run_parts run_inputs_def run_current_def bundle_files_def)
    (rule exI, rule refl)

lemma run_plan:
  "ih_reads s = [Inr phone_descriptor] \<Longrightarrow> ih_writes s = []
     \<Longrightarrow> \<exists>script L. make_plan same_digest staging_args run_inputs run_current (zip FILES (bundle_files ''base-b'')) s
           = (Inr \<lparr>pl_selector = run_selector, pl_script = script\<rparr>, s\<lparr>ih_reads := [], ih_log := L\<rparr>)"
proof -
  obtain script where "render_script (script_values same_digest staging_args run_inputs run_current (zip FILES (bundle_files ''base-b'')) run_selector) (ia_script staging_args)
      = Inr script" using run_script by blast
  moreover have "file_bytes (in_payload run_inputs) ''manifest'' = phone_manifest ''trial-a''" "fallback_name run_inputs run_current = ''base-b''"
    "file_bytes (zip FILES (bundle_files ''base-b'')) ''manifest'' = phone_manifest ''base-b''"
    by (simp_all add: file_bytes_def run_inputs_def run_current_def fallback_name_def FILES_def bundle_files_def)
  moreover assume "ih_reads s = [Inr phone_descriptor]" "ih_writes s = []"
  ultimately show ?thesis
    by (intro exI [of _ script]) (simp add: make_plan_def run_generated run_parts, rule exI, rule refl)
qed

lemma run_window:
  assumes "ih_phone s = map said run_replies" and "ih_writes s = []" "ih_programs s = [said ''head'']" and p: "p = \<lparr>pl_selector = run_selector, pl_script = script\<rparr>"
  shows "\<exists>t reply. bind_io (inspect_phone p) (\<lambda>_. bind_io (preflight same_digest run_inputs p) (\<lambda>_. write_window run_inputs run_current p)) s = (Inr (), t)
     \<and> Asked (Stage script) reply \<in> set (ih_log t)"
  using assms
  by (simp add: inspect_phone_def preflight_def transfers_def write_window_def stage_once_def stage_body_def fallback_name_def run_parts
      run_replies_def run_inputs_def run_current_def FILES_def bundle_files_def numeral_eq_Suc) blast

lemma obliging_run: "\<exists>t script reply. install same_digest Inr staging_args obliging_host = (Inr (), t) \<and> Asked (Stage script) reply \<in> set (ih_log t)"
proof -
  define s1 where "s1 = obliging_host\<lparr>ih_reads := [Inr phone_descriptor], ih_programs := tl (ih_programs obliging_host)\<rparr>"
  have phone: "ih_phone s1 = map said ([''id release'', phone_selector (replicate 64 (CHR ''c'')) ''old-a'', ''absent''] @ bundle_files ''base-b'' @ run_replies)"
    and other: "ih_writes s1 = []" "ih_programs s1 = map said [[], ''bundle=base-b'' @ [LF], ''bundle=trial-a'' @ [LF], ''head'']" "ih_reads s1 = [Inr phone_descriptor]"
    by (simp_all add: s1_def obliging_host_def run_replies_def)
  obtain n1 where two: "probe_current run_inputs s1 = (Inr run_current, s1\<lparr>ih_phone := map said (bundle_files ''base-b'' @ run_replies), ih_log := n1\<rparr>)"
    (is "_ = (_, ?s2)") using run_probe [OF phone other(1)] by blast
  have phone2: "ih_phone ?s2 = map said (bundle_files ''base-b'' @ run_replies)" and w2: "ih_writes ?s2 = []"
    and p2: "ih_programs ?s2 = map said [[], ''bundle=base-b'' @ [LF], ''bundle=trial-a'' @ [LF], ''head'']" using other by simp_all
  obtain n2 where three: "verify_both same_digest run_inputs run_current ?s2 = (Inr (zip FILES (bundle_files ''base-b'')),
      ?s2\<lparr>ih_phone := map said run_replies, ih_programs := [said ''head''], ih_log := n2\<rparr>)"
    (is "_ = (_, ?s3)") using run_verify [OF phone2 w2 p2] by blast
  have r3: "ih_reads ?s3 = [Inr phone_descriptor]" and w3: "ih_writes ?s3 = []" using other by simp_all
  obtain script n3 where four: "make_plan same_digest staging_args run_inputs run_current (zip FILES (bundle_files ''base-b'')) ?s3
      = (Inr \<lparr>pl_selector = run_selector, pl_script = script\<rparr>, ?s3\<lparr>ih_reads := [], ih_log := n3\<rparr>)"
    (is "_ = (_, ?s4)") using run_plan [OF r3 w3] by blast
  have "ih_phone ?s4 = map said run_replies" "ih_writes ?s4 = []" "ih_programs ?s4 = [said ''head'']" using other by simp_all
  from run_window [OF this refl, of script] obtain t reply where
    "bind_io (inspect_phone \<lparr>pl_selector = run_selector, pl_script = script\<rparr>) (\<lambda>_. bind_io (preflight same_digest run_inputs
        \<lparr>pl_selector = run_selector, pl_script = script\<rparr>) (\<lambda>_. write_window run_inputs run_current \<lparr>pl_selector = run_selector, pl_script = script\<rparr>)) ?s4
      = (Inr (), t)" "Asked (Stage script) reply \<in> set (ih_log t)" by blast
  moreover have "ia_stage staging_args" by (simp add: staging_args_def)
  ultimately show ?thesis
    using run_load [folded s1_def] two three four by (intro exI [of _ t]) (auto simp: install_def)
qed

theorem install_window_guarded_witness:
  "\<exists>t script reply later earlier b f selector. install same_digest Inr staging_args obliging_host = (Inr (), t)
     \<and> ih_log t = later @ Asked (Stage script) reply # Wrote ''INSTALL-ENTERED.json'' # earlier
     \<and> guarded same_digest b f selector script earlier"
proof -
  obtain t script reply where run: "install same_digest Inr staging_args obliging_host = (Inr (), t)" and told: "Asked (Stage script) reply \<in> set (ih_log t)"
    using obliging_run by blast
  have "ih_log obliging_host = []" by (simp add: obliging_host_def)
  from install_window_guarded [OF run this told] run show ?thesis by blast
qed

end
