(* ===== verification/Spec2Isabelle.thy ===== *)
theory Spec2Isabelle
  imports Server_Transfer Manifest_Agreement Recovery_Dtb Bundle_Registry Backup_Verify Bundle_Handover Cpu_Policy Test_Tier Persistent_Seal
    Trial_Claim Trial_Observation Trial_Stages Newc_Roundtrip Install_Window
begin

text \<open>
  \<^bold>\<open>The program.\<close> The repository keeps a Linux port of a phone bootable. Its own Python core builds, registers,
  packages and serves boot bundles, checks device trees, takes and rehearses a backup of the phone's storage, keeps
  the processor's frequency policies within limits, seals root file systems, boots a wrapper once from memory and watches
  the phone, installs the default kernel, and selects the tests of a change. The components meet in data: the
  packager (\<^verbatim>\<open>scripts/host/prepare-recovery-runtime-bundle.py\<close>) publishes a directory that the server
  (\<^verbatim>\<open>tools/recovery_control/host_bundle_server.py\<close>) checks and sends to the phone's recovery; the inventory collector
  (\<^verbatim>\<open>scripts/device/collect-readonly-storage-inventory.py\<close>) writes the JSON that the backup
  (\<^verbatim>\<open>scripts/host/backup-readonly-storage-inventory.py\<close>) plans from and the verifier
  (\<^verbatim>\<open>scripts/host/verify-readonly-storage-backup.py\<close>) rehearses; the boot policy
  (\<^verbatim>\<open>scripts/device/headless-cpu-policy.py\<close>) runs the transaction of \<^verbatim>\<open>scripts/device/cpu-frequency-cap.py\<close>.

  \<^bold>\<open>Foundations.\<close>
  \<^item> \<open>Rog5_Prelude\<close>: exceptions, pure results, computations that pass a state and may raise (what was done before
    a raise stays done), \<open>try_finally\<close>, \<open>try_except\<close>, and invariants a computation keeps (\<open>keeps\<close>).
  \<^item> \<open>Py_Text\<close>, \<open>Py_Unicode\<close>, \<open>Py_Json\<close>, \<open>Py_Hex\<close>: the text, byte, quoting, JSON and hexadecimal operations the scripts call, with the
    round trips the codecs need. A Python \<open>str\<close> is its UTF-8 encoding.

  \<^bold>\<open>Bundles.\<close>
  \<^item> \<open>Server_Manifest\<close>: predicates, the \<open>name=value\<close> record codec (the locale \<open>record_format\<close>, interpreted on
    manifest, request and response) and \<open>validate_manifest\<close>.
  \<^item> \<open>Packager_Config\<close>: the packager's configuration and \<open>manifest_bytes\<close>; \<open>Manifest_Agreement\<close>: the server's verdict
    on every manifest the packager writes.
  \<^item> \<open>Packager\<close>: opening, staging, signing, sealing, publishing and cleaning up; \<open>Bundle_Publication\<close>: atomicity and exact
    copies for every script of outcomes; \<open>Packager_Run\<close>: an undisturbed run publishes.
  \<^item> \<open>Server_Prepare\<close>: the checks before serving; \<open>Server_Verdict\<close>: they implement an abstract verdict;
    \<open>Server_Transfer\<close>: the protocol, the listener and its limits; \<open>Bundle_Handover\<close>: what the packager published is
    what a client decodes.
  \<^item> \<open>Bundle_Registry\<close> (\<^verbatim>\<open>scripts/host/rog5-bundle-registry.py\<close>): names, validation, requirements along base chains (the locale
    \<open>chain_collector\<close>), kernel checks, edits, the locked save and the page.
  \<^item> \<open>Recovery_Dtb\<close> (\<^verbatim>\<open>scripts/device/verify-recovery-dtb-delta.py\<close>): the parser and the exact meaning of an accepted difference.

  \<^bold>\<open>Storage.\<close>
  \<^item> \<open>Gpt_Inventory\<close>, \<open>Storage_Inventory\<close>: the GPT parser, sysfs, probes and the inventory.
  \<^item> \<open>Storage_Plan\<close>: what is copied; \<open>Storage_Backup\<close>: streams, manifests, resuming; \<open>Backup_Resume\<close>: what a run and an
    interruption leave (the locale \<open>copy_loop\<close>, interpreted on the GPT and the partition loop); \<open>Backup_Verify\<close>: the rehearsal.

  \<^bold>\<open>Processor and tests.\<close>
  \<^item> \<open>Cpu_Cap\<close>: the transaction, the lease and the sysfs access; \<open>Cpu_Transaction\<close>: the caps are undone or the failure is
    reported, alarm and handlers are put back; \<open>Cpu_Quiet\<close>: an undisturbed lease succeeds, except above 3 GHz;
    \<open>Cpu_Policy\<close>: the boot policy's checks and that it is never half applied in silence.
  \<^item> \<open>Test_Tier\<close> (\<^verbatim>\<open>scripts/host/select-repository-test-tier.py\<close>): the tier of a change and the development decision.

  \<^bold>\<open>Root file systems and trials.\<close>
  \<^item> \<open>Persistent_Root\<close> (\<^verbatim>\<open>scripts/host/persistent-root-tool.py\<close>): archive inspection, the tree walk, the hashed stream, seals and the
    commands; \<open>Persistent_Seal\<close>: a seal verifies exactly the sealed tree, and which archives are accepted.
  \<^item> \<open>Ram_Trial\<close> (\<^verbatim>\<open>scripts/host/production-ram-trial.py\<close>): port, fastboot identity, sealed snapshot, one-use claim, boot, waits,
    observation and commands, over a host that may lose its power; \<open>Trial_Stages\<close>: the receiver of stage records and its log;
    \<open>Trial_Claim\<close>: no wrapper is sent twice over any history of runs, kills and power losses, and the gap a
    missing parent directory leaves; \<open>Trial_Observation\<close>: the observation ends within its time and prompts once.

  \<^bold>\<open>The default kernel.\<close>
  \<^item> \<open>Newc_Archive\<close> (\<^verbatim>\<open>scripts/device/build-native-wifi-boot-initramfs.py\<close>): reading, editing and writing the archives of
    an initramfs, and the installer's reader of one member; \<open>Newc_Roundtrip\<close>: an edited archive reads back as edited, and
    the archive on which the installer's reader never returns.
  \<^item> \<open>Boot_Selector\<close> (\<^verbatim>\<open>scripts/host/build-persistent-wifi-selector.py\<close>): trial descriptors, manifests and the generated selector;
    \<open>Selector_Agreement\<close>: what the packager publishes for the phone is selected, and the installer reads the same fallback back.
  \<^item> \<open>Default_Install\<close> (\<^verbatim>\<open>scripts/host/install-default-kernel.py\<close>): the whole run; \<open>Install_Window\<close>: the phone is told to write at
    most once, after every guard, and success means the generated selector is active.

  \<^bold>\<open>How the world is modelled.\<close> State is a record per component, and every call that meets the world (a system call, a socket, SSH,
  a sysfs attribute) takes the next element of a script in that record: it succeeds, fails, transfers less, takes time, comes after another
  process has changed something, or is where the process dies or the host loses power. Theorems quantify over all scripts; an
  empty script is an undisturbed run, and the liveness theorems are about those. SHA-256, \<^verbatim>\<open>openssl\<close>, \<^verbatim>\<open>blkid\<close>, \<^verbatim>\<open>git\<close>,
  \<^verbatim>\<open>ssh\<close> and \<^verbatim>\<open>fastboot\<close> are parameters or replies; CRC-32 is computed. Clocks count nanoseconds and go forward only in calls.

  \<^bold>\<open>Bounds.\<close> No definition uses fuel. The installer's archive reader may not end, so it is a partial function whose
  value is then \<open>None\<close>; every other loop is shown to end. Loops that wait have a deadline and their measure is the time left; loops over scripts
  and buffers have the length of what is left as measure. Sizes the code bounds (65536-byte attributes, 4096-byte records,
  the DTB and GPT limits, eight rejected peers, 720-second leases) are in the definitions as the code has them.

  \<^bold>\<open>Not modelled.\<close> The shell scripts, C tools, kernel patches and device trees; the tests; argument parsing and the text of
  progress messages; the composition of the initramfs and the builders of kernel and module images, which run external tools over
  generated files; the benches, probes and graphical tools, which are measurements on hardware; floating-point numbers. Further
  Python programs of the host side (\<^verbatim>\<open>package-production-ram-trial.py\<close>, \<^verbatim>\<open>rog5-make-bundle.py\<close>) drive the modelled parts over SSH and external tools.
\<close>

end
